(* ===== verification/Prelude.thy ===== *)
theory Prelude
  imports Main "HOL-Library.Word"
begin

text \<open>
  Shared vocabulary of the development: the outcome of C code that may abort or break a rule of
  the language (a sum with a \<^verbatim>\<open>fault\<close> on the left), C strings and character buffers whose
  writes are checked against the bounds of the allocation, bounded \<^verbatim>\<open>snprintf\<close>, decimal
  printing, and the generic lemmas the component theories use.
\<close>

section \<open>Outcomes\<close>

text \<open>
  The ways an execution stops early. \<^verbatim>\<open>AssertFailed\<close> and \<^verbatim>\<open>Panicked\<close> are the program's own
  ASSERT and panic calls, which abort the process. The next six are undefined behaviour of C, which
  the model reports instead of guessing a value. \<^verbatim>\<open>OutOfFuel\<close> is not an outcome of the program:
  it marks that the bound on nested template rendering given to the model was too small.
\<close>

datatype fault =
    AssertFailed
  | Panicked
  | NullDeref
  | OutOfBounds
  | Uninitialised
  | DoubleFree
  | UseAfterFree
  | IntOverflow
  | OutOfFuel

type_synonym 'a res = "fault + 'a"

definition rbind :: "'e + 'a \<Rightarrow> ('a \<Rightarrow> 'e + 'b) \<Rightarrow> 'e + 'b" where
  "rbind m f = (case m of Inl e \<Rightarrow> Inl e | Inr x \<Rightarrow> f x)"

definition assert_that :: "bool \<Rightarrow> unit res" where
  "assert_that b = (if b then Inr () else Inl AssertFailed)"

lemma rbind_Inl [simp]: "rbind (Inl e) f = Inl e"
  by (simp add: rbind_def)

lemma rbind_Inr [simp]: "rbind (Inr x) f = f x"
  by (simp add: rbind_def)

lemma rbind_eq_Inr: "rbind m f = Inr y \<longleftrightarrow> (\<exists>x. m = Inr x \<and> f x = Inr y)"
  by (cases m) auto

lemma rbind_eq_Inl: "rbind m f = Inl e \<longleftrightarrow> m = Inl e \<or> (\<exists>x. m = Inr x \<and> f x = Inl e)"
  by (cases m) auto

lemma rbind_assoc: "rbind (rbind m f) g = rbind m (\<lambda>x. rbind (f x) g)"
  by (cases m) auto

lemma rbind_cong [fundef_cong]:
  "m = m' \<Longrightarrow> (\<And>x. m' = Inr x \<Longrightarrow> f x = f' x) \<Longrightarrow> rbind m f = rbind m' f'"
  by (cases m') auto

lemma assert_that_True [simp]: "assert_that True = Inr ()"
  by (simp add: assert_that_def)

lemma assert_that_False [simp]: "assert_that False = Inl AssertFailed"
  by (simp add: assert_that_def)

lemma assert_that_eq_Inr [simp]: "assert_that b = Inr u \<longleftrightarrow> b"
  by (simp add: assert_that_def)

section \<open>Machine integers\<close>

type_synonym u16 = "16 word"
type_synonym u32 = "32 word"
type_synonym u64 = "64 word"

abbreviation INT_MAX :: int where
  "INT_MAX \<equiv> 2147483647"

abbreviation INT_MIN :: int where
  "INT_MIN \<equiv> - 2147483648"

text \<open>Signed 32-bit addition; a result outside the type is undefined behaviour in C.\<close>

definition int_add :: "int \<Rightarrow> int \<Rightarrow> int res" where
  "int_add a b = (if INT_MIN \<le> a + b \<and> a + b \<le> INT_MAX then Inr (a + b) else Inl IntOverflow)"

lemma int_add_ok [simp]: "INT_MIN \<le> a + b \<Longrightarrow> a + b \<le> INT_MAX \<Longrightarrow> int_add a b = Inr (a + b)"
  by (simp add: int_add_def)

lemma sint_of_nat32: "int n \<le> INT_MAX \<Longrightarrow> sint (of_nat n :: u32) = int n"
  by (simp add: signed_of_nat signed_take_bit_int_eq_self)

lemma uint_of_int64: "0 \<le> i \<Longrightarrow> i < 2 ^ 64 \<Longrightarrow> uint (word_of_int i :: u64) = i"
  by (simp add: unsigned_of_int take_bit_int_eq_self)

section \<open>C strings and buffers\<close>

text \<open>
  A C string is the list of its bytes before the terminating NUL, so it holds no NUL itself. A
  character buffer is a list of cells, \<^verbatim>\<open>None\<close> while a cell has not been written; the length of
  the list is the size of the allocation and a write past it is \<^verbatim>\<open>OutOfBounds\<close>.
\<close>

abbreviation NUL :: char where
  "NUL \<equiv> CHR 0x00"

definition cstring :: "string \<Rightarrow> bool" where
  "cstring s \<longleftrightarrow> NUL \<notin> set s"

type_synonym buf = "char option list"

definition buf_alloc :: "nat \<Rightarrow> buf" where
  "buf_alloc n = replicate n None"

definition put_char :: "buf \<Rightarrow> nat \<Rightarrow> char \<Rightarrow> buf res" where
  "put_char b i c = (if i < length b then Inr (b[i := Some c]) else Inl OutOfBounds)"

fun put_chars :: "buf \<Rightarrow> nat \<Rightarrow> string \<Rightarrow> buf res" where
  "put_chars b i [] = Inr b"
| "put_chars b i (c # cs) = rbind (put_char b i c) (\<lambda>b'. put_chars b' (Suc i) cs)"

definition c_strcpy :: "buf \<Rightarrow> nat \<Rightarrow> string \<Rightarrow> buf res" where
  "c_strcpy b i s = put_chars b i (s @ [NUL])"

text \<open>Reading a buffer back as a C string: up to the first NUL, every cell written.\<close>

fun read_cstr :: "buf \<Rightarrow> string res" where
  "read_cstr [] = Inl OutOfBounds"
| "read_cstr (None # b) = Inl OutOfBounds"
| "read_cstr (Some c # b) = (if c = NUL then Inr [] else rbind (read_cstr b) (\<lambda>s. Inr (c # s)))"

text \<open>What \<^verbatim>\<open>snprintf(buf, size, ...)\<close> leaves in the buffer when the formatted text is \<open>s\<close>.\<close>

definition c_snprintf :: "nat \<Rightarrow> string \<Rightarrow> string" where
  "c_snprintf sz s = take (sz - 1) s"

definition FILENAME_MAX :: nat where
  "FILENAME_MAX = 4096"

lemma c_snprintf_fits: "length s < sz \<Longrightarrow> c_snprintf sz s = s"
  by (simp add: c_snprintf_def)

lemma cstring_Nil [simp]: "cstring []"
  by (simp add: cstring_def)

lemma cstring_Cons [simp]: "cstring (c # s) \<longleftrightarrow> c \<noteq> NUL \<and> cstring s"
  by (auto simp: cstring_def)

lemma cstring_append [simp]: "cstring (s @ t) \<longleftrightarrow> cstring s \<and> cstring t"
  by (auto simp: cstring_def)

lemma length_buf_alloc [simp]: "length (buf_alloc n) = n"
  by (simp add: buf_alloc_def)

lemma put_chars_ok:
  "i + length s \<le> length b \<Longrightarrow>
   put_chars b i s = Inr (take i b @ map Some s @ drop (i + length s) b)"
proof (induction s arbitrary: b i)
  case Nil
  then show ?case by simp
next
  case (Cons c cs)
  then have i: "i < length b" by simp
  have tk: "take (Suc i) (b[i := Some c]) = take i b @ [Some c]"
    using i by (simp add: take_Suc_conv_app_nth)
  have "put_chars (b[i := Some c]) (Suc i) cs
      = Inr (take (Suc i) (b[i := Some c]) @ map Some cs @ drop (Suc i + length cs) (b[i := Some c]))"
    using Cons.prems by (intro Cons.IH) simp
  with i tk show ?case by (simp add: put_char_def)
qed

lemma put_chars_overrun: "length b < i + length s \<Longrightarrow> i \<le> length b \<Longrightarrow> put_chars b i s = Inl OutOfBounds"
proof (induction s arbitrary: b i)
  case Nil
  then show ?case by simp
next
  case (Cons c cs)
  show ?case
  proof (cases "i < length b")
    case True
    with Cons.prems have "put_chars (b[i := Some c]) (Suc i) cs = Inl OutOfBounds"
      by (intro Cons.IH) simp_all
    with True show ?thesis by (simp add: put_char_def)
  next
    case False
    then show ?thesis by (simp add: put_char_def)
  qed
qed

lemma read_cstr_written: "cstring s \<Longrightarrow> read_cstr (map Some s @ Some NUL # b) = Inr s"
  by (induction s) auto

section \<open>Decimal printing\<close>

text \<open>The digits printed by \<^verbatim>\<open>%u\<close>, \<^verbatim>\<open>%d\<close> and \<^verbatim>\<open>%llu\<close>.\<close>

definition digit_char :: "nat \<Rightarrow> char" where
  "digit_char d = char_of (48 + d)"

fun dec_of_nat :: "nat \<Rightarrow> string" where
  "dec_of_nat n = (if n < 10 then [digit_char n] else dec_of_nat (n div 10) @ [digit_char (n mod 10)])"

declare dec_of_nat.simps [simp del]

definition dec_of_int :: "int \<Rightarrow> string" where
  "dec_of_int i = (if i < 0 then CHR ''-'' # dec_of_nat (nat (- i)) else dec_of_nat (nat i))"

definition digit_val :: "char \<Rightarrow> nat" where
  "digit_val c = of_char c - 48"

definition nat_of_dec :: "string \<Rightarrow> nat" where
  "nat_of_dec s = foldl (\<lambda>n c. 10 * n + digit_val c) 0 s"

lemma digit_val_char [simp]: "d < 10 \<Longrightarrow> digit_val (digit_char d) = d"
  by (simp add: digit_val_def digit_char_def)

lemma nat_of_dec_snoc: "nat_of_dec (s @ [c]) = 10 * nat_of_dec s + digit_val c"
  by (simp add: nat_of_dec_def)

lemma nat_of_dec_of_nat: "nat_of_dec (dec_of_nat n) = n"
proof (induction n rule: dec_of_nat.induct)
  case (1 n)
  show ?case
  proof (cases "n < 10")
    case True
    then show ?thesis by (simp add: dec_of_nat.simps nat_of_dec_def)
  next
    case False
    with 1 have "nat_of_dec (dec_of_nat (n div 10)) = n div 10" by simp
    with False show ?thesis
      by (subst dec_of_nat.simps) (simp add: nat_of_dec_snoc)
  qed
qed

lemma dec_of_nat_inj: "dec_of_nat m = dec_of_nat n \<Longrightarrow> m = n"
  by (metis nat_of_dec_of_nat)

definition is_digit :: "char \<Rightarrow> bool" where
  "is_digit c \<longleftrightarrow> 48 \<le> (of_char c :: nat) \<and> (of_char c :: nat) \<le> 57"

end
