(* ===== verification/Utils.thy ===== *)
theory Utils
  imports Prelude
begin

unbundle bit_operations_syntax

text \<open>
  The helpers of \<^verbatim>\<open>utils.c\<close> and \<^verbatim>\<open>utils.h\<close>: the path check \<^verbatim>\<open>hasdotdot\<close>, the string
  concatenation \<^verbatim>\<open>concat5\<close> that consumes its arguments, and \<^verbatim>\<open>xstrdup\<close>. The concatenation is
  modelled on an explicit heap, because its arguments may be the same pointer and each block has to
  be freed exactly once.
\<close>

section \<open>Paths: hasdotdot\<close>

datatype hdd_state = HDD_START | HDD_1DOT | HDD_2DOT | HDD_OK

fun hasdotdot_loop :: "hdd_state \<Rightarrow> string \<Rightarrow> bool" where
  "hasdotdot_loop st [] = (st = HDD_2DOT)"
| "hasdotdot_loop st (c # path) =
     (if c = CHR ''.'' then
        hasdotdot_loop
          (if st = HDD_START then HDD_1DOT else if st = HDD_1DOT then HDD_2DOT else HDD_OK) path
      else if c = CHR ''/'' then
        (if st = HDD_2DOT then True else hasdotdot_loop HDD_START path)
      else hasdotdot_loop HDD_OK path)"

definition hasdotdot :: "string \<Rightarrow> bool" where
  "hasdotdot path = hasdotdot_loop HDD_START path"

text \<open>The specification: the components of a path are the strings between its slashes.\<close>

fun components :: "string \<Rightarrow> string list" where
  "components [] = [[]]"
| "components (c # s) =
     (if c = CHR ''/'' then [] # components s
      else (c # hd (components s)) # tl (components s))"

fun hdd_of :: "string \<Rightarrow> hdd_state" where
  "hdd_of [] = HDD_START"
| "hdd_of [c] = (if c = CHR ''.'' then HDD_1DOT else HDD_OK)"
| "hdd_of [c, d] = (if c = CHR ''.'' \<and> d = CHR ''.'' then HDD_2DOT else HDD_OK)"
| "hdd_of _ = HDD_OK"

lemma components_nonempty [simp]: "components s \<noteq> []"
  by (induction s) auto

lemma hdd_of_2dot: "hdd_of pre = HDD_2DOT \<longleftrightarrow> pre = ''..''"
  by (cases pre rule: hdd_of.cases) auto

lemma hdd_of_dot:
  "hdd_of (pre @ ''.'') =
     (if hdd_of pre = HDD_START then HDD_1DOT
      else if hdd_of pre = HDD_1DOT then HDD_2DOT else HDD_OK)"
  by (cases pre rule: hdd_of.cases) auto

lemma hdd_of_other: "c \<noteq> CHR ''.'' \<Longrightarrow> hdd_of (pre @ [c]) = HDD_OK"
  by (cases pre rule: hdd_of.cases) auto

text \<open>The state of the automaton is a summary of the component read so far.\<close>

lemma hasdotdot_loop_components:
  "hasdotdot_loop (hdd_of pre) s
     \<longleftrightarrow> pre @ hd (components s) = ''..'' \<or> ''..'' \<in> set (tl (components s))"
proof (induction s arbitrary: pre)
  case Nil
  show ?case by (simp add: hdd_of_2dot)
next
  case (Cons c s)
  have split: "(x \<in> set (components s)) = (x = hd (components s) \<or> x \<in> set (tl (components s)))" for x
    using components_nonempty[of s] by (cases "components s") auto
  consider "c = CHR ''.''" | "c = CHR ''/''" | "c \<noteq> CHR ''.''" "c \<noteq> CHR ''/''" by blast
  then show ?case
  proof cases
    case 1
    then show ?thesis using Cons.IH[of "pre @ ''.''"] by (simp add: hdd_of_dot)
  next
    case 2
    then show ?thesis using Cons.IH[of "[]"] split[of "''..''"] by (auto simp: hdd_of_2dot)
  next
    case 3
    then show ?thesis using Cons.IH[of "pre @ [c]"] by (simp add: hdd_of_other)
  qed
qed

section \<open>A heap of C strings\<close>

text \<open>
  \<^verbatim>\<open>cells\<close> maps the address of each live block to the C string in it; \<^verbatim>\<open>brk\<close> bounds the addresses
  handed out so far. A pointer is \<^verbatim>\<open>None\<close> when it is NULL.
\<close>

record heap =
  cells :: "nat \<Rightarrow> string option"
  brk :: nat

type_synonym ptr = "nat option"

definition heap_wf :: "heap \<Rightarrow> bool" where
  "heap_wf h \<longleftrightarrow> (\<forall>a. cells h a \<noteq> None \<longrightarrow> a < brk h)"

definition load_str :: "heap \<Rightarrow> ptr \<Rightarrow> string res" where
  "load_str h p =
     (case p of None \<Rightarrow> Inl NullDeref
      | Some a \<Rightarrow> (case cells h a of None \<Rightarrow> Inl UseAfterFree | Some s \<Rightarrow> Inr s))"

definition heap_free :: "heap \<Rightarrow> ptr \<Rightarrow> heap res" where
  "heap_free h p =
     (case p of None \<Rightarrow> Inr h
      | Some a \<Rightarrow> (case cells h a of None \<Rightarrow> Inl DoubleFree
                  | Some s \<Rightarrow> Inr (h\<lparr>cells := (cells h)(a := None)\<rparr>)))"

definition heap_new :: "heap \<Rightarrow> string \<Rightarrow> heap \<times> ptr" where
  "heap_new h s = (h\<lparr>cells := (cells h)(brk h := Some s), brk := Suc (brk h)\<rparr>, Some (brk h))"

text \<open>\<^verbatim>\<open>xstrdup\<close> never returns NULL: a NULL argument stands for the default, the empty string.\<close>

definition xstrdup_def_fn :: "heap \<Rightarrow> ptr \<Rightarrow> string \<Rightarrow> (heap \<times> ptr) res" where
  "xstrdup_def_fn h s def =
     (if s = None then Inr (heap_new h def)
      else rbind (load_str h s) (\<lambda>t. Inr (heap_new h t)))"

definition xstrdup :: "heap \<Rightarrow> ptr \<Rightarrow> (heap \<times> ptr) res" where
  "xstrdup h s = xstrdup_def_fn h s ''''"

section \<open>concat5\<close>

text \<open>
  The first loop of \<^verbatim>\<open>concat5\<close> collects the lengths, the first and the last index that is not
  NULL, and the bitmap \<^verbatim>\<open>tofree\<close>, from which it clears the bit of a source that occurs again later.
\<close>

record concat_scan =
  sc_len :: "nat list"
  sc_total :: nat
  sc_tofree :: u32
  sc_first :: int
  sc_last :: int
  sc_nsrc :: nat

definition scan_init :: concat_scan where
  "scan_init = \<lparr>sc_len = [], sc_total = 0, sc_tofree = 0x1f, sc_first = -1, sc_last = -1, sc_nsrc = 0\<rparr>"

definition clear_dups :: "ptr list \<Rightarrow> nat \<Rightarrow> u32 \<Rightarrow> u32" where
  "clear_dups src i w =
     foldl (\<lambda>w j. if src ! i = src ! j then w AND NOT (push_bit i 1) else w) w [Suc i..<5]"

definition scan_src :: "heap \<Rightarrow> ptr list \<Rightarrow> nat \<Rightarrow> concat_scan \<Rightarrow> concat_scan res" where
  "scan_src h src i s =
     (if src ! i = None then Inr (s\<lparr>sc_len := sc_len s @ [0]\<rparr>)
      else rbind (load_str h (src ! i)) (\<lambda>t.
        Inr (s\<lparr>sc_len := sc_len s @ [length t],
               sc_last := int i,
               sc_first := (if sc_first s = -1 then int i else sc_first s),
               sc_nsrc := Suc (sc_nsrc s),
               sc_tofree := clear_dups src i (sc_tofree s),
               sc_total := sc_total s + length t\<rparr>)))"

fun scan_all :: "heap \<Rightarrow> ptr list \<Rightarrow> nat list \<Rightarrow> concat_scan \<Rightarrow> concat_scan res" where
  "scan_all h src [] s = Inr s"
| "scan_all h src (i # ix) s = rbind (scan_src h src i s) (\<lambda>s'. scan_all h src ix s')"

definition free_if :: "heap \<Rightarrow> u32 \<Rightarrow> nat \<Rightarrow> ptr \<Rightarrow> heap res" where
  "free_if h tofree i p = (if tofree AND push_bit i 1 \<noteq> 0 then heap_free h p else Inr h)"

fun free_all :: "heap \<Rightarrow> ptr list \<Rightarrow> u32 \<Rightarrow> nat list \<Rightarrow> heap res" where
  "free_all h src tofree [] = Inr h"
| "free_all h src tofree (i # ix) =
     rbind (free_if h tofree i (src ! i)) (\<lambda>h'. free_all h' src tofree ix)"

fun copy_all :: "heap \<Rightarrow> ptr list \<Rightarrow> nat list \<Rightarrow> u32 \<Rightarrow> nat list \<Rightarrow> buf \<Rightarrow> nat \<Rightarrow> (heap \<times> buf) res" where
  "copy_all h src len tofree [] b out = Inr (h, b)"
| "copy_all h src len tofree (i # ix) b out =
     (if src ! i = None then copy_all h src len tofree ix b out
      else rbind (load_str h (src ! i)) (\<lambda>t.
           rbind (c_strcpy b out t) (\<lambda>b'.
           rbind (free_if h tofree i (src ! i)) (\<lambda>h'.
           copy_all h' src len tofree ix b' (out + len ! i)))))"

definition concat5_list :: "heap \<Rightarrow> ptr list \<Rightarrow> (heap \<times> ptr) res" where
  "concat5_list h src =
     rbind (scan_all h src [0..<5] scan_init) (\<lambda>s.
       if sc_nsrc s = 1 then Inr (h, src ! nat (sc_first s))
       else if sc_total s = 0 then
         rbind (free_all h src (sc_tofree s) [nat (sc_first s)..<nat (sc_last s)]) (\<lambda>h'.
           Inr (heap_new h' ''''))
       else
         rbind (copy_all h src (sc_len s) (sc_tofree s)
                  [nat (sc_first s)..<Suc (nat (sc_last s))] (buf_alloc (sc_total s + 1)) 0) (\<lambda>(h', b).
         rbind (read_cstr b) (\<lambda>t. Inr (heap_new h' t))))"

definition concat5 :: "heap \<Rightarrow> ptr \<Rightarrow> ptr \<Rightarrow> ptr \<Rightarrow> ptr \<Rightarrow> ptr \<Rightarrow> (heap \<times> ptr) res" where
  "concat5 h a b c d e = concat5_list h [a, b, c, d, e]"

definition concat_c :: "heap \<Rightarrow> ptr \<Rightarrow> ptr \<Rightarrow> (heap \<times> ptr) res" where
  "concat_c h a b = concat5 h a b None None None"

text \<open>What a source contributes to the result.\<close>

definition src_text :: "heap \<Rightarrow> ptr \<Rightarrow> string" where
  "src_text h p = (case p of None \<Rightarrow> [] | Some a \<Rightarrow> (case cells h a of None \<Rightarrow> [] | Some s \<Rightarrow> s))"

definition valid_src :: "heap \<Rightarrow> ptr \<Rightarrow> bool" where
  "valid_src h p = (case p of None \<Rightarrow> True | Some a \<Rightarrow> (case cells h a of None \<Rightarrow> False | Some s \<Rightarrow> cstring s))"

section \<open>Correctness of concat5\<close>

definition later_dup :: "ptr list \<Rightarrow> nat \<Rightarrow> bool" where
  "later_dup src i \<longleftrightarrow> (\<exists>j\<in>{Suc i..<5}. src ! j = src ! i)"

lemma flag_bit: "((w::u32) AND push_bit i 1 \<noteq> 0) = bit w i"
  by (simp add: push_bit_eq_mult and_exp_eq_0_iff_not_bit)

lemma bit_clear: "i < 32 \<Longrightarrow> bit ((w::u32) AND NOT (push_bit i 1)) k \<longleftrightarrow> bit w k \<and> k \<noteq> i"
  by (auto simp: bit_and_iff bit_not_iff push_bit_eq_mult bit_exp_iff dest: bit_imp_le_length)

lemma bit_clear_fold:
  assumes "i < 32"
  shows "bit (foldl (\<lambda>w j. if src ! i = src ! j then w AND NOT (push_bit i 1) else w) (w::u32) js) k
      \<longleftrightarrow> bit w k \<and> \<not> (k = i \<and> (\<exists>j\<in>set js. src ! j = src ! i))"
proof (induction js arbitrary: w)
  case Nil
  show ?case by simp
next
  case (Cons j js)
  show ?case
  proof (cases "src ! j = src ! i")
    case True
    then show ?thesis by (auto simp: Cons.IH bit_clear[OF assms, simplified])
  next
    case False
    then have "src ! i \<noteq> src ! j" by simp
    with False show ?thesis by (simp add: Cons.IH)
  qed
qed

lemma bit_clear_dups:
  "i < 32 \<Longrightarrow> bit (clear_dups src i w) k \<longleftrightarrow> bit w k \<and> \<not> (k = i \<and> later_dup src i)"
  unfolding clear_dups_def later_dup_def by (subst bit_clear_fold) auto

text \<open>The range of indices the copy loop runs over: the first and the last source not NULL.\<close>

definition range_inv :: "ptr list \<Rightarrow> nat \<Rightarrow> int \<Rightarrow> int \<Rightarrow> bool" where
  "range_inv src i fst0 lst \<longleftrightarrow>
     (if \<exists>k<i. src ! k \<noteq> None
      then \<exists>f l. fst0 = int f \<and> lst = int l \<and> f \<le> l \<and> l < i \<and> src ! f \<noteq> None \<and> src ! l \<noteq> None \<and>
                 (\<forall>k<i. src ! k \<noteq> None \<longrightarrow> f \<le> k \<and> k \<le> l)
      else fst0 = -1 \<and> lst = -1)"

definition bits_inv :: "ptr list \<Rightarrow> nat \<Rightarrow> u32 \<Rightarrow> bool" where
  "bits_inv src i w \<longleftrightarrow>
     (\<forall>k<5. bit w k = (if k < i \<and> src ! k \<noteq> None then \<not> later_dup src k else True))"

definition scan_inv :: "heap \<Rightarrow> ptr list \<Rightarrow> nat \<Rightarrow> concat_scan \<Rightarrow> bool" where
  "scan_inv h src i s \<longleftrightarrow>
     sc_len s = map (\<lambda>k. length (src_text h (src ! k))) [0..<i] \<and>
     sc_total s = sum_list (sc_len s) \<and>
     sc_nsrc s = length (filter (\<lambda>k. src ! k \<noteq> None) [0..<i]) \<and>
     bits_inv src i (sc_tofree s) \<and>
     range_inv src i (sc_first s) (sc_last s)"

lemma range_inv_None:
  assumes "src ! i = None" "range_inv src i a b"
  shows "range_inv src (Suc i) a b"
proof (cases "\<exists>k<i. src ! k \<noteq> None")
  case True
  then have ex: "\<exists>k<Suc i. src ! k \<noteq> None" by (meson less_Suc_eq)
  from True assms(2) obtain f l where "a = int f" "b = int l" "f \<le> l" "l < i" "src ! f \<noteq> None"
    "src ! l \<noteq> None" "\<forall>k<i. src ! k \<noteq> None \<longrightarrow> f \<le> k \<and> k \<le> l"
    unfolding range_inv_def by auto
  with assms(1) ex show ?thesis
    unfolding range_inv_def
    by (simp only: if_True) (intro exI[of _ f] exI[of _ l], auto simp: less_Suc_eq)
next
  case False
  with assms(1) have "\<not> (\<exists>k<Suc i. src ! k \<noteq> None)" by (metis less_Suc_eq)
  with False assms(2) show ?thesis by (simp add: range_inv_def)
qed

lemma range_inv_Some:
  assumes "src ! i \<noteq> None" "range_inv src i fst0 lst"
  shows "range_inv src (Suc i) (if fst0 = -1 then int i else fst0) (int i)"
proof -
  have ex: "\<exists>k<Suc i. src ! k \<noteq> None" using assms(1) by blast
  show ?thesis
  proof (cases "\<exists>k<i. src ! k \<noteq> None")
    case True
    with assms(2) obtain f l where "fst0 = int f" "f \<le> l" "l < i" "src ! f \<noteq> None"
      "\<forall>k<i. src ! k \<noteq> None \<longrightarrow> f \<le> k \<and> k \<le> l"
      unfolding range_inv_def by auto
    with assms(1) ex show ?thesis
      unfolding range_inv_def
      by (simp only: if_True) (intro exI[of _ f] exI[of _ i], auto simp: less_Suc_eq)
  next
    case False
    with assms(2) have "fst0 = -1" by (simp add: range_inv_def)
    with assms(1) False ex show ?thesis
      unfolding range_inv_def
      by (simp only: if_True) (intro exI[of _ i], auto simp: less_Suc_eq)
  qed
qed

lemma bits_inv_None: "src ! i = None \<Longrightarrow> bits_inv src i w \<Longrightarrow> bits_inv src (Suc i) w"
  unfolding bits_inv_def by (metis less_Suc_eq)

lemma bits_inv_Some:
  "src ! i \<noteq> None \<Longrightarrow> i < 5 \<Longrightarrow> bits_inv src i w \<Longrightarrow> bits_inv src (Suc i) (clear_dups src i w)"
  unfolding bits_inv_def by (auto simp: bit_clear_dups less_Suc_eq)

lemma load_str_valid: "valid_src h p \<Longrightarrow> p \<noteq> None \<Longrightarrow> load_str h p = Inr (src_text h p)"
  by (auto simp: valid_src_def load_str_def src_text_def split: option.splits)

lemma scan_inv_init: "scan_inv h src 0 scan_init"
proof -
  have "bit (31::u32) k" if "k < 5" for k
  proof -
    have "(31::u32) = mask 5" by (simp add: mask_eq_exp_minus_1)
    with that show ?thesis by (simp only: bit_mask_iff) simp
  qed
  then show ?thesis by (simp add: scan_inv_def scan_init_def bits_inv_def range_inv_def)
qed

lemma scan_src_inv:
  assumes inv: "scan_inv h src i s" and i: "i < 5" and ok: "valid_src h (src ! i)"
  shows "\<exists>s'. scan_src h src i s = Inr s' \<and> scan_inv h src (Suc i) s'"
proof (cases "src ! i = None")
  case True
  with inv show ?thesis
    by (simp add: scan_src_def scan_inv_def src_text_def range_inv_None bits_inv_None)
next
  case False
  then have r: "range_inv src (Suc i) (if sc_first s = -1 then int i else sc_first s) (int i)"
    and b: "bits_inv src (Suc i) (clear_dups src i (sc_tofree s))"
    using inv i range_inv_Some bits_inv_Some unfolding scan_inv_def by blast+
  have ld: "load_str h (src ! i) = Inr (src_text h (src ! i))"
    using ok False by (rule load_str_valid)
  show ?thesis
    unfolding scan_src_def scan_inv_def ld
    using False inv r b by (simp add: scan_inv_def cong: if_cong)
qed

lemma scan_all_inv:
  assumes "scan_inv h src i s" "i + n = 5" "\<forall>p\<in>set src. valid_src h p" "length src = 5"
  shows "\<exists>s'. scan_all h src [i..<i + n] s = Inr s' \<and> scan_inv h src 5 s'"
  using assms
proof (induction n arbitrary: i s)
  case 0
  then show ?case by simp
next
  case (Suc n)
  have i: "i < 5" using Suc.prems(2) by simp
  have "valid_src h (src ! i)" using Suc.prems i by simp
  with Suc.prems i obtain s1 where s1: "scan_src h src i s = Inr s1" "scan_inv h src (Suc i) s1"
    using scan_src_inv by blast
  with Suc.IH[of "Suc i" s1] Suc.prems s1
  obtain s2 where "scan_all h src [Suc i..<Suc i + n] s1 = Inr s2" "scan_inv h src 5 s2"
    by auto
  moreover have "[i..<i + Suc n] = i # [Suc i..<Suc i + n]"
    by (simp add: upt_rec)
  ultimately show ?case using s1(1) by simp
qed


definition copied :: "heap \<Rightarrow> ptr list \<Rightarrow> nat \<Rightarrow> string" where
  "copied h src i = concat (map (\<lambda>k. src_text h (src ! k)) [0..<i])"

definition freed_before :: "ptr list \<Rightarrow> nat \<Rightarrow> nat \<Rightarrow> bool" where
  "freed_before src i a \<longleftrightarrow> (\<exists>k<i. src ! k = Some a \<and> \<not> later_dup src k)"

text \<open>Before index \<open>i\<close>: what has been copied, and which blocks have been freed.\<close>

definition copy_inv :: "heap \<Rightarrow> ptr list \<Rightarrow> nat \<Rightarrow> heap \<Rightarrow> buf \<Rightarrow> nat \<Rightarrow> bool" where
  "copy_inv h0 src i h b out \<longleftrightarrow>
     out = length (copied h0 src i) \<and>
     length b = length (copied h0 src 5) + 1 \<and>
     take out b = map Some (copied h0 src i) \<and>
     ((\<exists>k<i. src ! k \<noteq> None) \<longrightarrow> b ! out = Some NUL) \<and>
     brk h = brk h0 \<and> cells h = (\<lambda>a. if freed_before src i a then None else cells h0 a)"

lemma copied_Suc: "copied h src (Suc i) = copied h src i @ src_text h (src ! i)"
  by (simp add: copied_def)

lemma freed_before_Suc:
  "freed_before src (Suc i) a \<longleftrightarrow> freed_before src i a \<or> (src ! i = Some a \<and> \<not> later_dup src i)"
  by (auto simp: freed_before_def less_Suc_eq)

lemma copied_le: "i \<le> j \<Longrightarrow> length (copied h src i) \<le> length (copied h src j)"
  by (induction j) (auto simp: copied_Suc le_Suc_eq)

lemma copy_inv_None:
  assumes "src ! i = None" "copy_inv h0 src i h b out"
  shows "copy_inv h0 src (Suc i) h b out"
proof -
  have "(\<exists>k<Suc i. src ! k \<noteq> None) = (\<exists>k<i. src ! k \<noteq> None)"
    using assms(1) by (metis less_Suc_eq)
  with assms show ?thesis
    unfolding copy_inv_def copied_Suc freed_before_Suc by (auto simp: src_text_def)
qed

lemma copy_step:
  assumes inv: "copy_inv h0 src i h b out" and i: "i < 5" and p: "src ! i = Some a"
    and ok: "valid_src h0 (src ! i)" and w: "bit tofree i \<longleftrightarrow> \<not> later_dup src i"
  shows "\<exists>b' h'. load_str h (src ! i) = Inr (src_text h0 (src ! i)) \<and>
           c_strcpy b out (src_text h0 (src ! i)) = Inr b' \<and>
           free_if h tofree i (src ! i) = Inr h' \<and>
           copy_inv h0 src (Suc i) h' b' (out + length (src_text h0 (src ! i)))"
proof -
  let ?t = "src_text h0 (src ! i)"
  have fresh: "\<not> freed_before src i a"
    using i p unfolding freed_before_def later_dup_def by force
  from ok p obtain s where s: "cells h0 a = Some s" "?t = s"
    by (auto simp: valid_src_def src_text_def split: option.splits)
  have cell: "cells h a = Some s"
    using inv fresh s by (simp add: copy_inv_def)
  have room: "out + length (?t @ [NUL]) \<le> length b"
    using inv copied_le[of "Suc i" 5 h0 src] i by (simp add: copy_inv_def copied_Suc)
  define b' where "b' = take out b @ map Some (?t @ [NUL]) @ drop (out + length (?t @ [NUL])) b"
  have cpy: "c_strcpy b out ?t = Inr b'"
    unfolding c_strcpy_def b'_def using room by (rule put_chars_ok)
  have len: "length (take out b) = out" using room by simp
  define h' where "h' = (if later_dup src i then h else h\<lparr>cells := (cells h)(a := None)\<rparr>)"
  have fr: "free_if h tofree i (src ! i) = Inr h'"
    using w p cell by (simp add: free_if_def flag_bit heap_free_def h'_def del: push_bit_of_1)
  have hp: "brk h' = brk h0" "cells h' = (\<lambda>a. if freed_before src (Suc i) a then None else cells h0 a)"
    using inv p fresh unfolding h'_def copy_inv_def freed_before_Suc by (auto simp: fun_eq_iff)
  have "take (out + length ?t) b' = map Some (copied h0 src (Suc i))"
    "b' ! (out + length ?t) = Some NUL" "length b' = length b"
    using inv room len by (auto simp: b'_def copy_inv_def copied_Suc nth_append)
  with hp have "copy_inv h0 src (Suc i) h' b' (out + length ?t)"
    using inv by (simp add: copy_inv_def copied_Suc)
  with cpy cell s p fr show ?thesis
    by (auto simp: load_str_def)
qed

lemma copy_all_inv:
  assumes "copy_inv h0 src i h b out" "i + n = 5" "length src = 5" "\<forall>p\<in>set src. valid_src h0 p"
    and "bits_inv src 5 tofree" "len = map (\<lambda>k. length (src_text h0 (src ! k))) [0..<5]"
  shows "\<exists>h' b' out'. copy_all h src len tofree [i..<i + n] b out = Inr (h', b') \<and>
           copy_inv h0 src 5 h' b' out'"
  using assms
proof (induction n arbitrary: i h b out)
  case 0
  then show ?case by auto
next
  case (Suc n)
  have i: "i < 5" and up: "[i..<i + Suc n] = i # [Suc i..<Suc i + n]"
    using Suc.prems(2) by (simp_all add: upt_rec)
  show ?case
  proof (cases "src ! i")
    case None
    with Suc.prems have "copy_inv h0 src (Suc i) h b out" by (simp add: copy_inv_None)
    with Suc.IH[of "Suc i" h b out] Suc.prems None show ?thesis
      unfolding up by (simp del: upt_Suc)
  next
    case (Some a)
    have ok: "valid_src h0 (src ! i)" using Suc.prems i by simp
    have w: "bit tofree i \<longleftrightarrow> \<not> later_dup src i"
      using Suc.prems(5) i Some by (auto simp: bits_inv_def)
    from copy_step[OF Suc.prems(1) i Some ok w] obtain b' h' where st:
      "load_str h (src ! i) = Inr (src_text h0 (src ! i))"
      "c_strcpy b out (src_text h0 (src ! i)) = Inr b'"
      "free_if h tofree i (src ! i) = Inr h'"
      "copy_inv h0 src (Suc i) h' b' (out + length (src_text h0 (src ! i)))"
      by blast
    have "len ! i = length (src_text h0 (src ! i))"
      using Suc.prems(6) i by simp
    with Suc.IH[OF st(4)] Suc.prems st(1-3) Some show ?thesis
      unfolding up by (simp del: upt_Suc)
  qed
qed

lemma copy_all_skip:
  "\<forall>i\<in>set ix. src ! i = None \<Longrightarrow> copy_all h src len tofree (ix @ jx) b out = copy_all h src len tofree jx b out"
  by (induction ix) auto

lemma copy_all_skip_end:
  "\<forall>i\<in>set jx. src ! i = None \<Longrightarrow> copy_all h src len tofree (ix @ jx) b out = copy_all h src len tofree ix b out"
proof (induction ix arbitrary: h b out)
  case Nil
  then show ?case using copy_all_skip[of jx src h len tofree "[]" b out] by simp
next
  case (Cons i ix)
  then show ?case by simp
qed

lemma copy_all_range:
  assumes "f \<le> l" "l < 5" "\<forall>k<5. src ! k \<noteq> None \<longrightarrow> f \<le> k \<and> k \<le> l"
  shows "copy_all h src len tofree [f..<Suc l] b out = copy_all h src len tofree [0..<5] b out"
proof -
  have "[0..<5] = [0..<f] @ [f..<Suc l] @ [Suc l..<5]"
    using assms(1,2) upt_add_eq_append[of 0 f "5 - f"] upt_add_eq_append[of f "Suc l" "4 - l"]
    by (simp del: upt_Suc)
  moreover have "src ! i = None" if "i < f" for i
    using assms(1,2) assms(3)[rule_format, of i] that by linarith
  moreover have "src ! i = None" if "l < i" "i < 5" for i
    using assms(3)[rule_format, of i] that by linarith
  ultimately show ?thesis by (simp add: copy_all_skip copy_all_skip_end del: upt_Suc)
qed

lemma last_occurrence:
  assumes "p \<in> set src" "length src = 5"
  shows "\<exists>k<5. src ! k = p \<and> \<not> later_dup src k"
proof -
  define m where "m = Max {k. k < 5 \<and> src ! k = p}"
  have "finite {k. k < 5 \<and> src ! k = p}" "{k. k < 5 \<and> src ! k = p} \<noteq> {}"
    using assms by (auto simp: in_set_conv_nth)
  then have m: "m < 5" "src ! m = p" and mx: "\<And>k. k < 5 \<Longrightarrow> src ! k = p \<Longrightarrow> k \<le> m"
    using Max_in[of "{k. k < 5 \<and> src ! k = p}"] unfolding m_def by auto
  have "\<not> later_dup src m"
    unfolding later_dup_def m(2) using mx by (auto simp: Suc_le_eq leD)
  with m show ?thesis by blast
qed

lemma freed_all: "length src = 5 \<Longrightarrow> freed_before src 5 a \<longleftrightarrow> Some a \<in> set src"
  using last_occurrence[of "Some a" src] by (auto simp: freed_before_def) (metis nth_mem)


lemma free_all_inv:
  assumes "i + n \<le> 5" "length src = 5" "\<forall>p\<in>set src. valid_src h0 p" "bits_inv src 5 tofree"
    and "brk h = brk h0" "cells h = (\<lambda>a. if freed_before src i a then None else cells h0 a)"
  shows "\<exists>h'. free_all h src tofree [i..<i + n] = Inr h' \<and> brk h' = brk h0 \<and>
           cells h' = (\<lambda>a. if freed_before src (i + n) a then None else cells h0 a)"
  using assms
proof (induction n arbitrary: i h)
  case 0
  then show ?case by simp
next
  case (Suc n)
  have up: "[i..<i + Suc n] = i # [Suc i..<Suc i + n]" and i: "i < 5"
    using Suc.prems(1) by (simp_all add: upt_rec)
  have "\<exists>h1. free_if h tofree i (src ! i) = Inr h1 \<and> brk h1 = brk h0 \<and>
      cells h1 = (\<lambda>a. if freed_before src (Suc i) a then None else cells h0 a)"
  proof (cases "src ! i")
    case None
    with Suc.prems show ?thesis
      by (simp add: free_if_def heap_free_def freed_before_Suc del: push_bit_of_1)
  next
    case (Some a)
    have w: "bit tofree i \<longleftrightarrow> \<not> later_dup src i"
      using Suc.prems(4) i Some by (auto simp: bits_inv_def)
    have "\<not> freed_before src i a"
      using i Some unfolding freed_before_def later_dup_def by force
    moreover have "valid_src h0 (src ! i)" using Suc.prems i by simp
    ultimately obtain s where "cells h a = Some s"
      using Some Suc.prems by (auto simp: valid_src_def split: option.splits)
    with w Some Suc.prems show ?thesis
      by (auto simp: free_if_def flag_bit heap_free_def freed_before_Suc fun_eq_iff simp del: push_bit_of_1)
  qed
  then obtain h1 where h1: "free_if h tofree i (src ! i) = Inr h1" "brk h1 = brk h0"
      "cells h1 = (\<lambda>a. if freed_before src (Suc i) a then None else cells h0 a)" by blast
  from Suc.IH[OF _ Suc.prems(2-4) h1(2,3)] Suc.prems(1) h1(1) show ?case
    unfolding up by (simp del: upt_Suc)
qed

lemma copied_all: "length src = 5 \<Longrightarrow> copied h src 5 = concat (map (src_text h) src)"
proof -
  assume l: "length src = 5"
  have "map (\<lambda>k. src_text h (src ! k)) [0..<5] = map (src_text h) (map ((!) src) [0..<5])" by simp
  also have "map ((!) src) [0..<5] = src" using l map_nth by metis
  finally show ?thesis by (simp add: copied_def)
qed

lemma scan_result:
  assumes "length src = 5" "\<forall>p\<in>set src. valid_src h p"
  obtains s where "scan_all h src [0..<5] scan_init = Inr s" "scan_inv h src 5 s"
  using scan_all_inv[OF scan_inv_init, of 5 src h] assms by auto

lemma nsrc_eq: "length src = 5 \<Longrightarrow>
  length (filter (\<lambda>k. src ! k \<noteq> None) [0..<5]) = length (filter (\<lambda>p. p \<noteq> None) src)"
proof -
  assume l: "length src = 5"
  have "filter (\<lambda>p. p \<noteq> None) (map ((!) src) [0..<5]) = map ((!) src) (filter (\<lambda>k. src ! k \<noteq> None) [0..<5])"
    by (simp add: filter_map o_def)
  moreover have "map ((!) src) [0..<5] = src" using l map_nth by metis
  ultimately show ?thesis by (metis length_map)
qed

lemma concat5_list_copies:
  assumes src: "length src = 5" "\<forall>p\<in>set src. valid_src h p"
    and many: "length (filter (\<lambda>p. p \<noteq> None) src) \<noteq> 1"
    and nonempty: "concat (map (src_text h) src) \<noteq> []"
  shows "concat5_list h src =
    Inr (h\<lparr>cells := (\<lambda>a. if Some a \<in> set src then None else cells h a)(brk h := Some (concat (map (src_text h) src))),
           brk := Suc (brk h)\<rparr>, Some (brk h))"
proof -
  obtain s where s: "scan_all h src [0..<5] scan_init = Inr s" "scan_inv h src 5 s"
    using scan_result[OF src] by blast
  let ?text = "concat (map (src_text h) src)"
  have n: "sc_nsrc s \<noteq> 1" using s(2) many nsrc_eq[OF src(1)] by (simp add: scan_inv_def)
  have tot: "sc_total s = length ?text"
    unfolding copied_all[OF src(1), of h, symmetric] using s(2)
    by (simp add: scan_inv_def copied_def length_concat o_def del: upt_Suc)
  have "\<exists>k<5. src ! k \<noteq> None"
  proof (rule ccontr)
    assume "\<not> ?thesis"
    then have "copied h src 5 = []" by (simp add: copied_def src_text_def)
    with nonempty copied_all[OF src(1), of h] show False by simp
  qed
  with s(2) obtain f l where fl: "sc_first s = int f" "sc_last s = int l" "f \<le> l" "l < 5"
      "\<forall>k<5. src ! k \<noteq> None \<longrightarrow> f \<le> k \<and> k \<le> l"
    by (auto simp: scan_inv_def range_inv_def)
  have init: "copy_inv h src 0 h (buf_alloc (sc_total s + 1)) 0"
    using tot copied_all[OF src(1), of h] by (simp add: copy_inv_def copied_def freed_before_def)
  have bi: "bits_inv src 5 (sc_tofree s)" and ln: "sc_len s = map (\<lambda>k. length (src_text h (src ! k))) [0..<5]"
    using s(2) unfolding scan_inv_def by blast+
  from copy_all_inv[OF init _ src bi ln, of 5] obtain h' b' out' where c:
    "copy_all h src (sc_len s) (sc_tofree s) [0..<5] (buf_alloc (sc_total s + 1)) 0 = Inr (h', b')"
    "copy_inv h src 5 h' b' out'"
    by (auto simp del: upt_Suc)
  have out: "out' = length ?text" "length b' = Suc out'" "take out' b' = map Some ?text" "b' ! out' = Some NUL"
    using c(2) \<open>\<exists>k<5. src ! k \<noteq> None\<close> copied_all[OF src(1), of h] by (auto simp: copy_inv_def)
  have "b' = map Some ?text @ Some NUL # []"
    using out by (metis append_Nil2 drop_all Cons_nth_drop_Suc append_take_drop_id lessI order_refl)
  moreover have "cstring ?text"
    using src(2) by (auto simp: valid_src_def src_text_def cstring_def split: option.splits)
  ultimately have rd: "read_cstr b' = Inr ?text" by (simp only: read_cstr_written)
  have h': "h' = h\<lparr>cells := (\<lambda>a. if Some a \<in> set src then None else cells h a)\<rparr>"
    using c(2) freed_all[OF src(1)] by (simp add: copy_inv_def)
  show ?thesis
    using s(1) n tot nonempty fl(1,2) copy_all_range[OF fl(3-5)] c(1) rd h'
    by (auto simp: concat5_list_def heap_new_def simp del: upt_Suc)
qed

lemma concat5_list_single:
  assumes src: "length src = 5" "\<forall>p\<in>set src. valid_src h p"
    and one: "filter (\<lambda>p. p \<noteq> None) src = [p]"
  shows "concat5_list h src = Inr (h, p)"
proof -
  obtain s where s: "scan_all h src [0..<5] scan_init = Inr s" "scan_inv h src 5 s"
    using scan_result[OF src] by blast
  have n: "sc_nsrc s = 1"
    using s(2) nsrc_eq[OF src(1)] one by (simp add: scan_inv_def)
  have "p \<in> set (filter (\<lambda>p. p \<noteq> None) src)" using one by simp
  then have "\<exists>k<5. src ! k \<noteq> None" using src(1) by (auto simp: in_set_conv_nth)
  with s(2) obtain f where f: "sc_first s = int f" "f < 5" "src ! f \<noteq> None"
    by (auto simp: scan_inv_def range_inv_def)
  have "src ! f \<in> set (filter (\<lambda>p. p \<noteq> None) src)"
    unfolding set_filter using f src(1) by auto
  then have "src ! f = p" unfolding one by simp
  with s(1) n f(1) show ?thesis by (simp add: concat5_list_def del: upt_Suc)
qed

lemma freed_before_last:
  assumes "length src = 5" "l < 5" "src ! l \<noteq> None" "\<forall>k<5. src ! k \<noteq> None \<longrightarrow> k \<le> l"
  shows "freed_before src l a \<longleftrightarrow> Some a \<in> set src \<and> Some a \<noteq> src ! l"
proof
  assume "freed_before src l a"
  then obtain k where k: "k < l" "src ! k = Some a" "\<not> later_dup src k"
    unfolding freed_before_def by blast
  have "Some a \<in> set src" using k assms(1,2) nth_mem[of k src] by simp
  moreover have "src ! l \<noteq> Some a" using k assms(2) by (auto simp: later_dup_def)
  ultimately show "Some a \<in> set src \<and> Some a \<noteq> src ! l" by auto
next
  assume a: "Some a \<in> set src \<and> Some a \<noteq> src ! l"
  with last_occurrence[of "Some a" src] assms(1)
  obtain k where k: "k < 5" "src ! k = Some a" "\<not> later_dup src k" by blast
  with assms(4) have "k \<le> l" by simp
  moreover have "k \<noteq> l" using a k(2) by auto
  ultimately show "freed_before src l a" using k unfolding freed_before_def by (meson le_neq_implies_less)
qed

lemma last_filter_nth:
  assumes "l < length src" "P (src ! l)" "\<forall>k<length src. P (src ! k) \<longrightarrow> k \<le> l"
  shows "last (filter P src) = src ! l"
proof -
  have "filter P (drop (Suc l) src) = []"
    using assms(3)[rule_format, of "Suc l + k" for k]
    by (auto simp: filter_empty_conv in_set_conv_nth less_diff_conv add.commute)
  moreover have "src = take l src @ src ! l # drop (Suc l) src"
    using assms(1) by (rule id_take_nth_drop)
  ultimately have "filter P src = filter P (take l src) @ [src ! l]"
    using assms(2) by (metis append_Nil2 filter.simps(2) filter_append append_Cons)
  then show ?thesis by simp
qed

lemma concat5_list_empty:
  assumes src: "length src = 5" "\<forall>p\<in>set src. valid_src h p"
    and many: "2 \<le> length (filter (\<lambda>p. p \<noteq> None) src)"
    and empty: "concat (map (src_text h) src) = []"
  shows "concat5_list h src =
    Inr (h\<lparr>cells := (\<lambda>a. if Some a \<in> set src \<and> Some a \<noteq> last (filter (\<lambda>p. p \<noteq> None) src)
                         then None else cells h a)(brk h := Some ''''),
           brk := Suc (brk h)\<rparr>, Some (brk h))"
proof -
  obtain s where s: "scan_all h src [0..<5] scan_init = Inr s" "scan_inv h src 5 s"
    using scan_result[OF src] by blast
  have n: "sc_nsrc s \<noteq> 1" using s(2) many nsrc_eq[OF src(1)] by (simp add: scan_inv_def)
  have tot: "sc_total s = 0"
    using s(2) copied_all[OF src(1), of h] empty
    by (auto simp: scan_inv_def copied_def simp del: upt_Suc)
  have "filter (\<lambda>p. p \<noteq> None) src \<noteq> []" using many by auto
  then obtain p where "p \<in> set src" "p \<noteq> None" unfolding filter_empty_conv by blast
  with src(1) have ex: "\<exists>k<5. src ! k \<noteq> None" unfolding in_set_conv_nth by metis
  with s(2) obtain f l where fl: "sc_first s = int f" "sc_last s = int l" "f \<le> l" "l < 5"
      "src ! l \<noteq> None" "\<forall>k<5. src ! k \<noteq> None \<longrightarrow> f \<le> k \<and> k \<le> l"
    by (auto simp: scan_inv_def range_inv_def)
  have bi: "bits_inv src 5 (sc_tofree s)" using s(2) unfolding scan_inv_def by blast
  have nf: "\<not> freed_before src f a" for a
    unfolding freed_before_def using fl(3,4,6) by (metis leD less_le_trans less_trans option.discI)
  from free_all_inv[of f "l - f" src h, OF _ src bi] nf fl(3,4)
  obtain h' where h': "free_all h src (sc_tofree s) [f..<l] = Inr h'" "brk h' = brk h"
      "cells h' = (\<lambda>a. if freed_before src l a then None else cells h a)"
    by auto
  have lst: "last (filter (\<lambda>p. p \<noteq> None) src) = src ! l"
    using src(1) fl by (intro last_filter_nth) auto
  have "freed_before src l a \<longleftrightarrow> Some a \<in> set src \<and> Some a \<noteq> src ! l" for a
    using src(1) fl by (intro freed_before_last) auto
  with h' have "h' = h\<lparr>cells := (\<lambda>a. if Some a \<in> set src \<and> Some a \<noteq> src ! l then None else cells h a)\<rparr>"
    by simp
  with s(1) n tot fl(1,2) h'(1) lst show ?thesis
    by (simp add: concat5_list_def heap_new_def)
qed

lemma concat5_list_none:
  assumes "length src = 5" "filter (\<lambda>p. p \<noteq> None) src = []"
  shows "concat5_list h src = Inr (heap_new h '''')"
proof -
  have src: "\<forall>p\<in>set src. valid_src h p" "\<forall>p\<in>set src. src_text h p = []"
    using assms(2) unfolding filter_empty_conv by (auto simp: valid_src_def src_text_def)
  obtain s where s: "scan_all h src [0..<5] scan_init = Inr s" "scan_inv h src 5 s"
    using scan_result[OF assms(1) src(1)] by blast
  have n: "sc_nsrc s = 0" using s(2) assms nsrc_eq[of src] by (simp add: scan_inv_def)
  have null: "src ! k = None" if "k < 5" for k
    using assms nth_mem[of k src] that unfolding filter_empty_conv by auto
  then have tot: "sc_total s = 0"
    using s(2) by (auto simp: scan_inv_def src_text_def simp del: upt_Suc)
  from s(2) null have "sc_first s = -1" "sc_last s = -1"
    by (auto simp: scan_inv_def range_inv_def)
  with s(1) n tot show ?thesis by (simp add: concat5_list_def del: upt_Suc)
qed

section \<open>Properties\<close>

text \<open>
  C40. The path check is exact: \<^verbatim>\<open>hasdotdot\<close> answers yes for a path if and only if one of the
  components between its slashes is the parent directory, two dots. Names that only contain dots,
  such as three dots, are not rejected.
\<close>

theorem hasdotdot_iff_component: "hasdotdot path \<longleftrightarrow> ''..'' \<in> set (components path)"
proof -
  have "hasdotdot path \<longleftrightarrow> hd (components path) = ''..'' \<or> ''..'' \<in> set (tl (components path))"
    using hasdotdot_loop_components[of "[]" path] by (simp add: hasdotdot_def)
  then show ?thesis by (cases "components path") auto
qed

text \<open>
  C10. \<^verbatim>\<open>concat5\<close> on any five valid or NULL pointers, in any aliasing pattern, never frees a block
  twice, never reads a freed block and never writes past its buffer. With exactly one source it hands
  that pointer back and leaves the heap alone. Otherwise the result is a fresh block with the texts in
  order, and every source block is freed once; only when all the texts are empty the last source
  survives, which is a leak of the code (its loop stops before \<^verbatim>\<open>last\<close>).
\<close>

theorem concat5_spec:
  assumes "\<forall>p\<in>set [a, b, c, d, e]. valid_src h p"
  shows "concat5 h a b c d e =
    (let src = [a, b, c, d, e];
         used = filter (\<lambda>p. p \<noteq> None) src;
         txt = concat (map (src_text h) src)
     in if length used = 1 then Inr (h, hd used)
        else Inr (h\<lparr>cells := (\<lambda>x. if Some x \<in> set src \<and> (txt \<noteq> [] \<or> Some x \<noteq> last used)
                               then None else cells h x)(brk h := Some txt),
                    brk := Suc (brk h)\<rparr>, Some (brk h)))"
proof -
  let ?src = "[a, b, c, d, e]"
  let ?used = "filter (\<lambda>p. p \<noteq> None) ?src"
  let ?txt = "concat (map (src_text h) ?src)"
  have len: "length ?src = 5" by simp
  consider (one) "length ?used = 1" | (none) "?used = []"
    | (copy) "length ?used \<noteq> 1" "?txt \<noteq> []" | (empty) "2 \<le> length ?used" "?txt = []"
    by (cases ?used rule: list.exhaust; cases "tl ?used") force+
  then show ?thesis
  proof cases
    case one
    then obtain p where "?used = [p]" by (metis One_nat_def length_0_conv length_Suc_conv)
    then show ?thesis
      unfolding concat5_def Let_def using concat5_list_single[OF len assms] by simp
  next
    case none
    then have "a = None" "b = None" "c = None" "d = None" "e = None"
      unfolding filter_empty_conv by simp_all
    then show ?thesis
      using concat5_list_none[OF len none]
      by (simp add: concat5_def Let_def heap_new_def src_text_def)
  next
    case copy
    then show ?thesis
      unfolding concat5_def Let_def using concat5_list_copies[OF len assms] by simp
  next
    case empty
    then show ?thesis
      unfolding concat5_def Let_def using concat5_list_empty[OF len assms] by simp
  qed
qed

definition two_strings :: heap where
  "two_strings = \<lparr>cells = (\<lambda>_. None)(0 := Some ''ab'', 1 := Some ''c''), brk = 2\<rparr>"

lemma concat5_spec_witness:
  "valid_src two_strings (Some 0) \<and> valid_src two_strings None \<and> valid_src two_strings (Some 1) \<and>
   (\<exists>h'. concat5 two_strings (Some 0) (Some 0) None (Some 1) None = Inr (h', Some 2) \<and>
         cells h' 2 = Some ''ababc'' \<and> cells h' 0 = None \<and> cells h' 1 = None)"
proof -
  have v: "\<forall>p\<in>set [Some 0, Some 0, None, Some 1, None]. valid_src two_strings p"
    by (simp add: valid_src_def two_strings_def)
  show ?thesis
    using v concat5_spec[OF v] by (simp add: two_strings_def src_text_def Let_def)
qed


text \<open>The leak on its own: joining two empty strings keeps the second block allocated.\<close>

definition two_empty :: heap where
  "two_empty = \<lparr>cells = (\<lambda>_. None)(0 := Some '''', 1 := Some ''''), brk = 2\<rparr>"

lemma concat_empty_leaks:
  "\<exists>h'. concat_c two_empty (Some 0) (Some 1) = Inr (h', Some 2) \<and>
        cells h' 0 = None \<and> cells h' 1 = Some ''''"
proof -
  have len: "length [Some 0, Some 1, None, None, None] = 5" by simp
  have v: "\<forall>p\<in>set [Some 0, Some 1, None, None, None]. valid_src two_empty p"
    by (simp add: valid_src_def two_empty_def)
  from concat5_list_empty[OF len v] show ?thesis
    by (simp add: concat_c_def concat5_def two_empty_def src_text_def)
qed

end
