(* ===== verification/Escape.thy ===== *)
theory Escape
  imports Prelude
begin

unbundle bit_operations_syntax

text \<open>
  The two escaping routines, \<^verbatim>\<open>mangle_htmlescape\<close> of \<^verbatim>\<open>mangle.c\<close> and \<^verbatim>\<open>__urlescape_str\<close> of
  \<^verbatim>\<open>pipeline.c\<close>. Both run twice over their input: the first loop computes the size of the output, the
  second writes into a buffer of that size. The locale \<^verbatim>\<open>escaper\<close> is the contract between the two
  loops; what follows from it (the buffer is filled exactly, the text can be decoded) is proved once.
\<close>

section \<open>The two loops\<close>

fun grow_loop :: "(char \<Rightarrow> int res) \<Rightarrow> string \<Rightarrow> int \<Rightarrow> int res" where
  "grow_loop grow [] outlen = Inr outlen"
| "grow_loop grow (c # s) outlen = rbind (grow c) (\<lambda>d. rbind (int_add outlen d) (grow_loop grow s))"

fun fill_loop :: "(buf \<Rightarrow> nat \<Rightarrow> char \<Rightarrow> (buf \<times> nat) res) \<Rightarrow> string \<Rightarrow> buf \<Rightarrow> nat \<Rightarrow> (buf \<times> nat) res" where
  "fill_loop put [] b tmp = Inr (b, tmp)"
| "fill_loop put (c # s) b tmp = rbind (put b tmp c) (\<lambda>(b', tmp'). fill_loop put s b' (Suc tmp'))"

text \<open>
  \<^verbatim>\<open>outlen\<close> is an \<^verbatim>\<open>int\<close>, so the length is truncated to 32 bits on the way in, the additions can
  overflow, and the size passed to \<^verbatim>\<open>malloc\<close> is converted to 64 bits unsigned. \<^verbatim>\<open>mem\<close> tells whether
  \<^verbatim>\<open>malloc\<close> finds memory.
\<close>

definition escape_with ::
  "(char \<Rightarrow> int res) \<Rightarrow> (buf \<Rightarrow> nat \<Rightarrow> char \<Rightarrow> (buf \<times> nat) res) \<Rightarrow> bool \<Rightarrow> string \<Rightarrow> string option res" where
  "escape_with grow put mem inp =
     rbind (grow_loop grow inp (sint (of_nat (length inp) :: u32))) (\<lambda>outlen.
     rbind (int_add outlen 1) (\<lambda>sz.
       if \<not> mem then Inr None
       else rbind (fill_loop put inp (buf_alloc (unat (word_of_int sz :: u64))) 0) (\<lambda>(b, tmp).
            rbind (put_char b tmp NUL) (\<lambda>b'.
            rbind (read_cstr b') (\<lambda>t. Inr (Some t))))))"

section \<open>mangle_htmlescape\<close>

definition html_grow :: "char \<Rightarrow> int" where
  "html_grow c =
     (if c = CHR ''<'' \<or> c = CHR ''>'' then 3
      else if c = CHR ''&'' then 4
      else if c = CHR 0x22 then 5
      else 0)"

definition html_put :: "buf \<Rightarrow> nat \<Rightarrow> char \<Rightarrow> (buf \<times> nat) res" where
  "html_put b tmp c =
     (if c = CHR ''<'' then rbind (c_strcpy b tmp ''&lt;'') (\<lambda>b'. Inr (b', tmp + 3))
      else if c = CHR ''>'' then rbind (c_strcpy b tmp ''&gt;'') (\<lambda>b'. Inr (b', tmp + 3))
      else if c = CHR ''&'' then rbind (c_strcpy b tmp ''&amp;'') (\<lambda>b'. Inr (b', tmp + 4))
      else if c = CHR 0x22 then rbind (c_strcpy b tmp ''&quot;'') (\<lambda>b'. Inr (b', tmp + 5))
      else rbind (put_char b tmp c) (\<lambda>b'. Inr (b', tmp)))"

definition mangle_htmlescape :: "bool \<Rightarrow> string \<Rightarrow> string option res" where
  "mangle_htmlescape mem inp = escape_with (\<lambda>c. Inr (html_grow c)) html_put mem inp"

section \<open>__urlescape_str\<close>

text \<open>\<^verbatim>\<open>isalnum\<close> in the C locale, the one the daemon runs in.\<close>

definition c_isalnum :: "char \<Rightarrow> bool" where
  "c_isalnum c \<longleftrightarrow>
     (let n = (of_char c :: nat)
      in 48 \<le> n \<and> n \<le> 57 \<or> 65 \<le> n \<and> n \<le> 90 \<or> 97 \<le> n \<and> n \<le> 122)"

text \<open>
  The argument of \<^verbatim>\<open>isalnum\<close> is an \<^verbatim>\<open>int\<close>, which has to be the value of an \<^verbatim>\<open>unsigned char\<close> or of
  \<^verbatim>\<open>EOF\<close>, -1; for any other number the call is undefined (the tables of the library are read outside
  their bounds). A plain \<^verbatim>\<open>char\<close> is signed on the platforms the daemon runs on.
\<close>

definition signed_char :: "char \<Rightarrow> int" where
  "signed_char c = (let n = (of_char c :: nat) in if n < 128 then int n else int n - 256)"

definition isalnum_int :: "int \<Rightarrow> bool res" where
  "isalnum_int i =
     (if i = -1 then Inr False
      else if 0 \<le> i \<and> i \<le> 255 then Inr (c_isalnum (char_of (nat i)))
      else Inl OutOfBounds)"

definition hex_digits :: string where
  "hex_digits = ''0123456789ABCDEF''"

text \<open>The first loop holds the byte in a \<^verbatim>\<open>char\<close>, the second in an \<^verbatim>\<open>unsigned char\<close>.\<close>

definition url_grow :: "char \<Rightarrow> int res" where
  "url_grow c =
     rbind (isalnum_int (signed_char c)) (\<lambda>alnum.
       if alnum then Inr 0
       else if c \<in> {CHR '' '', CHR ''-'', CHR ''_'', CHR ''.'', CHR ''~''} then Inr 0
       else Inr 2)"

definition url_put :: "buf \<Rightarrow> nat \<Rightarrow> char \<Rightarrow> (buf \<times> nat) res" where
  "url_put b tmp c =
     (if c_isalnum c then rbind (put_char b tmp c) (\<lambda>b'. Inr (b', tmp))
      else if c = CHR '' '' then rbind (put_char b tmp (CHR ''+'')) (\<lambda>b'. Inr (b', tmp))
      else if c \<in> {CHR ''-'', CHR ''_'', CHR ''.'', CHR ''~''}
      then rbind (put_char b tmp c) (\<lambda>b'. Inr (b', tmp))
      else rbind (put_char b tmp (CHR ''%'')) (\<lambda>b1.
           rbind (put_char b1 (tmp + 1) (hex_digits ! (of_char c div 16))) (\<lambda>b2.
           rbind (put_char b2 (tmp + 2) (hex_digits ! (of_char c mod 16))) (\<lambda>b3.
           Inr (b3, tmp + 2)))))"

definition urlescape_str :: "bool \<Rightarrow> string \<Rightarrow> string res" where
  "urlescape_str mem inp =
     rbind (escape_with url_grow url_put mem inp) (\<lambda>out.
       case out of None \<Rightarrow> Inl AssertFailed | Some s \<Rightarrow> Inr s)"

section \<open>The contract of an escaper\<close>

text \<open>Decoding one coded character at a time; the bound is the length of the coded text.\<close>

fun decode_fuel :: "(string \<Rightarrow> (char \<times> string) option) \<Rightarrow> nat \<Rightarrow> string \<Rightarrow> string option" where
  "decode_fuel dec 0 s = (if s = [] then Some [] else None)"
| "decode_fuel dec (Suc n) s =
     (if s = [] then Some []
      else case dec s of None \<Rightarrow> None
           | Some (c, r) \<Rightarrow> map_option (Cons c) (decode_fuel dec n r))"

definition decode :: "(string \<Rightarrow> (char \<times> string) option) \<Rightarrow> string \<Rightarrow> string option" where
  "decode dec s = decode_fuel dec (length s) s"

text \<open>
  \<^verbatim>\<open>emit\<close> is what one input byte becomes. The first loop has to count its length for the bytes it can
  size at all, the second has to write it (and may write a NUL after it, which the next byte or the end
  overwrites), and one step of the decoder has to take it off the front of any text.
\<close>

locale escaper =
  fixes grow :: "char \<Rightarrow> int res"
    and put :: "buf \<Rightarrow> nat \<Rightarrow> char \<Rightarrow> (buf \<times> nat) res"
    and sized :: "char \<Rightarrow> bool"
    and emit :: "char \<Rightarrow> string"
    and dec :: "string \<Rightarrow> (char \<times> string) option"
  assumes grow_emit: "sized c \<Longrightarrow> grow c = Inr (int (length (emit c)) - 1)"
    and grow_fails: "\<not> sized c \<Longrightarrow> grow c = Inl OutOfBounds"
    and emit_length: "1 \<le> length (emit c) \<and> length (emit c) \<le> 6"
    and emit_cstring: "c \<noteq> NUL \<Longrightarrow> cstring (emit c)"
    and put_emit: "tmp + length (emit c) < length b \<Longrightarrow>
      \<exists>b'. put b tmp c = Inr (b', tmp + length (emit c) - 1) \<and> length b' = length b \<and>
           take (tmp + length (emit c)) b' = take tmp b @ map Some (emit c)"
    and dec_emit: "dec (emit c @ s) = Some (c, s)"
begin

lemma emit_nonempty: "emit c \<noteq> []"
proof
  assume "emit c = []"
  then have "length (emit c) = 0" by (simp only: list.size)
  with emit_length[of c] show False by linarith
qed

lemma text_bound: "length s \<le> length (concat (map emit s))" "length (concat (map emit s)) \<le> 6 * length s"
proof (induction s)
  case (Cons c s)
  { case 1 show ?case using Cons.IH(1) emit_length[of c] by simp }
  { case 2 show ?case using Cons.IH(2) emit_length[of c] by simp }
qed simp_all

text \<open>The first loop stops at a byte it cannot size; otherwise it counts what the second one writes.\<close>

lemma grow_loop_sum:
  "0 \<le> n \<Longrightarrow> n + int (length (concat (map emit s))) - int (length s) \<le> INT_MAX \<Longrightarrow>
   grow_loop grow s n = (if list_all sized s then Inr (n + int (length (concat (map emit s))) - int (length s))
     else Inl OutOfBounds)"
proof (induction s arbitrary: n)
  case Nil
  then show ?case by simp
next
  case (Cons c s)
  show ?case
  proof (cases "sized c")
    case True
    let ?d = "int (length (emit c)) - 1"
    have "1 \<le> int (length (emit c))" using emit_length[of c] by linarith
    then have d: "0 \<le> ?d" by linarith
    have "n + ?d + int (length (concat (map emit s))) - int (length s) \<le> INT_MAX"
      using Cons.prems(2) by simp
    with d Cons.prems(1) text_bound(1)[of s] have "int_add n ?d = Inr (n + ?d)"
      by (intro int_add_ok) linarith+
    with d show ?thesis using Cons.IH[of "n + ?d"] Cons.prems True by (simp add: grow_emit)
  next
    case False
    then show ?thesis by (simp add: grow_fails)
  qed
qed

lemma fill_loop_text:
  "tmp + length (concat (map emit s)) < length b \<Longrightarrow>
   \<exists>b'. fill_loop put s b tmp = Inr (b', tmp + length (concat (map emit s))) \<and> length b' = length b \<and>
        take (tmp + length (concat (map emit s))) b' = take tmp b @ map Some (concat (map emit s))"
proof (induction s arbitrary: b tmp)
  case Nil
  then show ?case by simp
next
  case (Cons c s)
  have "tmp + length (emit c) < length b" using Cons.prems by simp
  from put_emit[OF this] obtain b1 where b1: "put b tmp c = Inr (b1, tmp + length (emit c) - 1)"
    "length b1 = length b" "take (tmp + length (emit c)) b1 = take tmp b @ map Some (emit c)" by blast
  have pos: "Suc (tmp + length (emit c) - 1) = tmp + length (emit c)"
    using emit_nonempty[of c] by (cases "emit c") simp_all
  from Cons.IH[of "tmp + length (emit c)" b1] Cons.prems b1(2) obtain b' where b':
    "fill_loop put s b1 (tmp + length (emit c)) = Inr (b', tmp + length (emit c) + length (concat (map emit s)))"
    "length b' = length b"
    "take (tmp + length (emit c) + length (concat (map emit s))) b'
       = take (tmp + length (emit c)) b1 @ map Some (concat (map emit s))"
    by (auto simp: add.assoc)
  then show ?case using b1(1,3) pos by (auto simp: add.assoc)
qed

lemma cstring_text: "cstring s \<Longrightarrow> cstring (concat (map emit s))"
  using emit_cstring by (induction s) auto

text \<open>
  A text with a byte the first loop cannot size is not escaped. For any other text the buffer is exactly
  large enough: no write past it, and nothing of it is left unused.
\<close>

lemma escape_text:
  assumes "cstring s" and fits: "6 * int (length s) < INT_MAX"
  shows "escape_with grow put True s = (if list_all sized s then Inr (Some (concat (map emit s))) else Inl OutOfBounds)"
proof -
  let ?n = "length (concat (map emit s))"
  have n: "int ?n < INT_MAX" using text_bound(2)[of s] fits by linarith
  have len: "sint (of_nat (length s) :: u32) = int (length s)"
    using fits by (intro sint_of_nat32) simp
  have grow: "grow_loop grow s (int (length s)) = (if list_all sized s then Inr (int ?n) else Inl OutOfBounds)"
    using n grow_loop_sum[of "int (length s)" s] by simp
  show ?thesis
  proof (cases "list_all sized s")
    case False
    then show ?thesis by (simp add: escape_with_def len grow)
  next
    case True
    have "int_add (int ?n) 1 = Inr (int ?n + 1)" using n by simp
    moreover have "unat (word_of_int (int ?n + 1) :: u64) = Suc ?n"
    proof -
      have "uint (word_of_int (int ?n + 1) :: u64) = int ?n + 1"
        using n by (intro uint_of_int64) simp_all
      then show ?thesis by (simp add: unat_eq_nat_uint)
    qed
    moreover obtain b where b: "fill_loop put s (buf_alloc (Suc ?n)) 0 = Inr (b, ?n)"
      "length b = Suc ?n" "take ?n b = map Some (concat (map emit s))"
      using fill_loop_text[of 0 s "buf_alloc (Suc ?n)"] by auto
    moreover have "b[?n := Some NUL] = map Some (concat (map emit s)) @ Some NUL # []"
      using b(2,3) by (simp add: upd_conv_take_nth_drop)
    then have "rbind (put_char b ?n NUL) read_cstr = Inr (concat (map emit s))"
      using b(2) read_cstr_written[OF cstring_text[OF assms(1)], of "[]"]
      by (simp add: put_char_def)
    ultimately show ?thesis using True
      by (simp add: escape_with_def len grow put_char_def)
  qed
qed

lemma decode_fuel_text: "length s \<le> n \<Longrightarrow> decode_fuel dec n (concat (map emit s)) = Some s"
proof (induction s arbitrary: n)
  case Nil
  then show ?case by (cases n) simp_all
next
  case (Cons c s)
  then obtain m where "n = Suc m" "length s \<le> m" by (cases n) auto
  then show ?case using Cons.IH[of m] emit_nonempty[of c] by (simp add: dec_emit)
qed

lemma decode_text: "decode dec (concat (map emit s)) = Some s"
proof -
  have "length s \<le> length (concat (map emit s))" by (rule text_bound(1))
  then show ?thesis by (simp add: decode_def decode_fuel_text)
qed

end

section \<open>HTML escaping satisfies the contract\<close>

definition html_emit :: "char \<Rightarrow> string" where
  "html_emit c =
     (if c = CHR ''<'' then ''&lt;''
      else if c = CHR ''>'' then ''&gt;''
      else if c = CHR ''&'' then ''&amp;''
      else if c = CHR 0x22 then ''&quot;''
      else [c])"

definition html_escaped :: "string \<Rightarrow> string" where
  "html_escaped s = concat (map html_emit s)"

text \<open>Reading one character of HTML text back.\<close>

fun html_dec :: "string \<Rightarrow> (char \<times> string) option" where
  "html_dec [] = None"
| "html_dec (c # s) =
     (if take 4 (c # s) = ''&lt;'' then Some (CHR ''<'', drop 4 (c # s))
      else if take 4 (c # s) = ''&gt;'' then Some (CHR ''>'', drop 4 (c # s))
      else if take 5 (c # s) = ''&amp;'' then Some (CHR ''&'', drop 5 (c # s))
      else if take 6 (c # s) = ''&quot;'' then Some (CHR 0x22, drop 6 (c # s))
      else Some (c, s))"

lemma strcpy_step:
  assumes "tmp + length s < length b" "s \<noteq> []"
  shows "\<exists>b'. c_strcpy b tmp s = Inr b' \<and> length b' = length b \<and>
              take (tmp + length s) b' = take tmp b @ map Some s"
  using assms put_chars_ok[of tmp "s @ [NUL]" b] by (simp add: c_strcpy_def)

lemma put_char_step:
  "tmp < length b \<Longrightarrow> \<exists>b'. put_char b tmp c = Inr b' \<and> length b' = length b \<and>
     take (Suc tmp) b' = take tmp b @ [Some c]"
  by (simp add: put_char_def take_Suc_conv_app_nth)

interpretation html: escaper "\<lambda>c. Inr (html_grow c)" html_put "\<lambda>_. True" html_emit html_dec
proof unfold_locales
  fix c show "(Inr (html_grow c) :: int res) = Inr (int (length (html_emit c)) - 1)"
    by (simp add: html_emit_def html_grow_def)
next
  fix c :: char assume "\<not> True" then show "(Inr (html_grow c) :: int res) = Inl OutOfBounds" by simp
next
  fix c show "1 \<le> length (html_emit c) \<and> length (html_emit c) \<le> 6" by (simp add: html_emit_def)
next
  fix c :: char assume "c \<noteq> NUL" then show "cstring (html_emit c)" by (simp add: html_emit_def)
next
  fix tmp c and b :: buf
  assume room: "tmp + length (html_emit c) < length b"
  show "\<exists>b'. html_put b tmp c = Inr (b', tmp + length (html_emit c) - 1) \<and> length b' = length b \<and>
           take (tmp + length (html_emit c)) b' = take tmp b @ map Some (html_emit c)"
  proof (cases "html_emit c = [c]")
    case True
    then have "html_put b tmp c = rbind (put_char b tmp c) (\<lambda>b'. Inr (b', tmp))"
      by (auto simp: html_emit_def html_put_def split: if_splits)
    with True room put_char_step[of tmp b c] show ?thesis by auto
  next
    case False
    then have "html_put b tmp c =
        rbind (c_strcpy b tmp (html_emit c)) (\<lambda>b'. Inr (b', tmp + length (html_emit c) - 1))"
      by (auto simp: html_emit_def html_put_def numeral_eq_Suc)
    moreover have "html_emit c \<noteq> []" by (simp add: html_emit_def)
    ultimately show ?thesis using strcpy_step[OF room] by auto
  qed
next
  fix c s show "html_dec (html_emit c @ s) = Some (c, s)"
    by (cases s) (auto simp: html_emit_def)
qed

section \<open>URL escaping satisfies the contract\<close>

definition hex_char :: "nat \<Rightarrow> char" where
  "hex_char d = hex_digits ! d"

definition url_emit :: "char \<Rightarrow> string" where
  "url_emit c =
     (if c_isalnum c then [c]
      else if c = CHR '' '' then ''+''
      else if c \<in> {CHR ''-'', CHR ''_'', CHR ''.'', CHR ''~''} then [c]
      else [CHR ''%'', hex_char (of_char c div 16), hex_char (of_char c mod 16)])"

definition url_escaped :: "string \<Rightarrow> string" where
  "url_escaped s = concat (map url_emit s)"

definition hex_val :: "char \<Rightarrow> nat" where
  "hex_val c = (let n = of_char c in if n < 58 then n - 48 else n - 55)"

fun url_dec :: "string \<Rightarrow> (char \<times> string) option" where
  "url_dec [] = None"
| "url_dec (c # s) =
     (if c = CHR ''+'' then Some (CHR '' '', s)
      else if c = CHR ''%'' then
        (case s of x # y # r \<Rightarrow> Some (char_of (16 * hex_val x + hex_val y), r) | _ \<Rightarrow> None)
      else Some (c, s))"

lemma less_16_cases:
  "(d::nat) < 16 \<Longrightarrow> d \<in> {0, 1, 2, 3, 4, 5, 6, 7, 8, 9, 10, 11, 12, 13, 14, 15}"
  by (simp, presburger)

lemma hex_val_char: "d < 16 \<Longrightarrow> hex_val (hex_char d) = d"
  by (drule less_16_cases) (auto simp: hex_char_def hex_digits_def hex_val_def)

lemma hex_char_alnum: "d < 16 \<Longrightarrow> c_isalnum (hex_char d) \<and> hex_char d \<noteq> NUL"
  by (drule less_16_cases) (auto simp: hex_char_def hex_digits_def c_isalnum_def)

lemma of_char_less_256: "(of_char (c::char) :: nat) < 256"
  by (cases c) simp

lemma nibbles: "(of_char (c::char) :: nat) div 16 < 16" "(of_char (c::char) :: nat) mod 16 < 16"
  using of_char_less_256[of c] by (simp_all add: less_mult_imp_div_less)

text \<open>The bytes the first loop can size: ASCII, and the byte that reads as \<^verbatim>\<open>EOF\<close>.\<close>

definition url_sized :: "char \<Rightarrow> bool" where
  "url_sized c \<longleftrightarrow> (of_char c :: nat) < 128 \<or> (of_char c :: nat) = 255"

lemma isalnum_signed: "isalnum_int (signed_char c) = (if url_sized c then Inr (c_isalnum c) else Inl OutOfBounds)"
proof -
  have "(of_char c :: nat) < 128 \<Longrightarrow> isalnum_int (int (of_char c :: nat)) = Inr (c_isalnum c)"
    by (simp add: isalnum_int_def)
  then show ?thesis
    using of_char_less_256[of c] zless_iff_Suc_zadd[of "int (of_char c)" 256]
    by (auto simp: signed_char_def url_sized_def isalnum_int_def c_isalnum_def Let_def simp del: of_nat_of_char)
qed

interpretation url: escaper url_grow url_put url_sized url_emit url_dec
proof unfold_locales
  fix c assume "url_sized c" then show "url_grow c = Inr (int (length (url_emit c)) - 1)"
    by (simp add: url_emit_def url_grow_def isalnum_signed)
next
  fix c assume "\<not> url_sized c" then show "url_grow c = Inl OutOfBounds"
    by (simp add: url_grow_def isalnum_signed)
next
  fix c show "1 \<le> length (url_emit c) \<and> length (url_emit c) \<le> 6" by (simp add: url_emit_def)
next
  fix c :: char assume "c \<noteq> NUL"
  then show "cstring (url_emit c)"
    using hex_char_alnum[OF nibbles(1)[of c]] hex_char_alnum[OF nibbles(2)[of c]]
    by (simp add: url_emit_def)
next
  fix tmp c and b :: buf
  assume room: "tmp + length (url_emit c) < length b"
  show "\<exists>b'. url_put b tmp c = Inr (b', tmp + length (url_emit c) - 1) \<and> length b' = length b \<and>
           take (tmp + length (url_emit c)) b' = take tmp b @ map Some (url_emit c)"
  proof (cases "length (url_emit c) = 1")
    case True
    then obtain x where "url_emit c = [x]" "url_put b tmp c = rbind (put_char b tmp x) (\<lambda>b'. Inr (b', tmp))"
      by (auto simp: url_emit_def url_put_def split: if_splits)
    with room put_char_step[of tmp b x] show ?thesis by auto
  next
    case False
    then have "url_put b tmp c = rbind (put_chars b tmp (url_emit c)) (\<lambda>b'. Inr (b', tmp + 2))"
      "length (url_emit c) = 3"
      by (auto simp: url_emit_def url_put_def hex_char_def rbind_assoc split: if_splits)
    with room put_chars_ok[of tmp "url_emit c" b] show ?thesis by simp
  qed
next
  fix c s
  have "\<not> c_isalnum (CHR ''+'')" "\<not> c_isalnum (CHR ''%'')" by (simp_all add: c_isalnum_def)
  then show "url_dec (url_emit c @ s) = Some (c, s)"
    using hex_val_char[OF nibbles(1)[of c]] hex_val_char[OF nibbles(2)[of c]]
    by (cases "c_isalnum c") (auto simp: url_emit_def)
qed

section \<open>Properties\<close>

text \<open>The escaped text holds no angle bracket and no double quote, and decoding its entities gives the input.\<close>

lemma html_escaped_safe:
  "set (html_escaped s) \<inter> {CHR ''<'', CHR ''>'', CHR 0x22} = {}" "decode html_dec (html_escaped s) = Some s"
proof -
  show "set (html_escaped s) \<inter> {CHR ''<'', CHR ''>'', CHR 0x22} = {}"
    by (induction s) (auto simp: html_escaped_def html_emit_def)
  show "decode html_dec (html_escaped s) = Some s"
    unfolding html_escaped_def by (rule html.decode_text)
qed

text \<open>
  C11. \<^verbatim>\<open>mangle_htmlescape\<close> is memory safe and exact for every C string short enough that its
  \<^verbatim>\<open>int\<close> length cannot overflow: the second loop stays inside the buffer the first one sized, the result
  holds no angle bracket and no double quote, and decoding its entities gives the input back.
\<close>

theorem mangle_htmlescape_correct:
  assumes "cstring s" "6 * int (length s) < INT_MAX"
  shows "\<exists>t. mangle_htmlescape True s = Inr (Some t) \<and> set t \<inter> {CHR ''<'', CHR ''>'', CHR 0x22} = {} \<and>
     decode html_dec t = Some s"
proof (intro exI conjI)
  show "mangle_htmlescape True s = Inr (Some (html_escaped s))"
    using html.escape_text[OF assms] by (simp add: mangle_htmlescape_def html_escaped_def list_all_iff)
qed (rule html_escaped_safe)+

lemma mangle_htmlescape_correct_witness:
  "cstring ''a<b&c'' \<and> (\<exists>t. mangle_htmlescape True ''a<b&c'' = Inr (Some t) \<and> decode html_dec t = Some ''a<b&c'')"
  using mangle_htmlescape_correct[of "''a<b&c''"] by auto

text \<open>
  C12. \<^verbatim>\<open>__urlescape_str\<close>, under the same bound on the length. On a text with a byte from 0x80 to 0xFE
  the first loop calls \<^verbatim>\<open>isalnum\<close> with a negative number, which is undefined: nothing is promised for
  it. On every other text the second loop stays inside the buffer the first one sized, every byte of the
  result is a letter, a digit or one of the five characters plus, minus, underscore, dot, tilde, or a percent
  sign, and percent-decoding gives the input back.
\<close>

theorem urlescape_str_correct:
  assumes "cstring s" "6 * int (length s) < INT_MAX"
  shows "if \<exists>c\<in>set s. 128 \<le> (of_char c :: nat) \<and> of_char c \<noteq> (255 :: nat)
    then urlescape_str True s = Inl OutOfBounds
    else \<exists>t. urlescape_str True s = Inr t \<and> decode url_dec t = Some s \<and>
     (\<forall>c\<in>set t. c_isalnum c \<or> c \<in> {CHR ''+'', CHR ''-'', CHR ''_'', CHR ''.'', CHR ''~'', CHR ''%''})"
proof -
  have "(\<exists>c\<in>set s. 128 \<le> (of_char c :: nat) \<and> of_char c \<noteq> (255 :: nat)) \<longleftrightarrow> \<not> list_all url_sized s"
    by (auto simp: list_all_iff url_sized_def not_less)
  moreover have "urlescape_str True s = (if list_all url_sized s then Inr (url_escaped s) else Inl OutOfBounds)"
    using url.escape_text[OF assms] by (simp add: urlescape_str_def url_escaped_def)
  moreover have "decode url_dec (url_escaped s) = Some s"
    unfolding url_escaped_def by (rule url.decode_text)
  moreover have "\<forall>c\<in>set (url_escaped s). c_isalnum c \<or> c \<in> {CHR ''+'', CHR ''-'', CHR ''_'', CHR ''.'', CHR ''~'', CHR ''%''}"
    unfolding url_escaped_def
    by (auto simp: url_emit_def hex_char_alnum nibbles split: if_splits)
  ultimately show ?thesis by simp
qed

lemma urlescape_str_correct_witness:
  "(\<exists>t. urlescape_str True ''a b/c'' = Inr t \<and> decode url_dec t = Some ''a b/c'') \<and>
   urlescape_str True [CHR ''a'', CHR 0xC3, CHR 0xA9] = Inl OutOfBounds"
  using urlescape_str_correct[of "''a b/c''"] urlescape_str_correct[of "[CHR ''a'', CHR 0xC3, CHR 0xA9]"] by auto

end
