(* ===== verification/Static.thy ===== *)
theory Static
  imports Utils
begin

text \<open>
  The whitelist of URIs in \<^verbatim>\<open>static.c\<close>: which request paths are static files, which one is the
  dynamic page, and which are refused. The handler \<^verbatim>\<open>blahg_static\<close> is with the other page handlers.
\<close>

datatype uri_type = URI_DYNAMIC | URI_STATIC | URI_BAD

record uri_info =
  uri :: "string option"
  content_type :: "string option"
  uri_kind :: uri_type

definition safe_uris :: "uri_info list" where
  "safe_uris =
    [ \<lparr>uri = Some ''/'', content_type = None, uri_kind = URI_DYNAMIC\<rparr>,
      \<lparr>uri = Some ''/bug.png'', content_type = Some ''image/png'', uri_kind = URI_STATIC\<rparr>,
      \<lparr>uri = Some ''/favicon.ico'', content_type = Some ''image/png'', uri_kind = URI_STATIC\<rparr>,
      \<lparr>uri = Some ''/style.css'', content_type = Some ''text/css'', uri_kind = URI_STATIC\<rparr>,
      \<lparr>uri = Some ''/wiki.png'', content_type = Some ''image/png'', uri_kind = URI_STATIC\<rparr>,
      \<lparr>uri = None, content_type = None, uri_kind = URI_BAD\<rparr> ]"

text \<open>The loop runs up to the entry whose \<^verbatim>\<open>uri\<close> is NULL.\<close>

fun find_uri :: "uri_info list \<Rightarrow> string \<Rightarrow> uri_info option" where
  "find_uri [] path = None"
| "find_uri (i # is) path =
     (case uri i of None \<Rightarrow> None
      | Some u \<Rightarrow> if u = path then Some i else find_uri is path)"

definition get_uri_info :: "string option \<Rightarrow> uri_info option" where
  "get_uri_info path =
     (case path of None \<Rightarrow> None
      | Some p \<Rightarrow> if hasdotdot p then None else find_uri safe_uris p)"

definition get_uri_type :: "string option \<Rightarrow> uri_type" where
  "get_uri_type path =
     (case get_uri_info path of None \<Rightarrow> URI_BAD | Some info \<Rightarrow> uri_kind info)"

lemma find_uri_Some: "find_uri is p = Some i \<Longrightarrow> i \<in> set is \<and> uri i = Some p"
  by (induction "is" p rule: find_uri.induct) (auto split: option.splits if_splits)

lemma get_uri_info_Some:
  "get_uri_info p = Some i \<Longrightarrow> \<exists>q. p = Some q \<and> uri i = Some q \<and> i \<in> set safe_uris \<and> \<not> hasdotdot q"
  by (auto simp: get_uri_info_def split: option.splits if_splits dest: find_uri_Some)

definition static_paths :: "string list" where
  "static_paths = [''/bug.png'', ''/favicon.ico'', ''/style.css'', ''/wiki.png'']"

lemma get_uri_type_eq:
  "get_uri_type p =
     (if p = Some ''/'' then URI_DYNAMIC
      else if p \<in> Some ` set static_paths then URI_STATIC
      else URI_BAD)"
  by (cases p)
     (auto simp: get_uri_type_def get_uri_info_def safe_uris_def static_paths_def hasdotdot_def)

section \<open>Properties\<close>

text \<open>
  The whitelist decides every request path: exactly the root path is dynamic, exactly the four
  listed files are static, and everything else, NULL and any path with a parent directory component
  included, is refused.
\<close>

theorem get_uri_type_whitelist:
  "get_uri_type p =
     (if p = Some ''/'' then URI_DYNAMIC
      else if p \<in> Some ` set static_paths then URI_STATIC
      else URI_BAD)"
  by (rule get_uri_type_eq)

text \<open>
  Whatever the whitelist lets through to the file system cannot leave the web directory and can be
  served: the path of a static URI starts with a slash, has no parent directory component, and its entry
  carries a content type.
\<close>

theorem static_uri_safe:
  assumes "get_uri_type p = URI_STATIC"
  shows "\<exists>q i. p = Some (CHR ''/'' # q) \<and> ''..'' \<notin> set (components q) \<and>
     get_uri_info p = Some i \<and> content_type i \<noteq> None"
proof -
  from assms have "p \<in> Some ` set static_paths"
    by (simp add: get_uri_type_eq split: if_splits)
  then show ?thesis
    by (auto simp: static_paths_def get_uri_info_def safe_uris_def hasdotdot_def)
qed

lemma static_uri_safe_witness:
  "get_uri_type (Some ''/wiki.png'') = URI_STATIC \<and>
   (\<exists>q i. Some ''/wiki.png'' = Some (CHR ''/'' # q) \<and> ''..'' \<notin> set (components q) \<and>
     get_uri_info (Some ''/wiki.png'') = Some i \<and> content_type i \<noteq> None)"
proof -
  have "get_uri_type (Some ''/wiki.png'') = URI_STATIC"
    by (simp add: get_uri_type_def get_uri_info_def safe_uris_def hasdotdot_def)
  then show ?thesis using static_uri_safe by blast
qed

end
