(* ===== verification/Libjeffpc.thy ===== *)
theory Libjeffpc
  imports Prelude
begin

text \<open>
  What the program sees of libjeffpc, which is not part of the repository. Its tagged values are a
  datatype with the library's tags, because the program switches over the tags and reads the fields
  itself. Its name-value lists are opaque: they are a type parameter, and the functions on them are the
  fields of a record that every definition using them takes as an argument. \<^verbatim>\<open>nvl_laws\<close> states what
  the program relies on, and \<^verbatim>\<open>alist_nvl\<close> is a concrete instance used by the witnesses.
\<close>

section \<open>Values\<close>

text \<open>
  Strings and symbols are reference counted and immutable; the model keeps their text. A cons cell
  holds two pointers that may be NULL, the empty list.
\<close>

datatype 'n val =
    VT_NULL
  | VT_BOOL bool
  | VT_INT u64
  | VT_STR string
  | VT_SYM string
  | VT_CHAR u64
  | VT_BLOB string
  | VT_CONS "'n val option" "'n val option"
  | VT_ARRAY "'n val list"
  | VT_NVL 'n

text \<open>Error numbers of the C library the program compares against.\<close>

definition ENOENT :: int where "ENOENT = 2"
definition ENOMEM :: int where "ENOMEM = 12"
definition EEXIST :: int where "EEXIST = 17"

section \<open>Name-value lists\<close>

text \<open>
  The fields stand for the library functions of the same names. A setter gives an error number (0 for
  success) and the list after the call; a lookup gives an error number or the value of the pair found.
  \<^verbatim>\<open>nvl_alloc\<close> is NULL when the allocation fails.
\<close>

record 'n nvl_ops =
  nvl_alloc :: "'n option"
  nvl_set_str :: "'n \<Rightarrow> string \<Rightarrow> string \<Rightarrow> int \<times> 'n"
  nvl_set_int :: "'n \<Rightarrow> string \<Rightarrow> u64 \<Rightarrow> int \<times> 'n"
  nvl_set_array :: "'n \<Rightarrow> string \<Rightarrow> 'n val list \<Rightarrow> int \<times> 'n"
  nvl_lookup :: "'n \<Rightarrow> string \<Rightarrow> int + 'n val"
  nvl_merge :: "'n \<Rightarrow> 'n \<Rightarrow> int \<times> 'n"

text \<open>
  The contract, with \<open>A\<close> the map a list stands for: allocation gives an empty list, the setters
  succeed and overwrite one name, lookup reads the map, and merging copies every pair of the second
  list over the first.
\<close>

definition nvl_laws :: "'n nvl_ops \<Rightarrow> ('n \<Rightarrow> string \<Rightarrow> 'n val option) \<Rightarrow> bool" where
  "nvl_laws N A \<longleftrightarrow>
     (\<exists>e. nvl_alloc N = Some e \<and> A e = Map.empty) \<and>
     (\<forall>l k s. fst (nvl_set_str N l k s) = 0 \<and> A (snd (nvl_set_str N l k s)) = (A l)(k \<mapsto> VT_STR s)) \<and>
     (\<forall>l k i. fst (nvl_set_int N l k i) = 0 \<and> A (snd (nvl_set_int N l k i)) = (A l)(k \<mapsto> VT_INT i)) \<and>
     (\<forall>l k v. fst (nvl_set_array N l k v) = 0 \<and> A (snd (nvl_set_array N l k v)) = (A l)(k \<mapsto> VT_ARRAY v)) \<and>
     (\<forall>l k. nvl_lookup N l k = (case A l k of None \<Rightarrow> Inl (- ENOENT) | Some v \<Rightarrow> Inr v)) \<and>
     (\<forall>l m. fst (nvl_merge N l m) = 0 \<and> A (snd (nvl_merge N l m)) = A l ++ A m)"

section \<open>A concrete instance\<close>

datatype alist_nvlist = NVList "(string \<times> alist_nvlist val) list"

fun nvl_pairs :: "alist_nvlist \<Rightarrow> (string \<times> alist_nvlist val) list" where
  "nvl_pairs (NVList ps) = ps"

definition alist_map :: "alist_nvlist \<Rightarrow> string \<Rightarrow> alist_nvlist val option" where
  "alist_map l = map_of (nvl_pairs l)"

definition alist_set :: "alist_nvlist \<Rightarrow> string \<Rightarrow> alist_nvlist val \<Rightarrow> int \<times> alist_nvlist" where
  "alist_set l k v = (0, NVList ((k, v) # nvl_pairs l))"

definition alist_nvl :: "alist_nvlist nvl_ops" where
  "alist_nvl =
    \<lparr>nvl_alloc = Some (NVList []),
     nvl_set_str = (\<lambda>l k s. alist_set l k (VT_STR s)),
     nvl_set_int = (\<lambda>l k i. alist_set l k (VT_INT i)),
     nvl_set_array = (\<lambda>l k v. alist_set l k (VT_ARRAY v)),
     nvl_lookup = (\<lambda>l k. case map_of (nvl_pairs l) k of None \<Rightarrow> Inl (- ENOENT) | Some v \<Rightarrow> Inr v),
     nvl_merge = (\<lambda>l m. (0, NVList (nvl_pairs m @ nvl_pairs l)))\<rparr>"

lemma alist_nvl_laws: "nvl_laws alist_nvl alist_map"
  by (auto simp: nvl_laws_def alist_nvl_def alist_set_def alist_map_def fun_eq_iff)

end
