(* ===== verification/Vars.thy ===== *)
theory Vars
  imports Libjeffpc
begin

text \<open>
  The template variables of a request (\<^verbatim>\<open>vars.c\<close>): a fixed array of scopes, each a name-value list,
  of which the first \<^verbatim>\<open>cur + 1\<close> are live. The abstract view is a stack of maps. The locale
  \<^verbatim>\<open>scoped\<close> is what the template engine relies on: a scope pushed, written to and popped again
  leaves the scopes below it alone.
\<close>

section \<open>The operations\<close>

text \<open>The value \<^verbatim>\<open>config.cmake\<close> gives \<^verbatim>\<open>VAR_MAX_SCOPES\<close>.\<close>

definition VAR_MAX_SCOPES :: nat where
  "VAR_MAX_SCOPES = 10"

text \<open>A slot that holds no live list (never set, or freed) is \<^verbatim>\<open>None\<close>.\<close>

record 'n vars =
  scopes :: "'n option list"
  cur :: int

definition read_scope :: "'n vars \<Rightarrow> int \<Rightarrow> 'n res" where
  "read_scope v i =
     (if i < 0 \<or> i \<ge> int (length (scopes v)) then Inl OutOfBounds
      else case scopes v ! nat i of None \<Rightarrow> Inl UseAfterFree | Some l \<Rightarrow> Inr l)"

definition write_scope :: "'n vars \<Rightarrow> int \<Rightarrow> 'n option \<Rightarrow> 'n vars res" where
  "write_scope v i l =
     (if i < 0 \<or> i \<ge> int (length (scopes v)) then Inl OutOfBounds
      else Inr (v\<lparr>scopes := (scopes v)[nat i := l]\<rparr>))"

definition init_scope :: "'n nvl_ops \<Rightarrow> 'n vars \<Rightarrow> 'n vars res" where
  "init_scope N v =
     rbind (write_scope v (cur v) (nvl_alloc N)) (\<lambda>v'.
     rbind (assert_that (nvl_alloc N \<noteq> None)) (\<lambda>_. Inr v'))"

definition free_scope :: "'n vars \<Rightarrow> int \<Rightarrow> 'n vars res" where
  "free_scope v i =
     (case read_scope v i of Inl UseAfterFree \<Rightarrow> Inl DoubleFree | Inl f \<Rightarrow> Inl f
      | Inr l \<Rightarrow> write_scope v i None)"

definition vars_init :: "'n nvl_ops \<Rightarrow> 'n vars \<Rightarrow> 'n vars res" where
  "vars_init N v = init_scope N (v\<lparr>cur := 0\<rparr>)"

fun free_upto :: "'n vars \<Rightarrow> nat \<Rightarrow> nat \<Rightarrow> 'n vars res" where
  "free_upto v i 0 = Inr v"
| "free_upto v i (Suc n) = rbind (free_scope v (int i)) (\<lambda>v'. free_upto v' (Suc i) n)"

definition vars_destroy :: "'n vars \<Rightarrow> 'n vars res" where
  "vars_destroy v = free_upto v 0 (nat (cur v + 1))"

definition vars_scope_push :: "'n nvl_ops \<Rightarrow> 'n vars \<Rightarrow> 'n vars res" where
  "vars_scope_push N v =
     (let v' = v\<lparr>cur := cur v + 1\<rparr>
      in rbind (assert_that (cur v' < int VAR_MAX_SCOPES)) (\<lambda>_. init_scope N v'))"

definition vars_scope_pop :: "'n nvl_ops \<Rightarrow> 'n vars \<Rightarrow> 'n vars res" where
  "vars_scope_pop N v =
     (let v1 = v\<lparr>cur := cur v - 1\<rparr>
      in rbind (free_scope v1 (cur v1 + 1)) (\<lambda>v2.
         rbind (if cur v2 < 0 then vars_scope_push N v2 else Inr v2) (\<lambda>v3.
         rbind (assert_that (0 \<le> cur v3)) (\<lambda>_. Inr v3))))"

text \<open>The setters the macros \<^verbatim>\<open>WRAP_SET1\<close> and \<^verbatim>\<open>WRAP_SET2\<close> generate.\<close>

definition wrap_set :: "('n \<Rightarrow> int \<times> 'n) \<Rightarrow> 'n vars \<Rightarrow> 'n vars res" where
  "wrap_set nvlfxn v =
     rbind (read_scope v (cur v)) (\<lambda>l.
       let (ret, l') = nvlfxn l
       in rbind (write_scope v (cur v) (Some l')) (\<lambda>v'.
          rbind (assert_that (ret = 0)) (\<lambda>_. Inr v')))"

definition vars_set_str :: "'n nvl_ops \<Rightarrow> 'n vars \<Rightarrow> string \<Rightarrow> string \<Rightarrow> 'n vars res" where
  "vars_set_str N v name s = wrap_set (\<lambda>l. nvl_set_str N l name s) v"

definition vars_set_int :: "'n nvl_ops \<Rightarrow> 'n vars \<Rightarrow> string \<Rightarrow> u64 \<Rightarrow> 'n vars res" where
  "vars_set_int N v name i = wrap_set (\<lambda>l. nvl_set_int N l name i) v"

definition vars_set_array :: "'n nvl_ops \<Rightarrow> 'n vars \<Rightarrow> string \<Rightarrow> 'n val list \<Rightarrow> 'n vars res" where
  "vars_set_array N v name xs = wrap_set (\<lambda>l. nvl_set_array N l name xs) v"

definition vars_merge :: "'n nvl_ops \<Rightarrow> 'n vars \<Rightarrow> 'n \<Rightarrow> 'n vars res" where
  "vars_merge N v items = wrap_set (\<lambda>l. nvl_merge N l items) v"

text \<open>The search from the innermost scope outwards; the argument is the number of scopes left.\<close>

fun lookup_down :: "'n nvl_ops \<Rightarrow> 'n vars \<Rightarrow> nat \<Rightarrow> string \<Rightarrow> 'n val option res" where
  "lookup_down N v 0 name = Inr None"
| "lookup_down N v (Suc n) name =
     rbind (read_scope v (int n)) (\<lambda>l.
       case nvl_lookup N l name of Inr x \<Rightarrow> Inr (Some x) | Inl _ \<Rightarrow> lookup_down N v n name)"

definition vars_lookup :: "'n nvl_ops \<Rightarrow> 'n vars \<Rightarrow> string \<Rightarrow> 'n val option res" where
  "vars_lookup N v name = lookup_down N v (nat (cur v + 1)) name"

definition vars_lookup_str :: "'n nvl_ops \<Rightarrow> 'n vars \<Rightarrow> string \<Rightarrow> string res" where
  "vars_lookup_str N v name =
     rbind (vars_lookup N v name) (\<lambda>p.
       case p of Some (VT_STR s) \<Rightarrow> Inr s | _ \<Rightarrow> Inl AssertFailed)"

definition vars_lookup_int :: "'n nvl_ops \<Rightarrow> 'n vars \<Rightarrow> string \<Rightarrow> u64 res" where
  "vars_lookup_int N v name =
     rbind (vars_lookup N v name) (\<lambda>p.
       case p of Some (VT_INT i) \<Rightarrow> Inr i | _ \<Rightarrow> Inl AssertFailed)"

section \<open>Well-formed variables and their abstract view\<close>

definition vars_wf :: "'n vars \<Rightarrow> bool" where
  "vars_wf v \<longleftrightarrow> length (scopes v) = VAR_MAX_SCOPES \<and> 0 \<le> cur v \<and> cur v < int VAR_MAX_SCOPES \<and>
     (\<forall>i \<le> nat (cur v). scopes v ! i \<noteq> None)"

definition live :: "'n vars \<Rightarrow> 'n option list" where
  "live v = take (nat (cur v + 1)) (scopes v)"

type_synonym 'n env_stack = "(string \<Rightarrow> 'n val option) list"

text \<open>The live scopes as maps, the innermost first.\<close>

definition vars_abs :: "('n \<Rightarrow> string \<Rightarrow> 'n val option) \<Rightarrow> 'n vars \<Rightarrow> 'n env_stack" where
  "vars_abs A v = rev (map (\<lambda>l. A (the l)) (live v))"

fun env_lookup :: "'n env_stack \<Rightarrow> string \<Rightarrow> 'n val option" where
  "env_lookup [] k = None"
| "env_lookup (e # es) k = (case e k of None \<Rightarrow> env_lookup es k | Some x \<Rightarrow> Some x)"

text \<open>What one assignment does to the current scope.\<close>

datatype 'n update = SetStr string string | SetInt string u64 | SetArray string "'n val list" | Merge 'n

fun vars_update :: "'n nvl_ops \<Rightarrow> 'n update \<Rightarrow> 'n vars \<Rightarrow> 'n vars res" where
  "vars_update N (SetStr k s) v = vars_set_str N v k s"
| "vars_update N (SetInt k i) v = vars_set_int N v k i"
| "vars_update N (SetArray k xs) v = vars_set_array N v k xs"
| "vars_update N (Merge l) v = vars_merge N v l"

fun env_update :: "('n \<Rightarrow> string \<Rightarrow> 'n val option) \<Rightarrow> 'n update \<Rightarrow> 'n env_stack \<Rightarrow> 'n env_stack" where
  "env_update A (SetStr k s) (e # es) = e(k \<mapsto> VT_STR s) # es"
| "env_update A (SetInt k i) (e # es) = e(k \<mapsto> VT_INT i) # es"
| "env_update A (SetArray k xs) (e # es) = e(k \<mapsto> VT_ARRAY xs) # es"
| "env_update A (Merge l) (e # es) = (e ++ A l) # es"
| "env_update A u [] = []"

section \<open>The contract the template engine uses\<close>

locale scoped =
  fixes view :: "'v \<Rightarrow> 'a list"
    and good :: "'v \<Rightarrow> bool"
    and push :: "'v \<Rightarrow> 'v res"
    and pop :: "'v \<Rightarrow> 'v res"
    and upd :: "'u \<Rightarrow> 'v \<Rightarrow> 'v res"
  assumes good_view: "good v \<Longrightarrow> view v \<noteq> []"
    and push_view: "good v \<Longrightarrow> push v = Inr w \<Longrightarrow> good w \<and> (\<exists>x. view w = view v @ [x])"
    and upd_view: "good v \<Longrightarrow> upd u v = Inr w \<Longrightarrow> good w \<and> (\<exists>x. view w = butlast (view v) @ [x])"
    and pop_view: "good v \<Longrightarrow> 2 \<le> length (view v) \<Longrightarrow> pop v = Inr w \<Longrightarrow> good w \<and> view w = butlast (view v)"
begin

text \<open>Push, write, run something that keeps the live scopes, pop: the live scopes are as before.\<close>

lemma bracket:
  assumes "good v" "push v = Inr v1" "upd u v1 = Inr v2"
    and "good v3" "view v3 = view v2" "pop v3 = Inr w"
  shows "good w \<and> view w = view v"
proof -
  from push_view[OF assms(1,2)] obtain x where x: "good v1" "view v1 = view v @ [x]" by blast
  from upd_view[OF x(1) assms(3)] x(2) obtain y where y: "view v2 = view v @ [y]" by auto
  moreover have "view v \<noteq> []" using assms(1) by (rule good_view)
  ultimately have "2 \<le> length (view v3)" using assms(5) by (cases "view v") auto
  from pop_view[OF assms(4) this assms(6)] y assms(5) show ?thesis by simp
qed

end

lemma live_nonempty: "vars_wf v \<Longrightarrow> live v \<noteq> []"
  by (auto simp: vars_wf_def live_def VAR_MAX_SCOPES_def)

lemma length_live: "vars_wf v \<Longrightarrow> length (live v) = nat (cur v) + 1"
  by (auto simp: vars_wf_def live_def nat_add_distrib)

lemma live_last:
  assumes "vars_wf v"
  shows "live v = take (nat (cur v)) (scopes v) @ [scopes v ! nat (cur v)]"
proof -
  have "nat (cur v + 1) = Suc (nat (cur v))" using assms by (simp add: vars_wf_def nat_add_distrib)
  moreover have "nat (cur v) < length (scopes v)" using assms by (auto simp: vars_wf_def)
  ultimately show ?thesis by (simp add: live_def take_Suc_conv_app_nth)
qed

lemma read_scope_live:
  "vars_wf v \<Longrightarrow> i \<le> nat (cur v) \<Longrightarrow> read_scope v (int i) = Inr (the (scopes v ! i))"
  by (auto simp: read_scope_def vars_wf_def split: option.splits)

lemma read_scope_cur: "vars_wf v \<Longrightarrow> read_scope v (cur v) = Inr (the (scopes v ! nat (cur v)))"
  using read_scope_live[of v "nat (cur v)"] by (simp add: vars_wf_def)

lemma push_ok:
  assumes "vars_wf v" "vars_scope_push N v = Inr w"
  shows "\<exists>e. nvl_alloc N = Some e \<and> cur v + 1 < int VAR_MAX_SCOPES \<and>
     w = v\<lparr>scopes := (scopes v)[nat (cur v + 1) := Some e], cur := cur v + 1\<rparr>"
  using assms
  by (auto simp: vars_scope_push_def init_scope_def write_scope_def rbind_eq_Inr Let_def split: if_splits)

lemma push_wf:
  assumes "vars_wf v" "vars_scope_push N v = Inr w"
  shows "vars_wf w \<and> (\<exists>e. nvl_alloc N = Some e \<and> live w = live v @ [Some e])"
proof -
  from push_ok[OF assms] obtain e where e: "nvl_alloc N = Some e" "cur v + 1 < int VAR_MAX_SCOPES"
    "w = v\<lparr>scopes := (scopes v)[nat (cur v + 1) := Some e], cur := cur v + 1\<rparr>" by blast
  have n: "nat (cur v + 1) = Suc (nat (cur v))" using assms(1) by (simp add: vars_wf_def nat_add_distrib)
  have wf: "vars_wf w"
    using assms(1) e(2,3) n by (auto simp: vars_wf_def nth_list_update le_Suc_eq)
  with live_last[OF wf] e n assms(1) show ?thesis
    by (auto simp: live_def vars_wf_def)
qed

lemma wrap_set_ok:
  assumes "vars_wf v"
  shows "wrap_set f v =
    (let (ret, l') = f (the (scopes v ! nat (cur v)))
     in if ret = 0 then Inr (v\<lparr>scopes := (scopes v)[nat (cur v) := Some l']\<rparr>) else Inl AssertFailed)"
  using assms read_scope_cur[OF assms]
  by (auto simp: wrap_set_def write_scope_def vars_wf_def Let_def assert_that_def split: prod.splits)

lemma wrap_set_wf:
  assumes wf: "vars_wf v" and set: "wrap_set f v = Inr w"
  shows "vars_wf w \<and> (\<exists>x. live w = butlast (live v) @ [x])"
proof -
  obtain l' where w: "w = v\<lparr>scopes := (scopes v)[nat (cur v) := Some l']\<rparr>"
    using set unfolding wrap_set_ok[OF wf] by (auto simp: Let_def split: prod.splits if_splits)
  have wf': "vars_wf w" using wf w by (auto simp: vars_wf_def nth_list_update)
  have "live w = take (nat (cur v)) (scopes v) @ [Some l']"
    using live_last[OF wf'] w wf by (auto simp: vars_wf_def)
  with wf' live_last[OF wf] show ?thesis by auto
qed

lemma pop_ok:
  assumes "vars_wf v" "0 < cur v"
  shows "vars_scope_pop N v = Inr (v\<lparr>scopes := (scopes v)[nat (cur v) := None], cur := cur v - 1\<rparr>)"
proof -
  have "scopes v ! nat (cur v) \<noteq> None" using assms(1) by (auto simp: vars_wf_def)
  then obtain l where "scopes v ! nat (cur v) = Some l" by blast
  with assms show ?thesis
    by (auto simp: vars_scope_pop_def free_scope_def read_scope_def write_scope_def vars_wf_def Let_def)
qed

lemma pop_wf:
  assumes wf: "vars_wf v" and c: "0 < cur v" and pop: "vars_scope_pop N v = Inr w"
  shows "vars_wf w \<and> live w = butlast (live v)"
proof -
  have w: "w = v\<lparr>scopes := (scopes v)[nat (cur v) := None], cur := cur v - 1\<rparr>"
    using pop_ok[OF wf c, of N] pop by simp
  have "vars_wf w" using wf c w by (auto simp: vars_wf_def nth_list_update)
  moreover have "live w = butlast (live v)"
    using live_last[OF wf] w c by (simp add: live_def)
  ultimately show ?thesis ..
qed

lemma vars_update_wrap: "\<exists>f. vars_update N u v = wrap_set f v"
  by (cases u) (auto simp: vars_set_str_def vars_set_int_def vars_set_array_def vars_merge_def)

interpretation scoped_vars: scoped live vars_wf "vars_scope_push N" "vars_scope_pop N" "vars_update N" for N
proof unfold_locales
  fix v :: "'a vars" assume "vars_wf v" then show "live v \<noteq> []" by (rule live_nonempty)
next
  fix v w :: "'a vars" assume "vars_wf v" "vars_scope_push N v = Inr w"
  then show "vars_wf w \<and> (\<exists>x. live w = live v @ [x])" using push_wf by blast
next
  fix v w :: "'a vars" and u assume "vars_wf v" "vars_update N u v = Inr w"
  then show "vars_wf w \<and> (\<exists>x. live w = butlast (live v) @ [x])"
    using vars_update_wrap[of N u v] wrap_set_wf by metis
next
  fix v w :: "'a vars" assume v: "vars_wf v" "2 \<le> length (live v)" "vars_scope_pop N v = Inr w"
  then have "0 < cur v" by (simp add: length_live)
  with v show "vars_wf w \<and> live w = butlast (live v)" using pop_wf by blast
qed

section \<open>Refinement of the stack of maps\<close>

datatype 'n vars_op = Push | Pop | Update "'n update"

fun vars_step :: "'n nvl_ops \<Rightarrow> 'n vars_op \<Rightarrow> 'n vars \<Rightarrow> 'n vars res" where
  "vars_step N Push v = vars_scope_push N v"
| "vars_step N Pop v = vars_scope_pop N v"
| "vars_step N (Update u) v = vars_update N u v"

fun vars_run :: "'n nvl_ops \<Rightarrow> 'n vars_op list \<Rightarrow> 'n vars \<Rightarrow> 'n vars res" where
  "vars_run N [] v = Inr v"
| "vars_run N (x # xs) v = rbind (vars_step N x v) (vars_run N xs)"

fun env_step :: "('n \<Rightarrow> string \<Rightarrow> 'n val option) \<Rightarrow> 'n vars_op \<Rightarrow> 'n env_stack \<Rightarrow> 'n env_stack option" where
  "env_step A Push es = (if length es < VAR_MAX_SCOPES then Some (Map.empty # es) else None)"
| "env_step A Pop es = Some (if tl es = [] then [Map.empty] else tl es)"
| "env_step A (Update u) es = Some (env_update A u es)"

fun env_run :: "('n \<Rightarrow> string \<Rightarrow> 'n val option) \<Rightarrow> 'n vars_op list \<Rightarrow> 'n env_stack \<Rightarrow> 'n env_stack option" where
  "env_run A [] es = Some es"
| "env_run A (x # xs) es = (case env_step A x es of None \<Rightarrow> None | Some es' \<Rightarrow> env_run A xs es')"

lemma vars_abs_last:
  "vars_wf v \<Longrightarrow> vars_abs A v = A (the (scopes v ! nat (cur v))) # rev (map (\<lambda>l. A (the l)) (butlast (live v)))"
  by (subst vars_abs_def, subst live_last) (auto simp: live_last)

lemma vars_abs_butlast: "vars_abs A v = rev (map (\<lambda>l. A (the l)) (live v))"
  by (simp add: vars_abs_def)

lemma length_vars_abs: "vars_wf v \<Longrightarrow> length (vars_abs A v) = nat (cur v) + 1"
  by (simp add: vars_abs_def length_live)

lemma push_abs:
  assumes "nvl_laws N A" "vars_wf v"
  shows "if cur v + 1 < int VAR_MAX_SCOPES
         then \<exists>w. vars_scope_push N v = Inr w \<and> vars_wf w \<and> vars_abs A w = Map.empty # vars_abs A v
         else vars_scope_push N v = Inl AssertFailed"
proof (cases "cur v + 1 < int VAR_MAX_SCOPES")
  case True
  from assms(1) obtain e where e: "nvl_alloc N = Some e" "A e = Map.empty"
    by (auto simp: nvl_laws_def)
  then obtain w where w: "vars_scope_push N v = Inr w"
    using True assms(2) by (simp add: vars_scope_push_def init_scope_def write_scope_def vars_wf_def Let_def)
  with push_wf[OF assms(2) w] e True show ?thesis by (auto simp: vars_abs_butlast)
next
  case False
  then show ?thesis by (simp add: vars_scope_push_def Let_def)
qed

lemma pop_abs:
  assumes laws: "nvl_laws N A" and wf: "vars_wf v"
  shows "\<exists>w. vars_scope_pop N v = Inr w \<and> vars_wf w \<and>
     vars_abs A w = (if tl (vars_abs A v) = [] then [Map.empty] else tl (vars_abs A v))"
proof (cases "0 < cur v")
  case True
  obtain w where w: "vars_scope_pop N v = Inr w" using pop_ok[OF wf True] by blast
  from pop_wf[OF wf True w] have "vars_wf w" "live w = butlast (live v)" by auto
  moreover have "tl (vars_abs A v) \<noteq> []"
    using length_vars_abs[OF wf, of A] True by (cases "vars_abs A v") auto
  moreover have "tl (vars_abs A v) = rev (map (\<lambda>l. A (the l)) (butlast (live v)))"
    using vars_abs_last[OF wf, of A] by simp
  ultimately show ?thesis using w by (simp add: vars_abs_butlast)
next
  case False
  then have c: "cur v = 0" using wf by (simp add: vars_wf_def)
  from laws obtain e where e: "nvl_alloc N = Some e" "A e = Map.empty" by (auto simp: nvl_laws_def)
  obtain l where "scopes v ! 0 = Some l" using wf c by (auto simp: vars_wf_def)
  then have "vars_scope_pop N v = Inr (v\<lparr>scopes := (scopes v)[0 := Some e], cur := 0\<rparr>)"
    using wf c e by (simp add: vars_scope_pop_def free_scope_def read_scope_def write_scope_def
        vars_scope_push_def init_scope_def vars_wf_def VAR_MAX_SCOPES_def Let_def)
  moreover have "vars_wf (v\<lparr>scopes := (scopes v)[0 := Some e], cur := 0\<rparr>)"
    using wf by (simp add: vars_wf_def VAR_MAX_SCOPES_def)
  moreover have "vars_abs A (v\<lparr>scopes := (scopes v)[0 := Some e], cur := 0\<rparr>) = [Map.empty]"
    using wf e(2) by (cases "scopes v") (simp_all add: vars_abs_def live_def vars_wf_def VAR_MAX_SCOPES_def)
  moreover have "tl (vars_abs A v) = []"
    using length_vars_abs[OF wf, of A] c by (cases "vars_abs A v") auto
  ultimately show ?thesis by auto
qed

lemma wrap_set_abs:
  assumes wf: "vars_wf v" and f: "\<And>l. fst (f l) = 0"
  shows "\<exists>w. wrap_set f v = Inr w \<and> vars_wf w \<and>
     vars_abs A w = A (snd (f (the (scopes v ! nat (cur v))))) # tl (vars_abs A v)"
proof -
  let ?l = "the (scopes v ! nat (cur v))"
  let ?w = "v\<lparr>scopes := (scopes v)[nat (cur v) := Some (snd (f ?l))]\<rparr>"
  have w: "wrap_set f v = Inr ?w"
    using wrap_set_ok[OF wf, of f] f[of ?l] by (simp add: Let_def split: prod.splits)
  from wrap_set_wf[OF wf w] obtain x where x: "vars_wf ?w" "live ?w = butlast (live v) @ [x]" by blast
  have "scopes ?w ! nat (cur ?w) = Some (snd (f ?l))" using wf by (auto simp: vars_wf_def)
  with vars_abs_last[OF x(1), of A] vars_abs_last[OF wf, of A] x(2) w x(1) show ?thesis by simp
qed

lemma update_abs:
  assumes laws: "nvl_laws N A" and wf: "vars_wf v"
  shows "\<exists>w. vars_update N u v = Inr w \<and> vars_wf w \<and> vars_abs A w = env_update A u (vars_abs A v)"
proof -
  obtain e es where es: "vars_abs A v = e # es" and e: "A (the (scopes v ! nat (cur v))) = e"
    using vars_abs_last[OF wf, of A] by blast
  show ?thesis
  proof (cases u)
    case (SetStr k s)
    then show ?thesis
      using laws wrap_set_abs[OF wf, of "\<lambda>l. nvl_set_str N l k s" A] es e
      by (auto simp: vars_set_str_def nvl_laws_def)
  next
    case (SetInt k i)
    then show ?thesis
      using laws wrap_set_abs[OF wf, of "\<lambda>l. nvl_set_int N l k i" A] es e
      by (auto simp: vars_set_int_def nvl_laws_def)
  next
    case (SetArray k xs)
    then show ?thesis
      using laws wrap_set_abs[OF wf, of "\<lambda>l. nvl_set_array N l k xs" A] es e
      by (auto simp: vars_set_array_def nvl_laws_def)
  next
    case (Merge m)
    then show ?thesis
      using laws wrap_set_abs[OF wf, of "\<lambda>l. nvl_merge N l m" A] es e
      by (auto simp: vars_merge_def nvl_laws_def)
  qed
qed

lemma step_refines:
  assumes "nvl_laws N A" "vars_wf v"
  shows "case env_step A x (vars_abs A v) of
      None \<Rightarrow> vars_step N x v = Inl AssertFailed
    | Some es \<Rightarrow> \<exists>w. vars_step N x v = Inr w \<and> vars_wf w \<and> vars_abs A w = es"
proof (cases x)
  case Push
  have "length (vars_abs A v) < VAR_MAX_SCOPES \<longleftrightarrow> cur v + 1 < int VAR_MAX_SCOPES"
    using assms(2) by (auto simp: length_vars_abs vars_wf_def)
  with Push push_abs[OF assms] show ?thesis by (simp split: if_splits)
next
  case Pop
  then show ?thesis using pop_abs[OF assms] by simp
next
  case (Update u)
  then show ?thesis using update_abs[OF assms] by simp
qed

lemma run_refines:
  assumes laws: "nvl_laws N A"
  shows "vars_wf v \<Longrightarrow> (case env_run A xs (vars_abs A v) of
      None \<Rightarrow> vars_run N xs v = Inl AssertFailed
    | Some es \<Rightarrow> \<exists>w. vars_run N xs v = Inr w \<and> vars_wf w \<and> vars_abs A w = es)"
proof (induction xs arbitrary: v)
  case Nil
  then show ?case by simp
next
  case (Cons x xs)
  show ?case
  proof (cases "env_step A x (vars_abs A v)")
    case None
    with step_refines[OF laws Cons.prems, of x] show ?thesis by simp
  next
    case (Some es)
    with step_refines[OF laws Cons.prems, of x]
    obtain w where "vars_step N x v = Inr w" "vars_wf w" "vars_abs A w = es" by auto
    with Some Cons.IH[of w] show ?thesis by (auto split: option.splits)
  qed
qed

lemma lookup_down_abs:
  assumes laws: "nvl_laws N A" and wf: "vars_wf v"
  shows "n \<le> nat (cur v) + 1 \<Longrightarrow>
    lookup_down N v n k = Inr (env_lookup (rev (map (\<lambda>l. A (the l)) (take n (scopes v)))) k)"
proof (induction n)
  case 0
  then show ?case by simp
next
  case (Suc n)
  have "n < length (scopes v)" using Suc.prems wf by (auto simp: vars_wf_def)
  then have tk: "take (Suc n) (scopes v) = take n (scopes v) @ [scopes v ! n]"
    by (rule take_Suc_conv_app_nth)
  have "read_scope v (int n) = Inr (the (scopes v ! n))"
    using Suc.prems by (intro read_scope_live[OF wf]) simp
  with Suc laws show ?case
    by (auto simp: tk nvl_laws_def split: option.splits)
qed

lemma vars_lookup_abs:
  assumes "nvl_laws N A" "vars_wf v"
  shows "vars_lookup N v k = Inr (env_lookup (vars_abs A v) k)"
  using lookup_down_abs[OF assms, of "nat (cur v + 1)" k] assms(2)
  by (simp add: vars_lookup_def vars_abs_def live_def vars_wf_def nat_add_distrib)

lemma vars_init_abs:
  assumes "nvl_laws N A" "length (scopes v) = VAR_MAX_SCOPES"
  shows "\<exists>w. vars_init N v = Inr w \<and> vars_wf w \<and> vars_abs A w = [Map.empty]"
proof -
  from assms(1) obtain e where e: "nvl_alloc N = Some e" "A e = Map.empty" by (auto simp: nvl_laws_def)
  with assms(2) show ?thesis
    by (cases "scopes v")
      (auto simp: vars_init_def init_scope_def write_scope_def vars_wf_def VAR_MAX_SCOPES_def
        vars_abs_def live_def)
qed

section \<open>Properties\<close>

text \<open>
  C9. The variables implement a stack of maps. From a freshly initialised structure, any sequence of
  pushes, pops and assignments either runs to the end and leaves the scopes of the abstract stack, and
  then every lookup finds the innermost binding, or it stops at the assertion of the push that would
  need an eleventh scope. There is no other failure: no freed scope is read and no slot outside the array
  is touched.
\<close>

theorem vars_refine_stack:
  assumes "nvl_laws N A" "length (scopes v0) = VAR_MAX_SCOPES"
  shows "case env_run A xs [Map.empty] of
      None \<Rightarrow> rbind (vars_init N v0) (vars_run N xs) = Inl AssertFailed
    | Some es \<Rightarrow> \<exists>w. rbind (vars_init N v0) (vars_run N xs) = Inr w \<and> vars_wf w \<and>
        (\<forall>k. vars_lookup N w k = Inr (env_lookup es k))"
proof -
  from vars_init_abs[OF assms] obtain v
    where v: "vars_init N v0 = Inr v" "vars_wf v" "vars_abs A v = [Map.empty]" by blast
  with run_refines[OF assms(1) v(2), of xs] show ?thesis
    using vars_lookup_abs[OF assms(1)] by (auto split: option.splits)
qed

definition no_vars :: "alist_nvlist vars" where
  "no_vars = \<lparr>scopes = replicate 10 None, cur = 0\<rparr>"

lemma vars_refine_stack_witness:
  "nvl_laws alist_nvl alist_map \<and> length (scopes no_vars) = VAR_MAX_SCOPES \<and>
   (\<exists>w. rbind (vars_init alist_nvl no_vars)
          (vars_run alist_nvl [Update (SetStr ''a'' ''x''), Push, Update (SetStr ''a'' ''y''), Pop]) = Inr w \<and>
        vars_lookup alist_nvl w ''a'' = Inr (Some (VT_STR ''x'')))"
proof -
  have len: "length (scopes no_vars) = VAR_MAX_SCOPES" by (simp add: no_vars_def VAR_MAX_SCOPES_def)
  show ?thesis
    using alist_nvl_laws len
      vars_refine_stack[OF alist_nvl_laws len, of "[Update (SetStr ''a'' ''x''), Push, Update (SetStr ''a'' ''y''), Pop]"]
    by (auto simp: VAR_MAX_SCOPES_def)
qed

end
