(* ===== verification/Pipeline.thy ===== *)
theory Pipeline
  imports Escape CTime Libjeffpc
begin

text \<open>
  The filters a template can send a variable through (\<^verbatim>\<open>pipeline.c\<close>): escaping for HTML and for
  URLs, and four date formats. A pipeline is the list of its stages in the order the parser appended
  them. Shown here: what a pipeline can print once it ends in a filter, whatever came before, and that
  the machine-readable date can be read back.
\<close>

section \<open>strftime\<close>

text \<open>The conversions the program uses, in the C locale, which the daemon never leaves.\<close>

definition day_names :: "string list" where
  "day_names = [''Sun'', ''Mon'', ''Tue'', ''Wed'', ''Thu'', ''Fri'', ''Sat'']"

definition month_names :: "string list" where
  "month_names = [''January'', ''February'', ''March'', ''April'', ''May'', ''June'', ''July'',
     ''August'', ''September'', ''October'', ''November'', ''December'']"

definition pad2 :: "char \<Rightarrow> int \<Rightarrow> string" where
  "pad2 p i = (if i < 10 then p # dec_of_int i else dec_of_int i)"

definition strftime_conv :: "tm \<Rightarrow> char \<Rightarrow> string" where
  "strftime_conv t c =
     (if c = CHR ''H'' then pad2 (CHR ''0'') (tm_hour t)
      else if c = CHR ''M'' then pad2 (CHR ''0'') (tm_min t)
      else if c = CHR ''S'' then pad2 (CHR ''0'') (tm_sec t)
      else if c = CHR ''d'' then pad2 (CHR ''0'') (tm_mday t)
      else if c = CHR ''e'' then pad2 (CHR '' '') (tm_mday t)
      else if c = CHR ''m'' then pad2 (CHR ''0'') (tm_mon t + 1)
      else if c = CHR ''Y'' then dec_of_int (tm_year t + 1900)
      else if c = CHR ''B'' then month_names ! nat (tm_mon t)
      else if c = CHR ''b'' then take 3 (month_names ! nat (tm_mon t))
      else if c = CHR ''a'' then day_names ! nat (tm_wday t)
      else [c])"

fun strftime :: "string \<Rightarrow> tm \<Rightarrow> string" where
  "strftime [] t = []"
| "strftime (c # f) t =
     (if c = CHR ''%'' then
        (case f of [] \<Rightarrow> ''%'' | k # f' \<Rightarrow> strftime_conv t k @ strftime f' t)
      else c # strftime f t)"

section \<open>The filters\<close>

definition nop_fxn :: "'n val \<Rightarrow> 'n val res" where
  "nop_fxn v = Inr v"

text \<open>A stub in the source: it returns NULL for every number.\<close>

definition str_of_int :: "u64 \<Rightarrow> string option" where
  "str_of_int v = None"

definition escape_val :: "(string \<Rightarrow> string option res) \<Rightarrow> 'n val \<Rightarrow> 'n val res" where
  "escape_val cvt v =
     (case v of
        VT_INT i \<Rightarrow> (case str_of_int i of None \<Rightarrow> Inl AssertFailed | Some s \<Rightarrow> Inr (VT_STR s))
      | VT_STR s \<Rightarrow> rbind (cvt s) (\<lambda>out. case out of None \<Rightarrow> Inl AssertFailed | Some t \<Rightarrow> Inr (VT_STR t))
      | VT_NULL \<Rightarrow> Inr (VT_STR '''')
      | _ \<Rightarrow> Inl Panicked)"

text \<open>\<^verbatim>\<open>mem\<close>, here and below, tells whether \<^verbatim>\<open>malloc\<close> finds memory.\<close>

definition urlescape_fxn :: "bool \<Rightarrow> 'n val \<Rightarrow> 'n val res" where
  "urlescape_fxn mem v = escape_val (\<lambda>s. rbind (urlescape_str mem s) (\<lambda>t. Inr (Some t))) v"

definition escape_fxn :: "bool \<Rightarrow> 'n val \<Rightarrow> 'n val res" where
  "escape_fxn mem v = escape_val (mangle_htmlescape mem) v"

text \<open>
  The result of \<^verbatim>\<open>gmtime_r\<close> is not checked, so when it fails \<^verbatim>\<open>tm\<close> is read uninitialised; when
  the text does not fit the buffer, \<^verbatim>\<open>strftime\<close> leaves the contents of the buffer unspecified.
\<close>

definition datetime :: "string \<Rightarrow> 'n val \<Rightarrow> 'n val res" where
  "datetime fmt v =
     (case v of
        VT_INT i \<Rightarrow>
          (case gmtime (sint i) of
             None \<Rightarrow> Inl Uninitialised
           | Some t \<Rightarrow>
               if length (strftime fmt t) < 64 then Inr (VT_STR (strftime fmt t)) else Inl Uninitialised)
      | _ \<Rightarrow> Inl AssertFailed)"

definition time_fxn :: "'n val \<Rightarrow> 'n val res" where
  "time_fxn v = datetime ''%H:%M'' v"

definition date_fxn :: "'n val \<Rightarrow> 'n val res" where
  "date_fxn v = datetime ''%B %e, %Y'' v"

definition zulu_fxn :: "'n val \<Rightarrow> 'n val res" where
  "zulu_fxn v = datetime ''%Y-%m-%dT%H:%M:%SZ'' v"

definition rfc822_fxn :: "'n val \<Rightarrow> 'n val res" where
  "rfc822_fxn v = datetime ''%a, %d %b %Y %H:%M:%S +0000'' v"

section \<open>Stages and pipelines\<close>

record 'n pipestageinfo =
  stage_name :: "string option"
  stage_f :: "'n val \<Rightarrow> 'n val res"

definition stages :: "bool \<Rightarrow> 'n pipestageinfo list" where
  "stages mem =
    [ \<lparr>stage_name = Some ''urlescape'', stage_f = urlescape_fxn mem\<rparr>,
      \<lparr>stage_name = Some ''escape'', stage_f = escape_fxn mem\<rparr>,
      \<lparr>stage_name = Some ''time'', stage_f = time_fxn\<rparr>,
      \<lparr>stage_name = Some ''date'', stage_f = date_fxn\<rparr>,
      \<lparr>stage_name = Some ''zulu'', stage_f = zulu_fxn\<rparr>,
      \<lparr>stage_name = Some ''rfc822'', stage_f = rfc822_fxn\<rparr>,
      \<lparr>stage_name = None, stage_f = (\<lambda>_. Inl NullDeref)\<rparr> ]"

definition nop_stage :: "'n pipestageinfo" where
  "nop_stage = \<lparr>stage_name = Some ''nop'', stage_f = nop_fxn\<rparr>"

text \<open>The search stops at the entry without a name; a name that is not in the table means \<^verbatim>\<open>nop\<close>.\<close>

fun find_stage :: "'n pipestageinfo list \<Rightarrow> string \<Rightarrow> 'n pipestageinfo" where
  "find_stage [] name = nop_stage"
| "find_stage (s # ss) name =
     (case stage_name s of None \<Rightarrow> nop_stage
      | Some n \<Rightarrow> if name = n then s else find_stage ss name)"

definition pipestage_alloc :: "bool \<Rightarrow> string \<Rightarrow> 'n pipestageinfo" where
  "pipestage_alloc mem name = find_stage (stages mem) name"

definition pipeline_append :: "'n pipestageinfo list \<Rightarrow> 'n pipestageinfo \<Rightarrow> 'n pipestageinfo list" where
  "pipeline_append line stage = line @ [stage]"

definition pipestage_to_pipeline :: "'n pipestageinfo \<Rightarrow> 'n pipestageinfo list" where
  "pipestage_to_pipeline stage = pipeline_append [] stage"

text \<open>The loop of \<^verbatim>\<open>pipeline\<close> in \<^verbatim>\<open>template.y\<close> that sends a value through the stages.\<close>

fun run_pipeline :: "'n pipestageinfo list \<Rightarrow> 'n val \<Rightarrow> 'n val res" where
  "run_pipeline [] v = Inr v"
| "run_pipeline (s # ss) v = rbind (stage_f s v) (run_pipeline ss)"

lemma run_pipeline_append: "run_pipeline (xs @ ys) v = rbind (run_pipeline xs v) (run_pipeline ys)"
  by (induction xs arbitrary: v) (simp_all add: rbind_assoc del: rbind_eq_Inr, simp add: fun_eq_iff cong: rbind_cong)

section \<open>What the filters can print\<close>

definition markup :: "char set" where
  "markup = {CHR ''<'', CHR ''>'', CHR 0x22}"

definition url_text :: "char set" where
  "url_text = {c. c_isalnum c} \<union> {CHR ''+'', CHR ''-'', CHR ''_'', CHR ''.'', CHR ''~'', CHR ''%''}"

definition within :: "char set \<Rightarrow> buf \<Rightarrow> bool" where
  "within A b \<longleftrightarrow> set b \<subseteq> insert None (Some ` A)"

lemma within_alloc: "within A (buf_alloc n)"
  by (auto simp: within_def buf_alloc_def)

lemma put_char_within: "put_char b i c = Inr b' \<Longrightarrow> within A b \<Longrightarrow> c \<in> A \<Longrightarrow> within A b'"
  using set_update_subset_insert[of b i "Some c"]
  by (auto simp: put_char_def within_def split: if_splits)

lemma put_chars_within: "put_chars b i s = Inr b' \<Longrightarrow> within A b \<Longrightarrow> set s \<subseteq> A \<Longrightarrow> within A b'"
  by (induction s arbitrary: b i) (auto simp: rbind_eq_Inr intro: put_char_within)

lemma read_cstr_within: "read_cstr b = Inr s \<Longrightarrow> within A b \<Longrightarrow> set s \<subseteq> A - {NUL}"
  by (induction b arbitrary: s rule: read_cstr.induct)
     (fastforce simp: within_def rbind_eq_Inr split: if_splits)+

text \<open>Whatever an escaper returns consists of the characters its second loop writes.\<close>

lemma fill_loop_within:
  assumes "\<And>b tmp c b' tmp'. put b tmp c = Inr (b', tmp') \<Longrightarrow> within A b \<Longrightarrow> within A b'"
  shows "fill_loop put s b tmp = Inr (b', tmp') \<Longrightarrow> within A b \<Longrightarrow> within A b'"
  by (induction s arbitrary: b tmp) (auto simp: rbind_eq_Inr intro: assms)

lemma escape_with_within:
  assumes put: "\<And>b tmp c b' tmp'. put b tmp c = Inr (b', tmp') \<Longrightarrow> within A b \<Longrightarrow> within A b'"
    and "NUL \<in> A" and res: "escape_with grow put mem s = Inr (Some t)"
  shows "set t \<subseteq> A - {NUL}"
proof -
  from res obtain n b tmp b' where b: "fill_loop put s (buf_alloc n) 0 = Inr (b, tmp)"
    "put_char b tmp NUL = Inr b'" "read_cstr b' = Inr t"
    by (auto simp: escape_with_def rbind_eq_Inr split: if_splits)
  have "within A b" by (rule fill_loop_within[OF put b(1) within_alloc])
  with put_char_within[OF b(2) _ assms(2)] read_cstr_within[OF b(3)] show ?thesis by blast
qed

lemma c_strcpy_within:
  "c_strcpy b i s = Inr b' \<Longrightarrow> within A b \<Longrightarrow> set s \<subseteq> A \<Longrightarrow> NUL \<in> A \<Longrightarrow> within A b'"
  unfolding c_strcpy_def by (erule put_chars_within) simp_all

lemma html_put_within:
  assumes "html_put b tmp c = Inr (b', tmp')" "within (- markup) b"
  shows "within (- markup) b'"
proof -
  have "(\<exists>s\<in>{''&lt;'', ''&gt;'', ''&amp;'', ''&quot;''}. c_strcpy b tmp s = Inr b') \<or>
      c \<in> - markup \<and> put_char b tmp c = Inr b'"
    using assms(1) by (auto simp: html_put_def markup_def rbind_eq_Inr split: if_splits)
  moreover have "\<forall>s\<in>{''&lt;'', ''&gt;'', ''&amp;'', ''&quot;''}. set s \<subseteq> - markup" "NUL \<in> - markup"
    by (simp_all add: markup_def)
  ultimately show ?thesis
    using assms(2) by (blast intro: c_strcpy_within put_char_within)
qed

lemma hex_digit_url: "hex_digits ! (of_char (c :: char) div 16) \<in> url_text"
    "hex_digits ! (of_char (c :: char) mod 16) \<in> url_text"
  using hex_char_alnum[OF nibbles(1)[of c]] hex_char_alnum[OF nibbles(2)[of c]]
  by (simp_all add: url_text_def hex_char_def)

lemma url_put_within:
  assumes "url_put b tmp c = Inr (b', tmp')" "within (insert NUL url_text) b"
  shows "within (insert NUL url_text) b'"
proof -
  let ?A = "insert NUL url_text"
  have plain: "CHR ''%'' \<in> ?A" "CHR ''+'' \<in> ?A" "c_isalnum c \<Longrightarrow> c \<in> ?A"
    "c \<in> {CHR ''-'', CHR ''_'', CHR ''.'', CHR ''~''} \<Longrightarrow> c \<in> ?A"
    by (auto simp: url_text_def)
  have hex: "hex_digits ! (of_char c div 16) \<in> ?A" "hex_digits ! (of_char c mod 16) \<in> ?A"
    using hex_digit_url[of c] by simp_all
  have one: ?thesis if "rbind (put_char b tmp d) (\<lambda>b'. Inr (b', i)) = Inr (b', tmp')" "d \<in> ?A" for d i
    using that assms(2) put_char_within[of b tmp d b' ?A] by (auto simp only: rbind_eq_Inr sum.inject prod.inject)
  have three: ?thesis if "rbind (put_char b tmp d) (\<lambda>b1. rbind (put_char b1 i e) (\<lambda>b2.
      rbind (put_char b2 j f) (\<lambda>b3. Inr (b3, k)))) = Inr (b', tmp')" "d \<in> ?A" "e \<in> ?A" "f \<in> ?A" for d e f i j k
  proof -
    from that(1) obtain b1 b2 where "put_char b tmp d = Inr b1" "put_char b1 i e = Inr b2" "put_char b2 j f = Inr b'"
      by (auto simp: rbind_eq_Inr)
    with that(2-4) assms(2) show ?thesis by (meson put_char_within)
  qed
  show ?thesis
    using assms(1) one[OF _ plain(3)] one[OF _ plain(2)] one[OF _ plain(4)] three[OF _ plain(1) hex]
    unfolding url_put_def by (auto split: if_splits)
qed

lemma html_text_safe:
  "escape_with (\<lambda>c. Inr (html_grow c)) html_put mem s = Inr (Some t) \<Longrightarrow> set t \<inter> markup = {}"
proof -
  assume "escape_with (\<lambda>c. Inr (html_grow c)) html_put mem s = Inr (Some t)"
  from escape_with_within[OF html_put_within _ this] have "set t \<subseteq> - markup - {NUL}"
    by (simp add: markup_def)
  then show ?thesis by blast
qed

lemma url_text_safe:
  "escape_with url_grow url_put mem s = Inr (Some t) \<Longrightarrow> set t \<subseteq> url_text"
proof -
  assume "escape_with url_grow url_put mem s = Inr (Some t)"
  from escape_with_within[OF url_put_within _ this] have "set t \<subseteq> insert NUL url_text - {NUL}" by simp
  then show ?thesis by blast
qed

lemma escape_fxn_text: "escape_fxn mem v = Inr w \<Longrightarrow> \<exists>t. w = VT_STR t \<and> set t \<inter> markup = {}"
  using html_text_safe[of mem]
  by (fastforce simp: escape_fxn_def escape_val_def mangle_htmlescape_def str_of_int_def rbind_eq_Inr
      split: val.splits option.splits)

lemma urlescape_fxn_text: "urlescape_fxn mem v = Inr w \<Longrightarrow> \<exists>t. w = VT_STR t \<and> set t \<subseteq> url_text"
  by (auto simp: urlescape_fxn_def escape_val_def urlescape_str_def str_of_int_def rbind_eq_Inr
      split: val.splits option.splits dest: url_text_safe)

lemma stage_of_name [simp]:
  "pipestage_alloc mem ''escape'' = \<lparr>stage_name = Some ''escape'', stage_f = escape_fxn mem\<rparr>"
  "pipestage_alloc mem ''urlescape'' = \<lparr>stage_name = Some ''urlescape'', stage_f = urlescape_fxn mem\<rparr>"
  "pipestage_alloc mem ''time'' = \<lparr>stage_name = Some ''time'', stage_f = time_fxn\<rparr>"
  "pipestage_alloc mem ''date'' = \<lparr>stage_name = Some ''date'', stage_f = date_fxn\<rparr>"
  "pipestage_alloc mem ''zulu'' = \<lparr>stage_name = Some ''zulu'', stage_f = zulu_fxn\<rparr>"
  "pipestage_alloc mem ''rfc822'' = \<lparr>stage_name = Some ''rfc822'', stage_f = rfc822_fxn\<rparr>"
  by (simp_all add: pipestage_alloc_def stages_def)

lemma stage_unknown:
  "name \<notin> {''urlescape'', ''escape'', ''time'', ''date'', ''zulu'', ''rfc822''} \<Longrightarrow>
   pipestage_alloc mem name = nop_stage"
  by (simp add: pipestage_alloc_def stages_def)

text \<open>An integer cannot be escaped: the stub that should print it has nothing to return.\<close>

lemma escape_int_aborts: "escape_fxn mem (VT_INT i) = Inl AssertFailed"
  by (simp add: escape_fxn_def escape_val_def str_of_int_def)

section \<open>Pipelines of text filters\<close>

definition stage_text :: "string \<Rightarrow> string \<Rightarrow> string" where
  "stage_text name s =
     (if name = ''escape'' then html_escaped s
      else if name = ''urlescape'' then url_escaped s
      else s)"

definition date_stages :: "string set" where
  "date_stages = {''time'', ''date'', ''zulu'', ''rfc822''}"

lemma length_html_emit: "length (html_emit c) \<le> 6"
  by (simp add: html_emit_def)

lemma length_url_emit: "length (url_emit c) \<le> 6"
  by (simp add: url_emit_def)

lemma length_concat_le: "(\<And>c. length (f c) \<le> 6) \<Longrightarrow> length (concat (map f s)) \<le> 6 * length s"
  by (induction s) (auto simp: add_mono)

lemma length_stage_text: "length (stage_text name s) \<le> 6 * length s"
  using length_concat_le[of html_emit s] length_concat_le[of url_emit s] length_html_emit length_url_emit
  by (auto simp: stage_text_def html_escaped_def url_escaped_def)

lemma cstring_concat: "(\<And>c. c \<noteq> NUL \<Longrightarrow> cstring (f c)) \<Longrightarrow> cstring s \<Longrightarrow> cstring (concat (map f s))"
  by (induction s) simp_all

lemma cstring_html_emit: "c \<noteq> NUL \<Longrightarrow> cstring (html_emit c)"
  by (simp add: html_emit_def)

lemma cstring_url_emit: "c \<noteq> NUL \<Longrightarrow> cstring (url_emit c)"
  using hex_char_alnum[OF nibbles(1)[of c]] hex_char_alnum[OF nibbles(2)[of c]]
  by (simp add: url_emit_def)

lemma cstring_stage_text: "cstring s \<Longrightarrow> cstring (stage_text name s)"
  using cstring_concat[OF cstring_html_emit] cstring_concat[OF cstring_url_emit]
  by (simp add: stage_text_def html_escaped_def url_escaped_def)

text \<open>Bytes that \<^verbatim>\<open>urlescape\<close> can take stay such under the escapings.\<close>

lemma sized_stage_text: "list_all url_sized s \<Longrightarrow> list_all url_sized (stage_text name s)"
proof -
  have hex: "url_sized (hex_char d)" if "d < 16" for d
    using hex_char_alnum[OF that] by (auto simp: c_isalnum_def url_sized_def Let_def)
  have "list_all url_sized (html_emit c)" "list_all url_sized (url_emit c)" if "url_sized c" for c
    using that hex nibbles[of c] by (simp_all add: html_emit_def url_emit_def url_sized_def)
  then have "list_all url_sized s \<Longrightarrow> list_all url_sized (html_escaped s) \<and> list_all url_sized (url_escaped s)"
    by (induction s) (simp_all add: html_escaped_def url_escaped_def)
  then show "list_all url_sized s \<Longrightarrow> list_all url_sized (stage_text name s)" by (simp add: stage_text_def)
qed

lemma stage_f_text:
  assumes "name \<notin> date_stages" "cstring s" "6 * int (length s) < INT_MAX" "name = ''urlescape'' \<Longrightarrow> list_all url_sized s"
  shows "stage_f (pipestage_alloc True name) (VT_STR s) = Inr (VT_STR (stage_text name s))"
proof -
  consider "name = ''escape''" | "name = ''urlescape''"
    | "name \<notin> {''urlescape'', ''escape'', ''time'', ''date'', ''zulu'', ''rfc822''}"
    using assms(1) by (auto simp: date_stages_def)
  then show ?thesis
  proof cases
    case 1
    then show ?thesis using html.escape_text[OF assms(2,3)]
      by (simp add: escape_fxn_def escape_val_def mangle_htmlescape_def stage_text_def html_escaped_def list_all_iff)
  next
    case 2
    then show ?thesis using url.escape_text[OF assms(2,3)] assms(4)
      by (simp add: urlescape_fxn_def escape_val_def urlescape_str_def stage_text_def url_escaped_def)
  next
    case 3
    then show ?thesis by (simp add: stage_unknown nop_stage_def nop_fxn_def stage_text_def)
  qed
qed

lemma run_pipeline_text:
  "set ns \<inter> date_stages = {} \<Longrightarrow> cstring s \<Longrightarrow> 6 ^ Suc (length ns) * int (length s) < INT_MAX \<Longrightarrow>
   (''urlescape'' \<in> set ns \<Longrightarrow> list_all url_sized s) \<Longrightarrow>
   run_pipeline (map (pipestage_alloc True) ns) (VT_STR s) = Inr (VT_STR (fold stage_text ns s))"
proof (induction ns arbitrary: s)
  case Nil
  then show ?case by simp
next
  case (Cons n ns)
  have "6 * int (length s) * 1 \<le> 6 * int (length s) * 6 ^ Suc (length ns)"
    by (rule mult_left_mono) (use one_le_power[of "6 :: int" "Suc (length ns)"] in simp_all)
  with Cons.prems(3) have fits: "6 * int (length s) < INT_MAX" by (simp add: mult.commute mult.left_commute)
  have "int (length (stage_text n s)) \<le> 6 * int (length s)"
    using length_stage_text[of n s] by linarith
  then have "6 ^ Suc (length ns) * int (length (stage_text n s)) \<le> 6 ^ Suc (length ns) * (6 * int (length s))"
    by (rule mult_left_mono) simp
  also have "\<dots> = 6 ^ Suc (length (n # ns)) * int (length s)" by simp
  also have "\<dots> < INT_MAX" by (rule Cons.prems(3))
  finally have "6 ^ Suc (length ns) * int (length (stage_text n s)) < INT_MAX" .
  with Cons.IH[of "stage_text n s"] Cons.prems cstring_stage_text sized_stage_text fits show ?case
    by (simp add: stage_f_text)
qed

section \<open>Reading the machine-readable date back\<close>

definition take_num :: "string \<Rightarrow> nat \<times> string" where
  "take_num s = (nat_of_dec (takeWhile is_digit s), dropWhile is_digit s)"

definition parse_zulu :: "string \<Rightarrow> int" where
  "parse_zulu s =
     (let (y, s1) = take_num s; (mo, s2) = take_num (tl s1); (d, s3) = take_num (tl s2);
          (h, s4) = take_num (tl s3); (mi, s5) = take_num (tl s4); (sec, _) = take_num (tl s5)
      in mktime (tm_zero\<lparr>tm_year := int y - 1900, tm_mon := int mo - 1, tm_mday := int d,
                         tm_hour := int h, tm_min := int mi, tm_sec := int sec\<rparr>))"

lemma digit_is_digit: "d < 10 \<Longrightarrow> is_digit (digit_char d)"
  by (simp add: is_digit_def digit_char_def)

lemma dec_of_nat_digits: "\<forall>c\<in>set (dec_of_nat n). is_digit c"
proof (induction n rule: dec_of_nat.induct)
  case (1 n)
  then show ?case by (subst dec_of_nat.simps) (auto simp: digit_is_digit)
qed

lemma take_num_digits:
  assumes "\<forall>c\<in>set s. is_digit c" "\<not> is_digit c"
  shows "take_num (s @ c # r) = (nat_of_dec s, c # r)"
proof -
  have "takeWhile is_digit (s @ c # r) = s \<and> dropWhile is_digit (s @ c # r) = c # r"
    using assms by (induction s) auto
  then show ?thesis by (simp add: take_num_def)
qed

lemma take_num_dec: "0 \<le> i \<Longrightarrow> \<not> is_digit c \<Longrightarrow> take_num (dec_of_int i @ c # r) = (nat i, c # r)"
  using take_num_digits[OF dec_of_nat_digits] by (simp add: dec_of_int_def nat_of_dec_of_nat)

lemma nat_of_dec_zero: "nat_of_dec (CHR ''0'' # s) = nat_of_dec s"
  by (simp add: nat_of_dec_def digit_val_def)

lemma take_num_pad2:
  assumes "0 \<le> i" "\<not> is_digit c"
  shows "take_num (pad2 (CHR ''0'') i @ c # r) = (nat i, c # r)"
proof -
  have "\<forall>d\<in>set (CHR ''0'' # dec_of_nat (nat i)). is_digit d"
    using dec_of_nat_digits by (simp add: is_digit_def)
  from take_num_digits[OF this assms(2)] take_num_dec[OF assms] show ?thesis
    using assms(1) by (simp add: pad2_def dec_of_int_def nat_of_dec_zero nat_of_dec_of_nat)
qed

lemma broken_down_ranges:
  assumes "0 \<le> ts"
  shows "0 \<le> tm_sec (broken_down ts)" "0 \<le> tm_min (broken_down ts)" "0 \<le> tm_hour (broken_down ts)"
    "1 \<le> tm_mday (broken_down ts)" "0 \<le> tm_mon (broken_down ts)" "70 \<le> tm_year (broken_down ts)"
proof -
  obtain y yd where y: "find_year 1970 (ts div 86400) = (y, yd)" by (cases "find_year 1970 (ts div 86400)")
  obtain m md where m: "find_month (month_days y) yd = (m, md)" by (cases "find_month (month_days y) yd")
  from find_year_spec[OF y] find_month_spec[OF m] have "0 \<le> md" "0 \<le> m" by (simp_all add: sum_month_days)
  moreover have "1970 \<le> y" using find_year_ge[OF _ y] assms by (simp add: pos_imp_zdiv_nonneg_iff)
  ultimately show "0 \<le> tm_sec (broken_down ts)" "0 \<le> tm_min (broken_down ts)" "0 \<le> tm_hour (broken_down ts)"
    "1 \<le> tm_mday (broken_down ts)" "0 \<le> tm_mon (broken_down ts)" "70 \<le> tm_year (broken_down ts)"
    unfolding broken_down_fields[OF y m] by (simp_all add: pos_imp_zdiv_nonneg_iff)
qed

lemma mktime_fields:
  "mktime (tm_zero\<lparr>tm_year := tm_year t, tm_mon := tm_mon t, tm_mday := tm_mday t,
     tm_hour := tm_hour t, tm_min := tm_min t, tm_sec := tm_sec t\<rparr>) = mktime t"
  by (simp add: mktime_def Let_def)

lemma parse_zulu_strftime:
  assumes "0 \<le> ts"
  shows "parse_zulu (strftime ''%Y-%m-%dT%H:%M:%SZ'' (broken_down ts)) = ts"
proof -
  let ?t = "broken_down ts"
  note r = broken_down_ranges[OF assms]
  have sep: "\<not> is_digit (CHR ''-'')" "\<not> is_digit (CHR ''T'')" "\<not> is_digit (CHR '':'')" "\<not> is_digit (CHR ''Z'')"
    by (simp_all add: is_digit_def)
  have "strftime ''%Y-%m-%dT%H:%M:%SZ'' ?t =
    dec_of_int (tm_year ?t + 1900) @ CHR ''-'' # pad2 (CHR ''0'') (tm_mon ?t + 1) @ CHR ''-'' #
    pad2 (CHR ''0'') (tm_mday ?t) @ CHR ''T'' # pad2 (CHR ''0'') (tm_hour ?t) @ CHR '':'' #
    pad2 (CHR ''0'') (tm_min ?t) @ CHR '':'' # pad2 (CHR ''0'') (tm_sec ?t) @ CHR ''Z'' # []"
    by (simp add: strftime_conv_def)
  moreover have "parse_zulu (\<dots>) = mktime (tm_zero\<lparr>tm_year := tm_year ?t, tm_mon := tm_mon ?t,
      tm_mday := tm_mday ?t, tm_hour := tm_hour ?t, tm_min := tm_min ?t, tm_sec := tm_sec ?t\<rparr>)"
    unfolding parse_zulu_def using r by (simp add: take_num_dec take_num_pad2 sep Let_def)
  ultimately have "parse_zulu (strftime ''%Y-%m-%dT%H:%M:%SZ'' ?t) = mktime (tm_zero\<lparr>tm_year := tm_year ?t,
      tm_mon := tm_mon ?t, tm_mday := tm_mday ?t, tm_hour := tm_hour ?t, tm_min := tm_min ?t, tm_sec := tm_sec ?t\<rparr>)"
    by (simp only:)
  then show ?thesis by (simp only: mktime_fields mktime_broken_down)
qed

section \<open>Properties\<close>

text \<open>
  C13. Whatever value enters a pipeline and whatever stages come first, when the last stage is
  \<^verbatim>\<open>escape\<close> the outcome is a string without markup characters, and when it is \<^verbatim>\<open>urlescape\<close>
  the outcome holds only characters of an encoded URL. No bound on the lengths is needed.
\<close>

theorem pipeline_output_safe:
  "(\<forall>w. run_pipeline (map (pipestage_alloc mem) (ns @ [''escape''])) v = Inr w \<longrightarrow>
      (\<exists>t. w = VT_STR t \<and> set t \<inter> markup = {})) \<and>
   (\<forall>w. run_pipeline (map (pipestage_alloc mem) (ns @ [''urlescape''])) v = Inr w \<longrightarrow>
      (\<exists>t. w = VT_STR t \<and> set t \<subseteq> url_text))"
  using escape_fxn_text urlescape_fxn_text
  by (auto simp: run_pipeline_append rbind_eq_Inr)

lemma pipeline_output_safe_witness:
  "run_pipeline (map (pipestage_alloc True) ([''time''] @ [''escape''])) (VT_INT 3600) = (Inr (VT_STR ''01:00'') :: unit val res) \<and>
   (\<exists>t. (VT_STR ''01:00'' :: unit val) = VT_STR t \<and> set t \<inter> markup = {})"
proof -
  have r: "run_pipeline (map (pipestage_alloc True) ([''time''] @ [''escape''])) (VT_INT 3600) = (Inr (VT_STR ''01:00'') :: unit val res)"
    by code_simp
  with pipeline_output_safe[of True "[''time'']" "VT_INT 3600 :: unit val"] show ?thesis by blast
qed

text \<open>
  A string sent through stages that are not date formats comes out as the composition of
  the escapings in the order the stages were written, stages with an unknown name doing nothing. A
  pipeline with \<^verbatim>\<open>urlescape\<close> in it needs a string of ASCII bytes.
\<close>

theorem pipeline_composes:
  assumes "set ns \<inter> date_stages = {}" "cstring s" "6 ^ Suc (length ns) * int (length s) < INT_MAX"
    and "''urlescape'' \<in> set ns \<Longrightarrow> list_all url_sized s"
  shows "run_pipeline (foldl pipeline_append [] (map (pipestage_alloc True) ns)) (VT_STR s) =
         Inr (VT_STR (fold stage_text ns s))"
proof -
  have "foldl pipeline_append xs ys = xs @ ys" for xs ys :: "'a pipestageinfo list"
    by (induction ys arbitrary: xs) (simp_all add: pipeline_append_def)
  with run_pipeline_text[OF assms] show ?thesis by simp
qed

lemma pipeline_composes_witness:
  "set [''shout'', ''urlescape'', ''escape''] \<inter> date_stages = {} \<and> cstring ''a&b'' \<and>
   run_pipeline (foldl pipeline_append [] (map (pipestage_alloc True) [''shout'', ''urlescape'', ''escape''])) (VT_STR ''a&b'') =
     (Inr (VT_STR ''a%26b'') :: unit val res)"
  using pipeline_composes[of "[''shout'', ''urlescape'', ''escape'']" "''a&b''"]
  by (simp add: date_stages_def stage_text_def url_escaped_def url_emit_def html_escaped_def html_emit_def
      c_isalnum_def hex_char_def hex_digits_def url_sized_def)

text \<open>
  The filter \<^verbatim>\<open>zulu\<close> loses nothing: whenever it returns for a time from 1970 on, reading the
  fields of its text as a UTC date gives the time stamp back.
\<close>

theorem zulu_roundtrip:
  assumes "zulu_fxn v = Inr w" "v = VT_INT i" "0 \<le> sint i"
  shows "\<exists>t. w = VT_STR t \<and> parse_zulu t = sint i"
  using assms parse_zulu_strftime[OF assms(3)]
  by (auto simp: zulu_fxn_def datetime_def gmtime_def Let_def split: option.splits if_splits)

lemma zulu_roundtrip_witness:
  "zulu_fxn (VT_INT 1234567890) = (Inr (VT_STR ''2009-02-13T23:31:30Z'') :: unit val res) \<and>
   parse_zulu ''2009-02-13T23:31:30Z'' = 1234567890"
proof -
  have z: "zulu_fxn (VT_INT 1234567890) = (Inr (VT_STR ''2009-02-13T23:31:30Z'') :: unit val res)"
    by code_simp
  from zulu_roundtrip[OF z refl] show ?thesis using z by simp
qed

end
