(* ===== verification/Request.thy ===== *)
theory Request
  imports Vars
begin

text \<open>
  The state of one request, \<^verbatim>\<open>struct req\<close> of \<^verbatim>\<open>req.h\<close>, with the parts of libjeffpc's
  \<^verbatim>\<open>struct scgi\<close> the program reads and writes: the headers and query of the request, and the status,
  headers and body of the response.
\<close>

datatype page =
    PAGE_ARCHIVE
  | PAGE_CATEGORY
  | PAGE_TAG
  | PAGE_COMMENT
  | PAGE_INDEX
  | PAGE_STORY
  | PAGE_ADMIN
  | PAGE_STATIC

datatype scgi_status = SCGI_STATUS_OK | SCGI_STATUS_REDIRECT | SCGI_STATUS_NOTFOUND

record 'n scgi =
  scgi_headers :: 'n
  scgi_query :: 'n
  scgi_body :: "string option"
  resp_status :: scgi_status
  resp_headers :: 'n
  resp_body :: "string option"
  resp_bodylen :: u64

record 'n req =
  scgi :: "'n scgi"
  req_page :: page
  req_vars :: "'n vars"
  req_fmt :: "string option"
  index_stories :: int

definition with_vars :: "('n vars \<Rightarrow> 'n vars res) \<Rightarrow> 'n req \<Rightarrow> 'n req res" where
  "with_vars f r = rbind (f (req_vars r)) (\<lambda>v. Inr (r\<lparr>req_vars := v\<rparr>))"

text \<open>
  Two requests that a piece of code may turn into each other when it leaves everything alone but the
  contents of scopes it pushed and popped itself.
\<close>

definition same_req :: "'n req \<Rightarrow> 'n req \<Rightarrow> bool" where
  "same_req r r' \<longleftrightarrow> vars_wf (req_vars r') \<and> live (req_vars r') = live (req_vars r) \<and>
     r' = r\<lparr>req_vars := req_vars r'\<rparr>"

lemma same_req_refl: "vars_wf (req_vars r) \<Longrightarrow> same_req r r"
  by (simp add: same_req_def)

lemma same_req_trans: "same_req r s \<Longrightarrow> same_req s t \<Longrightarrow> same_req r t"
  unfolding same_req_def by (metis req.unfold_congs(3) req.update_convs(3) req.surjective)

lemma same_req_wf: "same_req r s \<Longrightarrow> vars_wf (req_vars s)"
  by (simp add: same_req_def)

end
