(* ===== verification/Template.thy ===== *)
theory Template
  imports Request Pipeline Utils
begin

text \<open>
  The template language: the scanner of \<^verbatim>\<open>template.l\<close>, the stack of conditionals of
  \<^verbatim>\<open>parse.h\<close>, the grammar of \<^verbatim>\<open>template.y\<close> with its semantic actions, which render while they
  parse, and \<^verbatim>\<open>render.c\<close>, which starts a new parse for every template a page mentions. Since a
  template can mention itself, rendering carries a bound on the nesting.
\<close>

section \<open>The scanner\<close>

datatype token = TPUNCT char | TWORD string | TCHAR char

definition punct :: "char set" where
  "punct = {CHR ''{'', CHR ''}'', CHR ''|'', CHR ''%'', CHR ''('', CHR '')'', CHR '',''}"

definition word_char :: "char \<Rightarrow> bool" where
  "word_char c \<longleftrightarrow> c_isalnum c \<or> c = CHR ''_''"

function scan :: "string \<Rightarrow> token list" where
  "scan [] = []"
| "scan (c # s) =
     (if c \<in> punct then TPUNCT c # scan s
      else if word_char c then TWORD (takeWhile word_char (c # s)) # scan (dropWhile word_char (c # s))
      else TCHAR c # scan s)"
  by pat_completeness auto
termination
  by (relation "measure length") (auto intro: le_imp_less_Suc length_dropWhile_le)

declare scan.simps(2) [simp del]

lemma scan_punct: "c \<in> punct \<Longrightarrow> scan (c # s) = TPUNCT c # scan s"
  by (simp add: scan.simps(2))

lemma scan_word:
  "c \<notin> punct \<Longrightarrow> word_char c \<Longrightarrow> scan (c # s) = TWORD (c # takeWhile word_char s) # scan (dropWhile word_char s)"
  by (simp add: scan.simps(2))

lemma scan_char: "c \<notin> punct \<Longrightarrow> \<not> word_char c \<Longrightarrow> scan (c # s) = TCHAR c # scan s"
  by (simp add: scan.simps(2))

lemma scan_induct [case_names Nil punct word char]:
  assumes "P []"
    and "\<And>c s. c \<in> punct \<Longrightarrow> P s \<Longrightarrow> P (c # s)"
    and "\<And>c s. c \<notin> punct \<Longrightarrow> word_char c \<Longrightarrow> P (dropWhile word_char s) \<Longrightarrow> P (c # s)"
    and "\<And>c s. c \<notin> punct \<Longrightarrow> \<not> word_char c \<Longrightarrow> P s \<Longrightarrow> P (c # s)"
  shows "P s"
proof (induction s rule: scan.induct)
  case 1
  show ?case by (rule assms(1))
next
  case (2 c s)
  then show ?case using assms(2-4)[of c s] by (cases "c \<in> punct"; cases "word_char c") simp_all
qed

fun token_text :: "token \<Rightarrow> string" where
  "token_text (TPUNCT c) = [c]"
| "token_text (TWORD w) = w"
| "token_text (TCHAR c) = [c]"

section \<open>The stack of conditionals\<close>

text \<open>The value \<^verbatim>\<open>config.cmake\<close> gives \<^verbatim>\<open>COND_STACK_DEPTH\<close>.\<close>

definition COND_STACK_DEPTH :: nat where
  "COND_STACK_DEPTH = 10"

text \<open>
  The fields of \<^verbatim>\<open>struct parser_output\<close> a template uses. The array is not initialised, so a cell
  that was never written is \<^verbatim>\<open>None\<close>.
\<close>

record 'n parser_output =
  po_req :: "'n req"
  cond_stack :: "bool option list"
  cond_stack_use :: int

definition read_cond :: "'n parser_output \<Rightarrow> int \<Rightarrow> bool res" where
  "read_cond d i =
     (if i < 0 \<or> i \<ge> int (length (cond_stack d)) then Inl OutOfBounds
      else case cond_stack d ! nat i of None \<Rightarrow> Inl Uninitialised | Some b \<Rightarrow> Inr b)"

definition write_cond :: "'n parser_output \<Rightarrow> int \<Rightarrow> bool \<Rightarrow> 'n parser_output res" where
  "write_cond d i b =
     (if i < 0 \<or> i \<ge> int (length (cond_stack d)) then Inl OutOfBounds
      else Inr (d\<lparr>cond_stack := (cond_stack d)[nat i := Some b]\<rparr>))"

text \<open>The loop from \<open>i\<close> with \<open>n\<close> entries to go.\<close>

fun cond_upto :: "'n parser_output \<Rightarrow> nat \<Rightarrow> nat \<Rightarrow> bool res" where
  "cond_upto d i 0 = Inr True"
| "cond_upto d i (Suc n) = rbind (read_cond d (int i)) (\<lambda>b. if \<not> b then Inr False else cond_upto d (Suc i) n)"

definition cond_value :: "'n parser_output \<Rightarrow> bool res" where
  "cond_value d = cond_upto d 0 (nat (cond_stack_use d + 1))"

definition cond_if :: "'n parser_output \<Rightarrow> bool \<Rightarrow> 'n parser_output res" where
  "cond_if d b =
     rbind (assert_that (cond_stack_use d < int COND_STACK_DEPTH)) (\<lambda>_.
       let d' = d\<lparr>cond_stack_use := cond_stack_use d + 1\<rparr> in write_cond d' (cond_stack_use d') b)"

definition cond_else :: "'n parser_output \<Rightarrow> 'n parser_output res" where
  "cond_else d =
     rbind (assert_that (0 \<le> cond_stack_use d)) (\<lambda>_.
     rbind (read_cond d (cond_stack_use d)) (\<lambda>b. write_cond d (cond_stack_use d) (\<not> b)))"

definition cond_endif :: "'n parser_output \<Rightarrow> 'n parser_output res" where
  "cond_endif d =
     rbind (assert_that (0 \<le> cond_stack_use d)) (\<lambda>_. Inr (d\<lparr>cond_stack_use := cond_stack_use d - 1\<rparr>))"

section \<open>Joining texts\<close>

text \<open>
  What the semantic actions see of \<^verbatim>\<open>concat\<close>: the texts behind the two pointers, \<^verbatim>\<open>None\<close> for a
  NULL pointer. The lemma relates it to the function on the heap.
\<close>

definition concat_str :: "string option \<Rightarrow> string option \<Rightarrow> string option" where
  "concat_str a b =
     (case a of None \<Rightarrow> (case b of None \<Rightarrow> Some '''' | Some t \<Rightarrow> Some t)
      | Some s \<Rightarrow> (case b of None \<Rightarrow> Some s | Some t \<Rightarrow> Some (s @ t)))"

definition ptr_text :: "heap \<Rightarrow> ptr \<Rightarrow> string option" where
  "ptr_text h p = (case p of None \<Rightarrow> None | Some a \<Rightarrow> cells h a)"

lemma concat_str_of_heap:
  assumes "valid_src h a" "valid_src h b"
  shows "\<exists>h' p. concat_c h a b = Inr (h', p) \<and> ptr_text h' p = concat_str (ptr_text h a) (ptr_text h b)"
proof -
  let ?src = "[a, b, None, None, None]"
  have v: "length ?src = 5" "\<forall>p\<in>set ?src. valid_src h p" using assms by (auto simp: valid_src_def)
  have live: "ptr_text h p \<noteq> None \<and> the (ptr_text h p) = src_text h p" if "valid_src h p" "p \<noteq> None" for p
    using that by (auto simp: ptr_text_def valid_src_def src_text_def split: option.splits)
  consider "a = None" "b = None" | "a = None" "b \<noteq> None" | "a \<noteq> None" "b = None" | "a \<noteq> None" "b \<noteq> None"
    by blast
  then show ?thesis
  proof cases
    case 1
    with concat5_list_none[of ?src h] show ?thesis
      by (simp add: concat_c_def concat5_def heap_new_def ptr_text_def concat_str_def)
  next
    case 2
    with concat5_list_single[OF v, of b] live[OF assms(2)] show ?thesis
      by (auto simp: concat_c_def concat5_def ptr_text_def concat_str_def)
  next
    case 3
    with concat5_list_single[OF v, of a] live[OF assms(1)] show ?thesis
      by (auto simp: concat_c_def concat5_def ptr_text_def concat_str_def)
  next
    case 4
    from live[OF assms(1) 4(1)] live[OF assms(2) 4(2)]
    have t: "concat_str (ptr_text h a) (ptr_text h b) = Some (concat (map (src_text h) ?src))"
      by (auto simp: concat_str_def src_text_def)
    show ?thesis
    proof (cases "concat (map (src_text h) ?src) = []")
      case True
      with concat5_list_empty[OF v _ True] 4 t show ?thesis
        by (simp add: concat_c_def concat5_def ptr_text_def)
    next
      case False
      with concat5_list_copies[OF v _ False] 4 t show ?thesis
        by (simp add: concat_c_def concat5_def ptr_text_def)
    qed
  qed
qed

text \<open>\<^verbatim>\<open>tostr\<close>: a string of one character.\<close>

definition tostr :: "char \<Rightarrow> string option" where
  "tostr c = Some [c]"

section \<open>What the engine needs from outside\<close>

text \<open>
  The name-value lists, whether \<^verbatim>\<open>malloc\<close> finds memory, the configured template directory, the
  library's file cache (\<^verbatim>\<open>None\<close> when it reports an error) and the library's number parser
  (\<^verbatim>\<open>None\<close> when it reports an error).
\<close>

record 'n tmpl_env =
  env_nvl :: "'n nvl_ops"
  env_mem :: bool
  template_dir :: string
  file_cache_get :: "string \<Rightarrow> string option"
  str2u64 :: "string \<Rightarrow> u64 option"

text \<open>Rendering a nested template, \<^verbatim>\<open>render_template\<close>, is an argument of the actions below.\<close>

type_synonym 'n renderer = "'n req \<Rightarrow> string \<Rightarrow> (string option \<times> 'n req) res"

section \<open>Semantic actions\<close>

definition condconcat :: "'n parser_output \<Rightarrow> string option \<Rightarrow> string option \<Rightarrow> string option res" where
  "condconcat d a b = rbind (cond_value d) (\<lambda>c. Inr (if \<not> c then a else concat_str a b))"

fun foreach_loop :: "'n tmpl_env \<Rightarrow> 'n renderer \<Rightarrow> string \<Rightarrow> string \<Rightarrow> 'n val list \<Rightarrow>
    string option \<Rightarrow> 'n req \<Rightarrow> (string option \<times> 'n req) res" where
  "foreach_loop E rend name tmpl [] out r = Inr (out, r)"
| "foreach_loop E rend name tmpl (x # xs) out r =
     rbind (with_vars (vars_scope_push (env_nvl E)) r) (\<lambda>r1.
     rbind (case x of
              VT_NVL l \<Rightarrow> with_vars (\<lambda>v. vars_merge (env_nvl E) v l) r1
            | VT_STR s \<Rightarrow> with_vars (\<lambda>v. vars_set_str (env_nvl E) v name s) r1
            | _ \<Rightarrow> Inl Panicked) (\<lambda>r2.
     rbind (rend r2 tmpl) (\<lambda>(t, r3).
     rbind (with_vars (vars_scope_pop (env_nvl E)) r3) (\<lambda>r4.
       foreach_loop E rend name tmpl xs (concat_str out t) r4))))"

text \<open>\<^verbatim>\<open>__foreach\<close>: \<^verbatim>\<open>nvpair_value_array\<close> fails for a variable of another type.\<close>

definition foreach_val :: "'n tmpl_env \<Rightarrow> 'n renderer \<Rightarrow> string \<Rightarrow> 'n val \<Rightarrow> string \<Rightarrow>
    'n req \<Rightarrow> (string option \<times> 'n req) res" where
  "foreach_val E rend name v tmpl r =
     (case v of VT_ARRAY items \<Rightarrow> foreach_loop E rend name tmpl items None r | _ \<Rightarrow> Inl AssertFailed)"

definition on_req :: "('n req \<Rightarrow> (string option \<times> 'n req) res) \<Rightarrow> 'n parser_output \<Rightarrow>
    (string option \<times> 'n parser_output) res" where
  "on_req f d = rbind (f (po_req d)) (\<lambda>(t, r). Inr (t, d\<lparr>po_req := r\<rparr>))"

definition foreach :: "'n tmpl_env \<Rightarrow> 'n renderer \<Rightarrow> 'n parser_output \<Rightarrow> string \<Rightarrow> string \<Rightarrow>
    (string option \<times> 'n parser_output) res" where
  "foreach E rend d name tmpl =
     rbind (cond_value d) (\<lambda>c.
       if \<not> c then Inr (Some '''', d)
       else rbind (vars_lookup (env_nvl E) (req_vars (po_req d)) name) (\<lambda>var.
         case var of None \<Rightarrow> Inr (Some '''', d)
         | Some v \<Rightarrow> on_req (foreach_val E rend name v tmpl) d))"

text \<open>The decimal text of 64-bit number fits the 32 bytes of the buffers it is printed to.\<close>

definition print_val :: "'n val \<Rightarrow> string res" where
  "print_val v =
     (case v of
        VT_STR s \<Rightarrow> Inr s
      | VT_INT i \<Rightarrow> Inr (c_snprintf 32 (dec_of_nat (unat i)))
      | _ \<Rightarrow> Inl Panicked)"

definition print_var :: "'n val \<Rightarrow> string res" where
  "print_var v =
     (case v of
        VT_STR s \<Rightarrow> Inr s
      | VT_INT i \<Rightarrow> Inr (c_snprintf 32 (dec_of_nat (unat i)))
      | _ \<Rightarrow> Inl Panicked)"

definition pipeline_cmd :: "'n tmpl_env \<Rightarrow> 'n parser_output \<Rightarrow> string \<Rightarrow> 'n pipestageinfo list \<Rightarrow>
    (string option \<times> 'n parser_output) res" where
  "pipeline_cmd E d name line =
     rbind (cond_value d) (\<lambda>c.
       if \<not> c then Inr (Some '''', d)
       else rbind (vars_lookup (env_nvl E) (req_vars (po_req d)) name) (\<lambda>var.
         case var of None \<Rightarrow> Inr (Some '''', d)
         | Some v \<Rightarrow>
             rbind (case v of VT_STR s \<Rightarrow> Inr (VT_STR s) | VT_INT i \<Rightarrow> Inr (VT_INT i) | _ \<Rightarrow> Inl Panicked) (\<lambda>x.
             rbind (run_pipeline line x) (\<lambda>y.
             rbind (print_val y) (\<lambda>t. Inr (Some t, d))))))"

definition variable :: "'n tmpl_env \<Rightarrow> 'n renderer \<Rightarrow> 'n parser_output \<Rightarrow> string \<Rightarrow>
    (string option \<times> 'n parser_output) res" where
  "variable E rend d name =
     rbind (cond_value d) (\<lambda>c.
       if \<not> c then Inr (Some '''', d)
       else rbind (vars_lookup (env_nvl E) (req_vars (po_req d)) name) (\<lambda>var.
         case var of None \<Rightarrow> on_req (\<lambda>r. rend r name) d
         | Some v \<Rightarrow> rbind (print_var v) (\<lambda>t. Inr (Some t, d))))"

section \<open>Template functions\<close>

datatype if_fxns = IFFXN_GT | IFFXN_LT | IFFXN_EQ

text \<open>
  A command with fewer arguments passes NULL for the missing ones, and the library functions that
  take them expect a string.
\<close>

definition need_arg :: "string option \<Rightarrow> string res" where
  "need_arg a = (case a of None \<Rightarrow> Inl NullDeref | Some s \<Rightarrow> Inr s)"

definition function_get_arg :: "'n tmpl_env \<Rightarrow> 'n req \<Rightarrow> string option \<Rightarrow> u64 res" where
  "function_get_arg E r a =
     rbind (need_arg a) (\<lambda>arg.
       case str2u64 E arg of Some i \<Rightarrow> Inr i
       | None \<Rightarrow> rbind (vars_lookup (env_nvl E) (req_vars r) arg) (\<lambda>var.
           case var of None \<Rightarrow> Inr 0 | Some (VT_INT i) \<Rightarrow> Inr i | _ \<Rightarrow> Inl Panicked))"

definition iffxn_result :: "if_fxns \<Rightarrow> u64 \<Rightarrow> u64 \<Rightarrow> bool" where
  "iffxn_result fxn ia1 ia2 =
     (case fxn of IFFXN_GT \<Rightarrow> ia1 > ia2 | IFFXN_LT \<Rightarrow> ia1 < ia2 | IFFXN_EQ \<Rightarrow> ia1 = ia2)"

definition function_if :: "'n tmpl_env \<Rightarrow> 'n parser_output \<Rightarrow> if_fxns \<Rightarrow> string option \<Rightarrow> string option \<Rightarrow>
    'n parser_output res" where
  "function_if E d fxn sa1 sa2 =
     rbind (function_get_arg E (po_req d) sa1) (\<lambda>ia1.
     rbind (function_get_arg E (po_req d) sa2) (\<lambda>ia2.
       cond_if d (iffxn_result fxn ia1 ia2)))"

definition function_ifset :: "'n tmpl_env \<Rightarrow> 'n parser_output \<Rightarrow> string option \<Rightarrow> 'n parser_output res" where
  "function_ifset E d a =
     rbind (need_arg a) (\<lambda>arg.
     rbind (vars_lookup (env_nvl E) (req_vars (po_req d)) arg) (\<lambda>var. cond_if d (var \<noteq> None)))"

text \<open>The text of every function is \<^verbatim>\<open>xstrdup(NULL)\<close>, an empty string.\<close>

definition function_cmd :: "'n tmpl_env \<Rightarrow> 'n parser_output \<Rightarrow> string \<Rightarrow> string option \<Rightarrow> string option \<Rightarrow>
    (string option \<times> 'n parser_output) res" where
  "function_cmd E d fxn sa1 sa2 =
     rbind
       (if fxn = ''ifgt'' then function_if E d IFFXN_GT sa1 sa2
        else if fxn = ''iflt'' then function_if E d IFFXN_LT sa1 sa2
        else if fxn = ''ifeq'' then function_if E d IFFXN_EQ sa1 sa2
        else if fxn = ''ifset'' then function_ifset E d sa1
        else if fxn = ''endif'' then cond_endif d
        else if fxn = ''else'' then cond_else d
        else Inl Panicked)
       (\<lambda>d'. Inr (Some '''', d'))"

section \<open>The grammar\<close>

datatype 'n cmd =
    PipelineCmd string "'n pipestageinfo list"
  | ForeachCmd string string
  | FunctionCmd string "string option" "string option"
  | VariableCmd string

text \<open>
  The rules for \<^verbatim>\<open>pipe\<close> and \<^verbatim>\<open>pipeline\<close>, after the variable name: the stages up to the first
  token that is not a vertical bar. \<^verbatim>\<open>None\<close> is a syntax error.
\<close>

fun parse_pipes :: "bool \<Rightarrow> 'n pipestageinfo list \<Rightarrow> token list \<Rightarrow> ('n pipestageinfo list \<times> token list) option" where
  "parse_pipes mem line (TPUNCT c # ts) =
     (if c = CHR ''|'' then
        (case ts of TWORD w # ts' \<Rightarrow> parse_pipes mem (pipeline_append line (pipestage_alloc mem w)) ts'
         | _ \<Rightarrow> None)
      else Some (line, TPUNCT c # ts))"
| "parse_pipes mem line (TWORD w # ts) = None"
| "parse_pipes mem line (TCHAR c # ts) = None"
| "parse_pipes mem line [] = None"

text \<open>A command, after its opening brace.\<close>

definition close_cmd :: "'n cmd \<Rightarrow> token list \<Rightarrow> ('n cmd \<times> token list) option" where
  "close_cmd c ts =
     (case ts of TPUNCT b # ts' \<Rightarrow> if b = CHR ''}'' then Some (c, ts') else None | _ \<Rightarrow> None)"

definition parse_args :: "string \<Rightarrow> token list \<Rightarrow> ('n cmd \<times> token list) option" where
  "parse_args f ts =
     (case ts of
        TPUNCT p # ts1 \<Rightarrow> if p = CHR '')'' then close_cmd (FunctionCmd f None None) ts1 else None
      | TWORD a # TPUNCT p # ts1 \<Rightarrow>
          if p = CHR '')'' then close_cmd (FunctionCmd f (Some a) None) ts1
          else if p = CHR '','' then
            (case ts1 of TWORD b # TPUNCT q # ts2 \<Rightarrow>
               if q = CHR '')'' then close_cmd (FunctionCmd f (Some a) (Some b)) ts2 else None
             | _ \<Rightarrow> None)
          else None
      | _ \<Rightarrow> None)"

definition parse_cmd :: "bool \<Rightarrow> token list \<Rightarrow> ('n cmd \<times> token list) option" where
  "parse_cmd mem ts =
     (case ts of
        TWORD w # TPUNCT p # ts1 \<Rightarrow>
          if p = CHR ''}'' then Some (VariableCmd w, ts1)
          else if p = CHR ''|'' then
            (case ts1 of TWORD s # ts2 \<Rightarrow>
               (case parse_pipes mem (pipestage_to_pipeline (pipestage_alloc mem s)) ts2 of
                  None \<Rightarrow> None | Some (line, ts3) \<Rightarrow> close_cmd (PipelineCmd w line) ts3)
             | _ \<Rightarrow> None)
          else if p = CHR ''%'' then
            (case ts1 of TWORD t # ts2 \<Rightarrow> close_cmd (ForeachCmd w t) ts2 | _ \<Rightarrow> None)
          else if p = CHR ''('' then parse_args w ts1
          else None
      | _ \<Rightarrow> None)"

fun run_cmd :: "'n tmpl_env \<Rightarrow> 'n renderer \<Rightarrow> 'n cmd \<Rightarrow> 'n parser_output \<Rightarrow>
    (string option \<times> 'n parser_output) res" where
  "run_cmd E rend (PipelineCmd w line) d = pipeline_cmd E d w line"
| "run_cmd E rend (ForeachCmd w t) d = foreach E rend d w t"
| "run_cmd E rend (FunctionCmd f a b) d = function_cmd E d f a b"
| "run_cmd E rend (VariableCmd w) d = variable E rend d w"

lemma parse_pipes_shorter: "parse_pipes mem line ts = Some (line', ts') \<Longrightarrow> length ts' \<le> length ts"
  by (induction mem line ts rule: parse_pipes.induct)
     (auto split: if_splits list.splits token.splits)

lemma close_cmd_shorter: "close_cmd c ts = Some (c', ts') \<Longrightarrow> length ts' < length ts"
  by (auto simp: close_cmd_def split: list.splits token.splits if_splits)

lemma parse_args_shorter: "parse_args f ts = Some (c', ts') \<Longrightarrow> length ts' < length ts"
  by (auto simp: parse_args_def split: list.splits token.splits if_splits dest!: close_cmd_shorter)

lemma parse_cmd_shorter: "parse_cmd mem ts = Some (c, ts') \<Longrightarrow> length ts' < length ts"
  by (auto simp: parse_cmd_def split: list.splits token.splits if_splits option.splits prod.splits
      dest!: close_cmd_shorter parse_args_shorter parse_pipes_shorter)

text \<open>
  The rules for \<^verbatim>\<open>words\<close>: the actions run while the tokens are read, so every command before a
  syntax error has been executed. \<^verbatim>\<open>render_page\<close> asserts that the parse succeeds.
\<close>

function words :: "'n tmpl_env \<Rightarrow> 'n renderer \<Rightarrow> token list \<Rightarrow> string option \<Rightarrow> 'n parser_output \<Rightarrow>
    (string option \<times> 'n parser_output) res" where
  "words E rend [] acc d = Inr (acc, d)"
| "words E rend (TCHAR c # ts) acc d =
     rbind (condconcat d acc (tostr c)) (\<lambda>acc'. words E rend ts acc' d)"
| "words E rend (TWORD w # ts) acc d =
     rbind (condconcat d acc (Some w)) (\<lambda>acc'. words E rend ts acc' d)"
| "words E rend (TPUNCT c # ts) acc d =
     (if c = CHR ''{'' then
        (case parse_cmd (env_mem E) ts of
           None \<Rightarrow> Inl AssertFailed
         | Some (cmd, ts') \<Rightarrow>
             rbind (run_cmd E rend cmd d) (\<lambda>(t, d').
               words E rend ts' (concat_str acc t) d'))
      else if c = CHR ''}'' then Inl AssertFailed
      else rbind (condconcat d acc (tostr c)) (\<lambda>acc'. words E rend ts acc' d))"
  by pat_completeness auto
termination
  by (relation "measure (\<lambda>(E, rend, ts, acc, d). length ts)") (auto dest: parse_cmd_shorter)

section \<open>render.c\<close>

definition po_init :: "'n req \<Rightarrow> 'n parser_output" where
  "po_init r = \<lparr>po_req = r, cond_stack = replicate COND_STACK_DEPTH None, cond_stack_use = -1\<rparr>"

definition render_page :: "'n tmpl_env \<Rightarrow> 'n renderer \<Rightarrow> 'n req \<Rightarrow> string \<Rightarrow> (string option \<times> 'n req) res" where
  "render_page E rend r str =
     rbind (words E rend (scan str) (Some '''') (po_init r)) (\<lambda>(out, d). Inr (out, po_req d))"

definition template_path :: "'n tmpl_env \<Rightarrow> string \<Rightarrow> string \<Rightarrow> string" where
  "template_path E fmt tmpl =
     c_snprintf FILENAME_MAX (template_dir E @ ''/'' @ fmt @ ''/'' @ tmpl @ ''.tmpl'')"

text \<open>
  \<^verbatim>\<open>render_template\<close> with at most \<open>n\<close> levels of templates below each other, and the top-level call
  a request handler makes.
\<close>

primrec render_template :: "nat \<Rightarrow> 'n tmpl_env \<Rightarrow> 'n renderer" where
  "render_template 0 E r tmpl = Inl OutOfFuel"
| "render_template (Suc n) E r tmpl =
     (case req_fmt r of None \<Rightarrow> Inl NullDeref
      | Some fmt \<Rightarrow>
          (case file_cache_get E (template_path E fmt tmpl) of
             None \<Rightarrow> Inr (None, r)
           | Some raw \<Rightarrow> render_page E (render_template n E) r raw))"

definition render :: "nat \<Rightarrow> 'n tmpl_env \<Rightarrow> 'n renderer" where
  "render n E = render_page E (render_template n E)"

section \<open>The scanner loses nothing\<close>

lemmas scan_steps = scan_punct scan_word scan_char

lemma scan_concat: "concat (map token_text (scan s)) = s"
  by (induction s rule: scan_induct) (simp_all add: scan_steps)

lemma scan_words: "TWORD w \<in> set (scan s) \<Longrightarrow> w \<noteq> [] \<and> (\<forall>c\<in>set w. word_char c)"
  by (induction s rule: scan_induct) (auto simp: scan_steps dest: set_takeWhileD)

lemma scan_chars: "TCHAR c \<in> set (scan s) \<Longrightarrow> c \<notin> punct \<and> \<not> word_char c"
  by (induction s rule: scan_induct) (auto simp: scan_steps)

lemma word_char_not_punct: "c \<in> punct \<Longrightarrow> \<not> word_char c"
  by (auto simp: punct_def word_char_def c_isalnum_def)

lemma in_dropWhile_punct: "c \<in> punct \<Longrightarrow> c \<in> set (dropWhile word_char s) \<longleftrightarrow> c \<in> set s"
  by (induction s) (auto dest: word_char_not_punct)

lemma scan_puncts: "TPUNCT c \<in> set (scan s) \<longleftrightarrow> c \<in> punct \<and> c \<in> set s"
  by (induction s rule: scan_induct) (auto simp: scan_steps in_dropWhile_punct)

text \<open>No two words touch, so no shorter split of the text into words is possible.\<close>

lemma scan_hd_word: "scan s = TWORD w # ts \<Longrightarrow> w = takeWhile word_char s \<and> ts = scan (dropWhile word_char s)"
  by (induction s rule: scan_induct) (auto simp: scan_steps)

lemma scan_maximal: "successively (\<lambda>a b. \<not> ((\<exists>v. a = TWORD v) \<and> (\<exists>w. b = TWORD w))) (scan s)"
proof (induction s rule: scan_induct)
  case (word c s)
  have "\<nexists>w ts. scan (dropWhile word_char s) = TWORD w # ts"
  proof
    assume "\<exists>w ts. scan (dropWhile word_char s) = TWORD w # ts"
    then obtain w ts where w: "scan (dropWhile word_char s) = TWORD w # ts" by blast
    then have "w \<noteq> []" using scan_words[of w "dropWhile word_char s"] by simp
    moreover have "w = takeWhile word_char (dropWhile word_char s)" using scan_hd_word[OF w] by simp
    ultimately show False by (metis dropWhile_eq_Nil_conv hd_dropWhile takeWhile_eq_Nil_iff)
  qed
  with word show ?case
    by (cases "scan (dropWhile word_char s)") (auto simp: scan_steps)
qed (auto simp: scan_steps successively_Cons)

end
