(* ===== verification/Structured.thy ===== *)
theory Structured
  imports Template
begin

text \<open>
  Templates as trees. The engine has no tree: it executes commands while it reads them and keeps a
  stack of conditions, and code in a branch not taken is still run with its output suppressed. Here
  the conditions are related to a stack, and every template that is the text of a tree is shown to
  render as the tree says.
\<close>

section \<open>The stack of conditions\<close>

definition cond_wf :: "'n parser_output \<Rightarrow> bool" where
  "cond_wf d \<longleftrightarrow> length (cond_stack d) = COND_STACK_DEPTH \<and>
     -1 \<le> cond_stack_use d \<and> cond_stack_use d < int COND_STACK_DEPTH \<and>
     (\<forall>i < nat (cond_stack_use d + 1). cond_stack d ! i \<noteq> None)"

text \<open>The conditions in force, the innermost first.\<close>

definition cond_abs :: "'n parser_output \<Rightarrow> bool list" where
  "cond_abs d = rev (map the (take (nat (cond_stack_use d + 1)) (cond_stack d)))"

abbreviation all_true :: "bool list \<Rightarrow> bool" where
  "all_true cs \<equiv> list_all (\<lambda>b. b) cs"

lemma length_cond_abs: "cond_wf d \<Longrightarrow> int (length (cond_abs d)) = cond_stack_use d + 1"
  by (auto simp: cond_wf_def cond_abs_def min_def)

lemma read_cond_ok:
  "cond_wf d \<Longrightarrow> i < nat (cond_stack_use d + 1) \<Longrightarrow> read_cond d (int i) = Inr (the (cond_stack d ! i))"
  by (auto simp: read_cond_def cond_wf_def split: option.splits)

lemma cond_upto_eq:
  "cond_wf d \<Longrightarrow> i + n \<le> nat (cond_stack_use d + 1) \<Longrightarrow>
   cond_upto d i n = Inr (all_true (map the (take n (drop i (cond_stack d)))))"
proof (induction n arbitrary: i)
  case 0
  then show ?case by simp
next
  case (Suc n)
  from Suc.prems have "i < length (cond_stack d)" by (auto simp: cond_wf_def)
  then have "take (Suc n) (drop i (cond_stack d)) = cond_stack d ! i # take n (drop (Suc i) (cond_stack d))"
    by (simp flip: Cons_nth_drop_Suc)
  with Suc show ?case by (simp add: read_cond_ok)
qed

lemma cond_value_abs: "cond_wf d \<Longrightarrow> cond_value d = Inr (all_true (cond_abs d))"
  using cond_upto_eq[of d 0 "nat (cond_stack_use d + 1)"]
  by (simp add: cond_value_def cond_abs_def list_all_iff)

lemma cond_abs_Nil: "cond_wf d \<Longrightarrow> cond_abs d = [] \<longleftrightarrow> cond_stack_use d = -1"
  using length_cond_abs[of d] by (auto simp: cond_wf_def)

lemma cond_abs_Cons:
  assumes "cond_wf d" "cond_abs d = b # bs"
  shows "0 \<le> cond_stack_use d" "cond_stack d ! nat (cond_stack_use d) = Some b"
    "bs = rev (map the (take (nat (cond_stack_use d)) (cond_stack d)))"
proof -
  show u: "0 \<le> cond_stack_use d" using length_cond_abs[OF assms(1)] assms(2) by simp
  then have n: "nat (cond_stack_use d + 1) = Suc (nat (cond_stack_use d))" by simp
  have l: "nat (cond_stack_use d) < length (cond_stack d)" using assms(1) u by (auto simp: cond_wf_def)
  have "cond_stack d ! nat (cond_stack_use d) \<noteq> None" using assms(1) n by (simp add: cond_wf_def)
  with assms(2) show "cond_stack d ! nat (cond_stack_use d) = Some b"
    "bs = rev (map the (take (nat (cond_stack_use d)) (cond_stack d)))"
    using l by (auto simp: cond_abs_def n take_Suc_conv_app_nth)
qed

lemma cond_if_abs:
  assumes "cond_wf d"
  shows "if length (cond_abs d) < COND_STACK_DEPTH
     then \<exists>d'. cond_if d b = Inr d' \<and> cond_wf d' \<and> cond_abs d' = b # cond_abs d \<and> po_req d' = po_req d
     else cond_if d b = Inl OutOfBounds"
proof (cases "length (cond_abs d) < COND_STACK_DEPTH")
  case True
  let ?u = "cond_stack_use d + 1"
  let ?d = "d\<lparr>cond_stack := (cond_stack d)[nat ?u := Some b], cond_stack_use := ?u\<rparr>"
  have u: "0 \<le> ?u" "?u < int COND_STACK_DEPTH"
    using assms True length_cond_abs[OF assms] by (auto simp: cond_wf_def)
  then have if': "cond_if d b = Inr ?d"
    using assms by (simp add: cond_if_def write_cond_def cond_wf_def Let_def)
  have n: "nat (?u + 1) = Suc (nat ?u)" using u by simp
  have "cond_wf ?d" using assms u n by (auto simp: cond_wf_def nth_list_update less_Suc_eq)
  moreover have "cond_abs ?d = b # cond_abs d"
    using assms u n by (simp add: cond_abs_def take_Suc_conv_app_nth cond_wf_def)
  ultimately show ?thesis using True if' by auto
next
  case False
  with assms length_cond_abs[OF assms] have "cond_stack_use d = int COND_STACK_DEPTH - 1"
    by (auto simp: cond_wf_def)
  with False assms show ?thesis by (simp add: cond_if_def write_cond_def cond_wf_def Let_def COND_STACK_DEPTH_def)
qed

lemma cond_else_abs:
  assumes "cond_wf d"
  shows "case cond_abs d of
      [] \<Rightarrow> cond_else d = Inl AssertFailed
    | b # bs \<Rightarrow> \<exists>d'. cond_else d = Inr d' \<and> cond_wf d' \<and> cond_abs d' = (\<not> b) # bs \<and> po_req d' = po_req d"
proof (cases "cond_abs d")
  case Nil
  with cond_abs_Nil[OF assms] show ?thesis by (simp add: cond_else_def)
next
  case (Cons b bs)
  let ?u = "cond_stack_use d"
  let ?d = "d\<lparr>cond_stack := (cond_stack d)[nat ?u := Some (\<not> b)]\<rparr>"
  note c = cond_abs_Cons[OF assms Cons]
  have l: "nat ?u < length (cond_stack d)" using assms c(1) by (auto simp: cond_wf_def)
  then have "cond_else d = Inr ?d"
    using c(1,2) by (auto simp: cond_else_def read_cond_def write_cond_def)
  moreover have "cond_wf ?d" using assms by (auto simp: cond_wf_def nth_list_update)
  moreover have "cond_abs ?d = (\<not> b) # bs"
  proof -
    have n: "nat (?u + 1) = Suc (nat ?u)" using c(1) by simp
    show ?thesis using l c(3) by (simp add: cond_abs_def n take_Suc_conv_app_nth)
  qed
  ultimately show ?thesis using Cons by simp
qed

lemma cond_endif_abs:
  assumes "cond_wf d"
  shows "case cond_abs d of
      [] \<Rightarrow> cond_endif d = Inl AssertFailed
    | b # bs \<Rightarrow> \<exists>d'. cond_endif d = Inr d' \<and> cond_wf d' \<and> cond_abs d' = bs \<and> po_req d' = po_req d"
proof (cases "cond_abs d")
  case Nil
  with cond_abs_Nil[OF assms] show ?thesis by (simp add: cond_endif_def)
next
  case (Cons b bs)
  note c = cond_abs_Cons[OF assms Cons]
  have "cond_endif d = Inr (d\<lparr>cond_stack_use := cond_stack_use d - 1\<rparr>)"
    using c(1) by (simp add: cond_endif_def)
  moreover have "cond_wf (d\<lparr>cond_stack_use := cond_stack_use d - 1\<rparr>)"
    using assms c(1) by (auto simp: cond_wf_def)
  moreover have "cond_abs (d\<lparr>cond_stack_use := cond_stack_use d - 1\<rparr>) = bs"
    using c(3) by (simp add: cond_abs_def)
  ultimately show ?thesis using Cons by simp
qed

text \<open>A run of operations on the conditions, on the array and on the stack.\<close>

datatype cond_op = CondIf bool | CondElse | CondEndif

fun cond_step :: "cond_op \<Rightarrow> 'n parser_output \<Rightarrow> 'n parser_output res" where
  "cond_step (CondIf b) d = cond_if d b"
| "cond_step CondElse d = cond_else d"
| "cond_step CondEndif d = cond_endif d"

fun cond_run :: "cond_op list \<Rightarrow> 'n parser_output \<Rightarrow> 'n parser_output res" where
  "cond_run [] d = Inr d"
| "cond_run (x # xs) d = rbind (cond_step x d) (cond_run xs)"

fun stack_step :: "cond_op \<Rightarrow> bool list \<Rightarrow> bool list res" where
  "stack_step (CondIf b) cs = (if length cs < COND_STACK_DEPTH then Inr (b # cs) else Inl OutOfBounds)"
| "stack_step CondElse cs = (case cs of [] \<Rightarrow> Inl AssertFailed | b # bs \<Rightarrow> Inr ((\<not> b) # bs))"
| "stack_step CondEndif cs = (case cs of [] \<Rightarrow> Inl AssertFailed | b # bs \<Rightarrow> Inr bs)"

fun stack_run :: "cond_op list \<Rightarrow> bool list \<Rightarrow> bool list res" where
  "stack_run [] cs = Inr cs"
| "stack_run (x # xs) cs = rbind (stack_step x cs) (stack_run xs)"

lemma cond_step_abs:
  assumes "cond_wf d"
  shows "case stack_step x (cond_abs d) of
      Inl f \<Rightarrow> cond_step x d = Inl f
    | Inr cs \<Rightarrow> \<exists>d'. cond_step x d = Inr d' \<and> cond_wf d' \<and> cond_abs d' = cs \<and> po_req d' = po_req d"
  using cond_if_abs[OF assms] cond_else_abs[OF assms] cond_endif_abs[OF assms]
  by (cases x) (auto split: list.splits if_splits)

lemma cond_run_abs:
  "cond_wf d \<Longrightarrow>
   case stack_run xs (cond_abs d) of
      Inl f \<Rightarrow> cond_run xs d = Inl f
    | Inr cs \<Rightarrow> \<exists>d'. cond_run xs d = Inr d' \<and> cond_wf d' \<and> cond_abs d' = cs \<and> po_req d' = po_req d"
proof (induction xs arbitrary: d)
  case Nil
  then show ?case by simp
next
  case (Cons x xs)
  show ?case
  proof (cases "stack_step x (cond_abs d)")
    case (Inl f)
    with cond_step_abs[OF Cons.prems, of x] show ?thesis by simp
  next
    case (Inr cs)
    with cond_step_abs[OF Cons.prems, of x] obtain d1
      where d1: "cond_step x d = Inr d1" "cond_wf d1" "cond_abs d1 = cs" "po_req d1 = po_req d" by auto
    from Cons.IH[OF d1(2)] d1 Inr show ?thesis by (auto split: sum.splits)
  qed
qed

lemma po_init_wf [simp]: "cond_wf (po_init r)" "cond_abs (po_init r) = []" "po_req (po_init r) = r"
  by (simp_all add: cond_wf_def cond_abs_def po_init_def COND_STACK_DEPTH_def)

section \<open>Trees and their text\<close>

text \<open>
  A tree alternates text and commands, ending in text. A condition compares two arguments or asks
  whether a variable is set.
\<close>

datatype test = TCmp if_fxns string string | TSet string

datatype tmpl = End string | Seg string node tmpl
  and node =
    NVar string
  | NPipe string "string list"
  | NFor string string
  | NIf test tmpl
  | NIfElse test tmpl tmpl

fun fxn_name :: "if_fxns \<Rightarrow> string" where
  "fxn_name IFFXN_GT = ''ifgt''"
| "fxn_name IFFXN_LT = ''iflt''"
| "fxn_name IFFXN_EQ = ''ifeq''"

fun test_text :: "test \<Rightarrow> string" where
  "test_text (TCmp f a b) = ''{'' @ fxn_name f @ ''('' @ a @ '','' @ b @ '')}''"
| "test_text (TSet a) = ''{ifset('' @ a @ '')}''"

fun tmpl_text :: "tmpl \<Rightarrow> string" and node_text :: "node \<Rightarrow> string" where
  "tmpl_text (End s) = s"
| "tmpl_text (Seg s n t) = s @ node_text n @ tmpl_text t"
| "node_text (NVar x) = ''{'' @ x @ ''}''"
| "node_text (NPipe x ps) = ''{'' @ x @ concat (map (Cons (CHR ''|'')) ps) @ ''}''"
| "node_text (NFor x f) = ''{'' @ x @ ''%'' @ f @ ''}''"
| "node_text (NIf c t) = test_text c @ tmpl_text t @ ''{endif()}''"
| "node_text (NIfElse c t e) = test_text c @ tmpl_text t @ ''{else()}'' @ tmpl_text e @ ''{endif()}''"

definition word :: "string \<Rightarrow> bool" where
  "word w \<longleftrightarrow> w \<noteq> [] \<and> list_all word_char w"

definition plain :: "string \<Rightarrow> bool" where
  "plain s \<longleftrightarrow> CHR ''{'' \<notin> set s \<and> CHR ''}'' \<notin> set s"

fun test_wf :: "test \<Rightarrow> bool" where
  "test_wf (TCmp f a b) = (word a \<and> word b)"
| "test_wf (TSet a) = word a"

text \<open>Well-formed trees whose conditions nest at most \<open>k\<close> deep.\<close>

fun tmpl_wf :: "nat \<Rightarrow> tmpl \<Rightarrow> bool" and node_wf :: "nat \<Rightarrow> node \<Rightarrow> bool" where
  "tmpl_wf k (End s) = plain s"
| "tmpl_wf k (Seg s n t) = (plain s \<and> node_wf k n \<and> tmpl_wf k t)"
| "node_wf k (NVar x) = word x"
| "node_wf k (NPipe x ps) = (word x \<and> ps \<noteq> [] \<and> list_all word ps)"
| "node_wf k (NFor x f) = (word x \<and> word f)"
| "node_wf k (NIf c t) = (test_wf c \<and> 0 < k \<and> tmpl_wf (k - 1) t)"
| "node_wf k (NIfElse c t e) = (test_wf c \<and> 0 < k \<and> tmpl_wf (k - 1) t \<and> tmpl_wf (k - 1) e)"

section \<open>What a tree means\<close>

definition opt_text :: "string option \<Rightarrow> string" where
  "opt_text a = (case a of None \<Rightarrow> '''' | Some s \<Rightarrow> s)"

definition shown :: "bool \<Rightarrow> string \<Rightarrow> string" where
  "shown b s = (if b then s else '''')"

text \<open>The tests are evaluated wherever they stand, in a branch not taken too.\<close>

fun test_val :: "'n tmpl_env \<Rightarrow> 'n req \<Rightarrow> test \<Rightarrow> bool res" where
  "test_val E r (TCmp f a b) =
     rbind (function_get_arg E r (Some a)) (\<lambda>x.
     rbind (function_get_arg E r (Some b)) (\<lambda>y. Inr (iffxn_result f x y)))"
| "test_val E r (TSet a) = rbind (vars_lookup (env_nvl E) (req_vars r) a) (\<lambda>v. Inr (v \<noteq> None))"

text \<open>The text of a command that stands in a branch taken.\<close>

definition var_text :: "'n tmpl_env \<Rightarrow> 'n renderer \<Rightarrow> string \<Rightarrow> 'n req \<Rightarrow> (string \<times> 'n req) res" where
  "var_text E rend x r =
     rbind (vars_lookup (env_nvl E) (req_vars r) x) (\<lambda>v.
       case v of None \<Rightarrow> rbind (rend r x) (\<lambda>(t, r'). Inr (opt_text t, r'))
       | Some y \<Rightarrow> rbind (print_var y) (\<lambda>t. Inr (t, r)))"

definition pipe_text :: "'n tmpl_env \<Rightarrow> string \<Rightarrow> string list \<Rightarrow> 'n req \<Rightarrow> (string \<times> 'n req) res" where
  "pipe_text E x ps r =
     rbind (vars_lookup (env_nvl E) (req_vars r) x) (\<lambda>v.
       case v of None \<Rightarrow> Inr ('''', r)
       | Some y \<Rightarrow>
           if (\<exists>s. y = VT_STR s) \<or> (\<exists>i. y = VT_INT i)
           then rbind (run_pipeline (map (pipestage_alloc (env_mem E)) ps) y) (\<lambda>z.
                rbind (print_val z) (\<lambda>t. Inr (t, r)))
           else Inl Panicked)"

definition for_text :: "'n tmpl_env \<Rightarrow> 'n renderer \<Rightarrow> string \<Rightarrow> string \<Rightarrow> 'n req \<Rightarrow> (string \<times> 'n req) res" where
  "for_text E rend x f r =
     rbind (vars_lookup (env_nvl E) (req_vars r) x) (\<lambda>v.
       case v of None \<Rightarrow> Inr ('''', r)
       | Some (VT_ARRAY items) \<Rightarrow>
           rbind (foreach_loop E rend x f items None r) (\<lambda>(t, r'). Inr (opt_text t, r'))
       | Some _ \<Rightarrow> Inl AssertFailed)"

fun tmpl_sem :: "'n tmpl_env \<Rightarrow> 'n renderer \<Rightarrow> tmpl \<Rightarrow> bool \<Rightarrow> 'n req \<Rightarrow> (string \<times> 'n req) res"
  and node_sem :: "'n tmpl_env \<Rightarrow> 'n renderer \<Rightarrow> node \<Rightarrow> bool \<Rightarrow> 'n req \<Rightarrow> (string \<times> 'n req) res" where
  "tmpl_sem E rend (End s) l r = Inr (shown l s, r)"
| "tmpl_sem E rend (Seg s n t) l r =
     rbind (node_sem E rend n l r) (\<lambda>(x, r1).
     rbind (tmpl_sem E rend t l r1) (\<lambda>(y, r2). Inr (shown l s @ x @ y, r2)))"
| "node_sem E rend (NVar x) l r = (if l then var_text E rend x r else Inr ('''', r))"
| "node_sem E rend (NPipe x ps) l r = (if l then pipe_text E x ps r else Inr ('''', r))"
| "node_sem E rend (NFor x f) l r = (if l then for_text E rend x f r else Inr ('''', r))"
| "node_sem E rend (NIf c t) l r = rbind (test_val E r c) (\<lambda>b. tmpl_sem E rend t (l \<and> b) r)"
| "node_sem E rend (NIfElse c t e) l r =
     rbind (test_val E r c) (\<lambda>b.
     rbind (tmpl_sem E rend t (l \<and> b) r) (\<lambda>(x, r1).
     rbind (tmpl_sem E rend e (l \<and> \<not> b) r1) (\<lambda>(y, r2). Inr (x @ y, r2))))"

section \<open>Scanning and parsing the text of a tree\<close>

lemma words_word_char: "word w \<Longrightarrow> (\<forall>c\<in>set w. word_char c \<and> c \<notin> punct) \<and> w \<noteq> []"
  using word_char_not_punct by (auto simp: word_def list_all_iff)

lemma scan_word_punct:
  assumes "word w" "c \<in> punct"
  shows "scan (w @ c # s) = TWORD w # TPUNCT c # scan s"
proof -
  from words_word_char[OF assms(1)] obtain a v where w: "w = a # v" "word_char a" "a \<notin> punct"
    "\<forall>x\<in>set v. word_char x" by (cases w) auto
  have "\<not> word_char c" using assms(2) by (rule word_char_not_punct)
  then have "takeWhile word_char (v @ c # s) = v" "dropWhile word_char (v @ c # s) = c # s"
    using w(4) by (induction v) auto
  with w(1-3) assms(2) show ?thesis by (simp add: scan_word scan_punct)
qed

lemma punct_chars [simp]:
  "CHR ''{'' \<in> punct" "CHR ''}'' \<in> punct" "CHR ''|'' \<in> punct" "CHR ''%'' \<in> punct"
  "CHR ''('' \<in> punct" "CHR '')'' \<in> punct" "CHR '','' \<in> punct"
  by (simp_all add: punct_def)

lemma punct_other: "c \<in> punct \<Longrightarrow> c \<noteq> CHR ''{'' \<Longrightarrow> c \<noteq> CHR ''}'' \<Longrightarrow> c \<in> set ''|%(),''"
  by (auto simp: punct_def)

lemma word_names [simp]:
  "word ''ifgt''" "word ''iflt''" "word ''ifeq''" "word ''ifset''" "word ''else''" "word ''endif''"
  by (simp_all add: word_def word_char_def c_isalnum_def)

lemma word_fxn_name: "word (fxn_name f)"
  by (cases f) simp_all

lemma parse_var: "word x \<Longrightarrow> parse_cmd m (scan (x @ CHR ''}'' # rest)) = Some (VariableCmd x, scan rest)"
  by (simp add: scan_word_punct parse_cmd_def)

lemma parse_for:
  "word x \<Longrightarrow> word f \<Longrightarrow>
   parse_cmd m (scan (x @ CHR ''%'' # f @ CHR ''}'' # rest)) = Some (ForeachCmd x f, scan rest)"
  by (simp add: scan_word_punct parse_cmd_def close_cmd_def)

lemma parse_fun0:
  "word f \<Longrightarrow> parse_cmd m (scan (f @ CHR ''('' # CHR '')'' # CHR ''}'' # rest)) =
     Some (FunctionCmd f None None, scan rest)"
  by (simp add: scan_word_punct scan_punct parse_cmd_def parse_args_def close_cmd_def)

lemma parse_fun1:
  "word f \<Longrightarrow> word a \<Longrightarrow> parse_cmd m (scan (f @ CHR ''('' # a @ CHR '')'' # CHR ''}'' # rest)) =
     Some (FunctionCmd f (Some a) None, scan rest)"
  by (simp add: scan_word_punct scan_punct parse_cmd_def parse_args_def close_cmd_def)

lemma parse_fun2:
  "word f \<Longrightarrow> word a \<Longrightarrow> word b \<Longrightarrow>
   parse_cmd m (scan (f @ CHR ''('' # a @ CHR '','' # b @ CHR '')'' # CHR ''}'' # rest)) =
     Some (FunctionCmd f (Some a) (Some b), scan rest)"
  by (simp add: scan_word_punct scan_punct parse_cmd_def parse_args_def close_cmd_def)

lemma scan_pipes:
  "list_all word ps \<Longrightarrow> c \<in> punct \<Longrightarrow> word x \<Longrightarrow>
   scan (x @ concat (map (Cons (CHR ''|'')) ps) @ c # rest) =
     TWORD x # concat (map (\<lambda>p. [TPUNCT (CHR ''|''), TWORD p]) ps) @ TPUNCT c # scan rest"
proof (induction ps arbitrary: x)
  case Nil
  then show ?case by (simp add: scan_word_punct)
next
  case (Cons p ps)
  then show ?case by (simp add: scan_word_punct)
qed

lemma parse_pipes_text:
  "parse_pipes m line (concat (map (\<lambda>p. [TPUNCT (CHR ''|''), TWORD p]) ps) @ TPUNCT (CHR ''}'') # ts) =
     Some (line @ map (pipestage_alloc m) ps, TPUNCT (CHR ''}'') # ts)"
  by (induction ps arbitrary: line) (simp_all add: pipeline_append_def)

lemma parse_pipe:
  assumes "word x" "ps \<noteq> []" "list_all word ps"
  shows "parse_cmd m (scan (x @ concat (map (Cons (CHR ''|'')) ps) @ CHR ''}'' # rest)) =
     Some (PipelineCmd x (map (pipestage_alloc m) ps), scan rest)"
proof -
  obtain p qs where ps: "ps = p # qs" using assms(2) by (cases ps) auto
  show ?thesis
    using scan_pipes[OF assms(3) _ assms(1), of "CHR ''}''" rest]
    by (simp add: ps parse_pipes_text parse_cmd_def close_cmd_def pipestage_to_pipeline_def pipeline_append_def)
qed

section \<open>The engine follows the tree\<close>

text \<open>
  Reading \<open>inp\<close> has the outcome \<open>res\<close>: it fails in the same way, or it appends the text, leaves
  the conditions \<open>cs\<close>, and goes on with \<open>rest\<close>.
\<close>

definition reads_as :: "'n tmpl_env \<Rightarrow> 'n renderer \<Rightarrow> 'n parser_output \<Rightarrow> string \<Rightarrow> token list \<Rightarrow> token list \<Rightarrow>
    (string \<times> 'n req) res \<Rightarrow> bool list \<Rightarrow> bool" where
  "reads_as E rend d acc inp rest res cs \<longleftrightarrow>
     (case res of
        Inl f \<Rightarrow> words E rend inp (Some acc) d = Inl f
      | Inr (x, r) \<Rightarrow> \<exists>d'. cond_wf d' \<and> cond_abs d' = cs \<and> po_req d' = r \<and>
          words E rend inp (Some acc) d = words E rend rest (Some (acc @ x)) d')"

lemma reads_as_seq:
  assumes "reads_as E rend d acc inp mid res cs1"
    and "\<And>x r d1. res = Inr (x, r) \<Longrightarrow> cond_wf d1 \<Longrightarrow> cond_abs d1 = cs1 \<Longrightarrow> po_req d1 = r \<Longrightarrow>
      reads_as E rend d1 (acc @ x) mid rest (nxt r) cs2"
  shows "reads_as E rend d acc inp rest
     (rbind res (\<lambda>(x, r). rbind (nxt r) (\<lambda>(y, r2). Inr (x @ y, r2)))) cs2"
proof (cases res)
  case (Inl f)
  with assms(1) show ?thesis by (simp add: reads_as_def)
next
  case (Inr xr)
  obtain x r where xr: "xr = (x, r)" by (cases xr)
  with assms(1) Inr obtain d1 where d1: "cond_wf d1" "cond_abs d1 = cs1" "po_req d1 = r"
    "words E rend inp (Some acc) d = words E rend mid (Some (acc @ x)) d1"
    by (auto simp: reads_as_def)
  from assms(2)[OF _ d1(1-3), of x] Inr xr have "reads_as E rend d1 (acc @ x) mid rest (nxt r) cs2" by simp
  with d1(4) Inr xr show ?thesis
    by (cases "nxt r") (auto simp: reads_as_def)
qed

text \<open>A command the parser finds, run to its outcome.\<close>

lemma reads_as_cmd:
  assumes "parse_cmd (env_mem E) ts = Some (cmd, rest)"
    and "case res of Inl f \<Rightarrow> run_cmd E rend cmd d = Inl f
       | Inr (x, r) \<Rightarrow> \<exists>t d'. run_cmd E rend cmd d = Inr (t, d') \<and> opt_text t = x \<and>
           cond_wf d' \<and> cond_abs d' = cs \<and> po_req d' = r"
  shows "reads_as E rend d acc (TPUNCT (CHR ''{'') # ts) rest res cs"
proof -
  have "concat_str (Some acc) t = Some (acc @ opt_text t)" for t
    by (cases t) (simp_all add: concat_str_def opt_text_def)
  with assms show ?thesis
    by (auto simp: reads_as_def split: sum.splits)
qed

lemma takeWhile_stop:
  "rest = [] \<or> \<not> word_char (hd rest) \<Longrightarrow>
   takeWhile word_char (s @ rest) = takeWhile word_char s \<and> dropWhile word_char (s @ rest) = dropWhile word_char s @ rest"
proof (induction s)
  case Nil
  then show ?case by (cases rest) auto
qed auto

lemma words_plain:
  assumes d: "cond_wf d" and stop: "rest = [] \<or> hd rest = CHR ''{''"
  shows "plain s \<Longrightarrow> words E rend (scan (s @ rest)) (Some acc) d =
     words E rend (scan rest) (Some (acc @ shown (all_true (cond_abs d)) s)) d"
proof (induction s arbitrary: acc rule: scan_induct)
  case Nil
  then show ?case by (simp add: shown_def)
next
  case (punct c s)
  then have "c \<noteq> CHR ''{''" "c \<noteq> CHR ''}''" "plain s" by (auto simp: plain_def)
  with punct d show ?case
    by (simp add: scan_punct condconcat_def cond_value_abs concat_str_def tostr_def shown_def)
next
  case (word c s)
  have "\<not> word_char (CHR ''{'')" by (rule word_char_not_punct) simp
  with stop have tw: "takeWhile word_char (s @ rest) = takeWhile word_char s"
    "dropWhile word_char (s @ rest) = dropWhile word_char s @ rest"
    using takeWhile_stop[of rest s] by auto
  have "plain (dropWhile word_char s)" using word(4) by (auto simp: plain_def dest: set_dropWhileD)
  from word.IH[OF this] word(1,2) d show ?case
    by (simp add: scan_word tw condconcat_def cond_value_abs concat_str_def shown_def)
next
  case (char c s)
  then have "plain s" by (auto simp: plain_def)
  with char d show ?case
    by (simp add: scan_char condconcat_def cond_value_abs concat_str_def tostr_def shown_def)
qed

lemma run_function_name:
  "run_cmd E rend (FunctionCmd (fxn_name f) a b) d =
     rbind (function_if E d f a b) (\<lambda>d'. Inr (Some '''', d'))"
  by (cases f) (simp_all add: function_cmd_def)

text \<open>Opening, turning and closing a condition.\<close>

lemma test_reads:
  assumes d: "cond_wf d" "length (cond_abs d) < COND_STACK_DEPTH" and c: "test_wf c"
  shows "case test_val E (po_req d) c of
      Inl f \<Rightarrow> words E rend (scan (test_text c @ rest)) (Some acc) d = Inl f
    | Inr b \<Rightarrow> reads_as E rend d acc (scan (test_text c @ rest)) (scan rest) (Inr ('''', po_req d)) (b # cond_abs d)"
proof -
  have put: "\<exists>d'. cond_if d b = Inr d' \<and> cond_wf d' \<and> cond_abs d' = b # cond_abs d \<and> po_req d' = po_req d" for b
    using cond_if_abs[OF d(1), of b] d(2) by simp
  obtain cmd ts where cmd: "scan (test_text c @ rest) = TPUNCT (CHR ''{'') # ts"
      "parse_cmd (env_mem E) ts = Some (cmd, scan rest)"
      "run_cmd E rend cmd d = rbind (test_val E (po_req d) c) (\<lambda>b. rbind (cond_if d b) (\<lambda>d'. Inr (Some '''', d')))"
  proof (cases c)
    case (TCmp f a b)
    with c parse_fun2[OF word_fxn_name, of a b "env_mem E" f rest]
    show ?thesis
      by (intro that[of _ "FunctionCmd (fxn_name f) (Some a) (Some b)"])
         (auto simp: scan_punct run_function_name function_if_def rbind_assoc simp del: run_cmd.simps)
  next
    case (TSet a)
    with c parse_fun1[of "''ifset''" a "env_mem E" rest] show ?thesis
      by (intro that[of _ "FunctionCmd ''ifset'' (Some a) None"])
         (auto simp: scan_punct function_cmd_def function_ifset_def need_arg_def rbind_assoc)
  qed
  show ?thesis
  proof (cases "test_val E (po_req d) c")
    case (Inl f)
    with cmd show ?thesis by simp
  next
    case (Inr b)
    from put[of b] obtain d' where d': "cond_if d b = Inr d'" "cond_wf d'" "cond_abs d' = b # cond_abs d" "po_req d' = po_req d"
      by blast
    with Inr cmd(3) have "run_cmd E rend cmd d = Inr (Some '''', d')" by simp
    with d' show ?thesis
      unfolding Inr cmd(1) by (auto intro!: reads_as_cmd[OF cmd(2)] simp: opt_text_def)
  qed
qed

lemma else_reads:
  assumes "cond_wf d" "cond_abs d = b # cs"
  shows "reads_as E rend d acc (scan (''{else()}'' @ rest)) (scan rest) (Inr ('''', po_req d)) ((\<not> b) # cs)"
proof -
  from cond_else_abs[OF assms(1)] assms(2) obtain d' where d': "cond_else d = Inr d'" "cond_wf d'"
    "cond_abs d' = (\<not> b) # cs" "po_req d' = po_req d" by auto
  have "parse_cmd (env_mem E) (scan (''else()}'' @ rest)) = Some (FunctionCmd ''else'' None None, scan rest)"
    using parse_fun0[of "''else''" "env_mem E" rest] by simp
  from reads_as_cmd[OF this] d' show ?thesis
    by (simp add: scan_punct function_cmd_def opt_text_def)
qed

lemma endif_reads:
  assumes "cond_wf d" "cond_abs d = b # cs"
  shows "reads_as E rend d acc (scan (''{endif()}'' @ rest)) (scan rest) (Inr ('''', po_req d)) cs"
proof -
  from cond_endif_abs[OF assms(1)] assms(2) obtain d' where d': "cond_endif d = Inr d'" "cond_wf d'"
    "cond_abs d' = cs" "po_req d' = po_req d" by auto
  have "parse_cmd (env_mem E) (scan (''endif()}'' @ rest)) = Some (FunctionCmd ''endif'' None None, scan rest)"
    using parse_fun0[of "''endif''" "env_mem E" rest] by simp
  from reads_as_cmd[OF this] d' show ?thesis
    by (simp add: scan_punct function_cmd_def opt_text_def)
qed

text \<open>The three commands that print.\<close>

lemma on_req_split:
  "on_req f d = (case f (po_req d) of Inl e \<Rightarrow> Inl e | Inr (t, r) \<Rightarrow> Inr (t, d\<lparr>po_req := r\<rparr>))"
  by (simp add: on_req_def rbind_def)

lemma with_req_abs [simp]:
  "cond_wf (d\<lparr>po_req := r\<rparr>) = cond_wf d" "cond_abs (d\<lparr>po_req := r\<rparr>) = cond_abs d"
  by (simp_all add: cond_wf_def cond_abs_def)

lemma var_reads:
  assumes "cond_wf d" "word x"
  shows "reads_as E rend d acc (scan (node_text (NVar x) @ rest)) (scan rest)
     (node_sem E rend (NVar x) (all_true (cond_abs d)) (po_req d)) (cond_abs d)"
proof -
  have p: "parse_cmd (env_mem E) (scan (x @ CHR ''}'' # rest)) = Some (VariableCmd x, scan rest)"
    by (rule parse_var[OF assms(2)])
  have eq: "scan (node_text (NVar x) @ rest) = TPUNCT (CHR ''{'') # scan (x @ CHR ''}'' # rest)"
    by (simp add: scan_punct)
  show ?thesis
    unfolding eq
    by (rule reads_as_cmd[OF p])
       (use assms(1) in \<open>auto simp: variable_def cond_value_abs var_text_def on_req_split rbind_def opt_text_def
          split: sum.splits option.splits\<close>)
qed

lemma pipe_reads:
  assumes "cond_wf d" "word x" "ps \<noteq> []" "list_all word ps"
  shows "reads_as E rend d acc (scan (node_text (NPipe x ps) @ rest)) (scan rest)
     (node_sem E rend (NPipe x ps) (all_true (cond_abs d)) (po_req d)) (cond_abs d)"
proof -
  have p: "parse_cmd (env_mem E) (scan (x @ concat (map (Cons (CHR ''|'')) ps) @ CHR ''}'' # rest)) =
      Some (PipelineCmd x (map (pipestage_alloc (env_mem E)) ps), scan rest)"
    by (rule parse_pipe[OF assms(2-4)])
  have eq: "scan (node_text (NPipe x ps) @ rest) =
      TPUNCT (CHR ''{'') # scan (x @ concat (map (Cons (CHR ''|'')) ps) @ CHR ''}'' # rest)"
    by (simp add: scan_punct)
  show ?thesis
    unfolding eq
    by (rule reads_as_cmd[OF p])
       (use assms(1) in \<open>auto simp: pipeline_cmd_def cond_value_abs pipe_text_def rbind_def opt_text_def
          split: sum.splits option.splits val.splits\<close>)
qed

lemma for_reads:
  assumes "cond_wf d" "word x" "word f"
  shows "reads_as E rend d acc (scan (node_text (NFor x f) @ rest)) (scan rest)
     (node_sem E rend (NFor x f) (all_true (cond_abs d)) (po_req d)) (cond_abs d)"
proof -
  have p: "parse_cmd (env_mem E) (scan (x @ CHR ''%'' # f @ CHR ''}'' # rest)) = Some (ForeachCmd x f, scan rest)"
    by (rule parse_for[OF assms(2,3)])
  have eq: "scan (node_text (NFor x f) @ rest) = TPUNCT (CHR ''{'') # scan (x @ CHR ''%'' # f @ CHR ''}'' # rest)"
    by (simp add: scan_punct)
  show ?thesis
    unfolding eq
    by (rule reads_as_cmd[OF p])
       (use assms(1) in \<open>auto simp: foreach_def foreach_val_def cond_value_abs for_text_def on_req_split rbind_def opt_text_def
          split: sum.splits option.splits val.splits\<close>)
qed

lemma reads_as_nothing: "reads_as E rend d acc inp rest (Inr ('''', r)) cs \<Longrightarrow>
  reads_as E rend d acc inp rest (rbind (Inr ('''', r)) (\<lambda>(x, r). Inr (x, r))) cs"
  by simp

text \<open>An empty text in front of a step, or after it.\<close>

lemma reads_as_then:
  assumes "reads_as E rend d acc inp mid (Inr ('''', r)) cs1"
    and "\<And>d1. cond_wf d1 \<Longrightarrow> cond_abs d1 = cs1 \<Longrightarrow> po_req d1 = r \<Longrightarrow> reads_as E rend d1 acc mid rest res cs2"
  shows "reads_as E rend d acc inp rest res cs2"
proof -
  from assms(1) obtain d1 where "cond_wf d1" "cond_abs d1 = cs1" "po_req d1 = r"
    "words E rend inp (Some acc) d = words E rend mid (Some acc) d1" by (auto simp: reads_as_def)
  with assms(2)[of d1] show ?thesis by (auto simp: reads_as_def split: sum.splits)
qed

lemma reads_as_finish:
  assumes "reads_as E rend d acc inp mid res cs1"
    and "\<And>x r d1. res = Inr (x, r) \<Longrightarrow> cond_wf d1 \<Longrightarrow> cond_abs d1 = cs1 \<Longrightarrow> po_req d1 = r \<Longrightarrow>
      reads_as E rend d1 (acc @ x) mid rest (Inr ('''', r)) cs2"
  shows "reads_as E rend d acc inp rest res cs2"
proof -
  have "reads_as E rend d acc inp rest
     (rbind res (\<lambda>(x, r). rbind (Inr ('''', r)) (\<lambda>(y, r2). Inr (x @ y, r2)))) cs2"
    by (rule reads_as_seq[where res = res and nxt = "\<lambda>r. Inr ('''', r)", OF assms(1)]) (rule assms(2))
  moreover have "rbind res (\<lambda>(x, r). rbind (Inr ('''', r)) (\<lambda>(y, r2). Inr (x @ y, r2))) = res"
    by (cases res) auto
  ultimately show ?thesis by simp
qed

lemma node_text_brace: "\<exists>s. node_text n = CHR ''{'' # s"
proof -
  have "\<exists>s. test_text c = CHR ''{'' # s" for c by (cases c) auto
  then show ?thesis by (cases n) (simp_all, (metis append_Cons)+)
qed

lemma tree_reads:
  "tmpl_wf k t \<Longrightarrow> cond_wf d \<Longrightarrow> length (cond_abs d) + k \<le> COND_STACK_DEPTH \<Longrightarrow> rest = [] \<or> hd rest = CHR ''{'' \<Longrightarrow>
   reads_as E rend d acc (scan (tmpl_text t @ rest)) (scan rest)
     (tmpl_sem E rend t (all_true (cond_abs d)) (po_req d)) (cond_abs d)"
  "node_wf k n \<Longrightarrow> cond_wf d \<Longrightarrow> length (cond_abs d) + k \<le> COND_STACK_DEPTH \<Longrightarrow>
   reads_as E rend d acc (scan (node_text n @ rest)) (scan rest)
     (node_sem E rend n (all_true (cond_abs d)) (po_req d)) (cond_abs d)"
proof (induction t and n arbitrary: k d acc rest and k d acc rest)
  case (End s)
  then show ?case by (auto simp: reads_as_def words_plain)
next
  case (Seg s n t)
  let ?l = "all_true (cond_abs d)"
  obtain u where u: "node_text n = CHR ''{'' # u" using node_text_brace[of n] by blast
  have plain: "words E rend (scan (s @ node_text n @ tmpl_text t @ rest)) (Some acc) d =
      words E rend (scan (node_text n @ tmpl_text t @ rest)) (Some (acc @ shown ?l s)) d"
    by (rule words_plain) (use Seg.prems u in auto)
  have "reads_as E rend d (acc @ shown ?l s) (scan (node_text n @ tmpl_text t @ rest)) (scan rest)
     (rbind (node_sem E rend n ?l (po_req d)) (\<lambda>(x, r1).
      rbind (tmpl_sem E rend t ?l r1) (\<lambda>(y, r2). Inr (x @ y, r2)))) (cond_abs d)"
  proof (rule reads_as_seq)
    show "reads_as E rend d (acc @ shown ?l s) (scan (node_text n @ tmpl_text t @ rest)) (scan (tmpl_text t @ rest))
       (node_sem E rend n ?l (po_req d)) (cond_abs d)"
      using Seg.prems by (intro Seg.IH(1)[of k]) auto
  next
    fix x r and d1 :: "'a parser_output" assume d1: "cond_wf d1" "cond_abs d1 = cond_abs d" "po_req d1 = r"
    show "reads_as E rend d1 ((acc @ shown ?l s) @ x) (scan (tmpl_text t @ rest)) (scan rest)
       (tmpl_sem E rend t ?l r) (cond_abs d)"
      using Seg.IH(2)[of k d1 rest "(acc @ shown ?l s) @ x"] Seg.prems d1 by auto
  qed
  then show ?case
    unfolding reads_as_def tmpl_text.simps append_assoc plain
    by (auto simp: rbind_def split: sum.splits)
next
  case (NVar x)
  show ?case by (rule var_reads) (use NVar.prems in simp_all)
next
  case (NPipe x ps)
  show ?case by (rule pipe_reads) (use NPipe.prems in simp_all)
next
  case (NFor x f)
  show ?case by (rule for_reads) (use NFor.prems in simp_all)
next
  case (NIf c t)
  let ?r = "po_req d"
  have len: "length (cond_abs d) < COND_STACK_DEPTH" using NIf.prems by auto
  note test = test_reads[OF NIf.prems(2) len, of c E rend "tmpl_text t @ ''{endif()}'' @ rest" acc]
  show ?case
  proof (cases "test_val E ?r c")
    case (Inl f)
    with test NIf.prems show ?thesis by (simp add: reads_as_def)
  next
    case (Inr b)
    with test NIf.prems have "reads_as E rend d acc (scan (node_text (NIf c t) @ rest))
        (scan (tmpl_text t @ ''{endif()}'' @ rest)) (Inr ('''', ?r)) (b # cond_abs d)" by simp
    moreover have "reads_as E rend d1 acc (scan (tmpl_text t @ ''{endif()}'' @ rest)) (scan rest)
        (tmpl_sem E rend t (all_true (cond_abs d) \<and> b) ?r) (cond_abs d)"
      if d1: "cond_wf d1" "cond_abs d1 = b # cond_abs d" "po_req d1 = ?r" for d1 :: "'a parser_output"
    proof (rule reads_as_finish)
      show "reads_as E rend d1 acc (scan (tmpl_text t @ ''{endif()}'' @ rest)) (scan (''{endif()}'' @ rest))
         (tmpl_sem E rend t (all_true (cond_abs d) \<and> b) ?r) (b # cond_abs d)"
        using NIf.IH[of "k - 1" d1 "''{endif()}'' @ rest" acc] NIf.prems d1 by (auto simp: conj_commute)
    next
      fix x r and d2 :: "'a parser_output" assume "cond_wf d2" "cond_abs d2 = b # cond_abs d" "po_req d2 = r"
      then show "reads_as E rend d2 (acc @ x) (scan (''{endif()}'' @ rest)) (scan rest) (Inr ('''', r)) (cond_abs d)"
        using endif_reads by blast
    qed
    ultimately show ?thesis using Inr by (auto intro: reads_as_then)
  qed
next
  case (NIfElse c t e)
  let ?r = "po_req d" and ?l = "all_true (cond_abs d)"
  let ?rest1 = "''{else()}'' @ tmpl_text e @ ''{endif()}'' @ rest" and ?rest2 = "''{endif()}'' @ rest"
  have len: "length (cond_abs d) < COND_STACK_DEPTH" using NIfElse.prems by auto
  note test = test_reads[OF NIfElse.prems(2) len, of c E rend "tmpl_text t @ ?rest1" acc]
  show ?case
  proof (cases "test_val E ?r c")
    case (Inl f)
    with test NIfElse.prems show ?thesis by (simp add: reads_as_def)
  next
    case (Inr b)
    with test NIfElse.prems have "reads_as E rend d acc (scan (node_text (NIfElse c t e) @ rest))
        (scan (tmpl_text t @ ?rest1)) (Inr ('''', ?r)) (b # cond_abs d)" by simp
    moreover have "reads_as E rend d1 acc (scan (tmpl_text t @ ?rest1)) (scan rest)
        (rbind (tmpl_sem E rend t (?l \<and> b) ?r) (\<lambda>(x, r1).
         rbind (tmpl_sem E rend e (?l \<and> \<not> b) r1) (\<lambda>(y, r2). Inr (x @ y, r2)))) (cond_abs d)"
      if d1: "cond_wf d1" "cond_abs d1 = b # cond_abs d" "po_req d1 = ?r" for d1 :: "'a parser_output"
    proof (rule reads_as_seq)
      show "reads_as E rend d1 acc (scan (tmpl_text t @ ?rest1)) (scan ?rest1)
         (tmpl_sem E rend t (?l \<and> b) ?r) (b # cond_abs d)"
        using NIfElse.IH(1)[of "k - 1" d1 ?rest1 acc] NIfElse.prems d1 by (auto simp: conj_commute)
    next
      fix x r and d2 :: "'a parser_output" assume d2: "cond_wf d2" "cond_abs d2 = b # cond_abs d" "po_req d2 = r"
      show "reads_as E rend d2 (acc @ x) (scan ?rest1) (scan rest) (tmpl_sem E rend e (?l \<and> \<not> b) r) (cond_abs d)"
      proof (rule reads_as_then)
        show "reads_as E rend d2 (acc @ x) (scan ?rest1) (scan (tmpl_text e @ ?rest2)) (Inr ('''', r)) ((\<not> b) # cond_abs d)"
          using else_reads[OF d2(1,2), of E rend "acc @ x" "tmpl_text e @ ?rest2"] d2(3) by simp
      next
        fix d3 :: "'a parser_output" assume d3: "cond_wf d3" "cond_abs d3 = (\<not> b) # cond_abs d" "po_req d3 = r"
        show "reads_as E rend d3 (acc @ x) (scan (tmpl_text e @ ?rest2)) (scan rest)
            (tmpl_sem E rend e (?l \<and> \<not> b) r) (cond_abs d)"
        proof (rule reads_as_finish)
          show "reads_as E rend d3 (acc @ x) (scan (tmpl_text e @ ?rest2)) (scan ?rest2)
              (tmpl_sem E rend e (?l \<and> \<not> b) r) ((\<not> b) # cond_abs d)"
            using NIfElse.IH(2)[of "k - 1" d3 ?rest2 "acc @ x"] NIfElse.prems d3 by (auto simp: conj_commute)
        next
          fix y r' and d4 :: "'a parser_output" assume "cond_wf d4" "cond_abs d4 = (\<not> b) # cond_abs d" "po_req d4 = r'"
          then show "reads_as E rend d4 ((acc @ x) @ y) (scan ?rest2) (scan rest) (Inr ('''', r')) (cond_abs d)"
            using endif_reads by blast
        qed
      qed
    qed
    ultimately show ?thesis using Inr by (auto intro: reads_as_then)
  qed
qed

section \<open>Branches not taken, plain text, numbers\<close>

lemma dead_sem:
  "tmpl_sem E rend t False r = Inr (x, r') \<Longrightarrow> x = '''' \<and> r' = r"
  "node_sem E rend n False r = Inr (x, r') \<Longrightarrow> x = '''' \<and> r' = r"
proof (induction t and n arbitrary: x r r' and x r r')
  case (Seg s n t)
  then show ?case by (fastforce simp: rbind_eq_Inr shown_def)
next
  case (NIfElse c t e)
  then show ?case by (fastforce simp: rbind_eq_Inr)
qed (auto simp: rbind_eq_Inr shown_def)

lemma page_tree:
  assumes "tmpl_wf COND_STACK_DEPTH t"
  shows "render_page E rend r (tmpl_text t) =
     rbind (tmpl_sem E rend t True r) (\<lambda>(x, r'). Inr (Some x, r'))"
proof -
  have "reads_as E rend (po_init r) '''' (scan (tmpl_text t @ [])) (scan []) (tmpl_sem E rend t True r) []"
    using tree_reads(1)[OF assms, of "po_init r" "[]" E rend "''''"] by simp
  then show ?thesis
    by (auto simp: reads_as_def render_page_def split: sum.splits)
qed

lemma length_dec_of_nat: "n < 10 ^ k \<Longrightarrow> 0 < k \<Longrightarrow> length (dec_of_nat n) \<le> k"
proof (induction k arbitrary: n)
  case 0
  then show ?case by simp
next
  case (Suc k)
  show ?case
  proof (cases "n < 10")
    case True
    then show ?thesis by (simp add: dec_of_nat.simps)
  next
    case False
    with Suc.prems(1) have "n div 10 < 10 ^ k" "0 < k" by (auto intro: gr0I)
    from Suc.IH[OF this] False show ?thesis by (subst dec_of_nat.simps) simp
  qed
qed

lemma u64_text_fits: "c_snprintf 32 (dec_of_nat (unat (i :: u64))) = dec_of_nat (unat i)"
proof -
  have "unat i < 10 ^ 20" by (rule less_trans[OF unsigned_less]) simp
  then have "length (dec_of_nat (unat i)) \<le> 20" by (rule length_dec_of_nat) simp
  then show ?thesis by (intro c_snprintf_fits) simp
qed

text \<open>
  The assertion in \<^verbatim>\<open>cond_if\<close> lets an eleventh nested condition through, and the write that
  follows is past the end of the array.
\<close>

lemma eleventh_condition:
  assumes "cond_wf d" "length (cond_abs d) = COND_STACK_DEPTH"
  shows "cond_stack_use d < int COND_STACK_DEPTH \<and> cond_if d b = Inl OutOfBounds"
  using cond_if_abs[OF assms(1), of b] assms by (simp add: cond_wf_def)

section \<open>Properties\<close>

text \<open>
  C5. A template that is the text of a tree, with conditions nested no deeper than the stack
  holds, renders exactly as the tree says: text is copied, each command in a branch taken contributes
  its text in order, a condition selects between its two branches, nested conditions combine, and an
  error of any part is the error of the whole.
\<close>

theorem render_tree:
  assumes "tmpl_wf COND_STACK_DEPTH t"
  shows "render_page E rend r (tmpl_text t) =
     rbind (tmpl_sem E rend t True r) (\<lambda>(x, r'). Inr (Some x, r'))"
  using assms by (rule page_tree)

lemma render_tree_witness:
  "tmpl_wf COND_STACK_DEPTH (Seg ''a, '' (NIfElse (TSet ''x'') (Seg '''' (NVar ''x'') (End '''')) (End ''none'')) (End ''!'')) \<and>
   tmpl_text (Seg ''a, '' (NIfElse (TSet ''x'') (Seg '''' (NVar ''x'') (End '''')) (End ''none'')) (End ''!'')) =
     ''a, {ifset(x)}{x}{else()}none{endif()}!'' \<and>
   (\<forall>(E :: alist_nvlist tmpl_env) rend r.
      render_page E rend r ''a, {ifset(x)}{x}{else()}none{endif()}!'' =
        rbind (tmpl_sem E rend (Seg ''a, '' (NIfElse (TSet ''x'') (Seg '''' (NVar ''x'') (End '''')) (End ''none'')) (End ''!'')) True r)
          (\<lambda>(x, r'). Inr (Some x, r')))"
proof -
  let ?t = "Seg ''a, '' (NIfElse (TSet ''x'') (Seg '''' (NVar ''x'') (End '''')) (End ''none'')) (End ''!'')"
  have wf: "tmpl_wf COND_STACK_DEPTH ?t"
    by (simp add: COND_STACK_DEPTH_def plain_def word_def word_char_def c_isalnum_def)
  have "render_page E rend r (tmpl_text ?t) = rbind (tmpl_sem E rend ?t True r) (\<lambda>(x, r'). Inr (Some x, r'))"
    for E :: "alist_nvlist tmpl_env" and rend r by (rule render_tree[OF wf])
  with wf show ?thesis by simp
qed

text \<open>
  C8. A branch not taken leaves no trace: when a condition asks for a variable that is not set
  and the page renders, its text is empty and the request is unchanged, whatever templates and loops
  the branch contains.
\<close>

theorem untaken_branch_silent:
  assumes "word x" "tmpl_wf (COND_STACK_DEPTH - 1) t"
    and "vars_lookup (env_nvl E) (req_vars r) x = Inr None"
    and "render_page E rend r (''{ifset('' @ x @ '')}'' @ tmpl_text t @ ''{endif()}'') = Inr (out, r')"
  shows "out = Some '''' \<and> r' = r"
proof -
  let ?t = "Seg '''' (NIf (TSet x) t) (End '''')"
  have "tmpl_wf COND_STACK_DEPTH ?t" using assms(1,2) by (simp add: plain_def COND_STACK_DEPTH_def)
  from page_tree[OF this, of E rend r] assms(3,4) show ?thesis
    by (auto simp: rbind_eq_Inr shown_def dest: dead_sem)
qed

lemma untaken_branch_silent_witness:
  "word ''preview'' \<and> tmpl_wf (COND_STACK_DEPTH - 1) (Seg ''Preview: '' (NVar ''title'') (End '''')) \<and>
   vars_lookup alist_nvl \<lparr>scopes = Some (NVList []) # replicate 9 None, cur = 0\<rparr> ''preview'' = Inr None \<and>
   (\<exists>(E :: alist_nvlist tmpl_env) r.
      render_page E (\<lambda>r t. Inl Panicked) r (''{ifset('' @ ''preview'' @ '')}'' @ tmpl_text (Seg ''Preview: '' (NVar ''title'') (End '''')) @ ''{endif()}'') =
        Inr (Some '''', r))"
proof -
  define E :: "alist_nvlist tmpl_env" where
    "E = \<lparr>env_nvl = alist_nvl, env_mem = True, template_dir = '''', file_cache_get = (\<lambda>_. None), str2u64 = (\<lambda>_. None)\<rparr>"
  define r :: "alist_nvlist req" where
    "r = \<lparr>scgi = \<lparr>scgi_headers = NVList [], scgi_query = NVList [], scgi_body = None, resp_status = SCGI_STATUS_OK,
             resp_headers = NVList [], resp_body = None, resp_bodylen = 0\<rparr>,
     req_page = PAGE_INDEX, req_vars = \<lparr>scopes = Some (NVList []) # replicate 9 None, cur = 0\<rparr>, req_fmt = None, index_stories = 10\<rparr>"
  let ?t = "Seg ''Preview: '' (NVar ''title'') (End '''')"
  let ?s = "''{ifset('' @ ''preview'' @ '')}'' @ tmpl_text ?t @ ''{endif()}''"
  have w: "word ''preview''" by (simp add: word_def word_char_def c_isalnum_def)
  have wf: "tmpl_wf (COND_STACK_DEPTH - 1) ?t"
    by (simp add: COND_STACK_DEPTH_def plain_def word_def word_char_def c_isalnum_def)
  have l: "vars_lookup (env_nvl E) (req_vars r) ''preview'' = Inr None"
    by (simp add: E_def r_def vars_lookup_def read_scope_def alist_nvl_def)
  have t: "tmpl_wf COND_STACK_DEPTH (Seg '''' (NIf (TSet ''preview'') ?t) (End ''''))"
    using w wf by (simp add: plain_def COND_STACK_DEPTH_def)
  have ok: "render_page E (\<lambda>r t. Inl Panicked) r ?s = Inr (Some '''', r)"
    using page_tree[OF t, of E "\<lambda>r t. Inl Panicked" r] l by (simp add: shown_def)
  from untaken_branch_silent[OF w wf l ok] ok l w wf show ?thesis
    unfolding E_def r_def by auto
qed

text \<open>
  C14. The array of conditions with its index implements a stack for every sequence of
  conditions opened, turned and closed on a fresh page: an operation without an open condition fails
  the assertion, and the only other failure is the write past the array for the eleventh level.
\<close>

theorem cond_array_is_stack:
  "case stack_run xs [] of
     Inl f \<Rightarrow> cond_run xs (po_init r) = Inl f
   | Inr cs \<Rightarrow> \<exists>d. cond_run xs (po_init r) = Inr d \<and> cond_value d = Inr (list_all (\<lambda>b. b) cs) \<and> po_req d = r"
  using cond_run_abs[OF po_init_wf(1)[of r], of xs] by (auto split: sum.splits simp: cond_value_abs)

text \<open>
  Text without braces is rendered unchanged, the other punctuation of the language included,
  and the request is returned as it was.
\<close>

theorem plain_page:
  assumes "CHR ''{'' \<notin> set s" "CHR ''}'' \<notin> set s"
  shows "render_page E rend r s = Inr (Some s, r)"
  using page_tree[of "End s" E rend r] assms by (simp add: plain_def shown_def)

lemma plain_page_witness:
  "CHR ''{'' \<notin> set ''50% (of a|b), c'' \<and> CHR ''}'' \<notin> set ''50% (of a|b), c'' \<and>
   (\<forall>(E :: alist_nvlist tmpl_env) rend r.
      render_page E rend r ''50% (of a|b), c'' = Inr (Some ''50% (of a|b), c'', r))"
  by (intro conjI allI plain_page) simp_all

text \<open>
  A number is printed in full: the decimal text of a 64-bit variable fits the buffer it is
  formatted in, and reading the digits gives the number back.
\<close>

theorem print_var_number:
  "\<exists>s. print_var (VT_INT i) = Inr s \<and> nat_of_dec s = unat i \<and> length s \<le> 20"
proof -
  have "unat i < 10 ^ 20" by (rule less_trans[OF unsigned_less]) simp
  then have "length (dec_of_nat (unat i)) \<le> 20" by (rule length_dec_of_nat) simp
  then show ?thesis by (simp add: print_var_def u64_text_fits nat_of_dec_of_nat)
qed

text \<open>
  The scanner splits the text without loss and in one way only: the tokens joined give the
  text back, a word is a longest run of word characters and never empty, and a single character that
  stands for itself is neither punctuation nor part of a word.
\<close>

theorem scan_lossless:
  "concat (map token_text (scan s)) = s \<and>
   (\<forall>w. TWORD w \<in> set (scan s) \<longrightarrow> w \<noteq> [] \<and> list_all word_char w) \<and>
   (\<forall>c. TCHAR c \<in> set (scan s) \<longrightarrow> c \<notin> punct \<and> \<not> word_char c) \<and>
   (\<forall>c. TPUNCT c \<in> set (scan s) \<longrightarrow> c \<in> punct) \<and>
   successively (\<lambda>a b. \<not> ((\<exists>v. a = TWORD v) \<and> (\<exists>w. b = TWORD w))) (scan s)"
  using scan_concat scan_words scan_chars scan_puncts scan_maximal by (auto simp: list_all_iff)

lemma scan_lossless_witness:
  "scan ''{a_1|date}'' = [TPUNCT (CHR ''{''), TWORD ''a_1'', TPUNCT (CHR ''|''), TWORD ''date'', TPUNCT (CHR ''}'')] \<and>
   (TWORD ''a_1'' \<in> set (scan ''{a_1|date}'')) \<and> ''a_1'' \<noteq> [] \<and> list_all word_char ''a_1''"
proof -
  have s: "scan ''{a_1|date}'' = [TPUNCT (CHR ''{''), TWORD ''a_1'', TPUNCT (CHR ''|''), TWORD ''date'', TPUNCT (CHR ''}'')]"
    by code_simp
  then have "TWORD ''a_1'' \<in> set (scan ''{a_1|date}'')" by simp
  with s scan_lossless[of "''{a_1|date}''"] show ?thesis by blast
qed

end
