(* ===== verification/Rendering.thy ===== *)
theory Rendering
  imports Structured
begin

text \<open>
  What a request handler can rely on when it renders a page: the request comes back as it was but for
  scopes that were pushed and popped again (the locale \<^verbatim>\<open>keeps_req\<close>), the bound on nested templates
  does not influence the outcome, and templates that do not mention themselves, directly or through
  others, never need more of it than their rank.
\<close>

section \<open>Rendering keeps the request\<close>

locale keeps_req =
  fixes rend :: "'n renderer"
  assumes keeps: "vars_wf (req_vars r) \<Longrightarrow> rend r t = Inr (out, r') \<Longrightarrow> same_req r r'"
begin

lemma foreach_loop_keeps:
  "vars_wf (req_vars r) \<Longrightarrow> foreach_loop E rend name t xs out r = Inr (out', r') \<Longrightarrow> same_req r r'"
proof (induction xs arbitrary: out r)
  case Nil
  then show ?case by (simp add: same_req_refl)
next
  case (Cons x xs)
  let ?N = "env_nvl E"
  from Cons.prems(2) obtain v1 r2 o1 r3 v4 where
    push: "vars_scope_push ?N (req_vars r) = Inr v1"
    and set: "(case x of
              VT_NVL l \<Rightarrow> with_vars (\<lambda>v. vars_merge ?N v l) (r\<lparr>req_vars := v1\<rparr>)
            | VT_STR s \<Rightarrow> with_vars (\<lambda>v. vars_set_str ?N v name s) (r\<lparr>req_vars := v1\<rparr>)
            | _ \<Rightarrow> Inl Panicked) = Inr r2"
    and body: "rend r2 t = Inr (o1, r3)"
    and pop: "vars_scope_pop ?N (req_vars r3) = Inr v4"
    and more: "foreach_loop E rend name t xs (concat_str out o1) (r3\<lparr>req_vars := v4\<rparr>) = Inr (out', r')"
    by (auto simp: rbind_eq_Inr with_vars_def)
  from set have "\<exists>u v2. vars_update ?N u v1 = Inr v2 \<and> r2 = r\<lparr>req_vars := v2\<rparr>"
  proof (cases x)
    case (VT_NVL l)
    with set show ?thesis by (intro exI[of _ "Merge l"]) (auto simp: with_vars_def rbind_eq_Inr)
  next
    case (VT_STR s)
    with set show ?thesis by (intro exI[of _ "SetStr name s"]) (auto simp: with_vars_def rbind_eq_Inr)
  qed auto
  then obtain u v2 where upd: "vars_update ?N u v1 = Inr v2" and r2: "r2 = r\<lparr>req_vars := v2\<rparr>" by blast
  from scoped_vars.push_view[OF Cons.prems(1) push] have "vars_wf v1" by simp
  from scoped_vars.upd_view[OF this upd] have v2: "vars_wf v2" by simp
  from keeps[OF _ body] v2 r2 have r3: "vars_wf (req_vars r3)" "live (req_vars r3) = live v2"
    "r3 = r\<lparr>req_vars := req_vars r3\<rparr>"
    by (auto simp: same_req_def)
  from scoped_vars.bracket[OF Cons.prems(1) push upd r3(1,2) pop]
  have v4: "vars_wf v4" "live v4 = live (req_vars r)" by simp_all
  have "r3\<lparr>req_vars := v4\<rparr> = r\<lparr>req_vars := v4\<rparr>" by (subst r3(3)) simp
  with v4 have "same_req r (r3\<lparr>req_vars := v4\<rparr>)" by (simp add: same_req_def)
  moreover from Cons.IH[OF _ more] v4(1) have "same_req (r3\<lparr>req_vars := v4\<rparr>) r'" by simp
  ultimately show ?case by (rule same_req_trans)
qed

lemma cond_ops_keep:
  "cond_if d b = Inr d' \<Longrightarrow> po_req d' = po_req d" "cond_else d = Inr d' \<Longrightarrow> po_req d' = po_req d"
  "cond_endif d = Inr d' \<Longrightarrow> po_req d' = po_req d"
  by (auto simp: cond_if_def cond_else_def cond_endif_def write_cond_def rbind_eq_Inr Let_def split: if_splits)

lemma function_cmd_keeps: "function_cmd E d f a b = Inr (t, d') \<Longrightarrow> po_req d' = po_req d"
proof -
  have 1: "function_if E d k a b = Inr d1 \<Longrightarrow> po_req d1 = po_req d" for k d1
    unfolding function_if_def rbind_eq_Inr by (elim exE conjE) (rule cond_ops_keep)
  have 2: "function_ifset E d a = Inr d1 \<Longrightarrow> po_req d1 = po_req d" for d1
    unfolding function_ifset_def rbind_eq_Inr by (elim exE conjE) (rule cond_ops_keep)
  assume "function_cmd E d f a b = Inr (t, d')"
  then obtain d1 where "d' = d1" "(if f = ''ifgt'' then function_if E d IFFXN_GT a b
        else if f = ''iflt'' then function_if E d IFFXN_LT a b
        else if f = ''ifeq'' then function_if E d IFFXN_EQ a b
        else if f = ''ifset'' then function_ifset E d a
        else if f = ''endif'' then cond_endif d
        else if f = ''else'' then cond_else d
        else Inl Panicked) = Inr d1"
    unfolding function_cmd_def rbind_eq_Inr by blast
  moreover have sel: "(if c then m else n) = Inr d1 \<Longrightarrow> (m = Inr d1 \<Longrightarrow> Q) \<Longrightarrow> (n = Inr d1 \<Longrightarrow> Q) \<Longrightarrow> Q"
    for c Q and m n :: "'a parser_output res" by (cases c) auto
  ultimately show ?thesis
    using 1 2 cond_ops_keep(2,3)[of d d1] by (elim sel) (blast | simp)+
qed

lemma run_cmd_keeps:
  assumes "vars_wf (req_vars (po_req d))" "run_cmd E rend cmd d = Inr (t, d')"
  shows "same_req (po_req d) (po_req d')"
proof (cases cmd)
  case (PipelineCmd w line)
  with assms show ?thesis
    by (auto simp: pipeline_cmd_def rbind_eq_Inr same_req_refl split: if_splits option.splits)
next
  case (ForeachCmd w f)
  with assms(2) have "foreach E rend d w f = Inr (t, d')" by simp
  then have "d' = d \<or> (\<exists>v. on_req (foreach_val E rend w v f) d = Inr (t, d'))"
    by (auto simp: foreach_def rbind_eq_Inr split: if_splits option.splits)
  moreover have "same_req (po_req d) (po_req d')" if "on_req (foreach_val E rend w v f) d = Inr (t, d')" for v
  proof -
    from that obtain items where "foreach_loop E rend w f items None (po_req d) = Inr (t, po_req d')"
      by (cases v) (auto simp: on_req_def foreach_val_def rbind_eq_Inr)
    with assms(1) show ?thesis by (rule foreach_loop_keeps)
  qed
  ultimately show ?thesis using assms(1) same_req_refl by blast
next
  case (FunctionCmd f a b)
  with assms(2) function_cmd_keeps have "po_req d' = po_req d" by simp
  with assms(1) show ?thesis by (simp add: same_req_refl)
next
  case (VariableCmd w)
  with assms show ?thesis
    by (auto simp: variable_def on_req_def rbind_eq_Inr same_req_refl keeps split: if_splits option.splits)
qed

lemma words_keeps:
  "words E rend ts acc d = Inr (out, d') \<Longrightarrow> vars_wf (req_vars (po_req d)) \<Longrightarrow> same_req (po_req d) (po_req d')"
proof (induction "length ts" arbitrary: ts acc d rule: less_induct)
  case less
  show ?case
  proof (cases ts)
    case Nil
    with less.prems show ?thesis by (simp add: same_req_refl)
  next
    case (Cons x us)
    show ?thesis
    proof (cases "x = TPUNCT (CHR ''{'')")
      case True
      with less.prems(1) Cons obtain cmd vs t d1 where c: "parse_cmd (env_mem E) us = Some (cmd, vs)"
        "run_cmd E rend cmd d = Inr (t, d1)" "words E rend vs (concat_str acc t) d1 = Inr (out, d')"
        by (auto simp: rbind_eq_Inr split: option.splits)
      from run_cmd_keeps[OF less.prems(2) c(2)] have s: "same_req (po_req d) (po_req d1)" .
      moreover have "same_req (po_req d1) (po_req d')"
        using less.hyps[OF _ c(3)] parse_cmd_shorter[OF c(1)] same_req_wf[OF s] Cons by simp
      ultimately show ?thesis by (rule same_req_trans)
    next
      case False
      with less.prems(1) Cons obtain acc' where "words E rend us acc' d = Inr (out, d')"
        by (cases x) (auto simp: rbind_eq_Inr split: if_splits)
      with less Cons show ?thesis by auto
    qed
  qed
qed

lemma page_keeps: "vars_wf (req_vars r) \<Longrightarrow> render_page E rend r str = Inr (out, r') \<Longrightarrow> same_req r r'"
  using words_keeps[of E "scan str" "Some ''''" "po_init r"]
  by (auto simp: render_page_def rbind_eq_Inr po_init_def)

end

interpretation nested: keeps_req "render_template n E" for n E
proof (induction n)
  case 0
  show ?case by unfold_locales simp
next
  case (Suc n)
  show ?case
  proof unfold_locales
    fix r :: "'a req" and t out r'
    assume "vars_wf (req_vars r)" "render_template (Suc n) E r t = Inr (out, r')"
    then show "same_req r r'"
      using keeps_req.page_keeps[OF Suc] by (auto simp: same_req_refl split: option.splits)
  qed
qed

section \<open>The bound on nesting does not matter\<close>

text \<open>The order on outcomes: running out of the bound is below everything, the rest is unordered.\<close>

definition below :: "'a res \<Rightarrow> 'a res \<Rightarrow> bool" where
  "below m m' \<longleftrightarrow> m = Inl OutOfFuel \<or> m' = m"

named_theorems below_rules

lemma below_refl [below_rules]: "below m m"
  by (simp add: below_def)

lemma below_rbind [below_rules]:
  "below m m' \<Longrightarrow> (\<And>x. below (f x) (f' x)) \<Longrightarrow> below (rbind m f) (rbind m' f')"
  by (cases m) (auto simp: below_def)

lemma below_if [below_rules]: "below m m' \<Longrightarrow> below n n' \<Longrightarrow> below (if b then m else n) (if b then m' else n')"
  by simp

lemma below_option [below_rules]:
  "below m m' \<Longrightarrow> (\<And>x. below (f x) (f' x)) \<Longrightarrow>
   below (case a of None \<Rightarrow> m | Some x \<Rightarrow> f x) (case a of None \<Rightarrow> m' | Some x \<Rightarrow> f' x)"
  by (cases a) simp_all

lemma below_prod [below_rules]:
  "(\<And>x y. below (f x y) (f' x y)) \<Longrightarrow> below (case p of (x, y) \<Rightarrow> f x y) (case p of (x, y) \<Rightarrow> f' x y)"
  by (cases p) simp

definition extends :: "'n renderer \<Rightarrow> 'n renderer \<Rightarrow> bool" where
  "extends rend rend' \<longleftrightarrow> (\<forall>r t. below (rend r t) (rend' r t))"

lemma extendsD: "extends rend rend' \<Longrightarrow> below (rend r t) (rend' r t)"
  by (simp add: extends_def)

lemma foreach_loop_below [below_rules]:
  "extends rend rend' \<Longrightarrow> below (foreach_loop E rend name t xs out r) (foreach_loop E rend' name t xs out r)"
proof (induction xs arbitrary: out r)
  case Nil
  show ?case by (simp add: below_refl)
next
  case (Cons x xs)
  show ?case
    by (simp, intro below_rules extendsD[OF Cons.prems] Cons.IH[OF Cons.prems])
qed

lemma foreach_val_below [below_rules]:
  "extends rend rend' \<Longrightarrow> below (foreach_val E rend name v t r) (foreach_val E rend' name v t r)"
  by (cases v) (auto simp: foreach_val_def intro!: below_rules)

lemma run_cmd_below [below_rules]:
  "extends rend rend' \<Longrightarrow> below (run_cmd E rend cmd d) (run_cmd E rend' cmd d)"
  using extendsD[of rend rend']
  by (cases cmd) (auto simp: foreach_def variable_def on_req_def intro!: below_rules)

lemma words_below [below_rules]:
  "extends rend rend' \<Longrightarrow> below (words E rend ts acc d) (words E rend' ts acc d)"
proof (induction "length ts" arbitrary: ts acc d rule: less_induct)
  case less
  show ?case
  proof (cases ts)
    case Nil
    then show ?thesis by (simp add: below_refl)
  next
    case (Cons x us)
    have here: "below (words E rend us acc d) (words E rend' us acc d)" for acc d
      using less Cons by simp
    have later: "below (words E rend vs acc d) (words E rend' vs acc d)"
      if "parse_cmd (env_mem E) us = Some (cmd, vs)" for cmd :: "'a cmd" and vs acc d
      using less.hyps[OF _ less.prems] parse_cmd_shorter[OF that] Cons by simp
    show ?thesis
    proof (cases x)
      case (TPUNCT c)
      show ?thesis
      proof (cases "c = CHR ''{''")
        case True
        then show ?thesis
          unfolding Cons TPUNCT
          by (cases "parse_cmd (env_mem E) us :: ('a cmd \<times> token list) option")
             (auto intro!: below_rules less.prems later)
      next
        case False
        then show ?thesis unfolding Cons TPUNCT by (auto intro!: below_rules here)
      qed
    qed (use Cons in \<open>auto intro!: below_rules here\<close>)
  qed
qed

lemma page_below [below_rules]:
  "extends rend rend' \<Longrightarrow> below (render_page E rend r s) (render_page E rend' r s)"
  unfolding render_page_def by (intro below_rules)

lemma template_below: "extends (render_template n E) (render_template (n + m) E)"
proof (induction n)
  case 0
  show ?case by (simp add: extends_def below_def)
next
  case (Suc n)
  then show ?case
    unfolding extends_def by (auto intro!: below_rules simp: extends_def)
qed

lemma render_below: "below (render n E r s) (render (n + m) E r s)"
  unfolding render_def by (intro below_rules template_below)

section \<open>Templates that do not mention themselves\<close>

text \<open>The names in the positions of a template to render: \<open>{name}\<close> and \<open>{list%name}\<close>.\<close>

definition head_mention :: "token list \<Rightarrow> string list" where
  "head_mention ts =
     (case ts of
        TPUNCT a # TWORD w # TPUNCT b # us \<Rightarrow>
          if (a = CHR ''{'' \<or> a = CHR ''%'') \<and> b = CHR ''}'' then [w] else []
      | _ \<Rightarrow> [])"

fun mentions :: "token list \<Rightarrow> string list" where
  "mentions [] = []"
| "mentions (x # ts) = head_mention (x # ts) @ mentions ts"

fun cmd_templates :: "'n cmd \<Rightarrow> string list" where
  "cmd_templates (VariableCmd w) = [w]"
| "cmd_templates (ForeachCmd w t) = [t]"
| "cmd_templates (PipelineCmd w line) = []"
| "cmd_templates (FunctionCmd f a b) = []"

definition table_stages :: "bool \<Rightarrow> 'n pipestageinfo list \<Rightarrow> bool" where
  "table_stages m line \<longleftrightarrow> (\<forall>s\<in>set line. \<exists>name. s = pipestage_alloc m name)"

fun cmd_stages_ok :: "bool \<Rightarrow> 'n cmd \<Rightarrow> bool" where
  "cmd_stages_ok m (PipelineCmd w line) = table_stages m line"
| "cmd_stages_ok m (VariableCmd w) = True"
| "cmd_stages_ok m (ForeachCmd w t) = True"
| "cmd_stages_ok m (FunctionCmd f a b) = True"

lemma mentions_suffix: "set (mentions vs) \<subseteq> set (mentions (us @ vs))"
  by (induction us) auto

lemma parse_pipes_result:
  "parse_pipes m line ts = Some (line', vs) \<Longrightarrow> table_stages m line \<Longrightarrow>
   table_stages m line' \<and> (\<exists>us. ts = us @ vs)"
proof (induction m line ts rule: parse_pipes.induct)
  case (1 m line c ts)
  show ?case
  proof (cases "c = CHR ''|''")
    case True
    with "1.prems"(1) obtain w ts' where w: "ts = TWORD w # ts'"
      "parse_pipes m (pipeline_append line (pipestage_alloc m w)) ts' = Some (line', vs)"
      by (auto split: list.splits token.splits)
    have "table_stages m (pipeline_append line (pipestage_alloc m w))"
      using "1.prems"(2) by (auto simp: table_stages_def pipeline_append_def)
    from "1.IH"[OF True w(1) refl w(2) this] w(1) show ?thesis by (metis append_Cons)
  next
    case False
    with "1.prems" show ?thesis by (intro conjI exI[of _ "[]"]) auto
  qed
qed auto

lemma close_cmd_eq:
  "close_cmd c ts = Some (c', vs) \<longleftrightarrow> c' = c \<and> ts = TPUNCT (CHR ''}'') # vs"
  by (auto simp: close_cmd_def split: list.splits token.splits if_splits)

lemma parse_args_result:
  "parse_args f ts = Some (c, vs) \<Longrightarrow> (\<exists>a b. c = FunctionCmd f a b) \<and> (\<exists>us. ts = us @ vs)"
  by (auto simp: parse_args_def close_cmd_eq split: list.splits token.splits if_splits)

lemma parse_cmd_result:
  assumes "parse_cmd m ts = Some (cmd, vs)"
  shows "cmd_stages_ok m cmd \<and> set (cmd_templates cmd) \<subseteq> set (mentions (TPUNCT (CHR ''{'') # ts)) \<and>
     (\<exists>us. ts = us @ vs)"
proof -
  from assms obtain w p ts1 where ts: "ts = TWORD w # TPUNCT p # ts1"
    by (auto simp: parse_cmd_def split: list.splits token.splits)
  have "p = CHR ''}'' \<and> cmd = VariableCmd w \<and> vs = ts1 \<or>
    (\<exists>s ts2 line. ts1 = TWORD s # ts2 \<and> cmd = PipelineCmd w line \<and>
      parse_pipes m [pipestage_alloc m s] ts2 = Some (line, TPUNCT (CHR ''}'') # vs)) \<or>
    (\<exists>t. p = CHR ''%'' \<and> ts1 = TWORD t # TPUNCT (CHR ''}'') # vs \<and> cmd = ForeachCmd w t) \<or>
    parse_args w ts1 = Some (cmd, vs)"
  proof (cases "p = CHR ''|''")
    case True
    with assms obtain s ts2 where s: "ts1 = TWORD s # ts2"
      by (auto simp: parse_cmd_def ts split: list.splits token.splits)
    with True assms show ?thesis
      by (auto simp: parse_cmd_def ts close_cmd_eq pipestage_to_pipeline_def pipeline_append_def split: option.splits)
  next
    case no_pipe: False
    show ?thesis
    proof (cases "p = CHR ''%''")
      case True
      with assms obtain t ts2 where "ts1 = TWORD t # ts2"
        by (auto simp: parse_cmd_def ts split: list.splits token.splits)
      with True assms show ?thesis by (auto simp: parse_cmd_def ts close_cmd_eq)
    next
      case False
      with no_pipe assms show ?thesis by (auto simp: parse_cmd_def ts split: if_splits)
    qed
  qed
  then consider "p = CHR ''}''" "cmd = VariableCmd w" "vs = ts1"
    | s ts2 line where "ts1 = TWORD s # ts2" "cmd = PipelineCmd w line"
      "parse_pipes m [pipestage_alloc m s] ts2 = Some (line, TPUNCT (CHR ''}'') # vs)"
    | t where "p = CHR ''%''" "ts1 = TWORD t # TPUNCT (CHR ''}'') # vs" "cmd = ForeachCmd w t"
    | "parse_args w ts1 = Some (cmd, vs)"
    by blast
  then show ?thesis
  proof cases
    case 1
    then show ?thesis by (auto simp: ts head_mention_def)
  next
    case (2 s ts2 line)
    have "table_stages m [pipestage_alloc m s]" by (auto simp: table_stages_def)
    from parse_pipes_result[OF 2(3) this] 2 show ?thesis by (auto simp: ts)
  next
    case (3 t)
    then show ?thesis by (auto simp: ts head_mention_def)
  next
    case 4
    from parse_args_result[OF 4] show ?thesis by (auto simp: ts)
  qed
qed

text \<open>Everything but a nested template leaves the bound alone.\<close>

definition nf :: "'a res \<Rightarrow> bool" where
  "nf m \<longleftrightarrow> m \<noteq> Inl OutOfFuel"

named_theorems nf_rules

lemma nf_Inr [nf_rules]: "nf (Inr x)"
  by (simp add: nf_def)

lemma nf_faults [nf_rules]:
  "nf (Inl AssertFailed)" "nf (Inl Panicked)" "nf (Inl NullDeref)" "nf (Inl OutOfBounds)"
  "nf (Inl Uninitialised)" "nf (Inl DoubleFree)" "nf (Inl UseAfterFree)" "nf (Inl IntOverflow)"
  by (simp_all add: nf_def)

lemma nf_rbind [nf_rules]: "nf m \<Longrightarrow> (\<And>x. nf (f x)) \<Longrightarrow> nf (rbind m f)"
  by (cases m) (auto simp: nf_def)

lemma nf_rbind_dep: "nf m \<Longrightarrow> (\<And>x. m = Inr x \<Longrightarrow> nf (f x)) \<Longrightarrow> nf (rbind m f)"
  by (cases m) (auto simp: nf_def)

lemma nf_if [nf_rules]: "nf m \<Longrightarrow> nf n \<Longrightarrow> nf (if b then m else n)"
  by simp

lemma nf_option [nf_rules]: "nf m \<Longrightarrow> (\<And>x. nf (f x)) \<Longrightarrow> nf (case a of None \<Rightarrow> m | Some x \<Rightarrow> f x)"
  by (cases a) simp_all

lemma nf_prod [nf_rules]: "(\<And>x y. nf (f x y)) \<Longrightarrow> nf (case p of (x, y) \<Rightarrow> f x y)"
  by (cases p) simp

lemma nf_assert [nf_rules]: "nf (assert_that b)"
  by (simp add: assert_that_def nf_def)

lemma nf_int_add [nf_rules]: "nf (int_add a b)"
  by (simp add: int_add_def nf_def)

lemma nf_scopes [nf_rules]: "nf (read_scope v i)" "nf (write_scope v i l)" "nf (free_scope v i)"
proof -
  show r: "nf (read_scope v i)" and w: "nf (write_scope v i l)" for l
    by (auto simp: read_scope_def write_scope_def nf_def split: option.splits)
  show "nf (free_scope v i)"
    using r w[of None] by (auto simp: free_scope_def nf_def split: sum.splits fault.splits)
qed

lemma nf_push [nf_rules]: "nf (vars_scope_push N v)"
  unfolding vars_scope_push_def init_scope_def Let_def by (intro nf_rules)

lemma nf_pop [nf_rules]: "nf (vars_scope_pop N v)"
  unfolding vars_scope_pop_def Let_def by (intro nf_rules)

lemma nf_update [nf_rules]: "nf (vars_set_str N v k s)" "nf (vars_merge N v l)"
  unfolding vars_set_str_def vars_merge_def wrap_set_def Let_def by (intro nf_rules)+

lemma nf_lookup [nf_rules]: "nf (vars_lookup N v k)"
proof -
  have "nf (lookup_down N v n k)" for n
  proof (induction n)
    case (Suc n)
    have "nf (case nvl_lookup N l k of Inr x \<Rightarrow> Inr (Some x) | Inl _ \<Rightarrow> lookup_down N v n k)" for l
      using Suc by (cases "nvl_lookup N l k") (simp_all add: nf_Inr)
    then show ?case by (simp add: nf_rules)
  qed (simp add: nf_Inr)
  then show ?thesis by (simp add: vars_lookup_def)
qed

lemma nf_with_vars [nf_rules]: "(\<And>v. nf (f v)) \<Longrightarrow> nf (with_vars f r)"
  unfolding with_vars_def by (intro nf_rules)

lemma nf_cond [nf_rules]: "nf (cond_value d)" "nf (cond_if d b)" "nf (cond_else d)" "nf (cond_endif d)"
proof -
  have r: "nf (read_cond d i)" and w: "nf (write_cond d' i b)" for i b and d' :: "'a parser_output"
    by (auto simp: read_cond_def write_cond_def nf_def split: option.splits)
  have "nf (cond_upto d i n)" for i n
    by (induction n arbitrary: i) (auto intro!: nf_rules r)
  then show "nf (cond_value d)" by (simp add: cond_value_def)
  show "nf (cond_if d b)" "nf (cond_else d)" "nf (cond_endif d)"
    unfolding cond_if_def cond_else_def cond_endif_def Let_def by (intro nf_rules r w)+
qed

lemma nf_put_char [nf_rules]: "nf (put_char b i c)"
  by (simp add: put_char_def nf_def)

lemma nf_put_chars [nf_rules]: "nf (put_chars b i s)"
  by (induction s arbitrary: b i) (auto intro!: nf_rules)

lemma nf_read_cstr [nf_rules]: "nf (read_cstr b)"
  by (induction b rule: read_cstr.induct) (auto intro!: nf_rules)

lemma nf_escape_with:
  assumes "\<And>c. nf (grow c)" "\<And>b i c. nf (put b i c)"
  shows "nf (escape_with grow put mem s)"
proof -
  have "nf (grow_loop grow s n)" for n
    by (induction s arbitrary: n) (auto intro!: nf_rules assms(1))
  moreover have "nf (fill_loop put s b i)" for b i
    by (induction s arbitrary: b i) (auto intro!: nf_rules assms(2))
  ultimately show ?thesis unfolding escape_with_def by (intro nf_rules)
qed

lemma nf_escape [nf_rules]: "nf (mangle_htmlescape mem s)" "nf (urlescape_str mem s)"
proof -
  have "nf (html_put b i c)" for b i c
    unfolding html_put_def c_strcpy_def by (intro nf_rules)
  then show "nf (mangle_htmlescape mem s)" unfolding mangle_htmlescape_def by (intro nf_escape_with nf_rules)
  have "nf (url_put b i c)" for b i c
    unfolding url_put_def by (intro nf_rules)
  moreover have "nf (url_grow c)" for c
    unfolding url_grow_def isalnum_int_def by (intro nf_rules)
  ultimately have "nf (escape_with url_grow url_put mem s)" by (intro nf_escape_with)
  then show "nf (urlescape_str mem s)" unfolding urlescape_str_def by (intro nf_rules)
qed

lemma nf_escape_val:
  assumes "\<And>s. nf (cvt s)"
  shows "nf (escape_val cvt v)"
  by (cases v) (auto simp: escape_val_def intro!: nf_rules assms)

lemma nf_datetime: "nf (datetime fmt v)"
  by (cases v) (auto simp: datetime_def intro!: nf_rules)

lemma nf_stage: "nf (stage_f (pipestage_alloc mem name) v)"
proof (cases "name \<in> {''urlescape'', ''escape'', ''time'', ''date'', ''zulu'', ''rfc822''}")
  case True
  then show ?thesis
    by (auto simp: urlescape_fxn_def escape_fxn_def time_fxn_def date_fxn_def zulu_fxn_def rfc822_fxn_def
        intro!: nf_escape_val nf_datetime nf_rules)
next
  case False
  then show ?thesis by (simp add: stage_unknown nop_stage_def nop_fxn_def nf_Inr)
qed

lemma nf_run_pipeline: "table_stages mem line \<Longrightarrow> nf (run_pipeline line v)"
proof (induction line arbitrary: v)
  case Nil
  show ?case by (simp add: nf_Inr)
next
  case (Cons s line)
  then obtain name where "s = pipestage_alloc mem name" "table_stages mem line"
    by (auto simp: table_stages_def)
  with Cons.IH nf_stage[of mem name] show ?case by (auto intro!: nf_rules)
qed

lemma nf_print [nf_rules]: "nf (print_val v)" "nf (print_var v)"
  by (cases v; simp add: print_val_def print_var_def nf_rules)+

lemma nf_function_cmd [nf_rules]: "nf (function_cmd E d f a b)"
proof -
  have "nf (function_get_arg E r x)" for r x
    unfolding function_get_arg_def need_arg_def
    by (intro nf_rules) (auto intro!: nf_rules split: option.splits val.splits)
  then have "nf (function_if E d k a b)" for k
    unfolding function_if_def by (intro nf_rules)
  moreover have "nf (function_ifset E d a)"
    unfolding function_ifset_def need_arg_def by (intro nf_rules)
  ultimately show ?thesis unfolding function_cmd_def by (intro nf_rules)
qed

lemma nf_foreach_loop:
  assumes "\<And>r. nf (rend r t)"
  shows "nf (foreach_loop E rend name t xs out r)"
proof (induction xs arbitrary: out r)
  case Nil
  show ?case by (simp add: nf_Inr)
next
  case (Cons x xs)
  have "nf (case x of
              VT_NVL l \<Rightarrow> with_vars (\<lambda>v. vars_merge (env_nvl E) v l) r1
            | VT_STR s \<Rightarrow> with_vars (\<lambda>v. vars_set_str (env_nvl E) v name s) r1
            | _ \<Rightarrow> Inl Panicked)" for r1
    by (cases x) (auto intro!: nf_rules)
  then show ?case unfolding foreach_loop.simps by (intro nf_rules assms Cons.IH)
qed

lemma nf_run_cmd:
  assumes "\<And>t r. t \<in> set (cmd_templates cmd) \<Longrightarrow> nf (rend r t)" "cmd_stages_ok mem cmd"
  shows "nf (run_cmd E rend cmd d)"
proof (cases cmd)
  case (PipelineCmd w line)
  with assms(2) have "nf (run_pipeline line v)" for v using nf_run_pipeline by simp
  then show ?thesis
    unfolding PipelineCmd run_cmd.simps pipeline_cmd_def
    by (intro nf_rules) (auto intro!: nf_rules split: val.splits)
next
  case (ForeachCmd w t)
  with assms(1) have "nf (foreach_loop E rend w t items None r)" for items r
    by (intro nf_foreach_loop) simp
  then have "nf (foreach_val E rend w v t r)" for v r
    by (cases v) (auto simp: foreach_val_def intro!: nf_rules)
  then show ?thesis
    unfolding ForeachCmd run_cmd.simps foreach_def on_req_def by (intro nf_rules)
next
  case (FunctionCmd f a b)
  then show ?thesis by (auto intro: nf_rules)
next
  case (VariableCmd w)
  with assms(1) show ?thesis
    by (auto simp: variable_def on_req_def intro!: nf_rules)
qed

lemma nf_words:
  "(\<And>t r. t \<in> set (mentions ts) \<Longrightarrow> nf (rend r t)) \<Longrightarrow> nf (words E rend ts acc d)"
proof (induction "length ts" arbitrary: ts acc d rule: less_induct)
  case less
  show ?case
  proof (cases ts)
    case Nil
    then show ?thesis by (simp add: nf_Inr)
  next
    case (Cons x us)
    have here: "nf (words E rend us acc d)" for acc d
      using less.hyps[of us] less.prems Cons by simp
    show ?thesis
    proof (cases "x = TPUNCT (CHR ''{'')")
      case True
      show ?thesis
      proof (cases "parse_cmd (env_mem E) us :: ('a cmd \<times> token list) option")
        case None
        with True Cons show ?thesis by (simp add: nf_rules)
      next
        case (Some p)
        then obtain cmd vs where p: "parse_cmd (env_mem E) us = Some (cmd :: 'a cmd, vs)" by (cases p) auto
        note r = parse_cmd_result[OF p]
        from r obtain ws where ws: "us = ws @ vs" by blast
        have sub: "set (mentions vs) \<subseteq> set (mentions ts)"
          using mentions_suffix[of vs "x # ws"] ws Cons by simp
        have "nf (words E rend vs acc d)" for acc d
        proof (rule less.hyps)
          show "length vs < length ts" using parse_cmd_shorter[OF p] Cons by simp
          fix t r assume "t \<in> set (mentions vs)"
          with sub show "nf (rend r t)" by (intro less.prems) blast
        qed
        moreover have "nf (run_cmd E rend cmd d)"
          using r less.prems Cons True by (intro nf_run_cmd[of cmd rend "env_mem E"]) auto
        ultimately show ?thesis using Cons True p by (auto intro!: nf_rules)
      qed
    next
      case False
      then show ?thesis
        unfolding Cons condconcat_def by (cases x) (auto simp: condconcat_def intro!: nf_rules here)
    qed
  qed
qed

text \<open>
  A rank that goes down from every template file to every template it mentions, whatever the format.
  A name without a file has no constraint: it may be the name of a variable.
\<close>

definition ranked :: "'n tmpl_env \<Rightarrow> (string \<Rightarrow> nat) \<Rightarrow> bool" where
  "ranked E rank \<longleftrightarrow>
     (\<forall>fmt t raw. file_cache_get E (template_path E fmt t) = Some raw \<longrightarrow>
        (\<forall>u\<in>set (mentions (scan raw)). rank u < rank t))"

lemma nf_render_template: "ranked E rank \<Longrightarrow> rank t < n \<Longrightarrow> nf (render_template n E r t)"
proof (induction n arbitrary: r t)
  case 0
  then show ?case by simp
next
  case (Suc n)
  show ?case
  proof (cases "req_fmt r")
    case None
    then show ?thesis by (simp add: nf_rules)
  next
    case (Some fmt)
    show ?thesis
    proof (cases "file_cache_get E (template_path E fmt t)")
      case None
      with Some show ?thesis by (simp add: nf_rules)
    next
      case raw: (Some raw)
      have "rank u < n" if "u \<in> set (mentions (scan raw))" for u
        using that Suc.prems raw unfolding ranked_def by fastforce
      with Suc.IH Suc.prems(1) have "nf (words E (render_template n E) (scan raw) acc d)" for acc d
        by (intro nf_words) blast
      with Some raw show ?thesis by (auto simp: render_page_def intro!: nf_rules)
    qed
  qed
qed

lemma nf_render:
  assumes "ranked E rank" "\<forall>u\<in>set (mentions (scan s)). rank u < n"
  shows "nf (render n E r s)"
proof -
  have "nf (words E (render_template n E) (scan s) acc d)" for acc d
    using assms nf_render_template by (intro nf_words) blast
  then show ?thesis by (auto simp: render_def render_page_def intro!: nf_rules)
qed

section \<open>Properties\<close>

text \<open>
  C6. Rendering a page gives the request back with the same live scopes and everything else
  untouched, however its templates loop and nest: every scope pushed is popped again, and what is set
  in it is gone.
\<close>

theorem render_keeps_request:
  assumes "vars_wf (req_vars r)" "render n E r s = Inr (out, r')"
  shows "live (req_vars r') = live (req_vars r) \<and> cur (req_vars r') = cur (req_vars r) \<and>
     r' = r\<lparr>req_vars := req_vars r'\<rparr>"
proof -
  from nested.page_keeps[OF assms(1) assms(2)[unfolded render_def]] have s: "same_req r r'" .
  then have "length (live (req_vars r')) = length (live (req_vars r))" by (simp add: same_req_def)
  then have "nat (cur (req_vars r')) = nat (cur (req_vars r))"
    unfolding length_live[OF assms(1)] length_live[OF same_req_wf[OF s]] by simp
  with s assms(1) show ?thesis by (auto simp: same_req_def vars_wf_def)
qed

text \<open>Two small templates, one naming the other, and a request to render them in.\<close>

definition demo_env :: "alist_nvlist tmpl_env" where
  "demo_env =
    \<lparr>env_nvl = alist_nvl, env_mem = True, template_dir = ''templates'',
     file_cache_get = (\<lambda>p. if p = ''templates/html/index.tmpl'' then Some ''<h1>{title|escape}</h1>{tags%tag}''
                         else if p = ''templates/html/tag.tmpl'' then Some ''[{tags}]'' else None),
     str2u64 = (\<lambda>s. if s \<noteq> [] \<and> list_all is_digit s then Some (of_nat (nat_of_dec s)) else None)\<rparr>"

definition demo_req :: "alist_nvlist req" where
  "demo_req =
    \<lparr>scgi = \<lparr>scgi_headers = NVList [], scgi_query = NVList [], scgi_body = None,
             resp_status = SCGI_STATUS_OK, resp_headers = NVList [], resp_body = None, resp_bodylen = 0\<rparr>,
     req_page = PAGE_INDEX,
     req_vars = \<lparr>scopes = Some (NVList [(''title'', VT_STR ''a<b''), (''tags'', VT_ARRAY [VT_STR ''x'', VT_STR ''y''])]) # replicate 9 None,
                 cur = 0\<rparr>,
     req_fmt = Some ''html'', index_stories = 10\<rparr>"

lemma demo_req_wf: "vars_wf (req_vars demo_req)"
  by (simp add: vars_wf_def demo_req_def VAR_MAX_SCOPES_def)

lemma demo_render:
  "\<exists>r'. render 2 demo_env demo_req ''{index}'' = Inr (Some ''<h1>a&lt;b</h1>[x][y]'', r')"
proof -
  have "map_sum id fst (render 2 demo_env demo_req ''{index}'') = Inr (Some ''<h1>a&lt;b</h1>[x][y]'')"
    by code_simp
  then show ?thesis
    by (cases "render 2 demo_env demo_req ''{index}''") auto
qed

lemma render_keeps_request_witness:
  "vars_wf (req_vars demo_req) \<and>
   (\<exists>r'. render 2 demo_env demo_req ''{index}'' = Inr (Some ''<h1>a&lt;b</h1>[x][y]'', r') \<and>
         live (req_vars r') = live (req_vars demo_req))"
  using demo_render demo_req_wf render_keeps_request[OF demo_req_wf] by blast

text \<open>
  C7. Rendering terminates for every set of templates in which no template reaches itself: with the
  rank of the templates a page mentions as the bound, the bound is never exhausted, and every larger
  bound gives the same outcome.
\<close>

theorem render_terminates:
  assumes "ranked E rank" "\<forall>u\<in>set (mentions (scan s)). rank u < n"
  shows "render n E r s \<noteq> Inl OutOfFuel \<and> render (n + m) E r s = render n E r s"
  using nf_render[OF assms, of r] render_below[of n E r s m] by (auto simp: nf_def below_def)

definition demo_rank :: "string \<Rightarrow> nat" where
  "demo_rank t = (if t = ''index'' then 2 else if t = ''tag'' then 1 else 0)"

lemma demo_mentions:
  "mentions (scan ''<h1>{title|escape}</h1>{tags%tag}'') = [''tag'']" "mentions (scan ''[{tags}]'') = [''tags'']"
  by code_simp+

lemma demo_path:
  assumes "template_path demo_env fmt t = p" "length p < 100"
  shows "''templates/'' @ fmt @ ''/'' @ t @ ''.tmpl'' = p"
proof -
  let ?p = "''templates/'' @ fmt @ ''/'' @ t @ ''.tmpl''"
  have p: "take 4095 ?p = p"
    using assms(1) by (simp add: template_path_def c_snprintf_def FILENAME_MAX_def demo_env_def)
  with assms(2) have "length (take 4095 ?p) < 4095" by simp
  then have "length ?p < 4095" by (simp only: length_take min_def split: if_splits)
  then have "take 4095 ?p = ?p" by (intro take_all) linarith
  with p show ?thesis by (simp only:)
qed

lemma demo_index: "template_path demo_env fmt t = ''templates/html/index.tmpl'' \<Longrightarrow> t = ''index''"
  by (drule demo_path) (auto simp: append_eq_Cons_conv Cons_eq_append_conv)

lemma demo_tag: "template_path demo_env fmt t = ''templates/html/tag.tmpl'' \<Longrightarrow> t = ''tag''"
  by (drule demo_path) (auto simp: append_eq_Cons_conv Cons_eq_append_conv)

lemma demo_ranked: "ranked demo_env demo_rank"
  unfolding ranked_def
proof (intro allI impI ballI)
  fix fmt t raw u
  assume raw: "file_cache_get demo_env (template_path demo_env fmt t) = Some raw" and u: "u \<in> set (mentions (scan raw))"
  then consider "template_path demo_env fmt t = ''templates/html/index.tmpl''" "raw = ''<h1>{title|escape}</h1>{tags%tag}''"
    | "template_path demo_env fmt t = ''templates/html/tag.tmpl''" "raw = ''[{tags}]''"
    by (auto simp: demo_env_def split: if_splits)
  then show "demo_rank u < demo_rank t"
  proof cases
    case 1
    with demo_index[OF 1(1)] u demo_mentions(1) show ?thesis by (simp add: demo_rank_def)
  next
    case 2
    with demo_tag[OF 2(1)] u demo_mentions(2) show ?thesis by (simp add: demo_rank_def)
  qed
qed

lemma render_terminates_witness:
  "ranked demo_env demo_rank \<and> mentions (scan ''{index}'') = [''index''] \<and> demo_rank ''index'' < 3 \<and>
   render 3 demo_env demo_req ''{index}'' \<noteq> Inl OutOfFuel \<and>
   render (3 + 7) demo_env demo_req ''{index}'' = render 3 demo_env demo_req ''{index}''"
proof -
  have m: "mentions (scan ''{index}'') = [''index'']" by code_simp
  have "demo_rank ''index'' < 3" by (simp add: demo_rank_def)
  then show ?thesis
    using m demo_ranked render_terminates[OF demo_ranked, of "''{index}''" 3 demo_req 7] by simp
qed

end
