(* ===== verification/Ordering.thy ===== *)
theory Ordering
  imports Prelude "HOL-Library.Product_Lexorder" "HOL-Library.List_Lexorder" "HOL-Library.Char_ord"
begin

text \<open>
  Three-way comparison. The program keeps its data in search trees of libjeffpc and passes each tree
  a comparison function; the locale \<^verbatim>\<open>comparator\<close> says that such a function compares by a key from
  a linear order, which is what a search tree needs. The trees are not part of the repository: they
  are a record of operations with the laws of an ordered container, which are stated for any
  comparison that agrees with the order of the elements, and a concrete instance on lists.
\<close>

section \<open>Comparison by a key\<close>

locale comparator =
  fixes cmp :: "'a \<Rightarrow> 'a \<Rightarrow> int" and key :: "'a \<Rightarrow> 'k::linorder"
  assumes neg: "cmp x y < 0 \<longleftrightarrow> key x < key y"
    and pos: "0 < cmp x y \<longleftrightarrow> key y < key x"
begin

lemma zero: "cmp x y = 0 \<longleftrightarrow> key x = key y"
  using neg[of x y] pos[of x y] by (cases "key x" "key y" rule: linorder_cases) auto

lemma antisym_sign: "cmp x y < 0 \<longleftrightarrow> 0 < cmp y x"
  by (simp add: neg pos)

text \<open>An element is compared consistently with all elements of a strictly ordered list.\<close>

lemma split_sorted:
  assumes "sorted_wrt (\<lambda>a b. key a < key b) xs"
  shows "\<exists>us vs. (xs = us @ vs \<or> (\<exists>y. xs = us @ y # vs \<and> cmp x y = 0)) \<and>
     (\<forall>u\<in>set us. 0 < cmp x u) \<and> (\<forall>v\<in>set vs. cmp x v < 0)"
  using assms
proof (induction xs)
  case Nil
  show ?case by (intro exI[of _ "[]"]) simp
next
  case (Cons a xs)
  consider "key x < key a" | "key x = key a" | "key a < key x" by (rule linorder_cases)
  then show ?case
  proof cases
    case 1
    with Cons.prems have "\<forall>v\<in>set (a # xs). cmp x v < 0" by (auto simp: neg intro: less_trans)
    then show ?thesis by (intro exI[of _ "[]"] exI[of _ "a # xs"]) simp
  next
    case 2
    with Cons.prems have "\<forall>v\<in>set xs. cmp x v < 0" "cmp x a = 0" by (auto simp: neg zero)
    then show ?thesis by (intro exI[of _ "[]"] exI[of _ xs]) auto
  next
    case 3
    from Cons obtain us vs where "(xs = us @ vs \<or> (\<exists>y. xs = us @ y # vs \<and> cmp x y = 0))"
      "\<forall>u\<in>set us. 0 < cmp x u" "\<forall>v\<in>set vs. cmp x v < 0" by auto
    with 3 show ?thesis by (intro exI[of _ "a # us"] exI[of _ vs]) (auto simp: pos)
  qed
qed

end

section \<open>strcasecmp\<close>

text \<open>Case-insensitive comparison of C strings in the C locale: the difference at the first mismatch.\<close>

definition c_tolower :: "char \<Rightarrow> char" where
  "c_tolower c = (let n = (of_char c :: nat) in if 65 \<le> n \<and> n \<le> 90 then char_of (n + 32) else c)"

fun strcasecmp :: "string \<Rightarrow> string \<Rightarrow> int" where
  "strcasecmp [] [] = 0"
| "strcasecmp [] (b # bs) = - int (of_char (c_tolower b))"
| "strcasecmp (a # as) [] = int (of_char (c_tolower a))"
| "strcasecmp (a # as) (b # bs) =
     (if c_tolower a = c_tolower b then strcasecmp as bs
      else int (of_char (c_tolower a)) - int (of_char (c_tolower b)))"

definition lower :: "string \<Rightarrow> string" where
  "lower s = map c_tolower s"

lemma char_less: "(c::char) < d \<longleftrightarrow> (of_char c :: nat) < of_char d"
  by (simp add: less_char_def)

lemma of_char_pos: "0 < (of_char (c::char) :: nat) \<longleftrightarrow> c \<noteq> NUL"
proof -
  have "(of_char c :: nat) = of_char NUL \<longleftrightarrow> c = NUL" by (rule of_char_eq_iff)
  then show ?thesis by (simp flip: neq0_conv)
qed

lemma c_tolower_nul: "c \<noteq> NUL \<Longrightarrow> c_tolower c \<noteq> NUL"
proof -
  assume "c \<noteq> NUL"
  have "char_of (n + 32) \<noteq> NUL" if "n \<le> 90" for n :: nat
  proof -
    have "(of_char (char_of (n + 32) :: char) :: nat) = n + 32" using that by simp
    then show ?thesis using of_char_pos[of "char_of (n + 32)"] by simp
  qed
  with \<open>c \<noteq> NUL\<close> show ?thesis by (auto simp: c_tolower_def Let_def)
qed

lemma strcasecmp_sign:
  "cstring s \<Longrightarrow> cstring t \<Longrightarrow>
   (strcasecmp s t < 0 \<longleftrightarrow> lower s < lower t) \<and> (0 < strcasecmp s t \<longleftrightarrow> lower t < lower s)"
proof (induction s t rule: strcasecmp.induct)
  case (2 b bs)
  then show ?case using of_char_pos[of "c_tolower b"] c_tolower_nul[of b] by (simp add: lower_def)
next
  case (3 a as)
  then show ?case using of_char_pos[of "c_tolower a"] c_tolower_nul[of a] by (simp add: lower_def)
next
  case (4 a as b bs)
  then show ?case
    using char_less[of "c_tolower a" "c_tolower b"] char_less[of "c_tolower b" "c_tolower a"]
    by (auto simp: lower_def)
qed (simp add: lower_def)

section \<open>Search trees\<close>

text \<open>
  The operations of libjeffpc's search trees. A tree holds addresses of structures; an operation
  that compares gets the comparison of the element in question with a node, which may fail when the
  memory of the node is gone. \<^verbatim>\<open>rb_insert\<close> gives the element already there, if any,
  \<^verbatim>\<open>rb_insert_here\<close> inserts where the last search ended, and \<^verbatim>\<open>rb_nodes\<close> are the nodes in the
  order in which \<^verbatim>\<open>rb_destroy_nodes\<close> hands them out.
\<close>

record 't rb_ops =
  rb_create :: 't
  rb_find :: "'t \<Rightarrow> (nat \<Rightarrow> int res) \<Rightarrow> nat option res"
  rb_insert :: "'t \<Rightarrow> (nat \<Rightarrow> int res) \<Rightarrow> nat \<Rightarrow> (nat option \<times> 't) res"
  rb_insert_here :: "'t \<Rightarrow> (nat \<Rightarrow> int res) \<Rightarrow> nat \<Rightarrow> 't res"
  rb_remove :: "'t \<Rightarrow> nat \<Rightarrow> 't"
  rb_first :: "'t \<Rightarrow> nat option"
  rb_last :: "'t \<Rightarrow> nat option"
  rb_next :: "'t \<Rightarrow> nat \<Rightarrow> nat option"
  rb_prev :: "'t \<Rightarrow> nat \<Rightarrow> nat option"
  rb_numnodes :: "'t \<Rightarrow> nat"
  rb_nodes :: "'t \<Rightarrow> nat list"

definition hd_opt :: "'a list \<Rightarrow> 'a option" where
  "hd_opt xs = (case xs of [] \<Rightarrow> None | x # _ \<Rightarrow> Some x)"

definition last_opt :: "'a list \<Rightarrow> 'a option" where
  "last_opt xs = (if xs = [] then None else Some (last xs))"

lemma hd_opt_simps [simp]: "hd_opt [] = None" "hd_opt (x # xs) = Some x"
  by (simp_all add: hd_opt_def)

lemma last_opt_simps [simp]: "last_opt [] = None" "last_opt (xs @ [x]) = Some x"
  by (simp_all add: last_opt_def)

definition after :: "(nat \<Rightarrow> int res) \<Rightarrow> nat list \<Rightarrow> bool" where
  "after c us \<longleftrightarrow> (\<forall>u\<in>set us. \<exists>i>0. c u = Inr i)"

definition before :: "(nat \<Rightarrow> int res) \<Rightarrow> nat list \<Rightarrow> bool" where
  "before c vs \<longleftrightarrow> (\<forall>v\<in>set vs. \<exists>i<0. c v = Inr i)"

text \<open>
  The contract, with \<open>E\<close> the elements of a tree in order. Searching and inserting are specified
  when the comparison splits the elements into those before, at most one equal, and those after.
\<close>

definition rb_absent_law :: "'t rb_ops \<Rightarrow> ('t \<Rightarrow> nat list) \<Rightarrow> bool" where
  "rb_absent_law R E \<longleftrightarrow>
     (\<forall>t c us vs. E t = us @ vs \<longrightarrow> after c us \<longrightarrow> before c vs \<longrightarrow>
        rb_find R t c = Inr None \<and>
        (\<forall>x. \<exists>t'. rb_insert R t c x = Inr (None, t') \<and> E t' = us @ x # vs) \<and>
        (\<forall>x. \<exists>t'. rb_insert_here R t c x = Inr t' \<and> E t' = us @ x # vs))"

definition rb_present_law :: "'t rb_ops \<Rightarrow> ('t \<Rightarrow> nat list) \<Rightarrow> bool" where
  "rb_present_law R E \<longleftrightarrow>
     (\<forall>t c us y vs. E t = us @ y # vs \<longrightarrow> after c us \<longrightarrow> before c vs \<longrightarrow> c y = Inr 0 \<longrightarrow>
        rb_find R t c = Inr (Some y) \<and> (\<forall>x. rb_insert R t c x = Inr (Some y, t)))"

definition rb_walk_law :: "'t rb_ops \<Rightarrow> ('t \<Rightarrow> nat list) \<Rightarrow> bool" where
  "rb_walk_law R E \<longleftrightarrow>
     (\<forall>t. rb_first R t = hd_opt (E t) \<and> rb_last R t = last_opt (E t) \<and> rb_numnodes R t = length (E t) \<and>
        set (rb_nodes R t) = set (E t) \<and> length (rb_nodes R t) = length (E t)) \<and>
     (\<forall>t us x vs. E t = us @ x # vs \<longrightarrow> distinct (E t) \<longrightarrow> rb_next R t x = hd_opt vs \<and> rb_prev R t x = last_opt us)"

definition rb_laws :: "'t rb_ops \<Rightarrow> ('t \<Rightarrow> nat list) \<Rightarrow> bool" where
  "rb_laws R E \<longleftrightarrow> E (rb_create R) = [] \<and> (\<forall>t x. E (rb_remove R t x) = remove1 x (E t)) \<and>
     rb_absent_law R E \<and> rb_present_law R E \<and> rb_walk_law R E"

text \<open>The elements are ordered by a key \<open>k\<close>, and the comparison is that of \<open>kx\<close> with it.\<close>

definition agrees :: "(nat \<Rightarrow> int res) \<Rightarrow> (nat \<Rightarrow> 'k::linorder) \<Rightarrow> 'k \<Rightarrow> nat list \<Rightarrow> bool" where
  "agrees c k kx xs \<longleftrightarrow>
     (\<forall>y\<in>set xs. \<exists>i. c y = Inr i \<and> (0 < i \<longleftrightarrow> k y < kx) \<and> (i < 0 \<longleftrightarrow> kx < k y))"

abbreviation ordered :: "(nat \<Rightarrow> 'k::linorder) \<Rightarrow> nat list \<Rightarrow> bool" where
  "ordered k xs \<equiv> sorted_wrt (\<lambda>a b. k a < k b) xs"

lemma ordered_filter: "ordered k xs \<Longrightarrow> kx \<notin> k ` set xs \<Longrightarrow>
    xs = filter (\<lambda>y. k y < kx) xs @ filter (\<lambda>y. kx < k y) xs"
proof (induction xs)
  case Nil
  then show ?case by simp
next
  case (Cons x xs)
  show ?case
  proof (cases "k x < kx")
    case True
    with Cons show ?thesis by (auto simp: not_less)
  next
    case False
    with Cons.prems have kx: "kx < k x" by auto
    with Cons.prems have "\<forall>y\<in>set xs. kx < k y" by (auto intro: less_trans)
    then have "filter (\<lambda>y. k y < kx) xs = []" "filter (\<lambda>y. kx < k y) xs = xs"
      by (auto simp: filter_empty_conv filter_id_conv dest: less_asym)
    with kx show ?thesis by (simp add: not_less_iff_gr_or_eq)
  qed
qed

definition put_between :: "(nat \<Rightarrow> 'k::linorder) \<Rightarrow> 'k \<Rightarrow> nat \<Rightarrow> nat list \<Rightarrow> nat list" where
  "put_between k kx x xs = filter (\<lambda>y. k y < kx) xs @ x # filter (\<lambda>y. kx < k y) xs"

lemma set_put_between: "kx \<notin> k ` set xs \<Longrightarrow> set (put_between k kx x xs) = insert x (set xs)"
  by (auto simp: put_between_def)

lemma ordered_put_between:
  assumes "ordered k xs" "\<And>y. y \<in> set xs \<Longrightarrow> k' y = k y" "k' x = kx"
  shows "ordered k' (put_between k kx x xs)"
proof -
  have "ordered k' (filter P xs)" for P
    by (rule sorted_wrt_mono_rel[OF _ sorted_wrt_filter[OF assms(1)]]) (use assms(2) in auto)
  then show ?thesis
    using assms(2,3) by (auto simp: put_between_def sorted_wrt_append)
qed

lemma distinct_ordered: "ordered k xs \<Longrightarrow> distinct xs"
  by (induction xs) auto

lemma rb_absent:
  assumes "rb_laws R E" "ordered k (E t)" "agrees c k kx (E t)" "kx \<notin> k ` set (E t)"
  shows "rb_find R t c = Inr None"
    and "\<exists>t'. rb_insert R t c x = Inr (None, t') \<and> E t' = put_between k kx x (E t)"
    and "\<exists>t'. rb_insert_here R t c x = Inr t' \<and> E t' = put_between k kx x (E t)"
proof -
  let ?us = "filter (\<lambda>y. k y < kx) (E t)" and ?vs = "filter (\<lambda>y. kx < k y) (E t)"
  have "E t = ?us @ ?vs" using assms(2,4) by (rule ordered_filter)
  moreover have "after c ?us" "before c ?vs"
    using assms(3) by (auto simp: after_def before_def agrees_def)
  moreover have "rb_absent_law R E" using assms(1) by (simp add: rb_laws_def)
  ultimately have *: "rb_find R t c = Inr None \<and>
        (\<forall>x. \<exists>t'. rb_insert R t c x = Inr (None, t') \<and> E t' = ?us @ x # ?vs) \<and>
        (\<forall>x. \<exists>t'. rb_insert_here R t c x = Inr t' \<and> E t' = ?us @ x # ?vs)"
    unfolding rb_absent_law_def by metis
  show "rb_find R t c = Inr None" using * by simp
  show "\<exists>t'. rb_insert R t c x = Inr (None, t') \<and> E t' = put_between k kx x (E t)"
    unfolding put_between_def using * by simp
  show "\<exists>t'. rb_insert_here R t c x = Inr t' \<and> E t' = put_between k kx x (E t)"
    unfolding put_between_def using * by simp
qed

lemma rb_present:
  assumes "rb_laws R E" "ordered k (E t)" "agrees c k (k y) (E t)" "y \<in> set (E t)"
  shows "rb_find R t c = Inr (Some y)" "rb_insert R t c x = Inr (Some y, t)"
proof -
  obtain us vs where t: "E t = us @ y # vs" using assms(4) by (meson split_list)
  with assms(2) have "\<forall>u\<in>set us. k u < k y" "\<forall>v\<in>set vs. k y < k v" by (auto simp: sorted_wrt_append)
  moreover have "\<exists>i. c z = Inr i \<and> (0 < i \<longleftrightarrow> k z < k y) \<and> (i < 0 \<longleftrightarrow> k y < k z)" if "z \<in> set us \<union> set vs" for z
    using assms(3) t that unfolding agrees_def by simp
  ultimately have "after c us" "before c vs" unfolding after_def before_def by blast+
  moreover from assms(3,4) obtain i where "c y = Inr i" "\<not> 0 < i" "\<not> i < 0" by (auto simp: agrees_def)
  then have "c y = Inr 0" by simp
  moreover have "rb_present_law R E" using assms(1) by (simp add: rb_laws_def)
  ultimately show "rb_find R t c = Inr (Some y)" "rb_insert R t c x = Inr (Some y, t)"
    using t unfolding rb_present_law_def by metis+
qed

lemma rb_basic:
  assumes "rb_laws R E"
  shows "E (rb_create R) = []" "E (rb_remove R t x) = remove1 x (E t)"
    "rb_first R t = hd_opt (E t)" "rb_last R t = last_opt (E t)" "rb_numnodes R t = length (E t)"
    "E t = us @ y # vs \<Longrightarrow> distinct (E t) \<Longrightarrow> rb_next R t y = hd_opt vs"
    "E t = us @ y # vs \<Longrightarrow> distinct (E t) \<Longrightarrow> rb_prev R t y = last_opt us"
proof -
  have w: "rb_walk_law R E" using assms by (simp add: rb_laws_def)
  show "E (rb_create R) = []" "E (rb_remove R t x) = remove1 x (E t)" using assms by (simp_all add: rb_laws_def)
  show "rb_first R t = hd_opt (E t)" "rb_last R t = last_opt (E t)" "rb_numnodes R t = length (E t)"
    using w unfolding rb_walk_law_def by blast+
  show "E t = us @ y # vs \<Longrightarrow> distinct (E t) \<Longrightarrow> rb_next R t y = hd_opt vs"
    "E t = us @ y # vs \<Longrightarrow> distinct (E t) \<Longrightarrow> rb_prev R t y = last_opt us"
    using w unfolding rb_walk_law_def by blast+
qed

section \<open>A concrete instance\<close>

fun list_find :: "nat list \<Rightarrow> (nat \<Rightarrow> int res) \<Rightarrow> nat option res" where
  "list_find [] c = Inr None"
| "list_find (y # ys) c =
     rbind (c y) (\<lambda>i. if i = 0 then Inr (Some y) else if i < 0 then Inr None else list_find ys c)"

fun list_put :: "nat list \<Rightarrow> (nat \<Rightarrow> int res) \<Rightarrow> nat \<Rightarrow> (nat option \<times> nat list) res" where
  "list_put [] c x = Inr (None, [x])"
| "list_put (y # ys) c x =
     rbind (c y) (\<lambda>i.
       if i = 0 then Inr (Some y, y # ys)
       else if i < 0 then Inr (None, x # y # ys)
       else rbind (list_put ys c x) (\<lambda>(r, zs). Inr (r, y # zs)))"

fun list_next :: "nat list \<Rightarrow> nat \<Rightarrow> nat option" where
  "list_next [] x = None"
| "list_next (y # ys) x = (if y = x then hd_opt ys else list_next ys x)"

definition list_rb :: "nat list rb_ops" where
  "list_rb =
    \<lparr>rb_create = [], rb_find = list_find, rb_insert = list_put,
     rb_insert_here = (\<lambda>t c x. rbind (list_put t c x) (\<lambda>(_, t'). Inr t')),
     rb_remove = (\<lambda>t x. remove1 x t), rb_first = hd_opt, rb_last = last_opt,
     rb_next = list_next, rb_prev = (\<lambda>t x. list_next (rev t) x), rb_numnodes = length,
     rb_nodes = (\<lambda>t. t)\<rparr>"

lemma list_find_split: "after c us \<Longrightarrow> list_find (us @ vs) c = list_find vs c"
  by (induction us) (auto simp: after_def)

lemma list_put_split:
  "after c us \<Longrightarrow> list_put (us @ vs) c x = rbind (list_put vs c x) (\<lambda>(r, zs). Inr (r, us @ zs))"
proof (induction us)
  case Nil
  show ?case by (cases "list_put vs c x") auto
next
  case (Cons u us)
  then show ?case by (cases "list_put vs c x") (auto simp: after_def)
qed

lemma list_next_split: "x \<notin> set us \<Longrightarrow> list_next (us @ x # vs) x = hd_opt vs"
  by (induction us) auto

lemma last_opt_rev: "hd_opt (rev us) = last_opt us"
  by (cases us rule: rev_cases) auto

lemma list_rb_laws: "rb_laws list_rb (\<lambda>t. t)"
proof -
  have "rb_absent_law list_rb (\<lambda>t. t)"
    unfolding rb_absent_law_def
  proof (intro allI impI)
    fix t c us and vs :: "nat list" assume t: "t = us @ vs" "after c us" "before c vs"
    have "list_find vs c = Inr None" "list_put vs c x = Inr (None, x # vs)" for x
      using t(3) by (cases vs; auto simp: before_def)+
    with t list_find_split[OF t(2)] list_put_split[OF t(2)]
    show "rb_find list_rb t c = Inr None \<and>
        (\<forall>x. \<exists>t'. rb_insert list_rb t c x = Inr (None, t') \<and> t' = us @ x # vs) \<and>
        (\<forall>x. \<exists>t'. rb_insert_here list_rb t c x = Inr t' \<and> t' = us @ x # vs)"
      by (simp add: list_rb_def)
  qed
  moreover have "rb_present_law list_rb (\<lambda>t. t)"
    unfolding rb_present_law_def
    by (auto simp: list_rb_def list_find_split list_put_split)
  moreover have "rb_walk_law list_rb (\<lambda>t. t)"
    unfolding rb_walk_law_def
    by (auto simp: list_rb_def list_next_split last_opt_rev)
  ultimately show ?thesis by (simp add: rb_laws_def list_rb_def)
qed

end
