(* ===== verification/PostIndex.thy ===== *)
theory PostIndex
  imports Libjeffpc Ordering
begin

text \<open>
  The post index (\<^verbatim>\<open>post_index.c\<close>): a tree of all posts by id, a tree by time, and a tree of tags
  each with a tree of posts by time, over structures that are allocated, shared and freed. The memory
  is a map from addresses per kind of structure; an address without a structure is freed memory.
\<close>

section \<open>Posts and index structures\<close>

record comment =
  com_id :: u32
  com_author :: "string option"
  com_email :: "string option"
  com_time :: u32
  com_ip :: "string option"
  com_url :: "string option"
  com_body :: "string option"

text \<open>The trees of tags and categories of a post are the lists of their names in tree order.\<close>

record 'n post =
  post_refcnt :: nat
  post_preview :: bool
  post_listed :: bool
  post_id :: u32
  post_time :: u32
  post_title :: "string option"
  post_fmt :: u32
  post_tags :: "string list"
  post_cats :: "string list"
  post_comments :: "comment list"
  post_numcom :: u32
  post_body :: "string option"
  post_twitter_img :: "string option"
  post_files :: 'n

datatype entry_type = ET_TAG | ET_TIME

record post_global_index_entry =
  ge_id :: u32
  ge_post :: nat
  ge_time :: u32
  ge_by_tag :: "nat list"

record post_index_entry =
  ie_global :: nat
  ie_name :: "string option"
  ie_type :: entry_type

record 't post_subindex =
  si_name :: string
  si_tree :: 't

text \<open>
  Addresses are handed out in sequence, one for each allocation; \<^verbatim>\<open>alloc_ok\<close> tells which allocations
  find memory.
\<close>

record ('n, 't) pindex =
  posts :: "nat \<Rightarrow> 'n post option"
  globals :: "nat \<Rightarrow> post_global_index_entry option"
  entries :: "nat \<Rightarrow> post_index_entry option"
  subs :: "nat \<Rightarrow> 't post_subindex option"
  index_global :: 't
  index_by_time :: 't
  index_by_tag :: 't
  next_addr :: nat
  alloc_ok :: "nat \<Rightarrow> bool"

definition deref :: "(nat \<Rightarrow> 'a option) \<Rightarrow> nat \<Rightarrow> 'a res" where
  "deref m a = (case m a of None \<Rightarrow> Inl UseAfterFree | Some x \<Rightarrow> Inr x)"

definition mem_cache_alloc :: "('n, 't) pindex \<Rightarrow> nat option \<times> ('n, 't) pindex" where
  "mem_cache_alloc s =
     ((if alloc_ok s (next_addr s) then Some (next_addr s) else None), s\<lparr>next_addr := Suc (next_addr s)\<rparr>)"

definition post_getref :: "('n, 't) pindex \<Rightarrow> nat \<Rightarrow> ('n, 't) pindex res" where
  "post_getref s p =
     rbind (deref (posts s) p) (\<lambda>x. Inr (s\<lparr>posts := (posts s)(p \<mapsto> x\<lparr>post_refcnt := post_refcnt x + 1\<rparr>)\<rparr>))"

definition post_putref :: "('n, 't) pindex \<Rightarrow> nat \<Rightarrow> ('n, 't) pindex res" where
  "post_putref s p =
     rbind (deref (posts s) p) (\<lambda>x.
       Inr (s\<lparr>posts := (posts s)(p := if post_refcnt x \<le> 1 then None
                                     else Some (x\<lparr>post_refcnt := post_refcnt x - 1\<rparr>))\<rparr>))"

section \<open>Comparators\<close>

definition post_global_index_cmp :: "u32 \<Rightarrow> u32 \<Rightarrow> int" where
  "post_global_index_cmp a b = (if a < b then -1 else if b < a then 1 else 0)"

text \<open>By time, then by id.\<close>

definition post_index_cmp :: "u32 \<times> u32 \<Rightarrow> u32 \<times> u32 \<Rightarrow> int" where
  "post_index_cmp a b =
     (if fst a < fst b then -1 else if fst b < fst a then 1
      else if snd a < snd b then -1 else if snd b < snd a then 1
      else 0)"

definition post_tag_cmp :: "string \<Rightarrow> string \<Rightarrow> int" where
  "post_tag_cmp a b =
     (let ret = strcasecmp a b in if 0 < ret then 1 else if ret < 0 then -1 else 0)"

text \<open>The comparators on addresses read the structures the tree nodes are part of.\<close>

definition entry_key :: "('n, 't) pindex \<Rightarrow> nat \<Rightarrow> (u32 \<times> u32) res" where
  "entry_key s e =
     rbind (deref (entries s) e) (\<lambda>ie.
     rbind (deref (globals s) (ie_global ie)) (\<lambda>g. Inr (ge_time g, ge_id g)))"

definition cmp_global :: "('n, 't) pindex \<Rightarrow> u32 \<Rightarrow> nat \<Rightarrow> int res" where
  "cmp_global s i b = rbind (deref (globals s) b) (\<lambda>g. Inr (post_global_index_cmp i (ge_id g)))"

definition cmp_entry :: "('n, 't) pindex \<Rightarrow> nat \<Rightarrow> nat \<Rightarrow> int res" where
  "cmp_entry s a b =
     rbind (entry_key s a) (\<lambda>ka. rbind (entry_key s b) (\<lambda>kb. Inr (post_index_cmp ka kb)))"

definition cmp_sub :: "('n, 't) pindex \<Rightarrow> string \<Rightarrow> nat \<Rightarrow> int res" where
  "cmp_sub s name b = rbind (deref (subs s) b) (\<lambda>x. Inr (post_tag_cmp name (si_name x)))"

section \<open>Initialisation\<close>

text \<open>The caches are made by the library, which may fail; what was in memory before stays.\<close>

definition init_post_index ::
  "'t rb_ops \<Rightarrow> bool \<Rightarrow> bool \<Rightarrow> bool \<Rightarrow> (nat \<Rightarrow> 'n post option) \<Rightarrow> (nat \<Rightarrow> bool) \<Rightarrow> ('n, 't) pindex res" where
  "init_post_index R entry_cache_ok global_cache_ok subindex_cache_ok ps alloc =
     rbind (assert_that entry_cache_ok) (\<lambda>_.
     rbind (assert_that global_cache_ok) (\<lambda>_.
     rbind (assert_that subindex_cache_ok) (\<lambda>_.
       Inr \<lparr>posts = ps, globals = (\<lambda>_. None), entries = (\<lambda>_. None), subs = (\<lambda>_. None),
            index_global = rb_create R, index_by_time = rb_create R, index_by_tag = rb_create R,
            next_addr = 0, alloc_ok = alloc\<rparr>)))"

section \<open>Lookup\<close>

definition get_subindex :: "'t rb_ops \<Rightarrow> ('n, 't) pindex \<Rightarrow> string \<Rightarrow> 't option res" where
  "get_subindex R s tagname =
     rbind (rb_find R (index_by_tag s) (cmp_sub s tagname)) (\<lambda>r.
       case r of None \<Rightarrow> Inr None | Some b \<Rightarrow> rbind (deref (subs s) b) (\<lambda>x. Inr (Some (si_tree x))))"

definition index_lookup_post :: "'t rb_ops \<Rightarrow> ('n, 't) pindex \<Rightarrow> u32 \<Rightarrow> (nat option \<times> ('n, 't) pindex) res" where
  "index_lookup_post R s postid =
     rbind (rb_find R (index_global s) (cmp_global s postid)) (\<lambda>r.
       case r of None \<Rightarrow> Inr (None, s)
       | Some a \<Rightarrow> rbind (deref (globals s) a) (\<lambda>g.
           rbind (post_getref s (ge_post g)) (\<lambda>s'. Inr (Some (ge_post g), s'))))"

section \<open>Listing\<close>

text \<open>\<open>cur->global->post\<close>.\<close>

definition entry_post :: "('n, 't) pindex \<Rightarrow> nat \<Rightarrow> (nat \<times> 'n post) res" where
  "entry_post s e =
     rbind (deref (entries s) e) (\<lambda>ie.
     rbind (deref (globals s) (ie_global ie)) (\<lambda>g.
     rbind (deref (posts s) (ge_post g)) (\<lambda>p. Inr (ge_post g, p))))"

text \<open>
  The two loops over a tree, from its last entry backwards. They end because the tree does, which is
  a law of the library, so here they are partial functions. The array written to has \<open>cap\<close> cells.
\<close>

partial_function (option) skip_loop ::
  "'t rb_ops \<Rightarrow> ('n, 't) pindex \<Rightarrow> 't \<Rightarrow> nat option \<Rightarrow> int \<Rightarrow> nat option res option" where
  "skip_loop R s tree cur skip =
     (case cur of None \<Rightarrow> Some (Inr None)
      | Some c \<Rightarrow>
          if skip = 0 then Some (Inr (Some c))
          else (case entry_post s c of
                  Inl f \<Rightarrow> Some (Inl f)
                | Inr (_, p) \<Rightarrow>
                    if \<not> post_listed p then skip_loop R s tree (rb_prev R tree c) skip
                    else (case int_add skip (-1) of
                            Inl f \<Rightarrow> Some (Inl f)
                          | Inr skip' \<Rightarrow> skip_loop R s tree (rb_prev R tree c) skip')))"

partial_function (option) take_loop ::
  "'t rb_ops \<Rightarrow> 't \<Rightarrow> ('n post \<Rightarrow> bool) option \<Rightarrow> nat \<Rightarrow> ('n, 't) pindex \<Rightarrow> nat option \<Rightarrow> int \<Rightarrow> nat list \<Rightarrow>
     (nat list \<times> ('n, 't) pindex) res option" where
  "take_loop R tree pred cap s cur nposts ret =
     (case cur of None \<Rightarrow> Some (Inr (ret, s))
      | Some c \<Rightarrow>
          if nposts = 0 then Some (Inr (ret, s))
          else (case entry_post s c of
                  Inl f \<Rightarrow> Some (Inl f)
                | Inr (a, p) \<Rightarrow>
                    if \<not> post_listed p then take_loop R tree pred cap s (rb_prev R tree c) nposts ret
                    else if (case pred of None \<Rightarrow> False | Some f \<Rightarrow> \<not> f p)
                    then take_loop R tree pred cap s (rb_prev R tree c) nposts ret
                    else (case post_getref s a of
                            Inl f \<Rightarrow> Some (Inl f)
                          | Inr s' \<Rightarrow>
                              if length ret \<ge> cap then Some (Inl OutOfBounds)
                              else (case int_add nposts (-1) of
                                      Inl f \<Rightarrow> Some (Inl f)
                                    | Inr n' \<Rightarrow>
                                        take_loop R tree pred cap s' (rb_prev R tree c) n' (ret @ [a])))))"

text \<open>The number of posts returned is the length of the list of their addresses.\<close>

definition index_get_posts ::
  "'t rb_ops \<Rightarrow> nat \<Rightarrow> ('n, 't) pindex \<Rightarrow> string option \<Rightarrow> ('n post \<Rightarrow> bool) option \<Rightarrow> int \<Rightarrow> int \<Rightarrow>
     (nat list \<times> ('n, 't) pindex) res option" where
  "index_get_posts R cap s tagname pred skip nposts =
     (case (case tagname of None \<Rightarrow> Inr (Some (index_by_time s)) | Some t \<Rightarrow> get_subindex R s t) of
        Inl f \<Rightarrow> Some (Inl f)
      | Inr None \<Rightarrow> Some (Inr ([], s))
      | Inr (Some tree) \<Rightarrow>
          (case skip_loop R s tree (rb_last R tree) skip of
             None \<Rightarrow> None
           | Some (Inl f) \<Rightarrow> Some (Inl f)
           | Some (Inr cur) \<Rightarrow> take_loop R tree pred cap s cur nposts []))"

section \<open>Insertion\<close>

text \<open>Inserting an index entry into a tree of entries; the comparison reads the new entry too.\<close>

definition insert_entry :: "'t rb_ops \<Rightarrow> ('n, 't) pindex \<Rightarrow> 't \<Rightarrow> nat \<Rightarrow> (nat option \<times> 't) res" where
  "insert_entry R s tree e = rb_insert R tree (cmp_entry s e) e"

text \<open>The subindex of a tag, made when there is none. The result is an error number and its address.\<close>

definition find_or_add_sub :: "'t rb_ops \<Rightarrow> ('n, 't) pindex \<Rightarrow> string \<Rightarrow> ((int + nat) \<times> ('n, 't) pindex) res" where
  "find_or_add_sub R s tag =
     rbind (rb_find R (index_by_tag s) (cmp_sub s tag)) (\<lambda>r.
       case r of Some sub \<Rightarrow> Inr (Inr sub, s)
       | None \<Rightarrow>
           (case mem_cache_alloc s of
              (None, s1) \<Rightarrow> Inr (Inl (- ENOMEM), s1)
            | (Some sub, s1) \<Rightarrow>
                let s2 = s1\<lparr>subs := (subs s1)(sub \<mapsto> \<lparr>si_name = tag, si_tree = rb_create R\<rparr>)\<rparr>
                in rbind (rb_insert_here R (index_by_tag s2) (cmp_sub s2 tag) sub) (\<lambda>t.
                   Inr (Inr sub, s2\<lparr>index_by_tag := t\<rparr>))))"

text \<open>The rest of the loop body of \<^verbatim>\<open>__insert_post_tags\<close>: the entry for one tag.\<close>

definition add_tag_entry :: "'t rb_ops \<Rightarrow> ('n, 't) pindex \<Rightarrow> nat \<Rightarrow> nat \<Rightarrow> string \<Rightarrow> entry_type \<Rightarrow> (int \<times> ('n, 't) pindex) res" where
  "add_tag_entry R s sub global tag ty =
     (case mem_cache_alloc s of
        (None, s1) \<Rightarrow> Inr (- ENOMEM, s1)
      | (Some e, s1) \<Rightarrow>
          let s2 = s1\<lparr>entries := (entries s1)(e \<mapsto> \<lparr>ie_global = global, ie_name = Some tag, ie_type = ty\<rparr>)\<rparr>
          in rbind (deref (subs s2) sub) (\<lambda>x.
             rbind (insert_entry R s2 (si_tree x) e) (\<lambda>(old, t).
             rbind (assert_that (old = None)) (\<lambda>_.
             rbind (deref (globals s2) global) (\<lambda>g.
               Inr (0, s2\<lparr>subs := (subs s2)(sub \<mapsto> x\<lparr>si_tree := t\<rparr>),
                          globals := (globals s2)(global \<mapsto> g\<lparr>ge_by_tag := ge_by_tag g @ [e]\<rparr>)\<rparr>))))))"

fun insert_post_tags :: "'t rb_ops \<Rightarrow> ('n, 't) pindex \<Rightarrow> nat \<Rightarrow> string list \<Rightarrow> entry_type \<Rightarrow> (int \<times> ('n, 't) pindex) res" where
  "insert_post_tags R s global [] ty = Inr (0, s)"
| "insert_post_tags R s global (tag # tags) ty =
     rbind (find_or_add_sub R s tag) (\<lambda>(r, s1).
       case r of Inl err \<Rightarrow> Inr (err, s1)
       | Inr sub \<Rightarrow>
           rbind (add_tag_entry R s1 sub global tag ty) (\<lambda>(err, s2).
             if err \<noteq> 0 then Inr (err, s2)
             else insert_post_tags R s2 global tags ty))"

definition free_global :: "('n, 't) pindex \<Rightarrow> nat \<Rightarrow> ('n, 't) pindex res" where
  "free_global s g =
     rbind (deref (globals s) g) (\<lambda>x.
     rbind (post_putref s (ge_post x)) (\<lambda>s'. Inr (s'\<lparr>globals := (globals s')(g := None)\<rparr>)))"

definition index_insert_post :: "'t rb_ops \<Rightarrow> ('n, 't) pindex \<Rightarrow> nat \<Rightarrow> (int \<times> ('n, 't) pindex) res" where
  "index_insert_post R s post =
     (case mem_cache_alloc s of
        (None, s1) \<Rightarrow> Inr (- ENOMEM, s1)
      | (Some global, s1) \<Rightarrow>
          rbind (deref (posts s1) post) (\<lambda>p.
          rbind (post_getref s1 post) (\<lambda>s2.
            let s3 = s2\<lparr>globals := (globals s2)(global \<mapsto>
                       \<lparr>ge_id = post_id p, ge_post = post, ge_time = post_time p, ge_by_tag = []\<rparr>)\<rparr>
            in (case mem_cache_alloc s3 of
                  (None, s4) \<Rightarrow> rbind (free_global s4 global) (\<lambda>s'. Inr (- ENOMEM, s'))
                | (Some by_time, s4) \<Rightarrow>
                    let s5 = s4\<lparr>entries := (entries s4)(by_time \<mapsto> \<lparr>ie_global = global, ie_name = None, ie_type = ET_TIME\<rparr>)\<rparr>
                    in rbind (rb_insert R (index_global s5) (cmp_global s5 (post_id p)) global) (\<lambda>(old, tg).
                       if old \<noteq> None then
                         rbind (free_global (s5\<lparr>entries := (entries s5)(by_time := None)\<rparr>) global) (\<lambda>s'.
                           Inr (- EEXIST, s'))
                       else
                         let s6 = s5\<lparr>index_global := tg\<rparr>
                         in rbind (insert_entry R s6 (index_by_time s6) by_time) (\<lambda>(old', tt).
                            rbind (assert_that (old' = None)) (\<lambda>_.
                            rbind (insert_post_tags R (s6\<lparr>index_by_time := tt\<rparr>) global (post_tags p) ET_TAG) (\<lambda>(ret, s7).
                              if ret = 0 then Inr (0, s7)
                              else
                                let s8 = s7\<lparr>index_by_time := rb_remove R (index_by_time s7) by_time,
                                            entries := (entries s7)(by_time := None)\<rparr>
                                in rbind (free_global s8 global) (\<lambda>s'. Inr (ret, s'))))))))))"

section \<open>Visiting the tags\<close>

partial_function (option) tree_walk :: "'t rb_ops \<Rightarrow> 't \<Rightarrow> nat option \<Rightarrow> nat list option" where
  "tree_walk R tree cur =
     (case cur of None \<Rightarrow> Some []
      | Some c \<Rightarrow> Option.bind (tree_walk R tree (rb_next R tree c)) (\<lambda>l. Some (c # l)))"

text \<open>The bounds of the counts, then the callback for each tag; \<^verbatim>\<open>unsigned long\<close> is 64 bits wide.\<close>

fun tag_counts :: "'t rb_ops \<Rightarrow> ('n, 't) pindex \<Rightarrow> nat list \<Rightarrow> (string \<times> u64) list res" where
  "tag_counts R s [] = Inr []"
| "tag_counts R s (b # bs) =
     rbind (deref (subs s) b) (\<lambda>x.
     rbind (tag_counts R s bs) (\<lambda>l. Inr ((si_name x, of_nat (rb_numnodes R (si_tree x))) # l)))"

definition count_bounds :: "(string \<times> u64) list \<Rightarrow> u64 \<times> u64" where
  "count_bounds l = (foldl (\<lambda>m (_, n). min m n) (- 1) l, foldl (\<lambda>m (_, n). max m n) 0 l)"

definition index_for_each_tag ::
  "'t rb_ops \<Rightarrow> ('n, 't) pindex \<Rightarrow> ('p \<Rightarrow> nat \<Rightarrow> int \<times> 'p) option \<Rightarrow>
     ('p \<Rightarrow> string \<Rightarrow> u64 \<Rightarrow> u64 \<Rightarrow> u64 \<Rightarrow> 'p) option \<Rightarrow> 'p \<Rightarrow> 'p res option" where
  "index_for_each_tag R s init step private =
     (if init = None \<and> step = None then Some (Inr private)
      else
        let (ret, p1) = (case init of None \<Rightarrow> (0, private) | Some f \<Rightarrow> f private (rb_numnodes R (index_by_tag s)))
        in if ret \<noteq> 0 then Some (Inr p1)
           else case step of None \<Rightarrow> Some (Inr p1)
           | Some g \<Rightarrow>
               (case tree_walk R (index_by_tag s) (rb_first R (index_by_tag s)) of
                  None \<Rightarrow> None
                | Some nodes \<Rightarrow>
                    Some (rbind (tag_counts R s nodes) (\<lambda>l.
                      let (cmin, cmax) = count_bounds l
                      in Inr (foldl (\<lambda>p (name, n). g p name n cmin cmax) p1 l)))))"

section \<open>Freeing the index\<close>

text \<open>
  The nodes of a tree come in the order of \<^verbatim>\<open>rb_destroy_nodes\<close>, and the tree is empty afterwards. An
  entry of a tag is taken off the list of its global entry first, which must still be there.
\<close>

fun free_global_index :: "('n, 't) pindex \<Rightarrow> nat list \<Rightarrow> ('n, 't) pindex res" where
  "free_global_index s [] = Inr s"
| "free_global_index s (g # gs) =
     rbind (deref (globals s) g) (\<lambda>x.
     rbind (post_putref s (ge_post x)) (\<lambda>s'.
       free_global_index (s'\<lparr>globals := (globals s')(g := None)\<rparr>) gs))"

fun free_index :: "('n, 't) pindex \<Rightarrow> nat list \<Rightarrow> ('n, 't) pindex res" where
  "free_index s [] = Inr s"
| "free_index s (e # es) =
     rbind (deref (entries s) e) (\<lambda>ie.
     rbind (case ie_type ie of
              ET_TAG \<Rightarrow> rbind (deref (globals s) (ie_global ie)) (\<lambda>g.
                Inr (s\<lparr>globals := (globals s)(ie_global ie \<mapsto> g\<lparr>ge_by_tag := remove1 e (ge_by_tag g)\<rparr>)\<rparr>))
            | ET_TIME \<Rightarrow> Inr s) (\<lambda>s'.
       free_index (s'\<lparr>entries := (entries s')(e := None)\<rparr>) es))"

fun free_tag_index :: "'t rb_ops \<Rightarrow> ('n, 't) pindex \<Rightarrow> nat list \<Rightarrow> ('n, 't) pindex res" where
  "free_tag_index R s [] = Inr s"
| "free_tag_index R s (b # bs) =
     rbind (deref (subs s) b) (\<lambda>x.
     rbind (free_index s (rb_nodes R (si_tree x))) (\<lambda>s'.
       free_tag_index R (s'\<lparr>subs := (subs s')(b := None)\<rparr>) bs))"

definition free_all_posts :: "'t rb_ops \<Rightarrow> ('n, 't) pindex \<Rightarrow> ('n, 't) pindex res" where
  "free_all_posts R s =
     rbind (free_tag_index R s (rb_nodes R (index_by_tag s))) (\<lambda>s1.
     rbind (free_index (s1\<lparr>index_by_tag := rb_create R\<rparr>) (rb_nodes R (index_by_time s))) (\<lambda>s2.
     rbind (free_global_index (s2\<lparr>index_by_time := rb_create R\<rparr>) (rb_nodes R (index_global s))) (\<lambda>s3.
       Inr (s3\<lparr>index_global := rb_create R\<rparr>))))"

end
