(* ===== verification/PostIndexSpec.thy ===== *)
theory PostIndexSpec
  imports PostIndex "HOL-Library.Multiset"
begin

text \<open>
  Correctness of the post index. The invariant ties the three kinds of trees together; from it the
  listing functions are shown to return the posts an abstract list says, newest first, and insertion
  is shown to keep the invariant and to update the abstract view.
\<close>

section \<open>The comparators order by keys\<close>

interpretation by_id: comparator post_global_index_cmp "\<lambda>i. i"
  by unfold_locales (auto simp: post_global_index_cmp_def)

interpretation by_time: comparator post_index_cmp "\<lambda>k. k"
  by unfold_locales (auto simp: post_index_cmp_def less_prod_def)

text \<open>Tag names are C strings; the key of a name is its lower case.\<close>

typedef cname = "{s :: string. cstring s}"
  by (rule exI[of _ "[]"]) simp

setup_lifting type_definition_cname

lift_definition cname_key :: "cname \<Rightarrow> string" is lower .

lift_definition cname_cmp :: "cname \<Rightarrow> cname \<Rightarrow> int" is post_tag_cmp .

interpretation by_name: comparator cname_cmp cname_key
proof unfold_locales
  fix x y
  show "cname_cmp x y < 0 \<longleftrightarrow> cname_key x < cname_key y"
    by transfer (use strcasecmp_sign in \<open>auto simp: post_tag_cmp_def Let_def\<close>)
  show "0 < cname_cmp x y \<longleftrightarrow> cname_key y < cname_key x"
    by transfer (use strcasecmp_sign in \<open>auto simp: post_tag_cmp_def Let_def\<close>)
qed

lemma post_tag_cmp_sign:
  "cstring a \<Longrightarrow> cstring b \<Longrightarrow>
   (0 < post_tag_cmp a b \<longleftrightarrow> lower b < lower a) \<and> (post_tag_cmp a b < 0 \<longleftrightarrow> lower a < lower b)"
  using strcasecmp_sign[of a b] by (auto simp: post_tag_cmp_def Let_def)

section \<open>The invariant\<close>

definition gkey :: "('n, 't) pindex \<Rightarrow> nat \<Rightarrow> u32" where
  "gkey s a = ge_id (the (globals s a))"

definition entry_global :: "('n, 't) pindex \<Rightarrow> nat \<Rightarrow> nat" where
  "entry_global s e = ie_global (the (entries s e))"

definition ekey :: "('n, 't) pindex \<Rightarrow> nat \<Rightarrow> u32 \<times> u32" where
  "ekey s e = (ge_time (the (globals s (entry_global s e))), ge_id (the (globals s (entry_global s e))))"

definition skey :: "('n, 't) pindex \<Rightarrow> nat \<Rightarrow> string" where
  "skey s b = lower (si_name (the (subs s b)))"

definition entry_addr :: "('n, 't) pindex \<Rightarrow> nat \<Rightarrow> nat" where
  "entry_addr s e = ge_post (the (globals s (entry_global s e)))"

definition post_at :: "('n, 't) pindex \<Rightarrow> nat \<Rightarrow> 'n post" where
  "post_at s a = the (posts s a)"

text \<open>Every entry is live and so are the global entry and the post it leads to.\<close>

definition globals_ok :: "('n, 't) pindex \<Rightarrow> nat list \<Rightarrow> bool" where
  "globals_ok s as \<longleftrightarrow> ordered (gkey s) as \<and>
     (\<forall>a\<in>set as. \<exists>g p. globals s a = Some g \<and> posts s (ge_post g) = Some p \<and> post_id p = ge_id g)"

definition entries_ok :: "('n, 't) pindex \<Rightarrow> nat list \<Rightarrow> entry_type \<Rightarrow> nat list \<Rightarrow> bool" where
  "entries_ok s as ty es \<longleftrightarrow> ordered (ekey s) es \<and>
     (\<forall>e\<in>set es. \<exists>ie. entries s e = Some ie \<and> ie_type ie = ty \<and> ie_global ie \<in> set as)"

definition subs_ok :: "('t \<Rightarrow> nat list) \<Rightarrow> ('n, 't) pindex \<Rightarrow> nat list \<Rightarrow> nat list \<Rightarrow> bool" where
  "subs_ok E s as bs \<longleftrightarrow> ordered (skey s) bs \<and>
     (\<forall>b\<in>set bs. \<exists>x. subs s b = Some x \<and> cstring (si_name x) \<and> entries_ok s as ET_TAG (E (si_tree x)))"

definition addrs_ok :: "('n, 't) pindex \<Rightarrow> bool" where
  "addrs_ok s \<longleftrightarrow> (\<forall>a \<ge> next_addr s. globals s a = None \<and> entries s a = None \<and> subs s a = None)"

definition index_wf :: "('t \<Rightarrow> nat list) \<Rightarrow> ('n, 't) pindex \<Rightarrow> bool" where
  "index_wf E s \<longleftrightarrow>
     globals_ok s (E (index_global s)) \<and>
     entries_ok s (E (index_global s)) ET_TIME (E (index_by_time s)) \<and>
     entry_global s ` set (E (index_by_time s)) = set (E (index_global s)) \<and>
     subs_ok E s (E (index_global s)) (E (index_by_tag s)) \<and>
     addrs_ok s"

section \<open>Walking a tree backwards\<close>

text \<open>The posts an index lists, newest first, those not listed left out.\<close>

definition tree_listing :: "('n, 't) pindex \<Rightarrow> nat list \<Rightarrow> nat list" where
  "tree_listing s es = filter (\<lambda>a. post_listed (post_at s a)) (map (entry_addr s) (rev es))"

lemma tree_listing_snoc: "tree_listing s (es @ [e]) =
    (if post_listed (post_at s (entry_addr s e)) then entry_addr s e # tree_listing s es else tree_listing s es)"
  by (simp add: tree_listing_def)

definition readable :: "('n, 't) pindex \<Rightarrow> nat list \<Rightarrow> bool" where
  "readable s es \<longleftrightarrow> distinct es \<and> (\<forall>e\<in>set es. entry_post s e = Inr (entry_addr s e, post_at s (entry_addr s e)))"

lemma entry_post_ok:
  assumes "globals_ok s as" "entries_ok s as ty es" "e \<in> set es"
  shows "entry_post s e = Inr (entry_addr s e, post_at s (entry_addr s e))"
  using assms
  by (fastforce simp: globals_ok_def entries_ok_def entry_post_def entry_addr_def entry_global_def post_at_def deref_def)

lemma entries_readable: "globals_ok s as \<Longrightarrow> entries_ok s as ty es \<Longrightarrow> readable s es"
  unfolding readable_def using entry_post_ok distinct_ordered entries_ok_def by metis

lemma skip_loop_eq:
  assumes R: "rb_laws R E" and xs: "readable s (E tree)"
  shows "E tree = us @ vs \<Longrightarrow> 0 \<le> k \<Longrightarrow> k \<le> INT_MAX \<Longrightarrow>
    \<exists>ws zs. skip_loop R s tree (last_opt us) k = Some (Inr (last_opt ws)) \<and> us = ws @ zs \<and>
         tree_listing s ws = drop (nat k) (tree_listing s us)"
proof (induction us arbitrary: vs k rule: rev_induct)
  case Nil
  show ?case by (subst skip_loop.simps) (simp add: tree_listing_def exI[of _ "[]"])
next
  case (snoc e us)
  have E: "E tree = us @ e # vs" using snoc.prems(1) by simp
  have prev: "rb_prev R tree e = last_opt us"
    using rb_basic(7)[OF R E] xs by (simp add: readable_def)
  have post: "entry_post s e = Inr (entry_addr s e, post_at s (entry_addr s e))"
    using xs E by (simp add: readable_def)
  show ?case
  proof (cases "k = 0")
    case True
    then have "skip_loop R s tree (last_opt (us @ [e])) k = Some (Inr (last_opt (us @ [e])))"
      by (subst skip_loop.simps) simp
    with True show ?thesis by (intro exI[of _ "us @ [e]"] exI[of _ "[]"]) simp
  next
    case False
    let ?k = "if post_listed (post_at s (entry_addr s e)) then k - 1 else k"
    have step: "skip_loop R s tree (last_opt (us @ [e])) k = skip_loop R s tree (last_opt us) ?k"
      using False snoc.prems(2,3) by (subst skip_loop.simps) (simp add: post prev)
    have "0 \<le> ?k" "?k \<le> INT_MAX" using False snoc.prems(2,3) by auto
    from snoc.IH[OF E this] obtain ws zs where
      "skip_loop R s tree (last_opt us) ?k = Some (Inr (last_opt ws))" "us = ws @ zs"
      "tree_listing s ws = drop (nat ?k) (tree_listing s us)" by blast
    moreover have "drop (nat ?k) (tree_listing s us) = drop (nat k) (tree_listing s (us @ [e]))"
      using False snoc.prems(2) by (simp add: tree_listing_snoc drop_Cons' nat_diff_distrib)
    ultimately show ?thesis unfolding step by (intro exI[of _ ws] exI[of _ "zs @ [e]"]) simp
  qed
qed

text \<open>The references taken while posts are returned.\<close>

definition with_refs :: "('n, 't) pindex \<Rightarrow> nat list \<Rightarrow> ('n, 't) pindex" where
  "with_refs s l = s\<lparr>posts := (\<lambda>a. map_option (\<lambda>p. p\<lparr>post_refcnt := post_refcnt p + count_list l a\<rparr>) (posts s a))\<rparr>"

lemma with_refs_Nil [simp]: "with_refs s [] = s"
  by (simp add: with_refs_def option.map_id0[unfolded id_def])

lemma getref_with_refs:
  "posts s a = Some p \<Longrightarrow> post_getref (with_refs s l) a = Inr (with_refs s (l @ [a]))"
  by (auto simp: post_getref_def with_refs_def deref_def fun_eq_iff intro!: pindex.fold_congs)

definition ref_blind :: "('n post \<Rightarrow> bool) option \<Rightarrow> bool" where
  "ref_blind pred \<longleftrightarrow> (case pred of None \<Rightarrow> True | Some f \<Rightarrow> \<forall>p n. f (p\<lparr>post_refcnt := n\<rparr>) = f p)"

definition passes :: "('n post \<Rightarrow> bool) option \<Rightarrow> 'n post \<Rightarrow> bool" where
  "passes pred p = (case pred of None \<Rightarrow> True | Some f \<Rightarrow> f p)"

lemma entry_post_with_refs:
  "entry_post s e = Inr (a, p) \<Longrightarrow>
   entry_post (with_refs s l) e = Inr (a, p\<lparr>post_refcnt := post_refcnt p + count_list l a\<rparr>)"
  by (auto simp: entry_post_def with_refs_def deref_def split: option.splits)

lemma take_loop_eq:
  assumes R: "rb_laws R E" and xs: "readable s (E tree)" and blind: "ref_blind pred"
  shows "E tree = us @ vs \<Longrightarrow> 0 \<le> n \<Longrightarrow> n \<le> INT_MAX \<Longrightarrow> length ret + nat n \<le> cap \<Longrightarrow>
    (let ret' = ret @ take (nat n) (filter (\<lambda>a. passes pred (post_at s a)) (tree_listing s us))
     in take_loop R tree pred cap (with_refs s ret) (last_opt us) n ret = Some (Inr (ret', with_refs s ret')))"
proof (induction us arbitrary: vs n ret rule: rev_induct)
  case Nil
  show ?case by (subst take_loop.simps) (simp add: tree_listing_def)
next
  case (snoc e us)
  let ?a = "entry_addr s e"
  let ?p = "post_at s ?a"
  let ?s = "with_refs s ret" and ?P = "\<lambda>a. passes pred (post_at s a)"
  have E: "E tree = us @ e # vs" using snoc.prems(1) by simp
  have prev: "rb_prev R tree e = last_opt us"
    using rb_basic(7)[OF R E] xs by (simp add: readable_def)
  have post: "entry_post s e = Inr (?a, ?p)" using xs E by (simp add: readable_def)
  from entry_post_with_refs[OF this] obtain q where
    q: "entry_post ?s e = Inr (?a, q)" "q = ?p\<lparr>post_refcnt := post_refcnt ?p + count_list ret ?a\<rparr>" by blast
  have test: "(case pred of None \<Rightarrow> False | Some f \<Rightarrow> \<not> f q) \<longleftrightarrow> \<not> ?P ?a"
    using blind q(2) by (auto simp: ref_blind_def passes_def split: option.splits)
  have alive: "posts s ?a = Some ?p"
    using post by (auto simp: entry_post_def deref_def post_at_def rbind_eq_Inr split: option.splits)
  show ?case
  proof (cases "n = 0")
    case True
    then show ?thesis by (subst take_loop.simps) (simp add: Let_def)
  next
    case n: False
    show ?thesis
    proof (cases "post_listed ?p \<and> ?P ?a")
      case False
      then have "\<not> post_listed q \<or> (case pred of None \<Rightarrow> False | Some f \<Rightarrow> \<not> f q)"
        using q(2) test by auto
      then have "take_loop R tree pred cap ?s (last_opt (us @ [e])) n ret = take_loop R tree pred cap ?s (last_opt us) n ret"
        using n by (subst take_loop.simps) (auto simp: q(1) prev)
      moreover have "filter ?P (tree_listing s (us @ [e])) = filter ?P (tree_listing s us)"
        using False by (auto simp: tree_listing_snoc)
      ultimately show ?thesis using snoc.IH[OF E snoc.prems(2-4)] by simp
    next
      case True
      have step: "take_loop R tree pred cap ?s (last_opt (us @ [e])) n ret =
          take_loop R tree pred cap (with_refs s (ret @ [?a])) (last_opt us) (n - 1) (ret @ [?a])"
      proof -
        have "post_listed q" "\<not> (case pred of None \<Rightarrow> False | Some f \<Rightarrow> \<not> f q)" "\<not> cap \<le> length ret"
          using True q(2) test n snoc.prems(2,4) by simp_all
        then show ?thesis
          using n snoc.prems(2,3) by (subst take_loop.simps) (simp add: q(1) prev getref_with_refs[OF alive])
      qed
      have "nat n = Suc (nat (n - 1))" using n snoc.prems(2) by simp
      moreover have "filter ?P (tree_listing s (us @ [e])) = ?a # filter ?P (tree_listing s us)"
        using True by (simp add: tree_listing_snoc)
      ultimately have "(ret @ [?a]) @ take (nat (n - 1)) (filter ?P (tree_listing s us)) =
          ret @ take (nat n) (filter ?P (tree_listing s (us @ [e])))" by simp
      with step snoc.IH[OF E, of "n - 1" "ret @ [?a]"] n snoc.prems(2-4) show ?thesis
        by (simp add: Let_def)
    qed
  qed
qed

text \<open>The tree a listing walks: the one by time, or the one of a tag when there is one.\<close>

definition tag_tree :: "('t \<Rightarrow> nat list) \<Rightarrow> ('n, 't) pindex \<Rightarrow> string \<Rightarrow> 't option" where
  "tag_tree E s tag =
     map_option (\<lambda>b. si_tree (the (subs s b))) (find (\<lambda>b. skey s b = lower tag) (E (index_by_tag s)))"

definition listed_posts :: "('t \<Rightarrow> nat list) \<Rightarrow> ('n, 't) pindex \<Rightarrow> string option \<Rightarrow> nat list" where
  "listed_posts E s tag =
     (case (case tag of None \<Rightarrow> Some (index_by_time s) | Some t \<Rightarrow> tag_tree E s t) of
        None \<Rightarrow> [] | Some tree \<Rightarrow> tree_listing s (E tree))"

lemma agrees_sub:
  assumes "subs_ok E s as bs" "cstring tag"
  shows "agrees (cmp_sub s tag) (skey s) (lower tag) bs"
  using assms post_tag_cmp_sign[OF assms(2)]
  by (fastforce simp: agrees_def subs_ok_def cmp_sub_def skey_def deref_def)

lemma get_subindex_eq:
  assumes R: "rb_laws R E" and wf: "index_wf E s" and tag: "cstring tag"
  shows "get_subindex R s tag = Inr (tag_tree E s tag)"
proof -
  let ?bs = "E (index_by_tag s)"
  have ok: "subs_ok E s (E (index_global s)) ?bs" using wf by (simp add: index_wf_def)
  then have ord: "ordered (skey s) ?bs" by (simp add: subs_ok_def)
  note agr = agrees_sub[OF ok tag]
  show ?thesis
  proof (cases "find (\<lambda>b. skey s b = lower tag) ?bs")
    case None
    then have "lower tag \<notin> skey s ` set ?bs" by (auto simp: find_None_iff)
    from rb_absent(1)[OF R ord agr this] None show ?thesis by (simp add: get_subindex_def tag_tree_def)
  next
    case (Some b)
    then have b: "b \<in> set ?bs" "skey s b = lower tag" by (auto simp: find_Some_iff)
    from rb_present(1)[OF R ord _ b(1)] agr b(2) have "rb_find R (index_by_tag s) (cmp_sub s tag) = Inr (Some b)" by simp
    moreover obtain x where "subs s b = Some x" using ok b(1) by (auto simp: subs_ok_def)
    ultimately show ?thesis using Some by (simp add: get_subindex_def tag_tree_def deref_def)
  qed
qed

lemma tag_tree_readable:
  assumes "index_wf E s" "tag_tree E s tag = Some tree"
  shows "readable s (E tree)"
proof -
  from assms(2) obtain b where "find (\<lambda>b. skey s b = lower tag) (E (index_by_tag s)) = Some b"
    "tree = si_tree (the (subs s b))"
    by (auto simp: tag_tree_def)
  then have b: "b \<in> set (E (index_by_tag s))" "tree = si_tree (the (subs s b))"
    by (auto simp: find_Some_iff)
  with assms(1) have "entries_ok s (E (index_global s)) ET_TAG (E tree)"
    by (fastforce simp: index_wf_def subs_ok_def)
  with assms(1) show ?thesis by (auto simp: index_wf_def intro: entries_readable)
qed

lemma get_posts_eq:
  assumes R: "rb_laws R E" and wf: "index_wf E s" and blind: "ref_blind pred"
    and tag: "\<And>t. tag = Some t \<Longrightarrow> cstring t"
    and k: "0 \<le> k" "k \<le> INT_MAX" and n: "0 \<le> n" "n \<le> INT_MAX" "nat n \<le> cap"
  shows "index_get_posts R cap s tag pred k n =
    (let l = take (nat n) (filter (\<lambda>a. passes pred (post_at s a)) (drop (nat k) (listed_posts E s tag)))
     in Some (Inr (l, with_refs s l)))"
proof -
  have walk: "(case skip_loop R s tree (rb_last R tree) k of
             None \<Rightarrow> None
           | Some (Inl f) \<Rightarrow> Some (Inl f)
           | Some (Inr cur) \<Rightarrow> take_loop R tree pred cap s cur n []) =
      (let l = take (nat n) (filter (\<lambda>a. passes pred (post_at s a)) (drop (nat k) (tree_listing s (E tree))))
       in Some (Inr (l, with_refs s l)))" if r: "readable s (E tree)" for tree
  proof -
    have last: "rb_last R tree = last_opt (E tree)" by (rule rb_basic(4)[OF R])
    from skip_loop_eq[OF R r, of "E tree" "[]" k] k obtain ws zs where
      ws: "skip_loop R s tree (last_opt (E tree)) k = Some (Inr (last_opt ws))" "E tree = ws @ zs"
      "tree_listing s ws = drop (nat k) (tree_listing s (E tree))" by auto
    from take_loop_eq[OF R r blind ws(2), of n "[]" cap] n ws last show ?thesis
      by (simp add: Let_def)
  qed
  show ?thesis
  proof (cases tag)
    case None
    have "readable s (E (index_by_time s))"
      using wf by (auto simp: index_wf_def intro: entries_readable)
    from walk[OF this] None show ?thesis by (simp add: index_get_posts_def listed_posts_def)
  next
    case (Some t)
    note g = get_subindex_eq[OF R wf tag[OF Some]]
    show ?thesis
    proof (cases "tag_tree E s t")
      case None
      with Some g show ?thesis by (simp add: index_get_posts_def listed_posts_def)
    next
      case tree: (Some tree)
      from walk[OF tag_tree_readable[OF wf tree]] Some g tree show ?thesis
        by (simp add: index_get_posts_def listed_posts_def)
    qed
  qed
qed

section \<open>What allocation leaves alone\<close>

text \<open>A later state in which everything that was live still is, with the same keys and links.\<close>

definition keeps :: "('n, 't) pindex \<Rightarrow> ('n, 't) pindex \<Rightarrow> bool" where
  "keeps s s' \<longleftrightarrow>
     (\<forall>a g. globals s a = Some g \<longrightarrow>
        (\<exists>g'. globals s' a = Some g' \<and> ge_id g' = ge_id g \<and> ge_time g' = ge_time g \<and> ge_post g' = ge_post g)) \<and>
     (\<forall>e ie. entries s e = Some ie \<longrightarrow> entries s' e = Some ie) \<and>
     (\<forall>a p. posts s a = Some p \<longrightarrow> (\<exists>p'. posts s' a = Some p' \<and> post_id p' = post_id p))"

lemma keeps_refl: "keeps s s"
  by (simp add: keeps_def)

lemma keeps_trans:
  assumes "keeps s t" "keeps t u"
  shows "keeps s u"
proof -
  have "\<exists>g'. globals u a = Some g' \<and> ge_id g' = ge_id g \<and> ge_time g' = ge_time g \<and> ge_post g' = ge_post g"
    if "globals s a = Some g" for a g
  proof -
    from assms(1) that obtain h where "globals t a = Some h" "ge_id h = ge_id g" "ge_time h = ge_time g" "ge_post h = ge_post g"
      unfolding keeps_def by blast
    with assms(2) show ?thesis unfolding keeps_def by fastforce
  qed
  moreover have "\<exists>p'. posts u a = Some p' \<and> post_id p' = post_id p" if "posts s a = Some p" for a p
  proof -
    from assms(1) that obtain q where "posts t a = Some q" "post_id q = post_id p" unfolding keeps_def by blast
    with assms(2) show ?thesis unfolding keeps_def by fastforce
  qed
  ultimately show ?thesis using assms unfolding keeps_def by blast
qed

lemma ordered_cong: "ordered k xs \<Longrightarrow> (\<And>x. x \<in> set xs \<Longrightarrow> k' x = k x) \<Longrightarrow> ordered k' xs"
  by (erule sorted_wrt_mono_rel[rotated]) simp

lemma keeps_gkey: "keeps s s' \<Longrightarrow> globals s a = Some g \<Longrightarrow> gkey s' a = gkey s a"
  unfolding keeps_def gkey_def by fastforce

lemma keeps_entry:
  assumes "keeps s s'" "entries s e = Some ie" "globals s (ie_global ie) = Some g"
  shows "entry_global s' e = entry_global s e" "ekey s' e = ekey s e" "entry_addr s' e = entry_addr s e"
proof -
  from assms obtain g' where "globals s' (ie_global ie) = Some g'" "ge_id g' = ge_id g" "ge_time g' = ge_time g" "ge_post g' = ge_post g"
    "entries s' e = Some ie" unfolding keeps_def by blast
  with assms(2,3) show "entry_global s' e = entry_global s e" "ekey s' e = ekey s e" "entry_addr s' e = entry_addr s e"
    by (simp_all add: entry_global_def ekey_def entry_addr_def)
qed

lemma globals_ok_keeps: "globals_ok s as \<Longrightarrow> keeps s s' \<Longrightarrow> globals_ok s' as"
proof -
  assume ok: "globals_ok s as" and k: "keeps s s'"
  have "\<exists>g p. globals s' a = Some g \<and> posts s' (ge_post g) = Some p \<and> post_id p = ge_id g" if "a \<in> set as" for a
  proof -
    from ok that obtain g p where "globals s a = Some g" "posts s (ge_post g) = Some p" "post_id p = ge_id g"
      unfolding globals_ok_def by blast
    with k show ?thesis unfolding keeps_def by fastforce
  qed
  moreover have "gkey s' a = gkey s a" if "a \<in> set as" for a
  proof -
    from ok that obtain g where "globals s a = Some g" unfolding globals_ok_def by blast
    with k show ?thesis by (rule keeps_gkey)
  qed
  then have "ordered (gkey s') as"
    using ok ordered_cong[of "gkey s" as "gkey s'"] by (simp add: globals_ok_def)
  ultimately show ?thesis by (simp add: globals_ok_def)
qed

lemma entries_ok_live:
  assumes "globals_ok s as" "entries_ok s as ty es" "e \<in> set es"
  obtains ie g p where "entries s e = Some ie" "ie_type ie = ty" "ie_global ie \<in> set as"
    "globals s (ie_global ie) = Some g" "posts s (ge_post g) = Some p" "post_id p = ge_id g"
  using assms unfolding globals_ok_def entries_ok_def by blast

lemma keeps_live:
  assumes "keeps s s'" "globals_ok s as" "entries_ok s as ty es" "e \<in> set es"
  shows "ekey s' e = ekey s e" "entry_addr s' e = entry_addr s e" "entry_global s' e = entry_global s e"
proof -
  obtain ie g where "entries s e = Some ie" "globals s (ie_global ie) = Some g"
    using assms(2-4) by (rule entries_ok_live)
  note k = keeps_entry[OF assms(1) this]
  show "ekey s' e = ekey s e" "entry_addr s' e = entry_addr s e" "entry_global s' e = entry_global s e"
    by (rule k)+
qed

lemma entries_ok_keeps:
  assumes "globals_ok s as" "entries_ok s as ty es" "keeps s s'" "set as \<subseteq> set as'"
  shows "entries_ok s' as' ty es"
proof -
  have "ekey s' e = ekey s e" if "e \<in> set es" for e
    using keeps_live(1)[OF assms(3,1,2) that] .
  then have "ordered (ekey s') es"
    using assms(2) ordered_cong[of "ekey s" es "ekey s'"] unfolding entries_ok_def by blast
  moreover have "\<exists>ie. entries s' e = Some ie \<and> ie_type ie = ty \<and> ie_global ie \<in> set as'" if e: "e \<in> set es" for e
  proof -
    obtain ie where "entries s e = Some ie" "ie_type ie = ty" "ie_global ie \<in> set as"
      using assms(1,2) e by (rule entries_ok_live)
    moreover from this(1) assms(3) have "entries s' e = Some ie" by (simp add: keeps_def)
    ultimately show ?thesis using assms(4) by blast
  qed
  ultimately show ?thesis by (simp add: entries_ok_def)
qed

text \<open>The abstract view: the key and the post of every entry, oldest first.\<close>

definition view :: "('n, 't) pindex \<Rightarrow> nat list \<Rightarrow> ((u32 \<times> u32) \<times> nat) list" where
  "view s es = map (\<lambda>e. (ekey s e, entry_addr s e)) es"

lemma view_keeps:
  assumes "globals_ok s as" "entries_ok s as ty es" "keeps s s'"
  shows "view s' es = view s es"
  unfolding view_def
proof (rule map_cong)
  fix e assume "e \<in> set es"
  then show "(ekey s' e, entry_addr s' e) = (ekey s e, entry_addr s e)"
    using keeps_live(1,2)[OF assms(3,1,2)] by simp
qed simp

definition tag_view :: "('t \<Rightarrow> nat list) \<Rightarrow> ('n, 't) pindex \<Rightarrow> string \<Rightarrow> ((u32 \<times> u32) \<times> nat) list" where
  "tag_view E s tag = (case tag_tree E s tag of None \<Rightarrow> [] | Some t \<Rightarrow> view s (E t))"

definition view_insert :: "(u32 \<times> u32) \<Rightarrow> nat \<Rightarrow> ((u32 \<times> u32) \<times> nat) list \<Rightarrow> ((u32 \<times> u32) \<times> nat) list" where
  "view_insert k a l = filter (\<lambda>(j, _). j < k) l @ (k, a) # filter (\<lambda>(j, _). k < j) l"

lemma view_put_between:
  assumes "\<And>y. y \<in> set es \<Longrightarrow> ekey s' y = ekey s y \<and> entry_addr s' y = entry_addr s y"
    and "ekey s' e = k" "entry_addr s' e = a"
  shows "view s' (put_between (ekey s) k e es) = view_insert k a (view s es)"
proof -
  have "map (\<lambda>e. (ekey s' e, entry_addr s' e)) (filter (\<lambda>y. P (ekey s y)) es) =
      filter (\<lambda>(j, _). P j) (map (\<lambda>e. (ekey s e, entry_addr s e)) es)" for P
    using assms(1) by (induction es) auto
  from this[of "\<lambda>j. j < k"] this[of "\<lambda>j. k < j"] assms(2,3) show ?thesis
    by (simp add: view_def view_insert_def put_between_def)
qed

section \<open>Inserting an entry into a tree\<close>

lemma agrees_entry:
  assumes "globals_ok s as" "entries_ok s as ty es"
    and "entries s e = Some ie" "globals s (ie_global ie) = Some g"
  shows "agrees (cmp_entry s e) (ekey s) (ge_time g, ge_id g) es"
  unfolding agrees_def
proof
  fix y assume y: "y \<in> set es"
  obtain iy gy where "entries s y = Some iy" "globals s (ie_global iy) = Some gy"
    using assms(1,2) y by (rule entries_ok_live)
  then have "entry_key s y = Inr (ekey s y)"
    by (simp add: entry_key_def deref_def ekey_def entry_global_def)
  moreover have "entry_key s e = Inr (ge_time g, ge_id g)"
    using assms(3,4) by (simp add: entry_key_def deref_def)
  ultimately show "\<exists>i. cmp_entry s e y = Inr i \<and> (0 < i \<longleftrightarrow> ekey s y < (ge_time g, ge_id g)) \<and> (i < 0 \<longleftrightarrow> (ge_time g, ge_id g) < ekey s y)"
    by (simp add: cmp_entry_def by_time.neg by_time.pos)
qed

lemma insert_entry_ok:
  assumes R: "rb_laws R E" and ok: "globals_ok s as" "entries_ok s as ty (E tree)"
    and e: "entries s e = Some \<lparr>ie_global = a, ie_name = nm, ie_type = ty\<rparr>" "a \<in> set as" "globals s a = Some g"
    and new: "(ge_time g, ge_id g) \<notin> ekey s ` set (E tree)"
  obtains t where "insert_entry R s tree e = Inr (None, t)"
    "E t = put_between (ekey s) (ge_time g, ge_id g) e (E tree)" "entries_ok s as ty (E t)"
    "set (E t) = insert e (set (E tree))"
proof -
  have ord: "ordered (ekey s) (E tree)" using ok(2) by (simp add: entries_ok_def)
  have agr: "agrees (cmp_entry s e) (ekey s) (ge_time g, ge_id g) (E tree)"
    using agrees_entry[OF ok e(1)] e(3) by simp
  from rb_absent(2)[OF R ord agr new, of e] obtain t where
    t: "rb_insert R tree (cmp_entry s e) e = Inr (None, t)"
      "E t = put_between (ekey s) (ge_time g, ge_id g) e (E tree)" by blast
  have key: "ekey s e = (ge_time g, ge_id g)" using e by (simp add: ekey_def entry_global_def)
  have set: "set (E t) = insert e (set (E tree))" using t(2) set_put_between[OF new] by simp
  have "ordered (ekey s) (E t)"
    unfolding t(2) using ord key by (intro ordered_put_between) simp_all
  moreover have "\<exists>ie. entries s y = Some ie \<and> ie_type ie = ty \<and> ie_global ie \<in> set as" if "y \<in> set (E t)" for y
    using that ok(2) e(1,2) unfolding set entries_ok_def by auto
  ultimately have "entries_ok s as ty (E t)" unfolding entries_ok_def by blast
  with t set show ?thesis by (intro that[of t]) (simp_all add: insert_entry_def)
qed

section \<open>Tags\<close>

lemma ordered_inj: "ordered k xs \<Longrightarrow> x \<in> set xs \<Longrightarrow> y \<in> set xs \<Longrightarrow> k x = k y \<Longrightarrow> x = y"
proof (induction xs)
  case Nil
  then show ?case by simp
next
  case (Cons a xs)
  from Cons.prems(1) have lt: "z \<in> set xs \<Longrightarrow> k a < k z" for z by simp
  consider "x = a \<and> y = a" | "x = a \<and> y \<in> set xs" | "x \<in> set xs \<and> y = a" | "x \<in> set xs \<and> y \<in> set xs"
    using Cons.prems(2,3) unfolding set_simps by blast
  then show ?case
  proof cases
    case 4
    with Cons.IH Cons.prems(1,4) show ?thesis by simp
  qed (use lt[of x] lt[of y] Cons.prems(4) in simp_all)
qed

lemma tag_tree_Some:
  assumes "ordered (skey s) (E (index_by_tag s))" "b \<in> set (E (index_by_tag s))" "skey s b = lower t"
  shows "tag_tree E s t = Some (si_tree (the (subs s b)))"
proof (cases "find (\<lambda>b. skey s b = lower t) (E (index_by_tag s))")
  case None
  with assms(2,3) show ?thesis by (auto simp: find_None_iff)
next
  case (Some c)
  then have "c \<in> set (E (index_by_tag s))" "skey s c = lower t" by (auto simp: find_Some_iff)
  with ordered_inj[OF assms(1,2)] assms(3) have "c = b" by simp
  with Some show ?thesis by (simp add: tag_tree_def)
qed

lemma tag_tree_None: "lower t \<notin> skey s ` set (E (index_by_tag s)) \<Longrightarrow> tag_tree E s t = None"
proof -
  assume "lower t \<notin> skey s ` set (E (index_by_tag s))"
  then have "find (\<lambda>b. skey s b = lower t) (E (index_by_tag s)) = None"
    unfolding find_None_iff by (metis imageI)
  then show ?thesis by (simp add: tag_tree_def)
qed

lemma tag_view_Some:
  "subs_ok E s as (E (index_by_tag s)) \<Longrightarrow> b \<in> set (E (index_by_tag s)) \<Longrightarrow> skey s b = lower t \<Longrightarrow>
   tag_view E s t = view s (E (si_tree (the (subs s b))))"
  by (simp add: tag_view_def tag_tree_Some subs_ok_def)

lemma tag_view_None: "lower t \<notin> skey s ` set (E (index_by_tag s)) \<Longrightarrow> tag_view E s t = []"
  by (simp add: tag_view_def tag_tree_None)

definition allocs :: "('n, 't) pindex \<Rightarrow> bool" where
  "allocs s \<longleftrightarrow> (\<forall>n \<ge> next_addr s. alloc_ok s n)"

lemma allocsD: "allocs s \<Longrightarrow> alloc_ok s (next_addr s)"
  by (simp add: allocs_def)

text \<open>What stays as it is while tags are added.\<close>

definition same_top :: "('n, 't) pindex \<Rightarrow> ('n, 't) pindex \<Rightarrow> bool" where
  "same_top s s' \<longleftrightarrow> keeps s s' \<and> posts s' = posts s \<and> index_global s' = index_global s \<and>
     index_by_time s' = index_by_time s \<and> alloc_ok s' = alloc_ok s \<and> next_addr s \<le> next_addr s'"

lemma same_top_refl: "same_top s s"
  by (simp add: same_top_def keeps_refl)

lemma same_top_trans: "same_top s t \<Longrightarrow> same_top t u \<Longrightarrow> same_top s u"
  unfolding same_top_def using keeps_trans[of s t u] by simp

lemma same_top_allocs: "same_top s s' \<Longrightarrow> allocs s \<Longrightarrow> allocs s'"
  by (simp add: same_top_def allocs_def)

lemma subs_ok_keeps:
  assumes "globals_ok s as" "subs_ok E s as bs" "keeps s s'" "set as \<subseteq> set as'"
    and "\<And>b. b \<in> set bs \<Longrightarrow> subs s' b = subs s b"
  shows "subs_ok E s' as' bs"
proof -
  have "ordered (skey s') bs"
    using assms(2,5) ordered_cong[of "skey s" bs "skey s'"] by (simp add: subs_ok_def skey_def)
  moreover have "\<exists>x. subs s' b = Some x \<and> cstring (si_name x) \<and> entries_ok s' as' ET_TAG (E (si_tree x))" if "b \<in> set bs" for b
  proof -
    from assms(2) that obtain x where x: "subs s b = Some x" "cstring (si_name x)" "entries_ok s as ET_TAG (E (si_tree x))"
      by (auto simp: subs_ok_def)
    with assms(5)[OF that] entries_ok_keeps[OF assms(1) x(3) assms(3,4)] show ?thesis by simp
  qed
  ultimately show ?thesis by (simp add: subs_ok_def)
qed

text \<open>The posts by time survive every change that keeps what is live.\<close>

lemma times_keep:
  assumes "globals_ok s as" "entries_ok s as ty es" "keeps s s'"
  shows "entry_global s' ` set es = entry_global s ` set es"
  using keeps_live(3)[OF assms(3,1,2)] by (intro image_cong) auto

lemma entries_ok_Nil [simp]: "entries_ok s as ty []"
  by (simp add: entries_ok_def)

lemma index_wfD:
  assumes "index_wf E s"
  shows "globals_ok s (E (index_global s))"
    "entries_ok s (E (index_global s)) ET_TIME (E (index_by_time s))"
    "entry_global s ` set (E (index_by_time s)) = set (E (index_global s))"
    "subs_ok E s (E (index_global s)) (E (index_by_tag s))" "addrs_ok s"
  using assms by (simp_all add: index_wf_def)

lemma index_wf_step:
  assumes wf: "index_wf E s" and top: "same_top s s'" and addrs: "addrs_ok s'"
    and subs: "subs_ok E s' (E (index_global s)) (E (index_by_tag s'))"
  shows "index_wf E s'"
proof -
  note d = index_wfD[OF wf]
  have k: "keeps s s'" "index_global s' = index_global s" "index_by_time s' = index_by_time s"
    using top by (simp_all add: same_top_def)
  from globals_ok_keeps[OF d(1) k(1)] entries_ok_keeps[OF d(1,2) k(1)] times_keep[OF d(1,2) k(1)] d(3) subs addrs
  show ?thesis by (simp add: index_wf_def k(2,3))
qed

text \<open>
  Nothing is live but what the trees lead to: every entry is in the tree by time or in that of one tag,
  every subindex in the tree of tags, every global entry in the tree by id.
\<close>

definition tag_entries :: "('t \<Rightarrow> nat list) \<Rightarrow> ('n, 't) pindex \<Rightarrow> nat \<Rightarrow> nat set" where
  "tag_entries E s b = set (E (si_tree (the (subs s b))))"

definition tight :: "('t \<Rightarrow> nat list) \<Rightarrow> ('n, 't) pindex \<Rightarrow> bool" where
  "tight E s \<longleftrightarrow>
     dom (globals s) = set (E (index_global s)) \<and> dom (subs s) = set (E (index_by_tag s)) \<and>
     dom (entries s) = set (E (index_by_time s)) \<union> (\<Union>b\<in>dom (subs s). tag_entries E s b) \<and>
     (\<forall>b\<in>dom (subs s). \<forall>c\<in>dom (subs s). b \<noteq> c \<longrightarrow> tag_entries E s b \<inter> tag_entries E s c = {})"

lemma tight_add_sub:
  assumes "tight E s" "subs s' = (subs s)(n \<mapsto> x)" "E (si_tree x) = []" "subs s n = None"
    and "set (E (index_by_tag s')) = insert n (set (E (index_by_tag s)))" "globals s' = globals s" "entries s' = entries s"
    and "index_global s' = index_global s" "index_by_time s' = index_by_time s"
  shows "tight E s'"
proof -
  have "tag_entries E s' b = (if b = n then {} else tag_entries E s b)" for b
    using assms(2,3) by (simp add: tag_entries_def)
  moreover have "n \<notin> set (E (index_by_tag s))" using assms(1,4) by (auto simp: tight_def)
  ultimately show ?thesis using assms by (auto simp: tight_def)
qed

lemma tight_add_entry:
  assumes "tight E s" "entries s e = None" "entries s' = (entries s)(e \<mapsto> ie)" "subs s b = Some x" "subs s' = (subs s)(b \<mapsto> y)"
    and "set (E (si_tree y)) = insert e (set (E (si_tree x)))" "dom (globals s') = dom (globals s)"
    and "index_global s' = index_global s" "index_by_time s' = index_by_time s" "index_by_tag s' = index_by_tag s"
  shows "tight E s'"
proof -
  have t: "tag_entries E s' c = (if c = b then insert e (tag_entries E s b) else tag_entries E s c)" for c
    using assms(4-6) by (simp add: tag_entries_def)
  have d: "dom (subs s') = dom (subs s)" using assms(4,5) by auto
  have b: "b \<in> dom (subs s)" using assms(4) by blast
  have "e \<notin> tag_entries E s c" if "c \<in> dom (subs s)" for c using assms(1,2) that unfolding tight_def by blast
  moreover have "dom (entries s') = insert e (dom (entries s))" using assms(3) by simp
  moreover have "(\<Union>c\<in>dom (subs s'). tag_entries E s' c) = insert e (\<Union>c\<in>dom (subs s). tag_entries E s c)"
    using b by (auto simp: d t)
  ultimately show ?thesis using assms(1,7-10) unfolding tight_def d by (auto simp: t)
qed

lemma tight_add_global:
  assumes "tight E s" "globals s' = (globals s)(n \<mapsto> g)" "entries s' = (entries s)(e \<mapsto> ie)" "subs s' = subs s"
    and "set (E (index_global s')) = insert n (set (E (index_global s)))"
    and "set (E (index_by_time s')) = insert e (set (E (index_by_time s)))" "index_by_tag s' = index_by_tag s"
  shows "tight E s'"
  using assms by (auto simp: tight_def tag_entries_def[abs_def])

lemma find_or_add_sub_ok:
  assumes R: "rb_laws R E" and wf: "index_wf E s" and al: "alloc_ok s (next_addr s)" and tag: "cstring tag"
  obtains sub s' where "find_or_add_sub R s tag = Inr (Inr sub, s')" "index_wf E s'" "same_top s s'"
    "globals s' = globals s" "sub \<in> set (E (index_by_tag s'))" "skey s' sub = lower tag"
    "\<And>t. tag_view E s' t = tag_view E s t" "tight E s \<Longrightarrow> tight E s'"
proof -
  let ?as = "E (index_global s)" and ?bs = "E (index_by_tag s)"
  note d = index_wfD[OF wf]
  have ord: "ordered (skey s) ?bs" using d(4) by (simp add: subs_ok_def)
  show ?thesis
  proof (cases "lower tag \<in> skey s ` set ?bs")
    case True
    then obtain b where b: "b \<in> set ?bs" "skey s b = lower tag" by auto
    have "agrees (cmp_sub s tag) (skey s) (skey s b) ?bs" using agrees_sub[OF d(4) tag] b(2) by simp
    from rb_present(1)[OF R ord this b(1)]
    have "find_or_add_sub R s tag = Inr (Inr b, s)" by (simp add: find_or_add_sub_def)
    with b wf show ?thesis by (intro that[of b s]) (simp_all add: same_top_refl)
  next
    case False
    let ?n = "next_addr s"
    have none: "rb_find R (index_by_tag s) (cmp_sub s tag) = Inr None"
      by (rule rb_absent(1)[OF R ord agrees_sub[OF d(4) tag] False])
    define s2 where "s2 = s\<lparr>next_addr := Suc ?n, subs := (subs s)(?n \<mapsto> \<lparr>si_name = tag, si_tree = rb_create R\<rparr>)\<rparr>"
    have sel: "globals s2 = globals s" "entries s2 = entries s" "posts s2 = posts s" "index_global s2 = index_global s"
      "index_by_time s2 = index_by_time s" "index_by_tag s2 = index_by_tag s" "alloc_ok s2 = alloc_ok s"
      "next_addr s2 = Suc ?n" "subs s2 = (subs s)(?n \<mapsto> \<lparr>si_name = tag, si_tree = rb_create R\<rparr>)"
      by (simp_all add: s2_def)
    have kp: "keeps s s2" by (simp add: keeps_def sel)
    have fresh: "b \<noteq> ?n" if "b \<in> set ?bs" for b
      using d(4,5) that by (auto simp: subs_ok_def addrs_ok_def)
    have sub2: "subs_ok E s2 ?as ?bs"
      by (rule subs_ok_keeps[OF d(1,4) kp]) (use fresh in \<open>auto simp: sel\<close>)
    have keys: "skey s2 b = skey s b" if "b \<in> set ?bs" for b using fresh[OF that] by (simp add: skey_def sel)
    have ord2: "ordered (skey s2) ?bs" using sub2 by (simp add: subs_ok_def)
    have new2: "lower tag \<notin> skey s2 ` set (E (index_by_tag s2))" using False keys sel(6) by auto
    from rb_absent(3)[OF R, of "skey s2" "index_by_tag s2" "cmp_sub s2 tag" "lower tag" ?n]
      ord2 agrees_sub[OF sub2 tag] new2 sel(6) obtain t where
      t: "rb_insert_here R (index_by_tag s2) (cmp_sub s2 tag) ?n = Inr t"
        "E t = put_between (skey s2) (lower tag) ?n ?bs" by auto
    define s' where "s' = s2\<lparr>index_by_tag := t\<rparr>"
    have sel': "globals s' = globals s" "entries s' = entries s" "posts s' = posts s" "index_global s' = index_global s"
      "index_by_time s' = index_by_time s" "index_by_tag s' = t" "alloc_ok s' = alloc_ok s"
      "next_addr s' = Suc ?n" "subs s' = subs s2"
      by (simp_all add: s'_def sel)
    have run: "find_or_add_sub R s tag = Inr (Inr ?n, s')"
      using al none t(1) sel(6)
      by (simp add: find_or_add_sub_def mem_cache_alloc_def Let_def s2_def s'_def)
    have top: "same_top s s'" by (simp add: same_top_def keeps_def sel')
    have set_t: "set (E t) = insert ?n (set ?bs)" using t(2) set_put_between[of "lower tag" "skey s2" ?bs ?n] new2 sel(6) by simp
    have key': "skey s' b = skey s2 b" for b by (simp add: skey_def sel')
    have key_n: "skey s' ?n = lower tag" by (simp add: skey_def sel' sel)
    have "ordered (skey s') (E t)"
      unfolding t(2) using ord2 key' key_n by (intro ordered_put_between) simp_all
    moreover have "\<exists>x. subs s' b = Some x \<and> cstring (si_name x) \<and> entries_ok s' ?as ET_TAG (E (si_tree x))"
      if "b \<in> set (E t)" for b
    proof (cases "b = ?n")
      case True
      then show ?thesis using tag rb_basic(1)[OF R] by (simp add: sel' sel)
    next
      case False
      with that set_t have b: "b \<in> set ?bs" by simp
      with d(4) obtain x where x: "subs s b = Some x" "cstring (si_name x)" "entries_ok s ?as ET_TAG (E (si_tree x))"
        by (auto simp: subs_ok_def)
      have "entries_ok s' ?as ET_TAG (E (si_tree x))"
        by (rule entries_ok_keeps[OF d(1) x(3)]) (use top in \<open>simp_all add: same_top_def\<close>)
      with x False show ?thesis by (simp add: sel' sel)
    qed
    ultimately have subs': "subs_ok E s' ?as (E (index_by_tag s'))" by (simp add: subs_ok_def sel')
    have "addrs_ok s'" using d(5) by (auto simp: addrs_ok_def sel' sel)
    then have wf': "index_wf E s'" by (rule index_wf_step[OF wf top _ subs'])
    have "subs s ?n = None" using d(5) by (simp add: addrs_ok_def)
    then have tight': "tight E s'" if "tight E s"
      using that set_t rb_basic(1)[OF R] by (intro tight_add_sub[of E s s' ?n "\<lparr>si_name = tag, si_tree = rb_create R\<rparr>"]) (simp_all add: sel' sel)
    have views: "tag_view E s' u = tag_view E s u" for u
    proof -
      have kp': "keeps s s'" using top by (simp add: same_top_def)
      consider "lower u = lower tag" | b where "b \<in> set ?bs" "skey s b = lower u"
        | "lower u \<noteq> lower tag" "lower u \<notin> skey s ` set ?bs" by (metis imageE)
      then show ?thesis
      proof cases
        case 1
        have "tag_view E s' u = view s' []"
          using tag_view_Some[OF subs', of ?n u] 1 key_n set_t sel' sel rb_basic(1)[OF R] by simp
        then show ?thesis using tag_view_None[of u s E] False 1 by (simp add: view_def)
      next
        case (2 b)
        then have b': "b \<in> set (E (index_by_tag s'))" "skey s' b = lower u" "subs s' b = subs s b"
          using set_t key' keys[OF 2(1)] fresh[OF 2(1)] sel' sel by auto
        from d(4) 2(1) obtain x where x: "subs s b = Some x" "entries_ok s ?as ET_TAG (E (si_tree x))"
          by (auto simp: subs_ok_def)
        show ?thesis
          using tag_view_Some[OF subs' b'(1,2)] tag_view_Some[OF d(4) 2] view_keeps[OF d(1) x(2) kp'] x(1) b'(3) by simp
      next
        case 3
        then have "lower u \<notin> skey s' ` set (E (index_by_tag s'))"
          using set_t key' keys key_n sel' by auto
        with 3 show ?thesis by (simp add: tag_view_None)
      qed
    qed
    show ?thesis
      by (rule that[OF run wf' top sel'(1)]) (use set_t key_n views sel' tight' in simp_all)
  qed
qed

lemma add_tag_entry_ok:
  assumes R: "rb_laws R E" and wf: "index_wf E s" and al: "alloc_ok s (next_addr s)"
    and sub: "sub \<in> set (E (index_by_tag s))" "skey s sub = lower tag"
    and g: "globals s a = Some g" "a \<in> set (E (index_global s))"
    and new: "(ge_time g, ge_id g) \<notin> fst ` set (tag_view E s tag)"
  obtains s' where "add_tag_entry R s sub a tag ET_TAG = Inr (0, s')" "index_wf E s'" "same_top s s'"
    "\<And>t. tag_view E s' t =
       (if lower t = lower tag then view_insert (ge_time g, ge_id g) (ge_post g) (tag_view E s t) else tag_view E s t)"
    "tight E s \<Longrightarrow> tight E s'"
proof -
  let ?as = "E (index_global s)" and ?bs = "E (index_by_tag s)" and ?k = "(ge_time g, ge_id g)"
  let ?e = "next_addr s"
  let ?ie = "\<lparr>ie_global = a, ie_name = Some tag, ie_type = ET_TAG\<rparr>"
  note d = index_wfD[OF wf]
  from d(4) sub(1) obtain x where x: "subs s sub = Some x" "cstring (si_name x)" "entries_ok s ?as ET_TAG (E (si_tree x))"
    by (auto simp: subs_ok_def)
  define s2 where "s2 = s\<lparr>next_addr := Suc ?e, entries := (entries s)(?e \<mapsto> ?ie)\<rparr>"
  have sel: "globals s2 = globals s" "posts s2 = posts s" "index_global s2 = index_global s"
    "index_by_time s2 = index_by_time s" "index_by_tag s2 = index_by_tag s" "alloc_ok s2 = alloc_ok s"
    "next_addr s2 = Suc ?e" "subs s2 = subs s" "entries s2 = (entries s)(?e \<mapsto> ?ie)"
    by (simp_all add: s2_def)
  have free: "entries s ?e = None" using d(5) by (simp add: addrs_ok_def)
  then have kp: "keeps s s2" by (simp add: keeps_def sel)
  have x2: "entries_ok s2 ?as ET_TAG (E (si_tree x))" by (rule entries_ok_keeps[OF d(1) x(3) kp]) simp
  have keys2: "ekey s2 y = ekey s y" "entry_addr s2 y = entry_addr s y" if "y \<in> set (E (si_tree x))" for y
    using keeps_live[OF kp d(1) x(3) that] by simp_all
  have view_s: "tag_view E s tag = view s (E (si_tree x))" using tag_view_Some[OF d(4) sub] x(1) by simp
  have "?k \<notin> ekey s2 ` set (E (si_tree x))" using new keys2(1) by (auto simp: view_s view_def image_image)
  then have new2: "?k \<notin> ekey s2 ` set (E (si_tree x))" .
  have e2: "entries s2 ?e = Some ?ie" "globals s2 a = Some g" using g(1) by (simp_all add: sel)
  obtain t where t: "insert_entry R s2 (si_tree x) ?e = Inr (None, t)"
    "E t = put_between (ekey s2) ?k ?e (E (si_tree x))" "entries_ok s2 ?as ET_TAG (E t)"
    "set (E t) = insert ?e (set (E (si_tree x)))"
    using insert_entry_ok[OF R globals_ok_keeps[OF d(1) kp] x2 e2(1) g(2) e2(2) new2] by blast
  define s' where "s' = s2\<lparr>subs := (subs s2)(sub \<mapsto> x\<lparr>si_tree := t\<rparr>),
      globals := (globals s2)(a \<mapsto> g\<lparr>ge_by_tag := ge_by_tag g @ [?e]\<rparr>)\<rparr>"
  have sel': "posts s' = posts s" "index_global s' = index_global s" "index_by_time s' = index_by_time s"
    "index_by_tag s' = index_by_tag s" "alloc_ok s' = alloc_ok s" "next_addr s' = Suc ?e" "entries s' = entries s2"
    "subs s' = (subs s)(sub \<mapsto> x\<lparr>si_tree := t\<rparr>)"
    "globals s' = (globals s)(a \<mapsto> g\<lparr>ge_by_tag := ge_by_tag g @ [?e]\<rparr>)"
    by (simp_all add: s'_def sel)
  have run: "add_tag_entry R s sub a tag ET_TAG = Inr (0, s')"
    using al t(1) x(1) g(1)
    by (simp add: add_tag_entry_def mem_cache_alloc_def Let_def deref_def s2_def s'_def)
  have kp2: "keeps s2 s'" using g(1) by (auto simp: keeps_def sel' sel)
  have kp': "keeps s s'" by (rule keeps_trans[OF kp kp2])
  have top: "same_top s s'" using kp' by (simp add: same_top_def sel')
  have key': "skey s' b = skey s b" for b using x(1) by (simp add: skey_def sel')
  have "ordered (skey s') ?bs"
    using d(4) ordered_cong[of "skey s" ?bs "skey s'"] key' by (simp add: subs_ok_def)
  moreover have "\<exists>z. subs s' b = Some z \<and> cstring (si_name z) \<and> entries_ok s' ?as ET_TAG (E (si_tree z))"
    if "b \<in> set ?bs" for b
  proof (cases "b = sub")
    case True
    have "entries_ok s' ?as ET_TAG (E t)"
      by (rule entries_ok_keeps[OF globals_ok_keeps[OF d(1) kp] t(3) kp2]) simp
    with True x(2) show ?thesis by (simp add: sel')
  next
    case False
    from d(4) that obtain z where z: "subs s b = Some z" "cstring (si_name z)" "entries_ok s ?as ET_TAG (E (si_tree z))"
      by (auto simp: subs_ok_def)
    have "entries_ok s' ?as ET_TAG (E (si_tree z))" by (rule entries_ok_keeps[OF d(1) z(3) kp']) simp
    with z False show ?thesis by (simp add: sel')
  qed
  ultimately have subs': "subs_ok E s' ?as (E (index_by_tag s'))" by (simp add: subs_ok_def sel')
  have "addrs_ok s'" using d(5) g(1) x(1) by (auto simp: addrs_ok_def sel' sel)
  then have wf': "index_wf E s'" by (rule index_wf_step[OF wf top _ subs'])
  have ekey_e: "ekey s' ?e = ?k" "entry_addr s' ?e = ge_post g"
    by (simp_all add: ekey_def entry_addr_def entry_global_def sel' sel)
  have keys': "ekey s' y = ekey s2 y \<and> entry_addr s' y = entry_addr s2 y" if "y \<in> set (E (si_tree x))" for y
    using keeps_live(1,2)[OF kp' d(1) x(3) that] keys2[OF that] by simp
  have views: "tag_view E s' u =
      (if lower u = lower tag then view_insert ?k (ge_post g) (tag_view E s u) else tag_view E s u)" for u
  proof -
    consider "lower u = lower tag" | b where "lower u \<noteq> lower tag" "b \<in> set ?bs" "skey s b = lower u"
      | "lower u \<noteq> lower tag" "lower u \<notin> skey s ` set ?bs" by (metis imageE)
    then show ?thesis
    proof cases
      case 1
      have "tag_view E s' u = view s' (E t)"
        using tag_view_Some[OF subs', of sub u] sub 1 key' by (simp add: sel')
      also have "\<dots> = view_insert ?k (ge_post g) (view s2 (E (si_tree x)))"
        unfolding t(2) using keys' ekey_e by (rule view_put_between)
      also have "view s2 (E (si_tree x)) = tag_view E s u"
        using keys2 tag_view_Some[OF d(4) sub(1), of u] sub(2) 1 x(1) by (simp add: view_def)
      finally show ?thesis using 1 by simp
    next
      case (2 b)
      from d(4) 2(2) obtain z where z: "subs s b = Some z" "entries_ok s ?as ET_TAG (E (si_tree z))"
        by (auto simp: subs_ok_def)
      have "b \<noteq> sub" using 2 sub by auto
      then show ?thesis
        using tag_view_Some[OF subs', of b u] tag_view_Some[OF d(4) 2(2,3)] view_keeps[OF d(1) z(2) kp'] z(1) 2 key'
        by (simp add: sel')
    next
      case 3
      then have "lower u \<notin> skey s' ` set (E (index_by_tag s'))" using key' by (simp add: sel')
      with 3 show ?thesis by (simp add: tag_view_None)
    qed
  qed
  have "tight E s'" if "tight E s"
    using t(4) g(1) by (intro tight_add_entry[OF that free _ x(1), of s' ?ie "x\<lparr>si_tree := t\<rparr>"]) (auto simp: sel' sel)
  then show ?thesis by (intro that[OF run wf' top views])
qed

end
