(* ===== verification/PostIndexInsert.thy ===== *)
theory PostIndexInsert
  imports PostIndexSpec
begin

text \<open>
  Insertion of posts into the index and its properties.
\<close>

lemma view_insert_keys: "fst ` set (view_insert k a l) \<subseteq> insert k (fst ` set l)"
  by (auto simp: view_insert_def)

text \<open>Adding all the tags of a post: each view of one of the tags gains it, the others stay.\<close>

lemma insert_post_tags_ok:
  assumes R: "rb_laws R E"
  shows "index_wf E s \<Longrightarrow> allocs s \<Longrightarrow> (\<forall>t\<in>set tags. cstring t) \<Longrightarrow> distinct (map lower tags) \<Longrightarrow>
    globals s a = Some g \<Longrightarrow> a \<in> set (E (index_global s)) \<Longrightarrow>
    (\<forall>t\<in>set tags. (ge_time g, ge_id g) \<notin> fst ` set (tag_view E s t)) \<Longrightarrow>
    \<exists>s'. insert_post_tags R s a tags ET_TAG = Inr (0, s') \<and> index_wf E s' \<and> same_top s s' \<and>
      (\<forall>t. tag_view E s' t = (if lower t \<in> lower ` set tags
          then view_insert (ge_time g, ge_id g) (ge_post g) (tag_view E s t) else tag_view E s t)) \<and>
      (tight E s \<longrightarrow> tight E s')"
proof (induction tags arbitrary: s g)
  case Nil
  then show ?case by (intro exI[of _ s]) (simp add: same_top_refl)
next
  case (Cons tag tags)
  let ?k = "(ge_time g, ge_id g)"
  have tag: "cstring tag" using Cons.prems(3) by simp
  obtain sub s1 where s1: "find_or_add_sub R s tag = Inr (Inr sub, s1)" "index_wf E s1" "same_top s s1"
    "globals s1 = globals s" "sub \<in> set (E (index_by_tag s1))" "skey s1 sub = lower tag"
    "\<And>t. tag_view E s1 t = tag_view E s t" "tight E s \<Longrightarrow> tight E s1"
    using find_or_add_sub_ok[OF R Cons.prems(1) allocsD[OF Cons.prems(2)] tag] by blast
  have g1: "globals s1 a = Some g" "a \<in> set (E (index_global s1))"
    using Cons.prems(5,6) s1(3,4) by (simp_all add: same_top_def)
  have new1: "?k \<notin> fst ` set (tag_view E s1 tag)" using Cons.prems(7) s1(7) by simp
  obtain s2 where s2: "add_tag_entry R s1 sub a tag ET_TAG = Inr (0, s2)" "index_wf E s2" "same_top s1 s2"
    "\<And>t. tag_view E s2 t =
       (if lower t = lower tag then view_insert ?k (ge_post g) (tag_view E s1 t) else tag_view E s1 t)"
    "tight E s1 \<Longrightarrow> tight E s2"
    using add_tag_entry_ok[OF R s1(2) allocsD[OF same_top_allocs[OF s1(3) Cons.prems(2)]] s1(5,6) g1 new1] by blast
  have top: "same_top s s2" by (rule same_top_trans[OF s1(3) s2(3)])
  from s2(3) g1(1) obtain g2 where g2: "globals s2 a = Some g2" "ge_id g2 = ge_id g" "ge_time g2 = ge_time g" "ge_post g2 = ge_post g"
    unfolding same_top_def keeps_def by blast
  have as2: "a \<in> set (E (index_global s2))" using Cons.prems(6) top by (simp add: same_top_def)
  have ntag: "lower tag \<notin> lower ` set tags" using Cons.prems(4) by simp
  have new2: "\<forall>t\<in>set tags. (ge_time g2, ge_id g2) \<notin> fst ` set (tag_view E s2 t)"
  proof
    fix t assume t: "t \<in> set tags"
    then have "lower t \<noteq> lower tag" using ntag by (metis imageI)
    with Cons.prems(7) t show "(ge_time g2, ge_id g2) \<notin> fst ` set (tag_view E s2 t)"
      by (simp add: s2(4) s1(7) g2(2,3))
  qed
  have "\<exists>s'. insert_post_tags R s2 a tags ET_TAG = Inr (0, s') \<and> index_wf E s' \<and> same_top s2 s' \<and>
      (\<forall>t. tag_view E s' t = (if lower t \<in> lower ` set tags
          then view_insert (ge_time g2, ge_id g2) (ge_post g2) (tag_view E s2 t) else tag_view E s2 t)) \<and>
      (tight E s2 \<longrightarrow> tight E s')"
    by (rule Cons.IH[OF s2(2) same_top_allocs[OF top Cons.prems(2)] _ _ g2(1) as2 new2])
      (use Cons.prems(3,4) in simp_all)
  then obtain s' where s': "insert_post_tags R s2 a tags ET_TAG = Inr (0, s')" "index_wf E s'" "same_top s2 s'"
    "\<And>t. tag_view E s' t = (if lower t \<in> lower ` set tags
          then view_insert ?k (ge_post g) (tag_view E s2 t) else tag_view E s2 t)"
    "tight E s2 \<Longrightarrow> tight E s'"
    unfolding g2(2-4) by blast
  have run: "insert_post_tags R s a (tag # tags) ET_TAG = Inr (0, s')"
    using s1(1) s2(1) s'(1) by simp
  have "tag_view E s' t = (if lower t \<in> lower ` set (tag # tags)
          then view_insert ?k (ge_post g) (tag_view E s t) else tag_view E s t)" for t
    using ntag by (auto simp: s'(4) s2(4) s1(7))
  with run s'(2) same_top_trans[OF top s'(3)] s1(8) s2(5) s'(5) show ?case by blast
qed

section \<open>Inserting a post\<close>

lemma agrees_global:
  assumes "globals_ok s as"
  shows "agrees (cmp_global s i) (gkey s) i as"
  unfolding agrees_def
proof
  fix y assume "y \<in> set as"
  with assms obtain g where "globals s y = Some g" by (auto simp: globals_ok_def)
  then show "\<exists>r. cmp_global s i y = Inr r \<and> (0 < r \<longleftrightarrow> gkey s y < i) \<and> (r < 0 \<longleftrightarrow> i < gkey s y)"
    by (simp add: cmp_global_def deref_def gkey_def by_id.neg by_id.pos)
qed

lemma entry_key_id:
  assumes "globals_ok s as" "entries_ok s as ty es" "e \<in> set es"
  shows "snd (ekey s e) \<in> gkey s ` set as"
proof -
  obtain ie where "entries s e = Some ie" "ie_global ie \<in> set as"
    using assms by (rule entries_ok_live)
  then show ?thesis by (auto simp: ekey_def entry_global_def gkey_def)
qed

lemma new_key_entries:
  assumes "globals_ok s as" "entries_ok s as ty es" "i \<notin> gkey s ` set as"
  shows "(t, i) \<notin> ekey s ` set es"
proof
  assume "(t, i) \<in> ekey s ` set es"
  then obtain e where e: "e \<in> set es" "ekey s e = (t, i)" by (metis imageE)
  with entry_key_id[OF assms(1,2) e(1)] assms(3) show False by simp
qed

text \<open>The ids of the posts in the index.\<close>

definition ids :: "('t \<Rightarrow> nat list) \<Rightarrow> ('n, 't) pindex \<Rightarrow> u32 set" where
  "ids E s = gkey s ` set (E (index_global s))"

lemma new_key_tags:
  assumes wf: "index_wf E s" and new: "i \<notin> ids E s"
  shows "(tm, i) \<notin> fst ` set (tag_view E s t)"
proof (cases "lower t \<in> skey s ` set (E (index_by_tag s))")
  case True
  note d = index_wfD[OF wf]
  from True obtain b where b: "b \<in> set (E (index_by_tag s))" "skey s b = lower t" by auto
  from d(4) b(1) obtain x where x: "subs s b = Some x" "entries_ok s (E (index_global s)) ET_TAG (E (si_tree x))"
    by (auto simp: subs_ok_def)
  have "(tm, i) \<notin> ekey s ` set (E (si_tree x))"
    using new_key_entries[OF d(1) x(2)] new by (simp add: ids_def)
  moreover have "fst ` set (tag_view E s t) = ekey s ` set (E (si_tree x))"
    unfolding tag_view_Some[OF d(4) b] by (simp add: x(1) view_def image_image)
  ultimately show ?thesis by simp
next
  case False
  then show ?thesis by (simp add: tag_view_None)
qed

lemma keeps_same: "globals s' = globals s \<Longrightarrow> entries s' = entries s \<Longrightarrow> posts s' = posts s \<Longrightarrow> keeps s s'"
  by (simp add: keeps_def)

text \<open>The posts of an index are numbered once and their tags once up to case, as \<^verbatim>\<open>post_add_tags\<close> keeps them.\<close>

definition insertable :: "('t \<Rightarrow> nat list) \<Rightarrow> ('n, 't) pindex \<Rightarrow> 'n post \<Rightarrow> bool" where
  "insertable E s p \<longleftrightarrow> post_id p \<notin> ids E s \<and> (\<forall>t\<in>set (post_tags p). cstring t) \<and> distinct (map lower (post_tags p))"

text \<open>
  The first half of the insertion, up to the tags: the global entry and the entry by time are in their
  trees. What the insertion does after the tags is left open.
\<close>

definition after_tags :: "'t rb_ops \<Rightarrow> nat \<Rightarrow> int \<times> ('n, 't) pindex \<Rightarrow> (int \<times> ('n, 't) pindex) res" where
  "after_tags R g = (\<lambda>(ret, s).
     if ret = 0 then Inr (0, s)
     else
       let s8 = s\<lparr>index_by_time := rb_remove R (index_by_time s) (Suc g), entries := (entries s)(Suc g := None)\<rparr>
       in rbind (free_global s8 g) (\<lambda>s'. Inr (ret, s')))"

lemma insert_start:
  assumes R: "rb_laws R E" and wf: "index_wf E s"
    and al: "alloc_ok s (next_addr s)" "alloc_ok s (Suc (next_addr s))"
    and p: "posts s a = Some p" and new: "insertable E s p"
  obtains s7 where
    "index_insert_post R s a = rbind (insert_post_tags R s7 (next_addr s) (post_tags p) ET_TAG) (after_tags R (next_addr s))"
    "index_wf E s7" "posts s7 = (posts s)(a \<mapsto> p\<lparr>post_refcnt := post_refcnt p + 1\<rparr>)"
    "globals s7 (next_addr s) = Some \<lparr>ge_id = post_id p, ge_post = a, ge_time = post_time p, ge_by_tag = []\<rparr>"
    "next_addr s \<in> set (E (index_global s7))" "ids E s7 = insert (post_id p) (ids E s)"
    "view s7 (E (index_by_time s7)) = view_insert (post_time p, post_id p) a (view s (E (index_by_time s)))"
    "\<And>t. tag_view E s7 t = tag_view E s t"
    "tight E s \<Longrightarrow> tight E s7" "alloc_ok s7 = alloc_ok s" "next_addr s7 = Suc (Suc (next_addr s))"
proof -
  let ?as = "E (index_global s)" and ?es = "E (index_by_time s)" and ?bs = "E (index_by_tag s)"
  let ?n = "next_addr s" and ?id = "post_id p" and ?k = "(post_time p, post_id p)"
  let ?p = "p\<lparr>post_refcnt := post_refcnt p + 1\<rparr>"
  let ?G = "\<lparr>ge_id = ?id, ge_post = a, ge_time = post_time p, ge_by_tag = []\<rparr>"
  let ?e = "Suc ?n"
  note d = index_wfD[OF wf]
  define s5 where "s5 = s\<lparr>posts := (posts s)(a \<mapsto> ?p), globals := (globals s)(?n \<mapsto> ?G),
      next_addr := Suc (Suc ?n), entries := (entries s)(?e \<mapsto> \<lparr>ie_global = ?n, ie_name = None, ie_type = ET_TIME\<rparr>)\<rparr>"
  have sel: "posts s5 = (posts s)(a \<mapsto> ?p)" "globals s5 = (globals s)(?n \<mapsto> ?G)"
    "entries s5 = (entries s)(?e \<mapsto> \<lparr>ie_global = ?n, ie_name = None, ie_type = ET_TIME\<rparr>)"
    "next_addr s5 = Suc (Suc ?n)" "subs s5 = subs s" "index_global s5 = index_global s"
    "index_by_time s5 = index_by_time s" "index_by_tag s5 = index_by_tag s" "alloc_ok s5 = alloc_ok s"
    by (simp_all add: s5_def)
  have free: "globals s ?n = None" "entries s ?e = None" using d(5) by (simp_all add: addrs_ok_def)
  then have kp: "keeps s s5" using p by (simp add: keeps_def sel)
  have g5: "globals_ok s5 ?as" by (rule globals_ok_keeps[OF d(1) kp])
  have gk: "gkey s5 y = gkey s y" if "y \<in> set ?as" for y
    using d(1) that keeps_gkey[OF kp] by (fastforce simp: globals_ok_def)
  have newg: "?id \<notin> gkey s5 ` set (E (index_global s5))" using new gk by (auto simp: insertable_def ids_def sel)
  have ord5: "ordered (gkey s5) (E (index_global s5))" using g5 by (simp add: globals_ok_def sel)
  have agr5: "agrees (cmp_global s5 ?id) (gkey s5) ?id (E (index_global s5))" using agrees_global[OF g5] by (simp add: sel)
  obtain tg where tg: "rb_insert R (index_global s5) (cmp_global s5 ?id) ?n = Inr (None, tg)"
    "E tg = put_between (gkey s5) ?id ?n (E (index_global s5))"
    using rb_absent(2)[OF R ord5 agr5 newg] by blast
  have set_tg: "set (E tg) = insert ?n (set ?as)" using tg(2) set_put_between[OF newg] by (simp add: sel)
  define s6 where "s6 = s5\<lparr>index_global := tg\<rparr>"
  have kp6: "keeps s5 s6" by (rule keeps_same) (simp_all add: s6_def)
  have kps6: "keeps s s6" by (rule keeps_trans[OF kp kp6])
  have gkey6: "gkey s6 y = gkey s5 y" for y by (simp add: gkey_def s6_def)
  have "ordered (gkey s6) (E tg)"
    unfolding tg(2) using ord5 gkey6 by (intro ordered_put_between) (simp_all add: gkey_def sel)
  moreover have "\<exists>g q. globals s6 y = Some g \<and> posts s6 (ge_post g) = Some q \<and> post_id q = ge_id g" if "y \<in> set (E tg)" for y
  proof (cases "y = ?n")
    case True
    then show ?thesis by (simp add: s6_def sel)
  next
    case False
    with that set_tg g5 have "\<exists>g q. globals s5 y = Some g \<and> posts s5 (ge_post g) = Some q \<and> post_id q = ge_id g"
      by (simp add: globals_ok_def)
    then show ?thesis by (simp add: s6_def)
  qed
  ultimately have g6: "globals_ok s6 (E tg)" by (simp add: globals_ok_def)
  have e6: "entries_ok s6 (E tg) ET_TIME (E (index_by_time s6))"
    using entries_ok_keeps[OF d(1,2) kps6] set_tg by (auto simp: s6_def sel)
  have ent: "entries s6 ?e = Some \<lparr>ie_global = ?n, ie_name = None, ie_type = ET_TIME\<rparr>" "?n \<in> set (E tg)" "globals s6 ?n = Some ?G"
    using set_tg by (simp_all add: s6_def sel)
  have keys6: "ekey s6 y = ekey s y" "entry_addr s6 y = entry_addr s y" "entry_global s6 y = entry_global s y"
    if "y \<in> set ?es" for y using keeps_live[OF kps6 d(1,2) that] by simp_all
  have by6: "E (index_by_time s6) = ?es" by (simp add: s6_def sel)
  have "(ge_time ?G, ge_id ?G) \<notin> ekey s6 ` set (E (index_by_time s6))"
    unfolding by6 using new_key_entries[OF d(1,2), of ?id "post_time p"] new keys6(1) by (auto simp: insertable_def ids_def)
  from insert_entry_ok[OF R g6 e6 ent this] obtain tt where
    tt: "insert_entry R s6 (index_by_time s6) ?e = Inr (None, tt)"
      "E tt = put_between (ekey s6) ?k ?e ?es" "entries_ok s6 (E tg) ET_TIME (E tt)"
      "set (E tt) = insert ?e (set ?es)" unfolding by6 by auto
  define s7 where "s7 = s6\<lparr>index_by_time := tt\<rparr>"
  have sel7: "posts s7 = posts s5" "globals s7 = globals s5" "entries s7 = entries s5" "subs s7 = subs s"
    "index_global s7 = tg" "index_by_time s7 = tt" "index_by_tag s7 = index_by_tag s" "alloc_ok s7 = alloc_ok s"
    "next_addr s7 = Suc (Suc ?n)"
    by (simp_all add: s7_def s6_def sel)
  have kp7: "keeps s6 s7" by (rule keeps_same) (simp_all add: s7_def)
  have kps7: "keeps s s7" by (rule keeps_trans[OF kps6 kp7])
  have g7: "globals_ok s7 (E tg)" by (rule globals_ok_keeps[OF g6 kp7])
  have e7: "entries_ok s7 (E tg) ET_TIME (E tt)" by (rule entries_ok_keeps[OF g6 tt(3) kp7]) simp
  have eg7: "entry_global s7 ?e = ?n" by (simp add: entry_global_def sel7 sel)
  have "entry_global s7 ` set ?es = set ?as" using times_keep[OF d(1,2) kps7] d(3) by simp
  then have cover: "entry_global s7 ` set (E tt) = set (E tg)" using eg7 by (simp add: tt(4) set_tg)
  have sb7: "subs_ok E s7 (E tg) ?bs"
    by (rule subs_ok_keeps[OF d(1,4) kps7]) (use set_tg in \<open>auto simp: sel7\<close>)
  have "addrs_ok s7" using d(5) by (auto simp: addrs_ok_def sel7 sel)
  then have wf7: "index_wf E s7" using g7 e7 cover sb7 by (simp add: index_wf_def sel7)
  have tv7: "tag_view E s7 t = tag_view E s t" for t
  proof (cases "lower t \<in> skey s ` set ?bs")
    case True
    then obtain b where b: "b \<in> set ?bs" "skey s b = lower t" by auto
    from d(4) b(1) obtain x where x: "subs s b = Some x" "entries_ok s ?as ET_TAG (E (si_tree x))"
      by (auto simp: subs_ok_def)
    have "skey s7 b = lower t" using b(2) by (simp add: skey_def sel7)
    with sb7 b(1) have "tag_view E s7 t = view s7 (E (si_tree x))"
      using tag_view_Some[of E s7 "E tg" b t] x(1) by (simp add: sel7)
    also have "\<dots> = view s (E (si_tree x))" by (rule view_keeps[OF d(1) x(2) kps7])
    also have "\<dots> = tag_view E s t" using tag_view_Some[OF d(4) b] x(1) by simp
    finally show ?thesis .
  next
    case False
    then show ?thesis by (simp add: tag_view_None skey_def sel7)
  qed
  have tight7: "tight E s7" if "tight E s"
    by (rule tight_add_global[OF that, of s7 ?n ?G ?e]) (simp_all add: sel7 sel set_tg tt(4))
  have run: "index_insert_post R s a = rbind (insert_post_tags R s7 ?n (post_tags p) ET_TAG) (after_tags R ?n)"
    using al p tg(1) tt(1)
    by (simp add: index_insert_post_def mem_cache_alloc_def post_getref_def deref_def Let_def
        s5_def s6_def s7_def after_tags_def)
  have "view s7 (E tt) = view_insert ?k a (view s6 ?es)"
    unfolding tt(2)
    by (rule view_put_between) (simp_all add: ekey_def entry_addr_def entry_global_def sel7 sel s6_def)
  also have "view s6 ?es = view s ?es" by (rule view_keeps[OF d(1,2) kps6])
  finally have vt: "view s7 (E (index_by_time s7)) = view_insert ?k a (view s ?es)" by (simp add: sel7)
  have "ids E s7 = gkey s5 ` set (E tg)" by (simp add: ids_def sel7 gkey_def)
  also have "\<dots> = insert ?id (ids E s)" using gk by (simp add: set_tg ids_def gkey_def sel)
  finally have ids7: "ids E s7 = insert ?id (ids E s)" .
  show ?thesis
    by (rule that[OF run wf7 _ _ _ ids7 vt tv7 tight7]) (use ent(2) in \<open>simp_all add: sel7 sel\<close>)
qed

lemma ids_same_top: "index_wf E s \<Longrightarrow> same_top s s' \<Longrightarrow> ids E s' = ids E s"
proof -
  assume wf: "index_wf E s" and top: "same_top s s'"
  have "gkey s' y = gkey s y" if "y \<in> set (E (index_global s))" for y
    using that index_wfD(1)[OF wf] top keeps_gkey[of s s' y] by (fastforce simp: globals_ok_def same_top_def)
  then show ?thesis using top by (simp add: ids_def same_top_def)
qed

lemma index_insert_new:
  assumes R: "rb_laws R E" and wf: "index_wf E s" and al: "allocs s"
    and p: "posts s a = Some p" and new: "insertable E s p"
  obtains s' where "index_insert_post R s a = Inr (0, s')" "index_wf E s'"
    "posts s' = (posts s)(a \<mapsto> p\<lparr>post_refcnt := post_refcnt p + 1\<rparr>)"
    "ids E s' = insert (post_id p) (ids E s)"
    "view s' (E (index_by_time s')) = view_insert (post_time p, post_id p) a (view s (E (index_by_time s)))"
    "\<And>t. tag_view E s' t = (if lower t \<in> lower ` set (post_tags p)
          then view_insert (post_time p, post_id p) a (tag_view E s t) else tag_view E s t)"
    "tight E s \<Longrightarrow> tight E s'" "alloc_ok s' = alloc_ok s" "next_addr s \<le> next_addr s'"
proof -
  let ?n = "next_addr s" and ?k = "(post_time p, post_id p)"
  obtain s7 where s7:
    "index_insert_post R s a = rbind (insert_post_tags R s7 ?n (post_tags p) ET_TAG) (after_tags R ?n)"
    "index_wf E s7" "posts s7 = (posts s)(a \<mapsto> p\<lparr>post_refcnt := post_refcnt p + 1\<rparr>)"
    "globals s7 ?n = Some \<lparr>ge_id = post_id p, ge_post = a, ge_time = post_time p, ge_by_tag = []\<rparr>"
    "?n \<in> set (E (index_global s7))" "ids E s7 = insert (post_id p) (ids E s)"
    "view s7 (E (index_by_time s7)) = view_insert ?k a (view s (E (index_by_time s)))"
    "\<And>t. tag_view E s7 t = tag_view E s t"
    "tight E s \<Longrightarrow> tight E s7" "alloc_ok s7 = alloc_ok s" "next_addr s7 = Suc (Suc ?n)"
    using insert_start[OF R wf _ _ p new] al by (auto simp: allocs_def)
  have al7: "allocs s7" using al by (simp add: allocs_def s7(10,11))
  have tags: "\<forall>t\<in>set (post_tags p). cstring t" "distinct (map lower (post_tags p))" "post_id p \<notin> ids E s"
    using new by (simp_all add: insertable_def)
  from insert_post_tags_ok[OF R s7(2) al7 tags(1,2) s7(4,5)] new_key_tags[OF wf tags(3)] obtain s' where
    s': "insert_post_tags R s7 ?n (post_tags p) ET_TAG = Inr (0, s')" "index_wf E s'" "same_top s7 s'"
    "\<And>t. tag_view E s' t = (if lower t \<in> lower ` set (post_tags p) then view_insert ?k a (tag_view E s t) else tag_view E s t)"
    "tight E s7 \<Longrightarrow> tight E s'"
    by (auto simp: s7(8))
  have run: "index_insert_post R s a = Inr (0, s')" using s7(1) s'(1) by (simp add: after_tags_def)
  have top: "posts s' = (posts s)(a \<mapsto> p\<lparr>post_refcnt := post_refcnt p + 1\<rparr>)" "index_by_time s' = index_by_time s7"
    "alloc_ok s' = alloc_ok s" "next_addr s \<le> next_addr s'" "keeps s7 s'"
    using s'(3) s7(3,10,11) by (simp_all add: same_top_def)
  have vt: "view s' (E (index_by_time s')) = view_insert ?k a (view s (E (index_by_time s)))"
    unfolding top(2) s7(7)[symmetric] by (rule view_keeps[OF index_wfD(1,2)[OF s7(2)] top(5)])
  have "ids E s' = insert (post_id p) (ids E s)" using ids_same_top[OF s7(2) s'(3)] s7(6) by simp
  with s'(4,5) s7(9) show ?thesis by (intro that[OF run s'(2) top(1) _ vt _ _ top(3,4)]) simp_all
qed

section \<open>Looking up a post\<close>

lemma index_lookup_eq:
  assumes R: "rb_laws R E" and wf: "index_wf E s"
  shows "if i \<in> ids E s
    then \<exists>a p. posts s a = Some p \<and> post_id p = i \<and>
       index_lookup_post R s i = Inr (Some a, s\<lparr>posts := (posts s)(a \<mapsto> p\<lparr>post_refcnt := post_refcnt p + 1\<rparr>)\<rparr>)
    else index_lookup_post R s i = Inr (None, s)"
proof -
  note d = index_wfD[OF wf]
  have ord: "ordered (gkey s) (E (index_global s))" using d(1) by (simp add: globals_ok_def)
  note agr = agrees_global[OF d(1), of i]
  show ?thesis
  proof (cases "i \<in> ids E s")
    case True
    then obtain y where y: "y \<in> set (E (index_global s))" "gkey s y = i" by (auto simp: ids_def)
    from rb_present(1)[OF R ord _ y(1)] agr y(2)
    have f: "rb_find R (index_global s) (cmp_global s i) = Inr (Some y)" by simp
    from d(1) y(1) obtain g p where g: "globals s y = Some g" "posts s (ge_post g) = Some p" "post_id p = ge_id g"
      by (auto simp: globals_ok_def)
    then have "post_id p = i" using y(2) by (simp add: gkey_def)
    moreover have "index_lookup_post R s i =
        Inr (Some (ge_post g), s\<lparr>posts := (posts s)(ge_post g \<mapsto> p\<lparr>post_refcnt := post_refcnt p + 1\<rparr>)\<rparr>)"
      using f g by (simp add: index_lookup_post_def deref_def post_getref_def)
    ultimately show ?thesis unfolding if_P[OF True] using g(2) by blast
  next
    case False
    then have "i \<notin> gkey s ` set (E (index_global s))" by (simp add: ids_def)
    from rb_absent(1)[OF R ord agr this] show ?thesis unfolding if_not_P[OF False] by (simp add: index_lookup_post_def)
  qed
qed

section \<open>A post that is there already\<close>


lemma insert_dup:
  assumes R: "rb_laws R E" and wf: "index_wf E s" and al: "allocs s"
    and p: "posts s a = Some p" "0 < post_refcnt p" and dup: "post_id p \<in> ids E s"
  shows "index_insert_post R s a = Inr (- EEXIST, s\<lparr>next_addr := next_addr s + 2\<rparr>)"
proof -
  let ?n = "next_addr s" and ?id = "post_id p"
  let ?G = "\<lparr>ge_id = ?id, ge_post = a, ge_time = post_time p, ge_by_tag = []\<rparr>"
  let ?p = "p\<lparr>post_refcnt := Suc (post_refcnt p)\<rparr>"
  note d = index_wfD[OF wf]
  define s5 where "s5 = s\<lparr>posts := (posts s)(a \<mapsto> ?p), globals := (globals s)(?n \<mapsto> ?G), next_addr := Suc (Suc ?n),
      entries := (entries s)(Suc ?n \<mapsto> \<lparr>ie_global = ?n, ie_name = None, ie_type = ET_TIME\<rparr>)\<rparr>"
  have free: "globals s ?n = None" "entries s (Suc ?n) = None" using d(5) by (simp_all add: addrs_ok_def)
  have kp: "keeps s s5" using free p(1) by (simp add: keeps_def s5_def)
  have g5: "globals_ok s5 (E (index_global s))" by (rule globals_ok_keeps[OF d(1) kp])
  from dup obtain y where y: "y \<in> set (E (index_global s))" "gkey s y = ?id" by (auto simp: ids_def)
  with d(1) obtain g where "globals s y = Some g" by (auto simp: globals_ok_def)
  with kp y(2) have y5: "gkey s5 y = ?id" by (simp add: keeps_gkey)
  have ig: "index_global s5 = index_global s" by (simp add: s5_def)
  have ord5: "ordered (gkey s5) (E (index_global s5))" using g5 by (simp add: globals_ok_def ig)
  have agr5: "agrees (cmp_global s5 ?id) (gkey s5) (gkey s5 y) (E (index_global s5))"
    using agrees_global[OF g5] by (simp add: ig y5)
  have ins: "rb_insert R (index_global s5) (cmp_global s5 ?id) ?n = Inr (Some y, index_global s5)"
    using rb_present(2)[OF R ord5 agr5] y(1) by (simp add: ig)
  have undo: "(posts s)(a \<mapsto> p) = posts s" "(globals s)(?n := None) = globals s" "(entries s)(Suc ?n := None) = entries s"
    using p(1) free by (simp_all add: fun_upd_idem)
  show ?thesis
    using al p ins undo
    by (simp add: index_insert_post_def mem_cache_alloc_def allocs_def post_getref_def deref_def Let_def
        s5_def free_global_def post_putref_def)
qed

lemma insert_nomem:
  assumes p: "posts s a = Some p" "0 < post_refcnt p" and wf: "index_wf E s"
    and out: "\<not> alloc_ok s (next_addr s) \<or> \<not> alloc_ok s (Suc (next_addr s))"
  shows "\<exists>n. index_insert_post R s a = Inr (- ENOMEM, s\<lparr>next_addr := n\<rparr>)"
proof -
  note d = index_wfD[OF wf]
  have "globals s (next_addr s) = None" using d(5) by (simp add: addrs_ok_def)
  then have undo: "(posts s)(a \<mapsto> p) = posts s" "(globals s)(next_addr s := None) = globals s"
    using p(1) by (simp_all add: fun_upd_idem)
  show ?thesis
  proof (cases "alloc_ok s (next_addr s)")
    case True
    with out p undo show ?thesis
      by (intro exI[of _ "Suc (Suc (next_addr s))"])
        (simp add: index_insert_post_def mem_cache_alloc_def post_getref_def deref_def Let_def free_global_def post_putref_def)
  next
    case False
    then show ?thesis
      by (intro exI[of _ "Suc (next_addr s)"]) (simp add: index_insert_post_def mem_cache_alloc_def)
  qed
qed

section \<open>Out of memory among the tags\<close>

lemma skip_addr:
  assumes "index_wf E s"
  shows "index_wf E (s\<lparr>next_addr := Suc (next_addr s)\<rparr>)" "same_top s (s\<lparr>next_addr := Suc (next_addr s)\<rparr>)"
proof -
  let ?s = "s\<lparr>next_addr := Suc (next_addr s)\<rparr>"
  show top: "same_top s ?s" by (simp add: same_top_def keeps_def)
  note d = index_wfD[OF assms]
  have "addrs_ok ?s" using d(5) by (simp add: addrs_ok_def)
  moreover have "subs_ok E ?s (E (index_global s)) (E (index_by_tag ?s))"
    by (rule subs_ok_keeps[OF d(1)]) (use d(4) top in \<open>simp_all add: same_top_def\<close>)
  ultimately show "index_wf E ?s" by (intro index_wf_step[OF assms top]) simp_all
qed

text \<open>The first allocation for a tag that fails ends the loop.\<close>

lemma add_tag_nomem:
  "\<not> alloc_ok s (next_addr s) \<Longrightarrow> add_tag_entry R s sub g tag ty = Inr (- ENOMEM, s\<lparr>next_addr := Suc (next_addr s)\<rparr>)"
  by (simp add: add_tag_entry_def mem_cache_alloc_def)

lemma insert_tag_nomem:
  assumes R: "rb_laws R E" and wf: "index_wf E s" and tag: "cstring tag" and out: "\<not> alloc_ok s (next_addr s)"
  shows "insert_post_tags R s g (tag # tags) ty = Inr (- ENOMEM, s\<lparr>next_addr := Suc (next_addr s)\<rparr>)"
proof -
  let ?bs = "E (index_by_tag s)"
  note d = index_wfD[OF wf]
  have ord: "ordered (skey s) ?bs" using d(4) by (simp add: subs_ok_def)
  note agr = agrees_sub[OF d(4) tag]
  have err: "- ENOMEM \<noteq> (0 :: int)" by (simp add: ENOMEM_def)
  show ?thesis
  proof (cases "lower tag \<in> skey s ` set ?bs")
    case True
    then obtain b where b: "b \<in> set ?bs" "skey s b = lower tag" by auto
    from rb_present(1)[OF R ord _ b(1)] agr b(2) have "rb_find R (index_by_tag s) (cmp_sub s tag) = Inr (Some b)" by simp
    with out err show ?thesis by (simp add: find_or_add_sub_def add_tag_nomem)
  next
    case False
    from rb_absent(1)[OF R ord agr False] out show ?thesis by (simp add: find_or_add_sub_def mem_cache_alloc_def)
  qed
qed

lemma insert_post_tags_any:
  assumes R: "rb_laws R E"
  shows "index_wf E s \<Longrightarrow> (\<forall>t\<in>set tags. cstring t) \<Longrightarrow> distinct (map lower tags) \<Longrightarrow>
    globals s a = Some g \<Longrightarrow> a \<in> set (E (index_global s)) \<Longrightarrow>
    (\<forall>t\<in>set tags. (ge_time g, ge_id g) \<notin> fst ` set (tag_view E s t)) \<Longrightarrow>
    \<exists>r s'. insert_post_tags R s a tags ET_TAG = Inr (r, s') \<and> (r = 0 \<or> r = - ENOMEM) \<and> index_wf E s' \<and> same_top s s'"
proof (induction tags arbitrary: s g)
  case Nil
  then show ?case by (intro exI[of _ 0] exI[of _ s]) (simp add: same_top_refl)
next
  case (Cons tag tags)
  let ?k = "(ge_time g, ge_id g)"
  have tag: "cstring tag" using Cons.prems(2) by simp
  have err: "- ENOMEM \<noteq> (0 :: int)" by (simp add: ENOMEM_def)
  show ?case
  proof (cases "alloc_ok s (next_addr s)")
    case False
    with insert_tag_nomem[OF R Cons.prems(1) tag] skip_addr[OF Cons.prems(1)] show ?thesis by blast
  next
    case al: True
    obtain sub s1 where s1: "find_or_add_sub R s tag = Inr (Inr sub, s1)" "index_wf E s1" "same_top s s1"
      "globals s1 = globals s" "sub \<in> set (E (index_by_tag s1))" "skey s1 sub = lower tag"
      "\<And>t. tag_view E s1 t = tag_view E s t"
      using find_or_add_sub_ok[OF R Cons.prems(1) al tag] by blast
    show ?thesis
    proof (cases "alloc_ok s1 (next_addr s1)")
      case False
      then have "insert_post_tags R s a (tag # tags) ET_TAG = Inr (- ENOMEM, s1\<lparr>next_addr := Suc (next_addr s1)\<rparr>)"
        using s1(1) err by (simp add: add_tag_nomem)
      with skip_addr[OF s1(2)] same_top_trans[OF s1(3)] show ?thesis by blast
    next
      case al1: True
      have g1: "globals s1 a = Some g" "a \<in> set (E (index_global s1))"
        using Cons.prems(4,5) s1(3,4) by (simp_all add: same_top_def)
      have new1: "?k \<notin> fst ` set (tag_view E s1 tag)" using Cons.prems(6) s1(7) by simp
      obtain s2 where s2: "add_tag_entry R s1 sub a tag ET_TAG = Inr (0, s2)" "index_wf E s2" "same_top s1 s2"
        "\<And>t. tag_view E s2 t =
           (if lower t = lower tag then view_insert ?k (ge_post g) (tag_view E s1 t) else tag_view E s1 t)"
        using add_tag_entry_ok[OF R s1(2) al1 s1(5,6) g1 new1] by blast
      have top: "same_top s s2" by (rule same_top_trans[OF s1(3) s2(3)])
      from s2(3) g1(1) obtain g2 where g2: "globals s2 a = Some g2" "ge_id g2 = ge_id g" "ge_time g2 = ge_time g"
        unfolding same_top_def keeps_def by blast
      have as2: "a \<in> set (E (index_global s2))" using Cons.prems(5) top by (simp add: same_top_def)
      have "lower t \<noteq> lower tag" if "t \<in> set tags" for t
        using Cons.prems(3) that by (auto simp: rev_image_eqI dest!: sym[of "lower t"])
      then have new2: "\<forall>t\<in>set tags. (ge_time g2, ge_id g2) \<notin> fst ` set (tag_view E s2 t)"
        using Cons.prems(6) by (simp add: s2(4) s1(7) g2(2,3))
      from Cons.IH[OF s2(2) _ _ g2(1) as2 new2] Cons.prems(2,3) obtain r s' where
        "insert_post_tags R s2 a tags ET_TAG = Inr (r, s')" "r = 0 \<or> r = - ENOMEM" "index_wf E s'" "same_top s2 s'"
        by auto
      with s1(1) s2(1) same_top_trans[OF top] show ?thesis by auto
    qed
  qed
qed

text \<open>
  A search whose comparison fails at the node that lies where the search is headed fails: it has to
  compare with that node, since no other comparison tells that the search may stop.
\<close>

definition rb_fault_law :: "'t rb_ops \<Rightarrow> ('t \<Rightarrow> nat list) \<Rightarrow> bool" where
  "rb_fault_law R E \<longleftrightarrow>
     (\<forall>t c us y vs f. E t = us @ y # vs \<longrightarrow> after c us \<longrightarrow> before c vs \<longrightarrow> c y = Inl f \<longrightarrow> rb_find R t c = Inl f)"

lemma list_rb_fault: "rb_fault_law list_rb (\<lambda>t. t)"
proof -
  have "list_find (us @ y # vs) c = Inl f" if "after c us" "c y = Inl f" for us y vs c f
    using that by (induction us) (auto simp: after_def)
  then show ?thesis by (auto simp: rb_fault_law_def list_rb_def)
qed

text \<open>Giving up on a post while its tags are added frees its global entry and leaves it in the tree of ids.\<close>

lemma give_up_dangling:
  assumes F: "rb_fault_law R E" and wf7: "index_wf E s7"
    and g7: "globals s7 n = Some \<lparr>ge_id = post_id p, ge_post = a, ge_time = post_time p, ge_by_tag = []\<rparr>"
    and n7: "n \<in> set (E (index_global s7))"
    and p7: "posts s7 a = Some (p\<lparr>post_refcnt := post_refcnt p + 1\<rparr>)" "0 < post_refcnt p"
    and top: "same_top s7 s8" and r: "r \<noteq> 0"
  obtains s' where "after_tags R n (r, s8) = Inr (r, s')" "posts s' = (posts s7)(a \<mapsto> p)"
    "n \<in> set (E (index_global s'))" "globals s' n = None" "index_lookup_post R s' (post_id p) = Inl UseAfterFree"
proof -
  have k: "keeps s7 s8" "posts s8 = posts s7" "index_global s8 = index_global s7" using top by (simp_all add: same_top_def)
  from k(1) g7 obtain g8 where g8: "globals s8 n = Some g8" "ge_post g8 = a" unfolding keeps_def by fastforce
  define s' where "s' = s8\<lparr>index_by_time := rb_remove R (index_by_time s8) (Suc n), entries := (entries s8)(Suc n := None),
      posts := (posts s8)(a \<mapsto> p), globals := (globals s8)(n := None)\<rparr>"
  have run: "after_tags R n (r, s8) = Inr (r, s')"
    using r g8 p7 k(2) by (simp add: after_tags_def free_global_def deref_def post_putref_def s'_def Let_def)
  have ig: "index_global s' = index_global s7" by (simp add: s'_def k(3))
  have ord: "ordered (gkey s7) (E (index_global s7))" using index_wfD(1)[OF wf7] by (simp add: globals_ok_def)
  obtain us vs where split: "E (index_global s7) = us @ n # vs" using n7 by (meson split_list)
  have key: "gkey s7 n = post_id p" by (simp add: gkey_def g7)
  have cmp: "cmp_global s' (post_id p) y = Inr (post_global_index_cmp (post_id p) (gkey s7 y))"
    if "y \<in> set us \<union> set vs" for y
  proof -
    from that split index_wfD(1)[OF wf7] obtain g where g: "globals s7 y = Some g" by (auto simp: globals_ok_def)
    with k(1) obtain g' where "globals s8 y = Some g'" "ge_id g' = ge_id g" unfolding keeps_def by blast
    moreover have "y \<noteq> n" using that distinct_ordered[OF ord] split by auto
    ultimately show ?thesis using g by (simp add: cmp_global_def deref_def s'_def gkey_def)
  qed
  have "after (cmp_global s' (post_id p)) us" "before (cmp_global s' (post_id p)) vs"
    using ord split key cmp by (auto simp: after_def before_def sorted_wrt_append by_id.pos by_id.neg)
  moreover have "cmp_global s' (post_id p) n = Inl UseAfterFree" by (simp add: cmp_global_def deref_def s'_def)
  ultimately have "rb_find R (index_global s') (cmp_global s' (post_id p)) = Inl UseAfterFree"
    using F split ig unfolding rb_fault_law_def by metis
  then have "index_lookup_post R s' (post_id p) = Inl UseAfterFree" by (simp add: index_lookup_post_def)
  with run n7 ig show ?thesis by (intro that[of s']) (simp_all add: s'_def k(2))
qed

lemma insert_any:
  assumes R: "rb_laws R E" and F: "rb_fault_law R E" and wf: "index_wf E s"
    and al: "alloc_ok s (next_addr s)" "alloc_ok s (Suc (next_addr s))"
    and p: "posts s a = Some p" "0 < post_refcnt p" and new: "insertable E s p"
  shows "\<exists>r s'. index_insert_post R s a = Inr (r, s') \<and> (r = 0 \<and> index_wf E s' \<or>
     r = - ENOMEM \<and> posts s' = posts s \<and> next_addr s \<in> set (E (index_global s')) \<and> globals s' (next_addr s) = None \<and>
     index_lookup_post R s' (post_id p) = Inl UseAfterFree) \<and>
     (post_tags p \<noteq> [] \<and> \<not> alloc_ok s (next_addr s + 2) \<longrightarrow> r \<noteq> 0)"
proof -
  let ?n = "next_addr s"
  obtain s7 where s7:
    "index_insert_post R s a = rbind (insert_post_tags R s7 ?n (post_tags p) ET_TAG) (after_tags R ?n)"
    "index_wf E s7" "posts s7 = (posts s)(a \<mapsto> p\<lparr>post_refcnt := post_refcnt p + 1\<rparr>)"
    "globals s7 ?n = Some \<lparr>ge_id = post_id p, ge_post = a, ge_time = post_time p, ge_by_tag = []\<rparr>"
    "?n \<in> set (E (index_global s7))" "\<And>t. tag_view E s7 t = tag_view E s t"
    "alloc_ok s7 = alloc_ok s" "next_addr s7 = Suc (Suc ?n)"
    using insert_start[OF R wf al p(1) new] by metis
  have err: "- ENOMEM \<noteq> (0 :: int)" by (simp add: ENOMEM_def)
  have tags: "\<forall>t\<in>set (post_tags p). cstring t" "distinct (map lower (post_tags p))" "post_id p \<notin> ids E s"
    using new by (simp_all add: insertable_def)
  from insert_post_tags_any[OF R s7(2) tags(1,2) s7(4,5)] new_key_tags[OF wf tags(3)] obtain r s8 where
    s8: "insert_post_tags R s7 ?n (post_tags p) ET_TAG = Inr (r, s8)" "r = 0 \<or> r = - ENOMEM" "index_wf E s8" "same_top s7 s8"
    by (auto simp: s7(6))
  have run: "index_insert_post R s a = after_tags R ?n (r, s8)" using s7(1) s8(1) by simp
  have out: "r \<noteq> 0" if t: "post_tags p \<noteq> []" and "\<not> alloc_ok s (?n + 2)"
  proof -
    from t obtain x xs where "post_tags p = x # xs" by (cases "post_tags p") auto
    with insert_tag_nomem[OF R s7(2), of x ?n xs ET_TAG] tags(1) that(2) s7(7,8) s8(1) err show ?thesis by auto
  qed
  show ?thesis
  proof (cases "r = 0")
    case True
    with run s8(3) out show ?thesis by (auto simp: after_tags_def)
  next
    case False
    have "posts s7 a = Some (p\<lparr>post_refcnt := post_refcnt p + 1\<rparr>)" by (simp add: s7(3))
    from give_up_dangling[OF F s7(2,4,5) this p(2) s8(4) False] obtain s' where
      s': "after_tags R ?n (r, s8) = Inr (r, s')" "posts s' = (posts s7)(a \<mapsto> p)" "?n \<in> set (E (index_global s'))"
        "globals s' ?n = None" "index_lookup_post R s' (post_id p) = Inl UseAfterFree" by blast
    have "posts s' = posts s" using s'(2) s7(3) p(1) by (simp add: fun_upd_idem)
    with run s' s8(2) False show ?thesis by auto
  qed
qed

end
