(* ===== verification/PostIndexProps.thy ===== *)
theory PostIndexProps
  imports PostIndexInsert
begin

text \<open>
  The properties of the post index: what the listing, lookup, insertion and tag counting functions
  do to the abstract view of the index, with a small concrete index as the example.
\<close>

section \<open>The abstract index\<close>

text \<open>
  The abstract index gives for all posts (\<^verbatim>\<open>None\<close>) and for every tag the keys (time, id) and the
  addresses of its posts, oldest first. A listing is the listed ones, newest first.
\<close>

type_synonym abs_view = "((u32 \<times> u32) \<times> nat) list"

definition index_abs :: "('t \<Rightarrow> nat list) \<Rightarrow> ('n, 't) pindex \<Rightarrow> string option \<Rightarrow> abs_view" where
  "index_abs E s tag = (case tag of None \<Rightarrow> view s (E (index_by_time s)) | Some t \<Rightarrow> tag_view E s t)"

definition spec_listing :: "('n, 't) pindex \<Rightarrow> abs_view \<Rightarrow> abs_view" where
  "spec_listing s v = filter (\<lambda>(k, a). post_listed (post_at s a)) (rev v)"

definition newest_first :: "abs_view \<Rightarrow> bool" where
  "newest_first v \<longleftrightarrow> sorted_wrt (\<lambda>x y. fst y < fst x) v"

lemma tree_listing_view: "tree_listing s es = map snd (spec_listing s (view s es))"
proof -
  have "filter (\<lambda>a. P a) (map f xs) = map snd (filter (\<lambda>(k, a). P a) (map (\<lambda>e. (g e, f e)) xs))" for P f g and xs :: "nat list"
    by (induction xs) auto
  from this[of "\<lambda>a. post_listed (post_at s a)" "entry_addr s" "rev es" "ekey s"]
  show ?thesis by (simp add: tree_listing_def spec_listing_def view_def rev_map)
qed

lemma listed_posts_abs: "listed_posts E s tag = map snd (spec_listing s (index_abs E s tag))"
  by (auto simp: listed_posts_def index_abs_def tag_view_def tree_listing_view spec_listing_def split: option.splits)

lemma view_sorted: "ordered (ekey s) es \<Longrightarrow> sorted_wrt (\<lambda>x y. fst x < fst y) (view s es)"
  by (simp add: view_def sorted_wrt_map)

lemma index_abs_view:
  assumes "index_wf E s"
  obtains es ty where "index_abs E s tag = view s es" "entries_ok s (E (index_global s)) ty es"
proof (cases tag)
  case None
  then show thesis using index_wfD(2)[OF assms] by (intro that) (simp_all add: index_abs_def)
next
  case (Some t)
  note d = index_wfD[OF assms]
  show thesis
  proof (cases "lower t \<in> skey s ` set (E (index_by_tag s))")
    case True
    then obtain b where b: "b \<in> set (E (index_by_tag s))" "skey s b = lower t" by auto
    from d(4) b(1) obtain x where "subs s b = Some x" "entries_ok s (E (index_global s)) ET_TAG (E (si_tree x))"
      by (auto simp: subs_ok_def)
    then show thesis using Some tag_view_Some[OF d(4) b] by (intro that) (simp_all add: index_abs_def)
  next
    case False
    with Some show thesis by (intro that[of "[]" ET_TAG]) (simp_all add: index_abs_def tag_view_None view_def)
  qed
qed

lemma index_abs_sorted:
  assumes "index_wf E s"
  shows "sorted_wrt (\<lambda>x y. fst x < fst y) (index_abs E s tag)"
proof -
  obtain es ty where "index_abs E s tag = view s es" "entries_ok s (E (index_global s)) ty es"
    using assms by (rule index_abs_view)
  then show ?thesis by (simp add: entries_ok_def view_sorted)
qed

text \<open>A post is in an index once, and its id tells it from all the others.\<close>

lemma index_abs_ids:
  assumes wf: "index_wf E s"
  shows "distinct (map (\<lambda>(_, a). post_id (post_at s a)) (index_abs E s tag))"
proof -
  obtain es ty where es: "index_abs E s tag = view s es" "entries_ok s (E (index_global s)) ty es"
    using wf by (rule index_abs_view)
  note g = index_wfD(1)[OF wf]
  have id: "post_id (post_at s (entry_addr s e)) = gkey s (entry_global s e) \<and> entry_global s e \<in> set (E (index_global s))"
    if "e \<in> set es" for e
  proof -
    obtain ie where ie: "entries s e = Some ie" "ie_global ie \<in> set (E (index_global s))"
      using g es(2) \<open>e \<in> set es\<close> by (rule entries_ok_live)
    with g obtain x p where "globals s (ie_global ie) = Some x" "posts s (ge_post x) = Some p" "post_id p = ge_id x"
      by (auto simp: globals_ok_def)
    with ie show ?thesis by (simp add: post_at_def entry_addr_def entry_global_def gkey_def)
  qed
  have ordg: "ordered (gkey s) (E (index_global s))" using g by (simp add: globals_ok_def)
  have orde: "ordered (ekey s) es" using es(2) by (simp add: entries_ok_def)
  have "inj_on (\<lambda>e. post_id (post_at s (entry_addr s e))) (set es)"
  proof (rule inj_onI)
    fix e f assume ef: "e \<in> set es" "f \<in> set es" "post_id (post_at s (entry_addr s e)) = post_id (post_at s (entry_addr s f))"
    with id have "entry_global s e = entry_global s f" using ordered_inj[OF ordg] by metis
    then have "ekey s e = ekey s f" by (simp add: ekey_def)
    with ef(1,2) show "e = f" using ordered_inj[OF orde] by blast
  qed
  with distinct_ordered[OF orde] show ?thesis by (simp add: es(1) view_def distinct_map comp_def)
qed

lemma listing_newest_first:
  assumes "sorted_wrt (\<lambda>x y. fst x < fst y) v"
  shows "newest_first (take n (filter P (drop k (spec_listing s v))))"
proof -
  have "newest_first (rev v)" using assms by (simp add: newest_first_def sorted_wrt_rev)
  then have "newest_first (spec_listing s v)" by (simp add: newest_first_def spec_listing_def sorted_wrt_filter)
  then show ?thesis by (simp add: newest_first_def sorted_wrt_filter sorted_wrt_drop sorted_wrt_take)
qed

section \<open>An example\<close>

definition demo_post :: "u32 \<Rightarrow> u32 \<Rightarrow> string list \<Rightarrow> unit post" where
  "demo_post i t tags = \<lparr>post_refcnt = 1, post_preview = False, post_listed = True, post_id = i, post_time = t,
     post_title = None, post_fmt = 3, post_tags = tags, post_cats = [], post_comments = [], post_numcom = 0,
     post_body = None, post_twitter_img = None, post_files = ()\<rparr>"

definition demo_index :: "(unit, nat list) pindex" where
  "demo_index = \<lparr>posts = [100 \<mapsto> demo_post 1 10 [''c''], 101 \<mapsto> demo_post 2 20 [''C'', ''d''], 102 \<mapsto> demo_post 1 30 []],
     globals = [0 \<mapsto> \<lparr>ge_id = 1, ge_post = 100, ge_time = 10, ge_by_tag = [3]\<rparr>],
     entries = [1 \<mapsto> \<lparr>ie_global = 0, ie_name = None, ie_type = ET_TIME\<rparr>,
                3 \<mapsto> \<lparr>ie_global = 0, ie_name = Some ''c'', ie_type = ET_TAG\<rparr>],
     subs = [2 \<mapsto> \<lparr>si_name = ''c'', si_tree = [3]\<rparr>],
     index_global = [0], index_by_time = [1], index_by_tag = [2], next_addr = 4, alloc_ok = (\<lambda>_. True)\<rparr>"

lemma demo_index_wf: "index_wf (\<lambda>t. t) demo_index"
  by (simp add: index_wf_def globals_ok_def entries_ok_def subs_ok_def addrs_ok_def demo_index_def demo_post_def
      entry_global_def cstring_def)

lemma demo_lower: "lower ''c'' = ''c''" "lower ''C'' = ''c''" "lower ''d'' = ''d''"
  by code_simp+

lemma demo_abs: "index_abs (\<lambda>t. t) demo_index None = [((10, 1), 100)]"
  "index_abs (\<lambda>t. t) demo_index (Some ''C'') = [((10, 1), 100)]"
  by (simp_all add: index_abs_def tag_view_def tag_tree_def view_def demo_index_def skey_def demo_lower
      entry_addr_def entry_global_def ekey_def)

lemma demo_listing: "spec_listing demo_index [((10, 1), 100)] = [((10, 1), 100)]"
  by (simp add: spec_listing_def post_at_def demo_index_def demo_post_def)

lemma demo_allocs: "allocs demo_index"
  by (simp add: allocs_def demo_index_def)

lemma demo_ids: "ids (\<lambda>t. t) demo_index = {1}"
  by (simp add: ids_def demo_index_def gkey_def)

lemma demo_insertable: "insertable (\<lambda>t. t) demo_index (demo_post 2 20 [''C'', ''d''])"
  by (simp add: insertable_def demo_ids demo_post_def cstring_def demo_lower)

section \<open>Properties\<close>

text \<open>
  C4. \<^verbatim>\<open>index_get_posts\<close> on a well-formed index returns: the listed posts of the chosen index, newest
  first, without the first \<open>skip\<close>, and of the rest the first \<open>nposts\<close> that satisfy the predicate; each
  post returned has one more reference and nothing else changes.
\<close>

theorem get_posts_refines:
  assumes "rb_laws R E" "index_wf E s" "ref_blind pred" "pred_option cstring tag"
    and "0 \<le> k" "k \<le> INT_MAX" "0 \<le> n" "n \<le> INT_MAX" "nat n \<le> cap"
  shows "let ls = take (nat n) (filter (\<lambda>(_, a). passes pred (post_at s a)) (drop (nat k) (spec_listing s (index_abs E s tag))))
    in index_get_posts R cap s tag pred k n = Some (Inr (map snd ls, with_refs s (map snd ls))) \<and> newest_first ls"
proof -
  have snd_filter: "filter Q (map snd xs) = map snd (filter (\<lambda>(_, a). Q a) xs)" for Q and xs :: abs_view
    by (induction xs) auto
  have "\<And>t. tag = Some t \<Longrightarrow> cstring t" using assms(4) by simp
  from get_posts_eq[OF assms(1-3) this assms(5-9)] listing_newest_first[OF index_abs_sorted[OF assms(2)]]
  show ?thesis by (simp add: Let_def listed_posts_abs drop_map snd_filter take_map)
qed

theorem get_posts_refines_witness:
  "index_get_posts list_rb 5 demo_index (Some ''C'') None 0 5 = Some (Inr ([100], with_refs demo_index [100]))"
proof -
  have "ref_blind (None :: (unit post \<Rightarrow> bool) option)" "pred_option cstring (Some ''C'')"
    by (simp_all add: ref_blind_def)
  from get_posts_refines[OF list_rb_laws demo_index_wf this, of 0 5 5] show ?thesis
    unfolding demo_abs demo_listing by (simp add: passes_def)
qed

text \<open>
  C3. Inserting a post whose id is not in the index yet succeeds and keeps the index well-formed: the
  abstract index gains the post under its (time, id), in the list of all posts and in the list of each
  of its tags (names compared without case) and nowhere else; the post gains one reference.
\<close>

theorem insert_refines:
  assumes "rb_laws R E" "index_wf E s" "allocs s" "posts s a = Some p" "insertable E s p"
  shows "\<exists>s'. index_insert_post R s a = Inr (0, s') \<and> index_wf E s' \<and>
     posts s' = (posts s)(a \<mapsto> p\<lparr>post_refcnt := post_refcnt p + 1\<rparr>) \<and>
     ids E s' = insert (post_id p) (ids E s) \<and>
     (\<forall>tag. index_abs E s' tag =
        (if tag = None \<or> (\<exists>t\<in>set (post_tags p). tag \<noteq> None \<and> lower t = lower (the tag))
         then view_insert (post_time p, post_id p) a (index_abs E s tag) else index_abs E s tag))"
proof -
  obtain s' where s': "index_insert_post R s a = Inr (0, s')" "index_wf E s'"
    "posts s' = (posts s)(a \<mapsto> p\<lparr>post_refcnt := post_refcnt p + 1\<rparr>)"
    "ids E s' = insert (post_id p) (ids E s)"
    "view s' (E (index_by_time s')) = view_insert (post_time p, post_id p) a (view s (E (index_by_time s)))"
    "\<And>t. tag_view E s' t = (if lower t \<in> lower ` set (post_tags p)
          then view_insert (post_time p, post_id p) a (tag_view E s t) else tag_view E s t)"
    using index_insert_new[OF assms] by metis
  have "index_abs E s' tag =
      (if tag = None \<or> (\<exists>t\<in>set (post_tags p). tag \<noteq> None \<and> lower t = lower (the tag))
       then view_insert (post_time p, post_id p) a (index_abs E s tag) else index_abs E s tag)" for tag
  proof (cases tag)
    case None
    then show ?thesis by (simp add: index_abs_def s'(5))
  next
    case (Some t)
    have "lower t \<in> lower ` set (post_tags p) \<longleftrightarrow> (\<exists>u\<in>set (post_tags p). lower u = lower t)"
      by (metis imageE imageI)
    with Some show ?thesis by (simp add: index_abs_def s'(6))
  qed
  with s'(1-4) show ?thesis by blast
qed

theorem insert_refines_witness:
  "\<exists>s'. index_insert_post list_rb demo_index 101 = Inr (0, s') \<and>
     index_abs (\<lambda>t. t) s' None = [((10, 1), 100), ((20, 2), 101)]"
proof -
  have p: "posts demo_index 101 = Some (demo_post 2 20 [''C'', ''d''])" by (simp add: demo_index_def)
  from insert_refines[OF list_rb_laws demo_index_wf demo_allocs p demo_insertable] obtain s' where
    "index_insert_post list_rb demo_index 101 = Inr (0, s')"
    "index_abs (\<lambda>t. t) s' None = view_insert (20, 2) 101 (index_abs (\<lambda>t. t) demo_index None)"
    by (auto simp: demo_post_def)
  then show ?thesis by (simp add: demo_abs view_insert_def)
qed

text \<open>
  Inserting a post whose id is in the index already gives \<^verbatim>\<open>-EEXIST\<close>, and everything that was
  allocated for it is given back: the post keeps its references and no structure of the index changes.
\<close>

theorem insert_duplicate:
  assumes "rb_laws R E" "index_wf E s" "allocs s"
    and "posts s a = Some p" "0 < post_refcnt p" "post_id p \<in> ids E s"
  shows "index_insert_post R s a = Inr (- EEXIST, s\<lparr>next_addr := next_addr s + 2\<rparr>)"
  using assms by (rule insert_dup)

theorem insert_duplicate_witness:
  "index_insert_post list_rb demo_index 102 = Inr (- EEXIST, demo_index\<lparr>next_addr := 6\<rparr>)"
proof -
  have "posts demo_index 102 = Some (demo_post 1 30 [])" "next_addr demo_index = 4" by (simp_all add: demo_index_def)
  with insert_duplicate[OF list_rb_laws demo_index_wf demo_allocs, of 102 "demo_post 1 30 []"] demo_ids
  show ?thesis by (simp add: demo_post_def)
qed

text \<open>
  C15. A new post that is listed and newer than every post of the index is the first one the front
  page lists, whatever its page size.
\<close>

theorem new_post_on_front_page:
  assumes "rb_laws R E" "index_wf E s" "allocs s" "posts s a = Some p" "insertable E s p"
    and "post_listed p" "\<forall>k\<in>fst ` set (index_abs E s None). k < (post_time p, post_id p)"
    and "0 < n" "n \<le> INT_MAX" "nat n \<le> cap"
  shows "\<exists>s' l s''. index_insert_post R s a = Inr (0, s') \<and>
     index_get_posts R cap s' None None 0 n = Some (Inr (a # l, s''))"
proof -
  let ?k = "(post_time p, post_id p)"
  obtain s' where s': "index_insert_post R s a = Inr (0, s')" "index_wf E s'"
    "posts s' = (posts s)(a \<mapsto> p\<lparr>post_refcnt := post_refcnt p + 1\<rparr>)"
    "view s' (E (index_by_time s')) = view_insert ?k a (view s (E (index_by_time s)))"
    using index_insert_new[OF assms(1-5)] by metis
  let ?v = "view s (E (index_by_time s))"
  have v: "j < ?k" if "(j, b) \<in> set ?v" for j b
    using assms(7) that by (force simp: index_abs_def)
  have "filter (\<lambda>(j, _). j < ?k) ?v = ?v" "filter (\<lambda>(j, _). ?k < j) ?v = []"
    using v by (auto simp: filter_id_conv filter_empty_conv dest: less_asym)
  then have "view s' (E (index_by_time s')) = ?v @ [(?k, a)]"
    unfolding s'(4) view_insert_def by simp
  moreover have "post_listed (post_at s' a)" using assms(6) by (simp add: post_at_def s'(3))
  ultimately have "spec_listing s' (view s' (E (index_by_time s'))) = (?k, a) # spec_listing s' ?v"
    by (simp add: spec_listing_def)
  then have *: "listed_posts E s' None = a # map snd (spec_listing s' ?v)"
    by (simp add: listed_posts_abs index_abs_def)
  have "index_get_posts R cap s' None None 0 n =
      (let l = take (nat n) (listed_posts E s' None) in Some (Inr (l, with_refs s' l)))"
    using get_posts_eq[OF assms(1) s'(2), of None None 0 n cap] assms(8-10)
    by (simp add: ref_blind_def passes_def)
  moreover obtain m where "nat n = Suc m" using assms(8) by (metis Suc_pred zero_less_nat_eq)
  ultimately show ?thesis using s'(1) * by (auto simp: Let_def)
qed

theorem new_post_on_front_page_witness:
  "\<exists>s' l s''. index_insert_post list_rb demo_index 101 = Inr (0, s') \<and>
     index_get_posts list_rb 10 s' None None 0 10 = Some (Inr (101 # l, s''))"
proof -
  have p: "posts demo_index 101 = Some (demo_post 2 20 [''C'', ''d''])" by (simp add: demo_index_def)
  show ?thesis
    by (rule new_post_on_front_page[OF list_rb_laws demo_index_wf demo_allocs p demo_insertable])
      (simp_all add: demo_post_def demo_abs)
qed

text \<open>
  Looking up an id gives the post with that id, with one more reference, exactly when the id is in
  the index, and leaves the index as it is otherwise.
\<close>

theorem lookup_finds:
  assumes "rb_laws R E" "index_wf E s"
  shows "if i \<in> ids E s
    then \<exists>a p. posts s a = Some p \<and> post_id p = i \<and>
       index_lookup_post R s i = Inr (Some a, s\<lparr>posts := (posts s)(a \<mapsto> p\<lparr>post_refcnt := post_refcnt p + 1\<rparr>)\<rparr>)
    else index_lookup_post R s i = Inr (None, s)"
  using assms by (rule index_lookup_eq)

theorem lookup_finds_witness:
  "(\<exists>a s'. index_lookup_post list_rb demo_index 1 = Inr (Some a, s')) \<and>
   index_lookup_post list_rb demo_index 5 = Inr (None, demo_index)"
  using lookup_finds[OF list_rb_laws demo_index_wf, of 1] lookup_finds[OF list_rb_laws demo_index_wf, of 5]
  unfolding demo_ids by auto

text \<open>Walking a tree forwards visits its elements in order.\<close>

lemma tree_walk_from:
  assumes R: "rb_laws R E" and dist: "distinct (E t)"
  shows "E t = us @ vs \<Longrightarrow> tree_walk R t (hd_opt vs) = Some vs"
proof (induction vs arbitrary: us)
  case Nil
  show ?case by (subst tree_walk.simps) simp
next
  case (Cons v vs)
  from Cons.prems have E: "E t = us @ v # vs" .
  have "rb_next R t v = hd_opt vs" using rb_basic(6)[OF R E dist] .
  moreover have "tree_walk R t (hd_opt vs) = Some vs" using Cons.IH[of "us @ [v]"] E by simp
  ultimately show ?case by (subst tree_walk.simps) simp
qed

lemma tree_walk_all: "rb_laws R E \<Longrightarrow> distinct (E t) \<Longrightarrow> tree_walk R t (rb_first R t) = Some (E t)"
  using tree_walk_from[of R E t "[]" "E t"] by (simp add: rb_basic(3))

lemma tag_counts_eq:
  assumes "rb_laws R E"
  shows "(\<forall>b\<in>set bs. \<exists>x. subs s b = Some x) \<Longrightarrow> tag_counts R s bs =
    Inr (map (\<lambda>b. (si_name (the (subs s b)), of_nat (length (E (si_tree (the (subs s b))))))) bs)"
  by (induction bs) (auto simp: deref_def rb_basic(5)[OF assms])

lemma count_bounds_foldl:
  fixes l :: "(string \<times> u64) list"
  shows "foldl (\<lambda>m (_, n). min m n) m l \<le> m"
    and "(t, n) \<in> set l \<Longrightarrow> foldl (\<lambda>m (_, n). min m n) m l \<le> n"
    and "M \<le> foldl (\<lambda>m (_, n). max m n) M l"
    and "(t, n) \<in> set l \<Longrightarrow> n \<le> foldl (\<lambda>m (_, n). max m n) M l"
proof (induction l arbitrary: m M)
  case (Cons x l)
  obtain u k where x: "x = (u, k)" by (cases x)
  { case 1 show ?case using Cons.IH(1)[of "min m k"] by (simp add: x) }
  { case 2 then show ?case using Cons.IH(1)[of "min m k"] Cons.IH(2)[of "min m k"] by (auto simp: x) }
  { case 3 show ?case using Cons.IH(3)[of "max M k"] by (simp add: x) }
  { case 4 then show ?case using Cons.IH(3)[of "max M k"] Cons.IH(4)[of "max M k"] by (auto simp: x) }
qed simp_all

text \<open>The tags of the index in order, each with the number of its posts.\<close>

definition tags_of :: "('t \<Rightarrow> nat list) \<Rightarrow> ('n, 't) pindex \<Rightarrow> (string \<times> u64) list" where
  "tags_of E s = map (\<lambda>b. (si_name (the (subs s b)), of_nat (length (E (si_tree (the (subs s b))))))) (E (index_by_tag s))"

text \<open>The bounds are the least and the greatest count; without tags they stay where they start.\<close>

lemma count_bounds_mem:
  fixes l :: "(string \<times> u64) list"
  shows "foldl (\<lambda>m (_, n). min m n) m l \<in> insert m (snd ` set l)"
    and "foldl (\<lambda>m (_, n). max m n) m l \<in> insert m (snd ` set l)"
proof (induction l arbitrary: m)
  case (Cons x l)
  obtain u k where x: "x = (u, k)" by (cases x)
  { case 1 show ?case using Cons.IH(1)[of "min m k"] by (auto simp: x min_def split: if_splits) }
  { case 2 show ?case using Cons.IH(2)[of "max m k"] by (auto simp: x max_def split: if_splits) }
qed simp_all

lemma count_bounds_tight:
  assumes "count_bounds l = (lo, hi)"
  shows "\<forall>(t, n)\<in>set l. lo \<le> n \<and> n \<le> hi"
    "if l = [] then lo = - 1 \<and> hi = 0 else lo \<in> snd ` set l \<and> hi \<in> snd ` set l"
proof -
  from assms have lo: "lo = foldl (\<lambda>m (_, n). min m n) (- 1) l" and hi: "hi = foldl (\<lambda>m (_, n). max m n) 0 l"
    by (simp_all add: count_bounds_def)
  show all: "\<forall>(t, n)\<in>set l. lo \<le> n \<and> n \<le> hi"
    using count_bounds_foldl(2,4)[of _ _ l] by (auto simp: lo hi)
  show "if l = [] then lo = - 1 \<and> hi = 0 else lo \<in> snd ` set l \<and> hi \<in> snd ` set l"
  proof (cases "l = []")
    case True
    then show ?thesis by (simp add: lo hi)
  next
    case False
    then obtain t n l' where "l = (t, n) # l'" by (cases l) auto
    then have n: "(t, n) \<in> set l" by simp
    with all have "lo \<le> n" "n \<le> hi" by auto
    moreover have "x = - 1" if "- 1 \<le> x" for x :: u64 using that word_n1_ge[of x] by (rule antisym[rotated])
    moreover have "x = 0" if "x \<le> 0" for x :: u64 using that by simp
    ultimately have "lo = - 1 \<Longrightarrow> n = lo" "hi = 0 \<Longrightarrow> n = hi" by simp_all
    moreover have "lo \<in> insert (- 1) (snd ` set l)" "hi \<in> insert 0 (snd ` set l)"
      unfolding lo hi by (rule count_bounds_mem)+
    moreover have "n \<in> snd ` set l" using n by (metis image_eqI snd_conv)
    ultimately have "lo \<in> snd ` set l" "hi \<in> snd ` set l" by (metis insertE)+
    with False show ?thesis by simp
  qed
qed

text \<open>
  C17. Visiting the tags: the start callback, when there is one, gets the number of tags, and if it fails
  no tag is visited. Otherwise the callback for a tag is called once for each tag, in the order of their
  lower-case names, with the number of the tag's posts and with the least and the greatest of these numbers.
\<close>

theorem for_each_tag_visits:
  assumes "rb_laws R E" "index_wf E s"
  shows "let l = tags_of E s in \<exists>lo hi.
    index_for_each_tag R s init step p = Some (Inr
      (case (case init of None \<Rightarrow> (0, p) | Some f \<Rightarrow> f p (length l)) of (ret, p1) \<Rightarrow>
         if ret \<noteq> 0 then p1
         else case step of None \<Rightarrow> p1 | Some g \<Rightarrow> foldl (\<lambda>q (t, n). g q t n lo hi) p1 l)) \<and>
    (\<forall>(t, n)\<in>set l. n = of_nat (length (index_abs E s (Some t))) \<and> lo \<le> n \<and> n \<le> hi) \<and>
    (if l = [] then lo = - 1 \<and> hi = 0 else lo \<in> snd ` set l \<and> hi \<in> snd ` set l) \<and>
    sorted_wrt (\<lambda>x y. lower (fst x) < lower (fst y)) l"
proof -
  note d = index_wfD[OF assms(2)]
  let ?bs = "E (index_by_tag s)" and ?l = "tags_of E s"
  have ord: "ordered (skey s) ?bs" and live: "\<forall>b\<in>set ?bs. \<exists>x. subs s b = Some x"
    using d(4) by (auto simp: subs_ok_def)
  have walk: "tree_walk R (index_by_tag s) (rb_first R (index_by_tag s)) = Some ?bs"
    by (rule tree_walk_all[OF assms(1) distinct_ordered[OF ord]])
  have counts: "tag_counts R s ?bs = Inr ?l" unfolding tags_of_def by (rule tag_counts_eq[OF assms(1) live])
  have num: "rb_numnodes R (index_by_tag s) = length ?l" by (simp add: tags_of_def rb_basic(5)[OF assms(1)])
  obtain lo hi where b: "count_bounds ?l = (lo, hi)" by (cases "count_bounds ?l")
  have run: "index_for_each_tag R s init step p = Some (Inr
      (case (case init of None \<Rightarrow> (0, p) | Some f \<Rightarrow> f p (length ?l)) of (ret, p1) \<Rightarrow>
         if ret \<noteq> 0 then p1
         else case step of None \<Rightarrow> p1 | Some g \<Rightarrow> foldl (\<lambda>q (t, n). g q t n lo hi) p1 ?l))"
    by (auto simp: index_for_each_tag_def walk counts b num split: option.split prod.split)
  have len: "n = of_nat (length (index_abs E s (Some t)))" if "(t, n) \<in> set ?l" for t n
  proof -
    from that obtain b where b: "b \<in> set ?bs" "t = si_name (the (subs s b))" "n = of_nat (length (E (si_tree (the (subs s b)))))"
      by (auto simp: tags_of_def)
    have "skey s b = lower t" by (simp add: skey_def b(2))
    from tag_view_Some[OF d(4) b(1) this] b(3) show ?thesis by (simp add: index_abs_def view_def)
  qed
  have "sorted_wrt (\<lambda>x y. lower (fst x) < lower (fst y)) ?l"
    using ord by (simp add: tags_of_def sorted_wrt_map skey_def)
  with run len count_bounds_tight[OF b] show ?thesis unfolding Let_def by blast
qed

theorem for_each_tag_visits_witness:
  "index_for_each_tag list_rb demo_index (Some (\<lambda>p k. (0, (''tags'', of_nat k) # p))) (Some (\<lambda>p t n lo hi. (t, n) # p)) [] =
     Some (Inr [(''c'', 1), (''tags'', 1)]) \<and>
   index_for_each_tag list_rb demo_index (Some (\<lambda>p k. (- ENOMEM, p))) (Some (\<lambda>p t n lo hi. (t, n) # p)) [] =
     (Some (Inr []) :: (string \<times> u64) list res option)"
proof -
  have "tags_of (\<lambda>t. t) demo_index = [(''c'', 1)]" by (simp add: tags_of_def demo_index_def)
  with for_each_tag_visits[OF list_rb_laws demo_index_wf, of "Some (\<lambda>p k. (0, (''tags'', of_nat k) # p))" "Some (\<lambda>p t n lo hi. (t, n) # p)" "[]"]
    for_each_tag_visits[OF list_rb_laws demo_index_wf, of "Some (\<lambda>p k. (- ENOMEM, p))" "Some (\<lambda>p t n lo hi. (t, n) # p)" "[] :: (string \<times> u64) list"]
  show ?thesis by (auto simp: ENOMEM_def Let_def)
qed

text \<open>
  C18. What becomes of an insertion when memory runs out. If one of the first two allocations fails, the
  insertion gives \<^verbatim>\<open>-ENOMEM\<close> and the index is as it was. If one fails later, while the tags are added, it
  gives \<^verbatim>\<open>-ENOMEM\<close> too and the reference of the post is given back, but the global entry it frees stays in the
  tree of ids: the next lookup of the id reads freed memory. With tags to add, a failing third allocation is
  enough for that. No other outcome is possible.
\<close>

theorem nomem_dangling:
  assumes "rb_laws R E" "rb_fault_law R E" "index_wf E s"
    and "posts s a = Some p" "0 < post_refcnt p" "insertable E s p"
  shows "\<exists>r s'. index_insert_post R s a = Inr (r, s') \<and>
    (if alloc_ok s (next_addr s) \<and> alloc_ok s (Suc (next_addr s))
     then (r = 0 \<and> index_wf E s' \<or>
           r = - ENOMEM \<and> posts s' = posts s \<and> next_addr s \<in> set (E (index_global s')) \<and> globals s' (next_addr s) = None \<and>
           index_lookup_post R s' (post_id p) = Inl UseAfterFree) \<and>
          (post_tags p \<noteq> [] \<and> \<not> alloc_ok s (next_addr s + 2) \<longrightarrow> r \<noteq> 0)
     else r = - ENOMEM \<and> s' = s\<lparr>next_addr := next_addr s'\<rparr>)"
proof (cases "alloc_ok s (next_addr s) \<and> alloc_ok s (Suc (next_addr s))")
  case True
  with insert_any[OF assms(1-3) _ _ assms(4-6)] show ?thesis unfolding if_P[OF True] by blast
next
  case False
  with insert_nomem[OF assms(4,5,3)] obtain n where "index_insert_post R s a = Inr (- ENOMEM, s\<lparr>next_addr := n\<rparr>)" by auto
  then show ?thesis unfolding if_not_P[OF False] by (intro exI[of _ "- ENOMEM"] exI[of _ "s\<lparr>next_addr := n\<rparr>"]) simp
qed

text \<open>The example index with room for two more allocations.\<close>

theorem nomem_dangling_witness:
  "\<exists>s'. index_insert_post list_rb (demo_index\<lparr>alloc_ok := \<lambda>n. n < 6\<rparr>) 101 = Inr (- ENOMEM, s') \<and>
     index_lookup_post list_rb s' 2 = Inl UseAfterFree"
proof -
  let ?s = "demo_index\<lparr>alloc_ok := \<lambda>n. n < 6\<rparr>" and ?p = "demo_post 2 20 [''C'', ''d'']"
  have wf: "index_wf (\<lambda>t. t) ?s"
    by (simp add: index_wf_def globals_ok_def entries_ok_def subs_ok_def addrs_ok_def demo_index_def demo_post_def
        entry_global_def cstring_def)
  have "posts ?s 101 = Some ?p" "0 < post_refcnt ?p" "next_addr ?s = 4" by (simp_all add: demo_index_def demo_post_def)
  moreover have "insertable (\<lambda>t. t) ?s ?p" using demo_insertable by (simp add: insertable_def ids_def gkey_def[abs_def])
  ultimately show ?thesis
    using nomem_dangling[OF list_rb_laws list_rb_fault wf, of 101 ?p] by (auto simp: demo_post_def)
qed

end
