(* ===== verification/Sexpr.thy ===== *)
theory Sexpr
  imports Libjeffpc
begin

text \<open>
  The s-expression functions of libjeffpc the program calls: parsing, printing, and lookups in an
  association list. They are the fields of a record; \<^verbatim>\<open>sx_laws\<close> states what the program relies on and
  \<^verbatim>\<open>cons_sx\<close> is a concrete instance on cons lists. \<^verbatim>\<open>sexpr_elems\<close> are the elements \<^verbatim>\<open>sexpr_for_each\<close>
  visits. A list is \<^verbatim>\<open>None\<close> when it is empty, as in C.
\<close>

datatype val_type =
    TNULL | TBOOL | TINT | TSTR | TSYM | TCHR | TBLOB | TCONS | TARRAY | TNVL

fun type_of :: "'n val \<Rightarrow> val_type" where
  "type_of VT_NULL = TNULL"
| "type_of (VT_BOOL _) = TBOOL"
| "type_of (VT_INT _) = TINT"
| "type_of (VT_STR _) = TSTR"
| "type_of (VT_SYM _) = TSYM"
| "type_of (VT_CHAR _) = TCHR"
| "type_of (VT_BLOB _) = TBLOB"
| "type_of (VT_CONS _ _) = TCONS"
| "type_of (VT_ARRAY _) = TARRAY"
| "type_of (VT_NVL _) = TNVL"

type_synonym 'n sexpr = "'n val option"

record 'n sx_ops =
  sexpr_parse :: "string \<Rightarrow> int + 'n sexpr"
  sexpr_dump :: "'n sexpr \<Rightarrow> string option"
  alist_val :: "'n sexpr \<Rightarrow> string \<Rightarrow> 'n val option"
  alist_int :: "'n sexpr \<Rightarrow> string \<Rightarrow> u64 option"
  alist_str :: "'n sexpr \<Rightarrow> string \<Rightarrow> string option"
  alist_bool :: "'n sexpr \<Rightarrow> string \<Rightarrow> bool option"
  alist_list :: "'n sexpr \<Rightarrow> string \<Rightarrow> 'n sexpr"
  sexpr_elems :: "'n sexpr \<Rightarrow> 'n val list"

text \<open>A typed lookup succeeds exactly when the value found has the type.\<close>

definition sx_laws :: "'n sx_ops \<Rightarrow> bool" where
  "sx_laws S \<longleftrightarrow>
     (\<forall>lv k i. alist_int S lv k = Some i \<longleftrightarrow> alist_val S lv k = Some (VT_INT i)) \<and>
     (\<forall>lv k s. alist_str S lv k = Some s \<longleftrightarrow> alist_val S lv k = Some (VT_STR s)) \<and>
     (\<forall>lv k b. alist_bool S lv k = Some b \<longleftrightarrow> alist_val S lv k = Some (VT_BOOL b)) \<and>
     (\<forall>k. alist_val S None k = None)"

lemma option_eqI: "(\<And>i. a = Some i \<longleftrightarrow> b = Some i) \<Longrightarrow> a = b"
  by (cases a; cases b) auto

lemma sx_int: "sx_laws S \<Longrightarrow> alist_int S lv k =
    (case alist_val S lv k of Some (VT_INT i) \<Rightarrow> Some i | _ \<Rightarrow> None)"
  by (rule option_eqI) (auto simp: sx_laws_def split: option.splits val.splits)

lemma sx_str: "sx_laws S \<Longrightarrow> alist_str S lv k =
    (case alist_val S lv k of Some (VT_STR s) \<Rightarrow> Some s | _ \<Rightarrow> None)"
  by (rule option_eqI) (auto simp: sx_laws_def split: option.splits val.splits)

lemma sx_bool: "sx_laws S \<Longrightarrow> alist_bool S lv k =
    (case alist_val S lv k of Some (VT_BOOL b) \<Rightarrow> Some b | _ \<Rightarrow> None)"
  by (rule option_eqI) (auto simp: sx_laws_def split: option.splits val.splits)

section \<open>A concrete instance\<close>

fun cons_find :: "'n sexpr \<Rightarrow> string \<Rightarrow> 'n val option" where
  "cons_find (Some (VT_CONS (Some (VT_CONS (Some (VT_SYM k)) v)) rest)) name =
     (if k = name then v else cons_find rest name)"
| "cons_find (Some (VT_CONS _ rest)) name = cons_find rest name"
| "cons_find _ name = None"

fun cons_of :: "'n val list \<Rightarrow> 'n sexpr" where
  "cons_of [] = None"
| "cons_of (v # vs) = Some (VT_CONS (Some v) (cons_of vs))"

fun cons_elems :: "'n sexpr \<Rightarrow> 'n val list" where
  "cons_elems (Some (VT_CONS (Some v) rest)) = v # cons_elems rest"
| "cons_elems _ = []"

lemma cons_elems_of [simp]: "cons_elems (cons_of vs) = vs"
  by (induction vs) auto

definition cons_sx :: "(string \<Rightarrow> int + 'n sexpr) \<Rightarrow> 'n sx_ops" where
  "cons_sx parse =
    \<lparr>sexpr_parse = parse, sexpr_dump = (\<lambda>_. None), alist_val = cons_find,
     alist_int = (\<lambda>lv k. case cons_find lv k of Some (VT_INT i) \<Rightarrow> Some i | _ \<Rightarrow> None),
     alist_str = (\<lambda>lv k. case cons_find lv k of Some (VT_STR s) \<Rightarrow> Some s | _ \<Rightarrow> None),
     alist_bool = (\<lambda>lv k. case cons_find lv k of Some (VT_BOOL b) \<Rightarrow> Some b | _ \<Rightarrow> None),
     alist_list = (\<lambda>lv k. cons_find lv k), sexpr_elems = cons_elems\<rparr>"

lemma cons_sx_laws: "sx_laws (cons_sx parse)"
  by (auto simp: sx_laws_def cons_sx_def split: option.splits val.splits)

end
