(* ===== verification/Config.thy ===== *)
theory Config
  imports Sexpr
begin

text \<open>
  The configuration (\<^verbatim>\<open>config.c\<close>, \<^verbatim>\<open>config.h.in\<close>): an association list is read from a file and every
  setting that is missing, or has the wrong type, takes the default built into the program (the values
  of \<^verbatim>\<open>config.cmake\<close>).
\<close>

section \<open>The settings\<close>

record 'n config =
  cf_scgi_port :: u16
  cf_scgi_threads :: int
  cf_html_index_stories :: u64
  cf_feed_index_stories :: u64
  cf_comment_max_think :: u64
  cf_comment_min_think :: u64
  cf_captcha_a :: u64
  cf_captcha_b :: u64
  cf_data_dir :: "string option"
  cf_web_dir :: "string option"
  cf_template_dir :: "string option"
  cf_base_url :: "string option"
  cf_bug_base_url :: "string option"
  cf_wiki_base_url :: "string option"
  cf_photo_base_url :: "string option"
  cf_tagcloud_min_size :: u64
  cf_tagcloud_max_size :: u64
  cf_twitter_username :: "string option"
  cf_twitter_description :: "string option"
  cf_category_to_tag :: "'n sexpr"

definition DEFAULT_SCGI_PORT :: u64 where "DEFAULT_SCGI_PORT = 2014"
definition DEFAULT_HTML_INDEX_STORIES :: u64 where "DEFAULT_HTML_INDEX_STORIES = 10"
definition DEFAULT_FEED_INDEX_STORIES :: u64 where "DEFAULT_FEED_INDEX_STORIES = 15"
definition DEFAULT_COMMENT_MAX_THINK :: u64 where "DEFAULT_COMMENT_MAX_THINK = 86400"
definition DEFAULT_COMMENT_MIN_THINK :: u64 where "DEFAULT_COMMENT_MIN_THINK = 10"
definition DEFAULT_DATA_DIR :: string where "DEFAULT_DATA_DIR = ''./data''"
definition DEFAULT_WEB_DIR :: string where "DEFAULT_WEB_DIR = ''./web''"
definition DEFAULT_TEMPLATE_DIR :: string where "DEFAULT_TEMPLATE_DIR = ''./templates''"
definition DEFAULT_TAGCLOUD_MIN_SIZE :: u64 where "DEFAULT_TAGCLOUD_MIN_SIZE = 6"
definition DEFAULT_TAGCLOUD_MAX_SIZE :: u64 where "DEFAULT_TAGCLOUD_MAX_SIZE = 18"
definition exampledotcom :: string where "exampledotcom = ''example.com''"

section \<open>Reading one setting\<close>

definition config_load_u64 :: "'n sx_ops \<Rightarrow> 'n sexpr \<Rightarrow> string \<Rightarrow> u64 \<Rightarrow> u64" where
  "config_load_u64 S lv vname def = (case alist_int S lv vname of Some tmp \<Rightarrow> tmp | None \<Rightarrow> def)"

definition config_load_url :: "'n sx_ops \<Rightarrow> 'n sexpr \<Rightarrow> string \<Rightarrow> string option" where
  "config_load_url S lv vname =
     (case alist_str S lv vname of Some s \<Rightarrow> Some s | None \<Rightarrow> Some exampledotcom)"

definition config_load_str :: "'n sx_ops \<Rightarrow> 'n sexpr \<Rightarrow> string \<Rightarrow> string option \<Rightarrow> string option" where
  "config_load_str S lv vname def =
     (case alist_str S lv vname of Some s \<Rightarrow> Some s
      | None \<Rightarrow> (case def of Some d \<Rightarrow> Some d | None \<Rightarrow> None))"

definition config_load_list :: "'n sx_ops \<Rightarrow> 'n sexpr \<Rightarrow> string \<Rightarrow> 'n sexpr" where
  "config_load_list S lv vname = alist_val S lv vname"

definition config_load_scgi_port :: "'n sx_ops \<Rightarrow> 'n sexpr \<Rightarrow> u16" where
  "config_load_scgi_port S lv =
     (let tmp = config_load_u64 S lv ''scgi-port'' DEFAULT_SCGI_PORT
      in if tmp < 65536 then ucast tmp else ucast DEFAULT_SCGI_PORT)"

definition config_load_scgi_threads :: "'n sx_ops \<Rightarrow> 'n sexpr \<Rightarrow> int" where
  "config_load_scgi_threads S lv =
     (let tmp = config_load_u64 S lv ''scgi-threads'' 0
      in if tmp = 0 then -1
         else if uint tmp > INT_MAX then INT_MAX
         else uint tmp)"

section \<open>Reading the file\<close>

text \<open>The two random numbers are arguments. The result is an error number or the settings.\<close>

definition config_fill :: "'n sx_ops \<Rightarrow> u64 \<times> u64 \<Rightarrow> 'n sexpr \<Rightarrow> 'n config" where
  "config_fill S rnd lv =
    \<lparr>cf_scgi_port = config_load_scgi_port S lv,
     cf_scgi_threads = config_load_scgi_threads S lv,
     cf_html_index_stories = config_load_u64 S lv ''html-index-stories'' DEFAULT_HTML_INDEX_STORIES,
     cf_feed_index_stories = config_load_u64 S lv ''feed-index-stories'' DEFAULT_FEED_INDEX_STORIES,
     cf_comment_max_think = config_load_u64 S lv ''comment-max-think'' DEFAULT_COMMENT_MAX_THINK,
     cf_comment_min_think = config_load_u64 S lv ''comment-min-think'' DEFAULT_COMMENT_MIN_THINK,
     cf_captcha_a = config_load_u64 S lv ''comment-captcha-a'' (fst rnd),
     cf_captcha_b = config_load_u64 S lv ''comment-captcha-b'' (snd rnd),
     cf_data_dir = config_load_str S lv ''data-dir'' (Some DEFAULT_DATA_DIR),
     cf_web_dir = config_load_str S lv ''web-dir'' (Some DEFAULT_WEB_DIR),
     cf_template_dir = config_load_str S lv ''template-dir'' (Some DEFAULT_TEMPLATE_DIR),
     cf_base_url = config_load_url S lv ''base-url'',
     cf_bug_base_url = config_load_url S lv ''bug-base-url'',
     cf_wiki_base_url = config_load_url S lv ''wiki-base-url'',
     cf_photo_base_url = config_load_url S lv ''photo-base-url'',
     cf_tagcloud_min_size = config_load_u64 S lv ''tagcloud-min-size'' DEFAULT_TAGCLOUD_MIN_SIZE,
     cf_tagcloud_max_size = config_load_u64 S lv ''tagcloud-max-size'' DEFAULT_TAGCLOUD_MAX_SIZE,
     cf_twitter_username = config_load_str S lv ''twitter-username'' None,
     cf_twitter_description = config_load_str S lv ''twitter-description'' None,
     cf_category_to_tag = config_load_list S lv ''category-to-tag''\<rparr>"

definition config_load :: "'n sx_ops \<Rightarrow> (string \<Rightarrow> int + string) \<Rightarrow> u64 \<times> u64 \<Rightarrow> string option \<Rightarrow> int + 'n config" where
  "config_load S read_file rnd fname =
     (case fname of None \<Rightarrow> Inr (config_fill S rnd None)
      | Some f \<Rightarrow>
          rbind (read_file f) (\<lambda>raw.
          rbind (sexpr_parse S raw) (\<lambda>lv. Inr (config_fill S rnd lv))))"

section \<open>What the rest of the program may rely on\<close>

definition config_ok :: "'n config \<Rightarrow> bool" where
  "config_ok c \<longleftrightarrow>
     (cf_scgi_threads c = -1 \<or> 1 \<le> cf_scgi_threads c \<and> cf_scgi_threads c \<le> INT_MAX) \<and>
     cf_data_dir c \<noteq> None \<and> cf_web_dir c \<noteq> None \<and> cf_template_dir c \<noteq> None \<and>
     cf_base_url c \<noteq> None \<and> cf_bug_base_url c \<noteq> None \<and> cf_wiki_base_url c \<noteq> None \<and> cf_photo_base_url c \<noteq> None"

lemma config_load_strD: "config_load_str S lv k (Some d) \<noteq> None" "config_load_url S lv k \<noteq> None"
  by (auto simp: config_load_str_def config_load_url_def split: option.splits)

lemma config_threads: "config_load_scgi_threads S lv = -1 \<or>
    1 \<le> config_load_scgi_threads S lv \<and> config_load_scgi_threads S lv \<le> INT_MAX"
proof -
  have pos: "1 \<le> uint w" if "w \<noteq> 0" for w :: u64
  proof -
    from that have "0 < w" by (simp add: word_gt_0)
    then show ?thesis by (simp add: word_less_def)
  qed
  show ?thesis
    using pos[of "config_load_u64 S lv ''scgi-threads'' 0"] by (simp add: config_load_scgi_threads_def Let_def)
qed

text \<open>The settings a configuration file holds; without a file there are none.\<close>

definition config_source :: "'n sx_ops \<Rightarrow> (string \<Rightarrow> int + string) \<Rightarrow> string option \<Rightarrow> int + 'n sexpr" where
  "config_source S read_file fname =
     (case fname of None \<Rightarrow> Inr None | Some f \<Rightarrow> rbind (read_file f) (sexpr_parse S))"

lemma config_load_source:
  "config_load S read_file rnd fname = rbind (config_source S read_file fname) (\<lambda>lv. Inr (config_fill S rnd lv))"
  by (simp add: config_load_def config_source_def rbind_assoc split: option.splits)

text \<open>
  Loading fails only when the file cannot be read or parsed, and a configuration that loads is
  usable whatever the file holds: the number of threads is -1 (one for each CPU) or a positive \<^verbatim>\<open>int\<close>,
  every directory and base URL is there, and the port is the one of the file when it is a port number
  and the default otherwise.
\<close>

theorem config_load_usable:
  assumes "config_source S read_file fname = Inr lv"
  shows "\<exists>c. config_load S read_file rnd fname = Inr c \<and> config_ok c \<and> uint (cf_scgi_port c) =
     (case alist_int S lv ''scgi-port'' of Some p \<Rightarrow> if p < 65536 then uint p else 2014 | None \<Rightarrow> 2014)"
proof -
  define c where c: "c = config_fill S rnd lv"
  have load: "config_load S read_file rnd fname = Inr c" using assms by (simp add: config_load_source c)
  have port: "uint (ucast p :: u16) = uint p" if "p < (65536 :: u64)" for p
    using that by (simp add: uint_up_ucast unsigned_ucast_eq word_less_def take_bit_int_eq_self)
  have "config_ok c"
    unfolding c using config_threads[of S lv] config_load_strD[of S lv] by (simp add: config_ok_def config_fill_def)
  moreover have "uint (cf_scgi_port c) =
     (case alist_int S lv ''scgi-port'' of Some p \<Rightarrow> if p < 65536 then uint p else 2014 | None \<Rightarrow> 2014)"
    unfolding c by (auto simp: config_fill_def config_load_scgi_port_def config_load_u64_def DEFAULT_SCGI_PORT_def port
        split: option.splits)
  ultimately show ?thesis using load by blast
qed

theorem config_load_usable_witness:
  "\<exists>c :: alist_nvlist config. config_load (cons_sx (\<lambda>_. Inr (cons_of [VT_CONS (Some (VT_SYM ''scgi-port'')) (Some (VT_INT 70000))])))
     (\<lambda>_. Inr '''') (1, 2) (Some ''c.lisp'') = Inr c \<and> config_ok c \<and> uint (cf_scgi_port c) = 2014"
proof -
  let ?lv = "cons_of [VT_CONS (Some (VT_SYM ''scgi-port'')) (Some (VT_INT 70000))] :: alist_nvlist sexpr"
  let ?S = "cons_sx (\<lambda>_. Inr ?lv)"
  have "config_source ?S (\<lambda>_. Inr '''') (Some ''c.lisp'') = Inr ?lv" by (simp add: config_source_def cons_sx_def)
  from config_load_usable[OF this, of "(1, 2)"] show ?thesis by (simp add: cons_sx_def)
qed

end
