(* ===== verification/Lisplint.thy ===== *)
theory Lisplint
  imports Config
begin

text \<open>
  The metadata checker (\<^verbatim>\<open>lisplint.c\<close>): it reads post, comment and configuration files and checks
  that the settings present have the types the program reads. What it prints on the error stream is
  the list of messages. The main property ties it to the loader of the configuration: what each setting
  becomes when the checker accepts the file, the cases in which a present setting is not kept included.
\<close>

section \<open>The checks\<close>

datatype lint_msg =
    Missing string
  | WrongType string val_type val_type
  | FmtNotInt
  | InvalidFmt
  | ParseError int
  | CannotRead int

type_synonym lint = "bool \<times> lint_msg list"

definition check_type :: "'n sx_ops \<Rightarrow> 'n sexpr \<Rightarrow> string \<Rightarrow> val_type \<Rightarrow> bool \<Rightarrow> lint" where
  "check_type S lv varname ty mandatory =
     (case alist_val S lv varname of
        None \<Rightarrow> (\<not> mandatory, if mandatory then [Missing varname] else [])
      | Some v \<Rightarrow>
          if type_of v \<noteq> ty then (False, [WrongType varname (type_of v) ty])
          else (True, []))"

text \<open>The chains \<open>ret = check_type(...) && ret\<close>: every check runs, whatever the ones before gave.\<close>

fun check_types :: "'n sx_ops \<Rightarrow> 'n sexpr \<Rightarrow> (string \<times> val_type \<times> bool) list \<Rightarrow> lint" where
  "check_types S lv [] = (True, [])"
| "check_types S lv ((n, ty, m) # xs) =
     (let (b, msgs) = check_type S lv n ty m; (ret, msgs') = check_types S lv xs in (b \<and> ret, msgs @ msgs'))"

definition post_checks :: "(string \<times> val_type \<times> bool) list" where
  "post_checks =
    [(''time'', TSTR, True), (''title'', TSTR, True), (''tags'', TCONS, False), (''cats'', TCONS, False),
     (''comments'', TCONS, False), (''listed'', TBOOL, False)]"

definition check_post :: "'n sx_ops \<Rightarrow> 'n sexpr \<Rightarrow> lint" where
  "check_post S lv =
     (case alist_val S lv ''fmt'' of
        None \<Rightarrow> (False, [Missing ''fmt''])
      | Some (VT_INT fmt) \<Rightarrow>
          if fmt = 1 \<or> fmt = 2 \<or> fmt = 3 then check_types S lv post_checks
          else if fmt = 4 then (True, [])
          else (False, [InvalidFmt])
      | Some _ \<Rightarrow> (False, [FmtNotInt]))"

definition comment_checks :: "(string \<times> val_type \<times> bool) list" where
  "comment_checks =
    [(''author'', TSTR, True), (''email'', TSTR, True), (''time'', TSTR, True), (''ip'', TSTR, False),
     (''url'', TSTR, False), (''moderated'', TBOOL, True)]"

definition check_comment :: "'n sx_ops \<Rightarrow> 'n sexpr \<Rightarrow> lint" where
  "check_comment S lv = check_types S lv comment_checks"

definition config_checks :: "(string \<times> val_type \<times> bool) list" where
  "config_checks =
    [(''scgi-port'', TINT, False), (''scgi-threads'', TINT, False), (''html-index-stories'', TINT, False),
     (''feed-index-stories'', TINT, False), (''comment-max-think'', TINT, False), (''comment-min-think'', TINT, False),
     (''comment-captcha-a'', TINT, False), (''comment-captcha-b'', TINT, False), (''data-dir'', TSTR, False),
     (''web-dir'', TSTR, False), (''template-dir'', TSTR, False), (''base-url'', TSTR, False),
     (''bug-base-url'', TSTR, False), (''wiki-base-url'', TSTR, False), (''photo-base-url'', TSTR, False),
     (''tagcloud-min-size'', TINT, False), (''tagcloud-max-size'', TINT, False), (''category-to-tag'', TCONS, False)]"

definition check_config :: "'n sx_ops \<Rightarrow> 'n sexpr \<Rightarrow> lint" where
  "check_config S lv = check_types S lv config_checks"

section \<open>Files and the command line\<close>

type_synonym 'n checker = "'n sx_ops \<Rightarrow> 'n sexpr \<Rightarrow> lint"

definition onefile :: "'n sx_ops \<Rightarrow> 'n checker \<Rightarrow> string \<Rightarrow> lint" where
  "onefile S checker ibuf =
     (case sexpr_parse S ibuf of Inl e \<Rightarrow> (False, [ParseError e]) | Inr lv \<Rightarrow> checker S lv)"

text \<open>
  The options as \<^verbatim>\<open>getopt\<close> hands them out; \<^verbatim>\<open>None\<close> is the call of \<^verbatim>\<open>usage\<close>, which exits with 2.
\<close>

fun pick_checker :: "'n checker option \<Rightarrow> char list \<Rightarrow> 'n checker option option" where
  "pick_checker c [] = Some c"
| "pick_checker c (opt # opts) =
     (if opt = CHR ''p'' then pick_checker (Some check_post) opts
      else if opt = CHR ''c'' then pick_checker (Some check_comment) opts
      else if opt = CHR ''C'' then pick_checker (Some check_config) opts
      else if opt = CHR ''v'' then pick_checker c opts
      else None)"

fun lint_files :: "'n sx_ops \<Rightarrow> (string \<Rightarrow> int + string) \<Rightarrow> 'n checker \<Rightarrow> string list \<Rightarrow> nat \<Rightarrow> nat" where
  "lint_files S read_file checker [] result = result"
| "lint_files S read_file checker (f # fs) result =
     (case read_file f of
        Inl e \<Rightarrow> lint_files S read_file checker fs (result + 1)
      | Inr raw \<Rightarrow>
          lint_files S read_file checker fs (if fst (onefile S checker raw) then result else result + 1))"

definition lint_main :: "'n sx_ops \<Rightarrow> (string \<Rightarrow> int + string) \<Rightarrow> char list \<Rightarrow> string list \<Rightarrow> int" where
  "lint_main S read_file opts fs =
     (case pick_checker None opts of
        None \<Rightarrow> 2
      | Some c \<Rightarrow>
          if fs = [] then 2
          else (case c of None \<Rightarrow> 2
                | Some checker \<Rightarrow> if lint_files S read_file checker fs 0 = 0 then 0 else 1))"

section \<open>What acceptance means\<close>

definition typed :: "'n sx_ops \<Rightarrow> 'n sexpr \<Rightarrow> string \<times> val_type \<times> bool \<Rightarrow> bool" where
  "typed S lv = (\<lambda>(n, ty, m). case alist_val S lv n of None \<Rightarrow> \<not> m | Some v \<Rightarrow> type_of v = ty)"

lemma check_type_iff: "fst (check_type S lv n ty m) \<longleftrightarrow> typed S lv (n, ty, m)"
  by (simp add: check_type_def typed_def split: option.splits)

lemma check_types_iff: "fst (check_types S lv xs) \<longleftrightarrow> (\<forall>x\<in>set xs. typed S lv x)"
proof (induction xs)
  case (Cons x xs)
  obtain n ty m where "x = (n, ty, m)" by (cases x)
  with Cons show ?case using check_type_iff[of S lv n ty m] by (simp add: Let_def split_beta)
qed simp

lemma check_type_silent: "fst (check_type S lv n ty m) \<longleftrightarrow> snd (check_type S lv n ty m) = []"
  by (simp add: check_type_def split: option.splits)

lemma check_types_silent: "fst (check_types S lv xs) \<longleftrightarrow> snd (check_types S lv xs) = []"
proof (induction xs)
  case (Cons x xs)
  obtain n ty m where "x = (n, ty, m)" by (cases x)
  with Cons show ?case using check_type_silent[of S lv n ty m] by (simp add: Let_def split_beta)
qed simp

definition accepts :: "'n checker \<Rightarrow> 'n sx_ops \<Rightarrow> 'n sexpr \<Rightarrow> bool" where
  "accepts c S lv \<longleftrightarrow> fst (c S lv)"

lemma type_ofD:
  "type_of v = TINT \<Longrightarrow> \<exists>i. v = VT_INT i" "type_of v = TSTR \<Longrightarrow> \<exists>s. v = VT_STR s"
  "type_of v = TBOOL \<Longrightarrow> \<exists>b. v = VT_BOOL b"
  by (cases v; simp)+

text \<open>A setting is what the file says, or its default when the file does not have it.\<close>

definition reads_int :: "'n sx_ops \<Rightarrow> 'n sexpr \<Rightarrow> string \<times> u64 \<times> u64 \<Rightarrow> bool" where
  "reads_int S lv = (\<lambda>(k, d, i). case alist_val S lv k of None \<Rightarrow> i = d | Some v \<Rightarrow> v = VT_INT i)"

definition reads_str :: "'n sx_ops \<Rightarrow> 'n sexpr \<Rightarrow> string \<times> string \<times> string option \<Rightarrow> bool" where
  "reads_str S lv = (\<lambda>(k, d, s). case alist_val S lv k of None \<Rightarrow> s = Some d | Some v \<Rightarrow> \<exists>t. v = VT_STR t \<and> s = Some t)"

lemma load_u64_typed:
  assumes "sx_laws S" "typed S lv (k, TINT, m)"
  shows "reads_int S lv (k, d, config_load_u64 S lv k d)"
  using assms(2) sx_int[OF assms(1), of lv k]
  by (auto simp: typed_def reads_int_def config_load_u64_def dest!: type_ofD(1) split: option.splits)

lemma load_str_typed:
  assumes "sx_laws S" "typed S lv (k, TSTR, m)"
  shows "reads_str S lv (k, d, config_load_str S lv k (Some d))" "reads_str S lv (k, exampledotcom, config_load_url S lv k)"
  using assms(2) sx_str[OF assms(1), of lv k]
  by (auto simp: typed_def reads_str_def config_load_str_def config_load_url_def dest!: type_ofD(2) split: option.splits)

lemma load_port_typed:
  assumes "sx_laws S" "typed S lv (''scgi-port'', TINT, m)"
  shows "case alist_val S lv ''scgi-port'' of None \<Rightarrow> uint (config_load_scgi_port S lv) = 2014
     | Some v \<Rightarrow> \<exists>i. v = VT_INT i \<and> uint (config_load_scgi_port S lv) = (if i < 65536 then uint i else 2014)"
proof -
  have port: "uint (ucast p :: u16) = uint p" if "p < (65536 :: u64)" for p
    using that by (simp add: uint_up_ucast unsigned_ucast_eq word_less_def take_bit_int_eq_self)
  have i: "alist_int S lv ''scgi-port'' = (case alist_val S lv ''scgi-port'' of Some (VT_INT i) \<Rightarrow> Some i | _ \<Rightarrow> None)"
    by (rule sx_int[OF assms(1)])
  consider "alist_val S lv ''scgi-port'' = None" | p where "alist_val S lv ''scgi-port'' = Some (VT_INT p)"
    using assms(2) type_ofD(1) by (fastforce simp: typed_def split: option.splits)
  then show ?thesis
  proof cases
    case 1
    with i show ?thesis by (simp add: config_load_scgi_port_def config_load_u64_def DEFAULT_SCGI_PORT_def)
  next
    case (2 p)
    with i show ?thesis by (simp add: config_load_scgi_port_def config_load_u64_def DEFAULT_SCGI_PORT_def port)
  qed
qed

lemma load_threads_typed:
  assumes "sx_laws S" "typed S lv (''scgi-threads'', TINT, m)"
  shows "case alist_val S lv ''scgi-threads'' of None \<Rightarrow> config_load_scgi_threads S lv = -1
     | Some v \<Rightarrow> \<exists>i. v = VT_INT i \<and> config_load_scgi_threads S lv = (if i = 0 then -1 else min (uint i) INT_MAX)"
proof -
  have i: "alist_int S lv ''scgi-threads'' = (case alist_val S lv ''scgi-threads'' of Some (VT_INT i) \<Rightarrow> Some i | _ \<Rightarrow> None)"
    by (rule sx_int[OF assms(1)])
  consider "alist_val S lv ''scgi-threads'' = None" | p where "alist_val S lv ''scgi-threads'' = Some (VT_INT p)"
    using assms(2) type_ofD(1) by (fastforce simp: typed_def split: option.splits)
  then show ?thesis
    by cases (use i in \<open>simp_all add: config_load_scgi_threads_def config_load_u64_def Let_def\<close>)
qed

lemma load_str_any:
  assumes "sx_laws S"
  shows "config_load_str S lv k None = (case alist_val S lv k of Some (VT_STR t) \<Rightarrow> Some t | _ \<Rightarrow> None)"
  using sx_str[OF assms, of lv k] by (simp add: config_load_str_def split: option.splits val.splits)

text \<open>
  C39. What an accepted configuration is read as, setting by setting. The numbers of stories, thinking times,
  captcha numbers and tag sizes, the directories and the base URLs are those of the file, a default being used
  only for one the file does not have. The port is that of the file if it is below 65536 and 2014 otherwise,
  which the checker does not warn of; zero threads become -1 and too many the largest \<^verbatim>\<open>int\<close>; the two
  Twitter settings are not checked, and one that is not a string is dropped; the list of categories is the
  one of the file.
\<close>

theorem lint_config_sound:
  assumes "sx_laws S" "accepts check_config S lv"
  shows "let c = config_fill S rnd lv in
     list_all (reads_int S lv)
       [(''html-index-stories'', DEFAULT_HTML_INDEX_STORIES, cf_html_index_stories c),
        (''feed-index-stories'', DEFAULT_FEED_INDEX_STORIES, cf_feed_index_stories c),
        (''comment-max-think'', DEFAULT_COMMENT_MAX_THINK, cf_comment_max_think c),
        (''comment-min-think'', DEFAULT_COMMENT_MIN_THINK, cf_comment_min_think c),
        (''comment-captcha-a'', fst rnd, cf_captcha_a c), (''comment-captcha-b'', snd rnd, cf_captcha_b c),
        (''tagcloud-min-size'', DEFAULT_TAGCLOUD_MIN_SIZE, cf_tagcloud_min_size c),
        (''tagcloud-max-size'', DEFAULT_TAGCLOUD_MAX_SIZE, cf_tagcloud_max_size c)] \<and>
     list_all (reads_str S lv)
       [(''data-dir'', DEFAULT_DATA_DIR, cf_data_dir c), (''web-dir'', DEFAULT_WEB_DIR, cf_web_dir c),
        (''template-dir'', DEFAULT_TEMPLATE_DIR, cf_template_dir c), (''base-url'', exampledotcom, cf_base_url c),
        (''bug-base-url'', exampledotcom, cf_bug_base_url c), (''wiki-base-url'', exampledotcom, cf_wiki_base_url c),
        (''photo-base-url'', exampledotcom, cf_photo_base_url c)] \<and>
     (case alist_val S lv ''scgi-port'' of None \<Rightarrow> uint (cf_scgi_port c) = 2014
      | Some v \<Rightarrow> \<exists>i. v = VT_INT i \<and> uint (cf_scgi_port c) = (if i < 65536 then uint i else 2014)) \<and>
     (case alist_val S lv ''scgi-threads'' of None \<Rightarrow> cf_scgi_threads c = -1
      | Some v \<Rightarrow> \<exists>i. v = VT_INT i \<and> cf_scgi_threads c = (if i = 0 then -1 else min (uint i) INT_MAX)) \<and>
     cf_twitter_username c = (case alist_val S lv ''twitter-username'' of Some (VT_STR t) \<Rightarrow> Some t | _ \<Rightarrow> None) \<and>
     cf_twitter_description c = (case alist_val S lv ''twitter-description'' of Some (VT_STR t) \<Rightarrow> Some t | _ \<Rightarrow> None) \<and>
     cf_category_to_tag c = alist_val S lv ''category-to-tag'' \<and> pred_option (\<lambda>v. type_of v = TCONS) (cf_category_to_tag c)"
proof -
  have t: "typed S lv x" if "x \<in> set config_checks" for x
    using assms(2) that by (simp add: accepts_def check_config_def check_types_iff)
  have loads: "(k, TINT, False) \<in> set config_checks \<Longrightarrow> reads_int S lv (k, i, config_load_u64 S lv k i)"
    "(k, TSTR, False) \<in> set config_checks \<Longrightarrow> reads_str S lv (k, d, config_load_str S lv k (Some d))"
    "(k, TSTR, False) \<in> set config_checks \<Longrightarrow> reads_str S lv (k, exampledotcom, config_load_url S lv k)" for k i d
    using load_u64_typed[OF assms(1) t] load_str_typed[OF assms(1) t] by simp_all
  have "typed S lv (''category-to-tag'', TCONS, False)" by (rule t) (simp add: config_checks_def)
  then have cats: "pred_option (\<lambda>v. type_of v = TCONS) (alist_val S lv ''category-to-tag'')"
    by (auto simp: typed_def split: option.splits)
  have port: "typed S lv (''scgi-port'', TINT, False)" "typed S lv (''scgi-threads'', TINT, False)"
    by (rule t, simp add: config_checks_def)+
  note special = load_port_typed[OF assms(1) port(1)] load_threads_typed[OF assms(1) port(2)]
  define c where "c = config_fill S rnd lv"
  have fields: "cf_scgi_port c = config_load_scgi_port S lv" "cf_scgi_threads c = config_load_scgi_threads S lv"
    by (simp_all add: c_def config_fill_def)
  show ?thesis
    unfolding Let_def c_def[symmetric] fields
  proof (intro conjI special)
  qed (simp_all add: c_def config_fill_def loads config_checks_def load_str_any[OF assms(1)] config_load_list_def cats)
qed

definition demo_config :: "alist_nvlist sexpr" where
  "demo_config = cons_of [VT_CONS (Some (VT_SYM ''html-index-stories'')) (Some (VT_INT 7)),
     VT_CONS (Some (VT_SYM ''base-url'')) (Some (VT_STR ''http://blahg'')),
     VT_CONS (Some (VT_SYM ''scgi-port'')) (Some (VT_INT 70000))]"

theorem lint_config_sound_witness:
  "let c = config_fill (cons_sx (\<lambda>_. Inl 1)) (1, 2) demo_config in
     cf_html_index_stories c = 7 \<and> cf_feed_index_stories c = DEFAULT_FEED_INDEX_STORIES \<and>
     cf_base_url c = Some ''http://blahg'' \<and> uint (cf_scgi_port c) = 2014"
proof -
  let ?S = "cons_sx (\<lambda>_. Inl 1) :: alist_nvlist sx_ops"
  have "accepts check_config ?S demo_config"
    unfolding accepts_def check_config_def check_types_iff
    by (simp add: config_checks_def typed_def demo_config_def cons_sx_def)
  from lint_config_sound[OF cons_sx_laws this, of "(1, 2)"] show ?thesis
    by (simp add: Let_def reads_int_def reads_str_def demo_config_def cons_sx_def)
qed

lemma lint_files_count:
  "lint_files S rf c fs n = n + length (filter (\<lambda>f. case rf f of Inl e \<Rightarrow> True | Inr raw \<Rightarrow> \<not> fst (onefile S c raw)) fs)"
  by (induction fs arbitrary: n) (auto split: sum.splits)

text \<open>
  The checker exits with 0 exactly when a kind of file was chosen by valid options, files were
  given, and every one of them can be read, parses, and passes the check of the last kind chosen.
\<close>

theorem lint_exit_zero:
  "lint_main S rf opts fs = 0 \<longleftrightarrow>
     (\<exists>c. pick_checker None opts = Some (Some c) \<and> fs \<noteq> [] \<and>
        (\<forall>f\<in>set fs. \<exists>raw lv. rf f = Inr raw \<and> sexpr_parse S raw = Inr lv \<and> accepts c S lv))"
proof -
  have "(case rf f of Inl e \<Rightarrow> True | Inr raw \<Rightarrow> \<not> fst (onefile S c raw)) \<longleftrightarrow>
      \<not> (\<exists>raw lv. rf f = Inr raw \<and> sexpr_parse S raw = Inr lv \<and> accepts c S lv)" for f c
    by (auto simp: onefile_def accepts_def split: sum.splits)
  then have "lint_files S rf c fs 0 = 0 \<longleftrightarrow>
      (\<forall>f\<in>set fs. \<exists>raw lv. rf f = Inr raw \<and> sexpr_parse S raw = Inr lv \<and> accepts c S lv)" for c
    by (simp add: lint_files_count filter_empty_conv)
  then show ?thesis by (auto simp: lint_main_def split: option.splits)
qed

theorem lint_exit_zero_witness:
  "lint_main (cons_sx (\<lambda>_. Inr None) :: alist_nvlist sx_ops) (\<lambda>_. Inr '''') ''C'' [''f''] = 0"
proof -
  have "accepts check_config (cons_sx (\<lambda>_. Inr None) :: alist_nvlist sx_ops) None"
    unfolding accepts_def check_config_def check_types_iff by (simp add: typed_def config_checks_def cons_sx_def)
  then show ?thesis
    unfolding lint_exit_zero by (intro exI[of _ check_config]) (simp add: cons_sx_def)
qed

text \<open>
  A rejected file is reported: the checker accepts post, comment and configuration metadata exactly
  when it prints no message about it.
\<close>

theorem lint_reports:
  "accepts check_post S lv = (snd (check_post S lv) = []) \<and>
   accepts check_comment S lv = (snd (check_comment S lv) = []) \<and>
   accepts check_config S lv = (snd (check_config S lv) = [])"
  by (auto simp: accepts_def check_post_def check_comment_def check_config_def check_types_silent
      split: option.splits val.splits)

end
