(* ===== verification/PostFile.thy ===== *)
theory PostFile
  imports PostIndex Config Escape
begin

text \<open>
  The files behind a post: \<^verbatim>\<open>post_get_cached_file\<close> of \<^verbatim>\<open>post.c\<close>, which remembers in the post every file
  it was made from, and the code listings of \<^verbatim>\<open>listing.c\<close>.
\<close>

section \<open>What the posts need from outside\<close>

text \<open>
  The file cache of libjeffpc gives an error number, or the text of a file and its revision;
  \<^verbatim>\<open>fe_newer\<close> tells whether the file has a newer revision than the one given. \<^verbatim>\<open>fe_mem\<close> is whether
  memory for the text of a listing can be had.
\<close>

record 'n file_env =
  fe_cfg :: "'n config"
  fe_nvl :: "'n nvl_ops"
  fe_cache_get :: "string \<Rightarrow> int + string \<times> u64"
  fe_newer :: "string \<Rightarrow> u64 \<Rightarrow> bool"
  fe_xstrerror :: "int \<Rightarrow> string"
  fe_mem :: bool

text \<open>\<^verbatim>\<open>str_cstr\<close> of a string that may be NULL, as an argument of \<^verbatim>\<open>%s\<close> or \<^verbatim>\<open>strcmp\<close>.\<close>

definition str_cstr :: "string option \<Rightarrow> string res" where
  "str_cstr s = (case s of None \<Rightarrow> Inl NullDeref | Some t \<Rightarrow> Inr t)"

lemma str_cstr_simps [simp]: "str_cstr None = Inl NullDeref" "str_cstr (Some t) = Inr t"
  by (simp_all add: str_cstr_def)

section \<open>Reading a file of a post\<close>

definition post_get_cached_file ::
  "'n file_env \<Rightarrow> 'n post \<Rightarrow> string \<Rightarrow> (int + string) \<times> 'n post" where
  "post_get_cached_file E post path =
     (case fe_cache_get E path of
        Inl e \<Rightarrow> (Inl e, post)
      | Inr (out, rv) \<Rightarrow>
          let (err, files) = nvl_set_int (fe_nvl E) (post_files post) path rv
          in (if err \<noteq> 0 then Inl err else Inr out, post\<lparr>post_files := files\<rparr>))"

text \<open>The id of a post is unsigned but printed with \<^verbatim>\<open>%d\<close>.\<close>

definition post_path :: "'n file_env \<Rightarrow> u32 \<Rightarrow> string \<Rightarrow> string res" where
  "post_path E pid fname =
     rbind (str_cstr (cf_data_dir (fe_cfg E))) (\<lambda>dir.
       Inr (c_snprintf FILENAME_MAX (dir @ ''/posts/'' @ dec_of_int (sint pid) @ ''/'' @ fname)))"

section \<open>Code listings\<close>

definition listing_str :: "bool \<Rightarrow> string option \<Rightarrow> string option res" where
  "listing_str mem s = rbind (str_cstr s) (\<lambda>t. mangle_htmlescape mem t)"

definition listing :: "'n file_env \<Rightarrow> 'n post \<Rightarrow> string \<Rightarrow> (string option \<times> 'n post) res" where
  "listing E post fname =
     rbind (post_path E (post_id post) fname) (\<lambda>path.
       case post_get_cached_file E post path of
         (Inr inp, post') \<Rightarrow> rbind (listing_str (fe_mem E) (Some inp)) (\<lambda>s. Inr (s, post'))
       | (Inl e, post') \<Rightarrow>
           Inr (Some (c_snprintf FILENAME_MAX (''Failed to read in listing '' @ [CHR 0x27] @ dec_of_int (sint (post_id post)) @
             ''/'' @ fname @ [CHR 0x27] @ '': '' @ fe_xstrerror E e)), post'))"

text \<open>Everything but the list of files stays as it is.\<close>

definition same_post :: "'n post \<Rightarrow> 'n post \<Rightarrow> bool" where
  "same_post p q \<longleftrightarrow> (\<exists>files. q = p\<lparr>post_files := files\<rparr>)"

lemma same_post_refl [simp]: "same_post p p"
  unfolding same_post_def by (rule exI[of _ "post_files p"]) simp

lemma same_post_trans: "same_post p q \<Longrightarrow> same_post q r \<Longrightarrow> same_post p r"
  by (auto simp: same_post_def)

lemma get_cached_file_same: "post_get_cached_file E p path = (r, q) \<Longrightarrow> same_post p q"
  by (auto simp: post_get_cached_file_def same_post_def Let_def split: sum.splits prod.splits intro: exI[of _ "post_files p"])

lemma listing_same: "listing E p f = Inr (r, q) \<Longrightarrow> same_post p q"
proof -
  assume l: "listing E p f = Inr (r, q)"
  then obtain path where path: "post_path E (post_id p) f = Inr path" by (auto simp: listing_def rbind_eq_Inr)
  obtain x p' where g: "post_get_cached_file E p path = (x, p')" by (cases "post_get_cached_file E p path")
  have "q = p'" using l path g by (cases x) (auto simp: listing_def rbind_eq_Inr)
  with get_cached_file_same[OF g] show ?thesis by simp
qed

end
