(* ===== verification/PostCmds.thy ===== *)
theory PostCmds
  imports PostFile
begin

text \<open>
  The commands of the post language (\<^verbatim>\<open>post_fmt3_cmds.c\<close>): the function behind each command, the table
  of commands with the arguments each takes, and the lookup of a command by binary search. An argument
  that is not given is \<^verbatim>\<open>None\<close>. Strings are reference counted and immutable, so the model keeps their
  text; a NULL string counts as empty when strings are joined.
\<close>

section \<open>The state of the parser\<close>

record 'n fmt3 =
  f3_post :: "'n post"
  table_nesting :: int
  texttt_nesting :: int
  sc_title :: "string option"
  sc_pub :: "string option"
  sc_tags :: "string list"
  sc_twitter_img :: "string option"
  stroutput :: "string option"

fun str_cat :: "string option list \<Rightarrow> string" where
  "str_cat [] = []"
| "str_cat (None # xs) = str_cat xs"
| "str_cat (Some s # xs) = s @ str_cat xs"

abbreviation DQ :: string where
  "DQ \<equiv> [CHR 0x22]"

type_synonym 'n cmd_fxn =
  "'n file_env \<Rightarrow> 'n fmt3 \<Rightarrow> string option \<Rightarrow> string option \<Rightarrow> (string option \<times> 'n fmt3) res"

text \<open>A command that only makes a text of its arguments.\<close>

definition pure_cmd :: "'n fmt3 \<Rightarrow> string option list \<Rightarrow> (string option \<times> 'n fmt3) res" where
  "pure_cmd d parts = Inr (Some (str_cat parts), d)"

definition or_else :: "string option \<Rightarrow> string option \<Rightarrow> string option" where
  "or_else opt txt = (case opt of None \<Rightarrow> txt | Some _ \<Rightarrow> opt)"

section \<open>The commands\<close>

definition process_listing :: "'n cmd_fxn" where
  "process_listing E d txt opt =
     rbind (str_cstr txt) (\<lambda>t.
     rbind (listing E (f3_post d) t) (\<lambda>(str, p).
       pure_cmd (d\<lparr>f3_post := p\<rparr>) [Some ''</p><pre>'', str, Some ''</pre><p>'']))"

definition process_link :: "'n cmd_fxn" where
  "process_link E d txt opt =
     pure_cmd d [Some (''<a href='' @ DQ), txt, Some (DQ @ ''>''), or_else opt txt, Some ''</a>'']"

definition process_photolink :: "'n cmd_fxn" where
  "process_photolink E d txt opt =
     pure_cmd d [Some (''<a href='' @ DQ), cf_photo_base_url (fe_cfg E), Some ''/'', txt, Some (DQ @ ''>''),
       or_else opt txt, Some ''</a>'']"

definition process_img :: "'n cmd_fxn" where
  "process_img E d txt opt =
     pure_cmd d [Some (''<img src='' @ DQ), txt, Some (DQ @ '' alt='' @ DQ), opt, Some (DQ @ '' />'')]"

definition process_photo :: "'n cmd_fxn" where
  "process_photo E d txt opt =
     pure_cmd d [Some (''<img src='' @ DQ), cf_photo_base_url (fe_cfg E), Some ''/'', txt, Some (DQ @ '' alt='' @ DQ),
       opt, Some (DQ @ '' />'')]"

definition process_emph :: "'n cmd_fxn" where
  "process_emph E d txt opt = pure_cmd d [Some ''<em>'', txt, Some ''</em>'']"

definition process_texttt :: "'n cmd_fxn" where
  "process_texttt E d txt opt = pure_cmd d [Some (''<span class='' @ DQ @ ''tt'' @ DQ @ ''>''), txt, Some ''</span>'']"

definition process_textbf :: "'n cmd_fxn" where
  "process_textbf E d txt opt = pure_cmd d [Some ''<strong>'', txt, Some ''</strong>'']"

definition process_textit :: "'n cmd_fxn" where
  "process_textit E d txt opt = pure_cmd d [Some ''<i>'', txt, Some ''</i>'']"

definition inval_environ :: "string \<Rightarrow> string" where
  "inval_environ t = str_cat [Some (''[INVAL ENVIRON '' @ [CHR 0x27]), Some t, Some ([CHR 0x27] @ '']'')]"

definition process_begin :: "'n cmd_fxn" where
  "process_begin E d txt opt =
     rbind (str_cstr txt) (\<lambda>t.
       if t = ''texttt'' then
         rbind (int_add (texttt_nesting d) 1) (\<lambda>n. Inr (Some ''</p><pre>'', d\<lparr>texttt_nesting := n\<rparr>))
       else if t = ''enumerate'' then Inr (Some ''</p><ol>'', d)
       else if t = ''itemize'' then Inr (Some ''</p><ul>'', d)
       else if t = ''description'' then Inr (Some ''</p><dl>'', d)
       else if t = ''quote'' then Inr (Some ''</p><blockquote><p>'', d)
       else if t = ''tabular'' then
         rbind (int_add (table_nesting d) 1) (\<lambda>n.
           Inr (Some (if table_nesting d \<noteq> 0 then ''<table>'' else ''</p><table>''), d\<lparr>table_nesting := n\<rparr>))
       else Inr (Some (inval_environ t), d))"

definition process_end :: "'n cmd_fxn" where
  "process_end E d txt opt =
     rbind (str_cstr txt) (\<lambda>t.
       if t = ''texttt'' then
         rbind (int_add (texttt_nesting d) (-1)) (\<lambda>n. Inr (Some ''</pre><p>'', d\<lparr>texttt_nesting := n\<rparr>))
       else if t = ''enumerate'' then Inr (Some ''</ol><p>'', d)
       else if t = ''itemize'' then Inr (Some ''</ul><p>'', d)
       else if t = ''description'' then Inr (Some ''</dl><p>'', d)
       else if t = ''quote'' then Inr (Some ''</p></blockquote><p>'', d)
       else if t = ''tabular'' then
         rbind (int_add (table_nesting d) (-1)) (\<lambda>n.
           Inr (Some (if n \<noteq> 0 then ''</table>'' else ''</table><p>''), d\<lparr>table_nesting := n\<rparr>))
       else Inr (Some (inval_environ t), d))"

definition process_item :: "'n cmd_fxn" where
  "process_item E d txt opt =
     (case opt of
        None \<Rightarrow> pure_cmd d [Some ''<li>'', txt, Some ''</li>'']
      | Some _ \<Rightarrow> pure_cmd d [Some ''<dt>'', opt, Some ''</dt><dd>'', txt, Some ''</dd>''])"

definition process_abbrev :: "'n cmd_fxn" where
  "process_abbrev E d txt opt =
     pure_cmd d [Some (''<abbr title='' @ DQ), or_else opt txt, Some (DQ @ ''>''), txt, Some ''</abbr>'']"

definition process_section :: "'n cmd_fxn" where
  "process_section E d txt opt = pure_cmd d [Some ''</p><h3>'', txt, Some ''</h3><p>'']"

definition process_subsection :: "'n cmd_fxn" where
  "process_subsection E d txt opt = pure_cmd d [Some ''</p><h4>'', txt, Some ''</h4><p>'']"

definition process_subsubsection :: "'n cmd_fxn" where
  "process_subsubsection E d txt opt = pure_cmd d [Some ''</p><h5>'', txt, Some ''</h5><p>'']"

definition process_wiki :: "'n cmd_fxn" where
  "process_wiki E d txt opt =
     pure_cmd d [Some (''<a href='' @ DQ), cf_wiki_base_url (fe_cfg E), Some ''/'', txt, Some (DQ @ ''><img src='' @ DQ),
       cf_base_url (fe_cfg E), Some (''/wiki.png'' @ DQ @ '' alt='' @ DQ @ ''Wikipedia article:'' @ DQ @ '' />&nbsp;''),
       or_else opt txt, Some ''</a>'']"

definition process_bug :: "'n cmd_fxn" where
  "process_bug E d txt opt =
     pure_cmd d [Some (''<a href='' @ DQ), cf_bug_base_url (fe_cfg E), Some ''/'', txt, Some (DQ @ ''><img src='' @ DQ),
       cf_base_url (fe_cfg E), Some (''/bug.png'' @ DQ @ '' alt='' @ DQ @ ''bug #'' @ DQ @ '' />&nbsp;''),
       txt, Some ''</a>'']"

text \<open>The links to posts and tags are printed into a buffer of 1024 bytes.\<close>

definition link_buf :: "'n file_env \<Rightarrow> string \<Rightarrow> 'n fmt3 \<Rightarrow> string option \<Rightarrow> string option \<Rightarrow> (string option \<times> 'n fmt3) res" where
  "link_buf E query d txt opt =
     rbind (str_cstr (cf_base_url (fe_cfg E))) (\<lambda>base.
     rbind (str_cstr txt) (\<lambda>t.
     rbind (str_cstr (or_else opt txt)) (\<lambda>lbl.
       Inr (Some (c_snprintf 1024 (''<a href='' @ DQ @ base @ query @ t @ DQ @ ''>'' @ lbl @ ''</a>'')), d))))"

definition process_post :: "'n cmd_fxn" where
  "process_post E d txt opt = link_buf E ''/?p='' d txt opt"

definition process_taglink :: "'n cmd_fxn" where
  "process_taglink E d txt opt = link_buf E ''/?tag='' d txt opt"

definition process_degree :: "'n cmd_fxn" where
  "process_degree E d txt opt = pure_cmd d [Some [CHR 0xC2, CHR 0xB0], txt]"

definition process_trow :: "'n cmd_fxn" where
  "process_trow E d txt opt = pure_cmd d [Some ''<tr><td>'', txt, Some ''</td></tr>'']"

definition process_leftarrow :: "'n cmd_fxn" where
  "process_leftarrow E d txt opt = Inr (Some ''&larr;'', d)"

definition process_rightarrow :: "'n cmd_fxn" where
  "process_rightarrow E d txt opt = Inr (Some ''&rarr;'', d)"

definition process_leftrightarrow :: "'n cmd_fxn" where
  "process_leftrightarrow E d txt opt = Inr (Some ''&harr;'', d)"

definition process_tm :: "'n cmd_fxn" where
  "process_tm E d txt opt = Inr (Some ''&trade;'', d)"

definition process_nop :: "'n cmd_fxn" where
  "process_nop E d txt opt = Inr (Some '''', d)"

section \<open>The table\<close>

datatype tri = PROHIBITED | ALLOWED | REQUIRED

record 'n fmt3_cmd =
  cmd_name :: string
  cmd_fxn :: "'n cmd_fxn"
  square :: tri
  curly :: tri

abbreviation CMD_OPT :: "string \<Rightarrow> 'n cmd_fxn \<Rightarrow> 'n fmt3_cmd" where
  "CMD_OPT n f \<equiv> \<lparr>cmd_name = n, cmd_fxn = f, square = ALLOWED, curly = REQUIRED\<rparr>"

abbreviation CMD_REQ :: "string \<Rightarrow> 'n cmd_fxn \<Rightarrow> 'n fmt3_cmd" where
  "CMD_REQ n f \<equiv> \<lparr>cmd_name = n, cmd_fxn = f, square = PROHIBITED, curly = REQUIRED\<rparr>"

abbreviation CMD_NON :: "string \<Rightarrow> 'n cmd_fxn \<Rightarrow> 'n fmt3_cmd" where
  "CMD_NON n f \<equiv> \<lparr>cmd_name = n, cmd_fxn = f, square = PROHIBITED, curly = PROHIBITED\<rparr>"

abbreviation CMD_NOP :: "string \<Rightarrow> 'n fmt3_cmd" where
  "CMD_NOP n \<equiv> \<lparr>cmd_name = n, cmd_fxn = process_nop, square = PROHIBITED, curly = REQUIRED\<rparr>"

text \<open>The initialisers name their places, so the table is in the order of the enumeration.\<close>

definition cmds :: "'n fmt3_cmd list" where
  "cmds =
    [CMD_OPT ''abbrev'' process_abbrev, CMD_REQ ''begin'' process_begin, CMD_REQ ''bug'' process_bug,
     CMD_NOP ''category'', CMD_REQ ''degree'' process_degree, CMD_REQ ''emph'' process_emph,
     CMD_REQ ''end'' process_end, CMD_OPT ''img'' process_img, CMD_OPT ''item'' process_item,
     CMD_NON ''leftarrow'' process_leftarrow, CMD_NON ''leftrightarrow'' process_leftrightarrow,
     CMD_OPT ''link'' process_link, CMD_OPT ''listing'' process_listing, CMD_OPT ''photo'' process_photo,
     CMD_OPT ''photolink'' process_photolink, CMD_OPT ''post'' process_post, CMD_NOP ''published'',
     CMD_NON ''rightarrow'' process_rightarrow, CMD_REQ ''section'' process_section,
     CMD_REQ ''subsection'' process_subsection, CMD_REQ ''subsubsection'' process_subsubsection,
     CMD_NOP ''tag'', CMD_OPT ''taglink'' process_taglink, CMD_REQ ''textbf'' process_textbf,
     CMD_REQ ''textit'' process_textit, CMD_REQ ''texttt'' process_texttt, CMD_NOP ''title'',
     CMD_NON ''tm'' process_tm, CMD_REQ ''trow'' process_trow, CMD_OPT ''wiki'' process_wiki]"

section \<open>Finding and running a command\<close>

text \<open>\<^verbatim>\<open>strcmp\<close> compares bytes as unsigned numbers; only the sign of the result matters.\<close>

definition c_strcmp :: "string \<Rightarrow> string \<Rightarrow> int" where
  "c_strcmp a b = (if a < b then -1 else if b < a then 1 else 0)"

definition cmd_cmp :: "string \<Rightarrow> 'n fmt3_cmd \<Rightarrow> int" where
  "cmd_cmp key b = c_strcmp key (cmd_name b)"

text \<open>\<^verbatim>\<open>bsearch\<close> of the C library, on the part of the table from \<open>lo\<close> to before \<open>hi\<close>.\<close>

function bsearch :: "('a \<Rightarrow> int) \<Rightarrow> 'a list \<Rightarrow> nat \<Rightarrow> nat \<Rightarrow> 'a option" where
  "bsearch cmp xs lo hi =
     (if hi \<le> lo then None
      else let mid = (lo + hi) div 2; c = cmp (xs ! mid)
           in if c = 0 then Some (xs ! mid)
              else if c < 0 then bsearch cmp xs lo mid
              else bsearch cmp xs (Suc mid) hi)"
  by pat_completeness auto
termination
  by (relation "measure (\<lambda>(_, _, lo, hi). hi - lo)") auto

declare bsearch.simps [simp del]

definition check_arg :: "tri \<Rightarrow> string option \<Rightarrow> unit res" where
  "check_arg r ptr =
     (case r of
        REQUIRED \<Rightarrow> assert_that (ptr \<noteq> None)
      | PROHIBITED \<Rightarrow> assert_that (ptr = None)
      | ALLOWED \<Rightarrow> Inr ())"

definition process_cmd :: "'n file_env \<Rightarrow> 'n fmt3 \<Rightarrow> string \<Rightarrow> string option \<Rightarrow> string option \<Rightarrow> (string option \<times> 'n fmt3) res" where
  "process_cmd E data cmd txt opt =
     (case bsearch (cmd_cmp cmd) cmds 0 (length (cmds :: 'n fmt3_cmd list)) of
        None \<Rightarrow> Inr (Some (str_cat [Some (''[INVAL CMD '' @ [CHR 0x27]), Some cmd, Some ([CHR 0x27] @ '']'')]), data)
      | Some c \<Rightarrow>
          rbind (check_arg (square c) opt) (\<lambda>_.
          rbind (check_arg (curly c) txt) (\<lambda>_. cmd_fxn c E data txt opt)))"

end
