(* ===== verification/PostCmdsSpec.thy ===== *)
theory PostCmdsSpec
  imports PostCmds
begin

text \<open>
  Properties of the post commands: the binary search is a lookup by name because the table is sorted,
  a command checks its arguments as the table says, and the commands keep the markup balanced.
\<close>

section \<open>The binary search\<close>

lemma c_strcmp_sign: "c_strcmp a b < 0 \<longleftrightarrow> a < b" "0 < c_strcmp a b \<longleftrightarrow> b < a" "c_strcmp a b = 0 \<longleftrightarrow> a = b"
  by (auto simp: c_strcmp_def)

interpretation by_cmd_name: comparator c_strcmp "\<lambda>s. s"
  by unfold_locales (auto simp: c_strcmp_def)

lemma find_unique:
  assumes "i < length xs" "P (xs ! i)" "\<And>j. j < length xs \<Longrightarrow> P (xs ! j) \<Longrightarrow> j = i"
  shows "find P xs = Some (xs ! i)"
  unfolding find_Some_iff using assms by (metis less_irrefl order_less_trans)

lemma bsearch_find:
  fixes key :: string
  assumes "sorted_wrt (\<lambda>a b. f a < f b) xs" "\<And>x. cmp x = c_strcmp key (f x)"
  shows "hi \<le> length xs \<Longrightarrow> (\<forall>i<length xs. f (xs ! i) = key \<longrightarrow> lo \<le> i \<and> i < hi) \<Longrightarrow>
    bsearch cmp xs lo hi = find (\<lambda>x. f x = key) xs"
proof (induction "hi - lo" arbitrary: lo hi rule: less_induct)
  case less
  have mono: "f (xs ! i) < f (xs ! j)" if "i < j" "j < length xs" for i j
    using assms(1) that by (simp add: sorted_wrt_iff_nth_less)
  show ?case
  proof (cases "hi \<le> lo")
    case True
    with less.prems(2) have "\<forall>i<length xs. f (xs ! i) \<noteq> key" by (metis leD order_le_less_trans)
    then have "find (\<lambda>x. f x = key) xs = None" by (auto simp: find_None_iff in_set_conv_nth)
    with True show ?thesis by (simp add: bsearch.simps)
  next
    case False
    let ?m = "(lo + hi) div 2"
    have m: "lo \<le> ?m" "?m < hi" "?m < length xs" using False less.prems(1) by auto
    consider "key = f (xs ! ?m)" | "key < f (xs ! ?m)" | "f (xs ! ?m) < key" by (rule linorder_cases) auto
    then show ?thesis
    proof cases
      case 1
      have "find (\<lambda>x. f x = key) xs = Some (xs ! ?m)"
      proof (rule find_unique)
        fix j assume "j < length xs" "f (xs ! j) = key"
        with 1 m(3) show "j = ?m" using mono[of j ?m] mono[of ?m j] by (cases j ?m rule: linorder_cases) auto
      qed (use m 1 in auto)
      with 1 False show ?thesis by (simp add: bsearch.simps[of _ _ lo hi] assms(2) c_strcmp_sign Let_def)
    next
      case 2
      have "bsearch cmp xs lo ?m = find (\<lambda>x. f x = key) xs"
      proof (rule less.hyps)
        show "\<forall>i<length xs. f (xs ! i) = key \<longrightarrow> lo \<le> i \<and> i < ?m"
        proof (intro allI impI)
          fix i assume i: "i < length xs" "f (xs ! i) = key"
          with 2 mono[of ?m i] have "\<not> ?m < i" "i \<noteq> ?m" by auto
          with i less.prems(2) show "lo \<le> i \<and> i < ?m" by auto
        qed
      qed (use m False in auto)
      with 2 False show ?thesis by (simp add: bsearch.simps[of _ _ lo hi] assms(2) c_strcmp_def Let_def)
    next
      case 3
      have "bsearch cmp xs (Suc ?m) hi = find (\<lambda>x. f x = key) xs"
      proof (rule less.hyps)
        show "\<forall>i<length xs. f (xs ! i) = key \<longrightarrow> Suc ?m \<le> i \<and> i < hi"
        proof (intro allI impI)
          fix i assume i: "i < length xs" "f (xs ! i) = key"
          with 3 mono[of i ?m] m have "\<not> i < ?m" "i \<noteq> ?m" by auto
          with i less.prems(2) show "Suc ?m \<le> i \<and> i < hi" by auto
        qed
      qed (use m False less.prems(1) in auto)
      with 3 False less_not_sym[OF 3] show ?thesis
        by (simp add: bsearch.simps[of _ _ lo hi] assms(2) c_strcmp_def Let_def)
    qed
  qed
qed

lemma cmds_sorted: "sorted_wrt (\<lambda>a b. cmd_name a < cmd_name b) (cmds :: 'n fmt3_cmd list)"
proof -
  have "sorted_wrt (<) (map cmd_name (cmds :: 'n fmt3_cmd list))"
    unfolding cmds_def by simp
  then show ?thesis by (simp add: sorted_wrt_map)
qed

definition find_cmd :: "string \<Rightarrow> 'n fmt3_cmd option" where
  "find_cmd name = find (\<lambda>c. cmd_name c = name) cmds"

lemma bsearch_cmds: "bsearch (cmd_cmp name) (cmds :: 'n fmt3_cmd list) 0 (length (cmds :: 'n fmt3_cmd list)) = find_cmd name"
  unfolding find_cmd_def by (rule bsearch_find[OF cmds_sorted]) (auto simp: cmd_cmp_def)

definition takes :: "tri \<Rightarrow> string option \<Rightarrow> bool" where
  "takes r a \<longleftrightarrow> (r = REQUIRED \<longrightarrow> a \<noteq> None) \<and> (r = PROHIBITED \<longrightarrow> a = None)"

lemma check_arg_eq: "check_arg r a = (if takes r a then Inr () else Inl AssertFailed)"
  by (cases r) (auto simp: check_arg_def takes_def)

lemma process_cmd_eq:
  fixes E :: "'n file_env"
  shows "process_cmd E d name txt opt =
     (case (find_cmd name :: 'n fmt3_cmd option) of
        None \<Rightarrow> Inr (Some (''[INVAL CMD '' @ [CHR 0x27] @ name @ [CHR 0x27] @ '']''), d)
      | Some c \<Rightarrow>
          if takes (square c) opt \<and> takes (curly c) txt then cmd_fxn c E d txt opt else Inl AssertFailed)"
  unfolding process_cmd_def bsearch_cmds
  by (auto simp: check_arg_eq split: option.splits)

text \<open>
  \<^verbatim>\<open>process_cmd\<close> runs the command of the table with exactly the name given. A command whose
  arguments are not as its table entry demands aborts the process; a name that is not in the table is
  shown as an error in the text and changes nothing.
\<close>

theorem process_cmd_dispatch:
  "process_cmd E d name txt opt =
     (case find (\<lambda>c. cmd_name c = name) cmds of
        None \<Rightarrow> Inr (Some (''[INVAL CMD '' @ [CHR 0x27] @ name @ [CHR 0x27] @ '']''), d)
      | Some c \<Rightarrow>
          if takes (square c) opt \<and> takes (curly c) txt then cmd_fxn c E d txt opt else Inl AssertFailed)"
  unfolding process_cmd_eq find_cmd_def by (rule refl)

section \<open>Balanced markup\<close>

text \<open>The tags of a text in order, each without its angle brackets.\<close>

abbreviation GT :: char where "GT \<equiv> CHR ''>''"

function tags :: "string \<Rightarrow> string list" where
  "tags [] = []"
| "tags (c # s) =
     (if c = CHR ''<'' then takeWhile (\<lambda>x. x \<noteq> GT) s # tags (tl (dropWhile (\<lambda>x. x \<noteq> GT) s)) else tags s)"
  by pat_completeness auto
termination
  by (relation "measure length") (auto simp: less_Suc_eq_le intro: order_trans[OF diff_le_self length_dropWhile_le])

text \<open>Every tag that starts in the text also ends in it.\<close>

function closed :: "string \<Rightarrow> bool" where
  "closed [] = True"
| "closed (c # s) =
     (if c = CHR ''<'' then GT \<in> set s \<and> closed (tl (dropWhile (\<lambda>x. x \<noteq> GT) s)) else closed s)"
  by pat_completeness auto
termination
  by (relation "measure length") (auto simp: less_Suc_eq_le intro: order_trans[OF diff_le_self length_dropWhile_le])

declare tags.simps(2) [simp del] closed.simps(2) [simp del]

text \<open>What a tag does to the stack of open elements: close, stand alone, or open.\<close>

definition tag_step :: "string \<Rightarrow> string list \<Rightarrow> string list option" where
  "tag_step t st =
     (if t \<noteq> [] \<and> hd t = CHR ''/'' then
        (case st of [] \<Rightarrow> None | x # st' \<Rightarrow> if x = tl t then Some st' else None)
      else if t \<noteq> [] \<and> last t = CHR ''/'' then Some st
      else Some (takeWhile (\<lambda>x. x \<noteq> CHR '' '') t # st))"

fun tags_run :: "string list \<Rightarrow> string list \<Rightarrow> string list option" where
  "tags_run [] st = Some st"
| "tags_run (t # ts) st = (case tag_step t st of None \<Rightarrow> None | Some st' \<Rightarrow> tags_run ts st')"

text \<open>A text that takes the innermost open elements \<open>a\<close> to \<open>b\<close>.\<close>

definition frag :: "string list \<Rightarrow> string \<Rightarrow> string list \<Rightarrow> bool" where
  "frag a s b \<longleftrightarrow> closed s \<and> (\<forall>st. tags_run (tags s) (a @ st) = Some (b @ st))"

abbreviation balanced :: "string \<Rightarrow> bool" where
  "balanced s \<equiv> frag [] s []"

lemma tags_append: "closed s \<Longrightarrow> tags (s @ t) = tags s @ tags t \<and> (closed (s @ t) \<longleftrightarrow> closed t)"
proof (induction s rule: closed.induct)
  case (2 c s)
  show ?case
  proof (cases "c = CHR ''<''")
    case True
    with 2(3) have s: "GT \<in> set s" "closed (tl (dropWhile (\<lambda>x. x \<noteq> GT) s))" by (simp_all add: closed.simps(2))
    then have d: "dropWhile (\<lambda>x. x \<noteq> GT) s \<noteq> []" by (auto simp: dropWhile_eq_Nil_conv)
    have "takeWhile (\<lambda>x. x \<noteq> GT) (s @ t) = takeWhile (\<lambda>x. x \<noteq> GT) s"
      "dropWhile (\<lambda>x. x \<noteq> GT) (s @ t) = dropWhile (\<lambda>x. x \<noteq> GT) s @ t"
      using takeWhile_append1[OF s(1)] dropWhile_append1[OF s(1)] by simp_all
    with True s d 2(1)[OF True s(2)] show ?thesis by (simp add: tags.simps(2) closed.simps(2))
  next
    case False
    with 2 show ?thesis by (simp add: tags.simps(2) closed.simps(2))
  qed
qed simp

lemma tags_run_append: "tags_run (ts @ us) st = (case tags_run ts st of None \<Rightarrow> None | Some st' \<Rightarrow> tags_run us st')"
  by (induction ts arbitrary: st) (auto split: option.splits)

lemma frag_append: "frag a s b \<Longrightarrow> frag b t c \<Longrightarrow> frag a (s @ t) c"
  using tags_append[of s t] by (simp add: frag_def tags_run_append)

lemma frag_more: "frag a s b \<Longrightarrow> frag (a @ x) s (b @ x)"
  by (simp add: frag_def)

lemma balanced_in: "balanced s \<Longrightarrow> frag a s a"
  using frag_more[of "[]" s "[]" a] by simp

lemma frag_Nil: "frag a [] a"
  by (simp add: frag_def)

lemma balanced_plain: "CHR ''<'' \<notin> set s \<Longrightarrow> balanced s"
proof -
  assume "CHR ''<'' \<notin> set s"
  then have "tags s = [] \<and> closed s" by (induction s) (auto simp: tags.simps(2) closed.simps(2))
  then show ?thesis by (simp add: frag_def)
qed

lemma tags_one:
  assumes "GT \<notin> set t"
  shows "tags (CHR ''<'' # t @ [GT]) = [t]" "closed (CHR ''<'' # t @ [GT])"
proof -
  have "takeWhile (\<lambda>x. x \<noteq> GT) (t @ [GT]) = t" "dropWhile (\<lambda>x. x \<noteq> GT) (t @ [GT]) = [GT]"
    using assms by (auto simp: takeWhile_append dropWhile_append)
  then show "tags (CHR ''<'' # t @ [GT]) = [t]" "closed (CHR ''<'' # t @ [GT])"
    by (simp_all add: tags.simps(2) closed.simps(2))
qed

definition tag_text :: "string \<Rightarrow> string" where
  "tag_text t = CHR ''<'' # t @ [GT]"

lemma frag_close: "GT \<notin> set n \<Longrightarrow> frag [n] (tag_text (CHR ''/'' # n)) []"
  using tags_one[of "CHR ''/'' # n"] by (simp add: frag_def tag_text_def tag_step_def)

lemma frag_open:
  assumes "GT \<notin> set t" "t \<noteq> []" "hd t \<noteq> CHR ''/''" "last t \<noteq> CHR ''/''" "n = takeWhile (\<lambda>x. x \<noteq> CHR '' '') t"
  shows "frag [] (tag_text t) [n]"
  using tags_one[OF assms(1)] assms(2-5) by (simp add: frag_def tag_text_def tag_step_def)

lemma frag_void:
  assumes "GT \<notin> set t" "t \<noteq> []" "hd t \<noteq> CHR ''/''" "last t = CHR ''/''"
  shows "balanced (tag_text t)"
  using tags_one[OF assms(1)] assms(2-4) by (simp add: frag_def tag_text_def tag_step_def)

lemma balanced_elem:
  assumes "balanced t" "GT \<notin> set u" "u \<noteq> []" "hd u \<noteq> CHR ''/''" "last u \<noteq> CHR ''/''" "n = takeWhile (\<lambda>x. x \<noteq> CHR '' '') u"
  shows "balanced (tag_text u @ t @ tag_text (CHR ''/'' # n))"
proof -
  have "GT \<notin> set n" using assms(2,6) set_takeWhileD by metis
  then show ?thesis
    by (intro frag_append[OF frag_open[OF assms(2-6)]] frag_append[OF balanced_in[OF assms(1)]] frag_close)
qed

lemma balanced_append: "balanced s \<Longrightarrow> balanced t \<Longrightarrow> balanced (s @ t)"
  by (rule frag_append)

definition plain :: "string \<Rightarrow> bool" where
  "plain s \<longleftrightarrow> CHR ''<'' \<notin> set s"

lemma balanced_if_plain: "plain s \<Longrightarrow> balanced s"
  by (simp add: plain_def balanced_plain)

text \<open>A text in a double-quoted attribute must not close the tag.\<close>

definition attr_ok :: "string option \<Rightarrow> bool" where
  "attr_ok a \<longleftrightarrow> (\<forall>s. a = Some s \<longrightarrow> GT \<notin> set s)"

definition text_ok :: "string option \<Rightarrow> bool" where
  "text_ok a \<longleftrightarrow> (\<forall>s. a = Some s \<longrightarrow> balanced s)"

lemma str_cat_opt: "str_cat (a # xs) = (case a of None \<Rightarrow> [] | Some s \<Rightarrow> s) @ str_cat xs"
  by (cases a) simp_all

abbreviation the_text :: "string option \<Rightarrow> string" where
  "the_text a \<equiv> case a of None \<Rightarrow> [] | Some s \<Rightarrow> s"

lemma text_okD: "text_ok a \<Longrightarrow> balanced (the_text a)"
  by (auto simp: text_ok_def frag_Nil split: option.splits)

lemma attr_okD: "attr_ok a \<Longrightarrow> GT \<notin> set (the_text a)"
  by (auto simp: attr_ok_def split: option.splits)

lemma or_else_ok: "text_ok a \<Longrightarrow> text_ok b \<Longrightarrow> text_ok (or_else a b)" "attr_ok a \<Longrightarrow> attr_ok b \<Longrightarrow> attr_ok (or_else a b)"
  by (auto simp: or_else_def text_ok_def attr_ok_def split: option.splits)

text \<open>The commands whose output stands in the line, and what their arguments must be like.\<close>

definition urls_ok :: "'n file_env \<Rightarrow> bool" where
  "urls_ok E \<longleftrightarrow> attr_ok (cf_photo_base_url (fe_cfg E)) \<and> attr_ok (cf_wiki_base_url (fe_cfg E)) \<and>
     attr_ok (cf_bug_base_url (fe_cfg E)) \<and> attr_ok (cf_base_url (fe_cfg E))"

definition inline_ok :: "bool \<Rightarrow> bool \<Rightarrow> 'n cmd_fxn \<Rightarrow> bool" where
  "inline_ok ta oa f \<longleftrightarrow>
     (\<forall>E d txt opt s d'. urls_ok E \<longrightarrow> text_ok txt \<longrightarrow> text_ok opt \<longrightarrow> (ta \<longrightarrow> attr_ok txt) \<longrightarrow> (oa \<longrightarrow> attr_ok opt) \<longrightarrow>
        f E d txt opt = Inr (Some s, d') \<longrightarrow> balanced s \<and> d' = d)"

lemma elem_cmd:
  assumes "text_ok a" "GT \<notin> set u" "u \<noteq> []" "hd u \<noteq> CHR ''/''" "last u \<noteq> CHR ''/''"
    and "s = tag_text u @ the_text a @ tag_text (CHR ''/'' # takeWhile (\<lambda>x. x \<noteq> CHR '' '') u)"
  shows "balanced s"
  unfolding assms(6) by (rule balanced_elem[OF text_okD[OF assms(1)] assms(2-5) refl])

lemma inline_simple:
  assumes "\<And>E d txt opt. f E d txt opt = pure_cmd d [Some (tag_text u), txt, Some (tag_text (CHR ''/'' # n))]"
    and "GT \<notin> set u" "u \<noteq> []" "hd u \<noteq> CHR ''/''" "last u \<noteq> CHR ''/''" "n = takeWhile (\<lambda>x. x \<noteq> CHR '' '') u"
  shows "inline_ok ta oa f"
  unfolding inline_ok_def
  using balanced_elem[OF text_okD assms(2-6)] by (auto simp: assms(1) pure_cmd_def str_cat_opt)

lemma inline_const:
  assumes "\<And>E d txt opt. f E d txt opt = Inr (Some s, d)" "plain s"
  shows "inline_ok ta oa f"
  using assms by (auto simp: inline_ok_def balanced_if_plain)

lemma inline_texts:
  "inline_ok ta oa process_emph" "inline_ok ta oa process_texttt" "inline_ok ta oa process_textbf"
  "inline_ok ta oa process_textit"
  by (rule inline_simple[of _ "''em''"], simp_all add: process_emph_def tag_text_def)
    (rule inline_simple[of _ "''span class='' @ DQ @ ''tt'' @ DQ"], simp_all add: process_texttt_def tag_text_def,
     rule inline_simple[of _ "''strong''"], simp_all add: process_textbf_def tag_text_def,
     rule inline_simple[of _ "''i''"], simp_all add: process_textit_def tag_text_def)

lemma inline_consts:
  "inline_ok ta oa process_leftarrow" "inline_ok ta oa process_rightarrow" "inline_ok ta oa process_leftrightarrow"
  "inline_ok ta oa process_tm" "inline_ok ta oa process_nop"
  by (rule inline_const, simp add: process_leftarrow_def, simp add: plain_def)
    (rule inline_const, simp add: process_rightarrow_def, simp add: plain_def,
     rule inline_const, simp add: process_leftrightarrow_def, simp add: plain_def,
     rule inline_const, simp add: process_tm_def, simp add: plain_def,
     rule inline_const, simp add: process_nop_def, simp add: plain_def)

lemma inline_degree: "inline_ok ta oa process_degree"
  unfolding inline_ok_def
proof (intro allI impI, goal_cases)
  case (1 E d ct ob s d')
  then have "s = [CHR 0xC2, CHR 0xB0] @ the_text ct" "d' = d"
    by (simp_all add: process_degree_def pure_cmd_def str_cat_opt)
  with balanced_append[OF balanced_plain[of "[CHR 0xC2, CHR 0xB0]"] text_okD[OF 1(2)]] show ?case by simp
qed

lemma inline_item: "inline_ok ta oa process_item"
  unfolding inline_ok_def
proof (intro allI impI, goal_cases)
  case (1 E d ct ob s d')
  show ?case
  proof (cases ob)
    case None
    with 1(6) have "s = tag_text ''li'' @ the_text ct @ tag_text ''/li''" "d' = d"
      by (simp_all add: process_item_def pure_cmd_def str_cat_opt tag_text_def)
    with balanced_elem[OF text_okD[OF 1(2)], of "''li''" "''li''"] show ?thesis by simp
  next
    case (Some o')
    with 1(6) have "s = (tag_text ''dt'' @ the_text ob @ tag_text ''/dt'') @ (tag_text ''dd'' @ the_text ct @ tag_text ''/dd'')" "d' = d"
      by (simp_all add: process_item_def pure_cmd_def str_cat_opt tag_text_def)
    with balanced_append[OF balanced_elem[OF text_okD[OF 1(3)], of "''dt''" "''dt''"]
        balanced_elem[OF text_okD[OF 1(2)], of "''dd''" "''dd''"]] show ?thesis by simp
  qed
qed

lemma inline_trow: "inline_ok ta oa process_trow"
  unfolding inline_ok_def
proof (intro allI impI, goal_cases)
  case (1 E d ct ob s d')
  then have "s = tag_text ''tr'' @ (tag_text ''td'' @ the_text ct @ tag_text ''/td'') @ tag_text ''/tr''" "d' = d"
    by (simp_all add: process_trow_def pure_cmd_def str_cat_opt tag_text_def)
  with balanced_elem[OF balanced_elem[OF text_okD[OF 1(2)], of "''td''" "''td''"], of "''tr''" "''tr''"] show ?case by simp
qed

text \<open>Links: an attribute with the address, then the text.\<close>

lemma link_balanced:
  assumes "balanced t" "GT \<notin> set u" "nm = ''a'' \<or> nm = ''abbr''" "k \<noteq> []" "GT \<notin> set k"
  shows "balanced (tag_text (nm @ '' '' @ k @ DQ @ u @ DQ) @ t @ tag_text (CHR ''/'' # nm))"
  by (rule balanced_elem[OF assms(1)]) (use assms(2-5) in auto)

lemma inline_link: "inline_ok True oa process_link"
  unfolding inline_ok_def
proof (intro allI impI, goal_cases)
  case (1 E d ct ob s d')
  then have "s = tag_text (''a'' @ '' '' @ ''href='' @ DQ @ the_text ct @ DQ) @ the_text (or_else ob ct) @ tag_text (CHR ''/'' # ''a'')" "d' = d"
    by (simp_all add: process_link_def pure_cmd_def str_cat_opt tag_text_def)
  moreover have "attr_ok ct" using 1(4) by simp
  ultimately show ?case
    using link_balanced[OF text_okD[OF or_else_ok(1)[OF 1(3,2)]] attr_okD, of ct "''a''" "''href=''"] by simp
qed

lemma inline_photolink: "inline_ok True oa process_photolink"
  unfolding inline_ok_def
proof (intro allI impI, goal_cases)
  case (1 E d ct ob s d')
  let ?u = "the_text (cf_photo_base_url (fe_cfg E)) @ ''/'' @ the_text ct"
  have "s = tag_text (''a'' @ '' '' @ ''href='' @ DQ @ ?u @ DQ) @ the_text (or_else ob ct) @ tag_text (CHR ''/'' # ''a'')" "d' = d"
    using 1(6) by (simp_all add: process_photolink_def pure_cmd_def str_cat_opt tag_text_def)
  moreover have "GT \<notin> set ?u" using 1(1,4) by (auto simp: urls_ok_def attr_ok_def split: option.splits)
  ultimately show ?case
    using link_balanced[OF text_okD[OF or_else_ok(1)[OF 1(3,2)]], of ?u "''a''" "''href=''"] by simp
qed

lemma inline_abbrev: "inline_ok True True process_abbrev"
  unfolding inline_ok_def
proof (intro allI impI, goal_cases)
  case (1 E d ct ob s d')
  then have "s = tag_text (''abbr'' @ '' '' @ ''title='' @ DQ @ the_text (or_else ob ct) @ DQ) @ the_text ct @ tag_text (CHR ''/'' # ''abbr'')" "d' = d"
    by (simp_all add: process_abbrev_def pure_cmd_def str_cat_opt tag_text_def)
  moreover have "GT \<notin> set (the_text (or_else ob ct))" using 1(4,5) by (auto simp: or_else_def attr_ok_def split: option.splits)
  ultimately show ?case
    using link_balanced[OF text_okD[OF 1(2)], of "the_text (or_else ob ct)" "''abbr''" "''title=''"] by simp
qed

lemma img_balanced:
  assumes "GT \<notin> set u" "GT \<notin> set v"
  shows "balanced (tag_text (''img src='' @ DQ @ u @ DQ @ '' alt='' @ DQ @ v @ DQ @ '' /''))"
  by (rule frag_void) (use assms in auto)

lemma inline_img: "inline_ok True True process_img"
  unfolding inline_ok_def
proof (intro allI impI, goal_cases)
  case (1 E d ct ob s d')
  then have "s = tag_text (''img src='' @ DQ @ the_text ct @ DQ @ '' alt='' @ DQ @ the_text ob @ DQ @ '' /'')" "d' = d"
    by (simp_all add: process_img_def pure_cmd_def str_cat_opt tag_text_def)
  then show ?case using img_balanced[OF attr_okD attr_okD] 1(4,5) by simp
qed

lemma inline_photo: "inline_ok True True process_photo"
  unfolding inline_ok_def
proof (intro allI impI, goal_cases)
  case (1 E d ct ob s d')
  let ?u = "the_text (cf_photo_base_url (fe_cfg E)) @ ''/'' @ the_text ct"
  have "s = tag_text (''img src='' @ DQ @ ?u @ DQ @ '' alt='' @ DQ @ the_text ob @ DQ @ '' /'')" "d' = d"
    using 1(6) by (simp_all add: process_photo_def pure_cmd_def str_cat_opt tag_text_def)
  moreover have "GT \<notin> set ?u" "GT \<notin> set (the_text ob)" using 1(1,4,5) by (auto simp: urls_ok_def attr_ok_def split: option.splits)
  ultimately show ?case using img_balanced[of ?u "the_text ob"] by simp
qed

text \<open>The links with an icon: to the wiki and to the bug tracker.\<close>

lemma icon_balanced:
  assumes "balanced t" "GT \<notin> set u" "GT \<notin> set v" "GT \<notin> set w"
  shows "balanced (tag_text (''a href='' @ DQ @ u @ DQ) @
     (tag_text (''img src='' @ DQ @ v @ DQ @ '' alt='' @ DQ @ w @ DQ @ '' /'') @ ''&nbsp;'' @ t) @ tag_text ''/a'')"
proof -
  have "balanced ''&nbsp;''" by (rule balanced_plain) simp
  with assms have "balanced (tag_text (''img src='' @ DQ @ v @ DQ @ '' alt='' @ DQ @ w @ DQ @ '' /'') @ ''&nbsp;'' @ t)"
    by (intro balanced_append img_balanced)
  from balanced_elem[OF this, of "''a href='' @ DQ @ u @ DQ" "''a''"] assms(2) show ?thesis by auto
qed

lemma inline_wiki: "inline_ok True oa process_wiki"
  unfolding inline_ok_def
proof (intro allI impI, goal_cases)
  case (1 E d ct ob s d')
  let ?u = "the_text (cf_wiki_base_url (fe_cfg E)) @ ''/'' @ the_text ct"
  let ?v = "the_text (cf_base_url (fe_cfg E)) @ ''/wiki.png''"
  have "s = tag_text (''a href='' @ DQ @ ?u @ DQ) @
     (tag_text (''img src='' @ DQ @ ?v @ DQ @ '' alt='' @ DQ @ ''Wikipedia article:'' @ DQ @ '' /'') @ ''&nbsp;'' @
       the_text (or_else ob ct)) @ tag_text ''/a''" "d' = d"
    using 1(6) by (simp_all add: process_wiki_def pure_cmd_def str_cat_opt tag_text_def)
  moreover have "GT \<notin> set ?u" "GT \<notin> set ?v" using 1(1,4) by (auto simp: urls_ok_def attr_ok_def split: option.splits)
  ultimately show ?case
    using icon_balanced[OF text_okD[OF or_else_ok(1)[OF 1(3,2)]], of ?u ?v "''Wikipedia article:''"] by simp
qed

lemma inline_bug: "inline_ok True oa process_bug"
  unfolding inline_ok_def
proof (intro allI impI, goal_cases)
  case (1 E d ct ob s d')
  let ?u = "the_text (cf_bug_base_url (fe_cfg E)) @ ''/'' @ the_text ct"
  let ?v = "the_text (cf_base_url (fe_cfg E)) @ ''/bug.png''"
  have "s = tag_text (''a href='' @ DQ @ ?u @ DQ) @
     (tag_text (''img src='' @ DQ @ ?v @ DQ @ '' alt='' @ DQ @ ''bug #'' @ DQ @ '' /'') @ ''&nbsp;'' @ the_text ct) @ tag_text ''/a''" "d' = d"
    using 1(6) by (simp_all add: process_bug_def pure_cmd_def str_cat_opt tag_text_def)
  moreover have "GT \<notin> set ?u" "GT \<notin> set ?v" using 1(1,4) by (auto simp: urls_ok_def attr_ok_def split: option.splits)
  ultimately show ?case using icon_balanced[OF text_okD[OF 1(2)], of ?u ?v "''bug #''"] by simp
qed

section \<open>Commands and environments keep the markup balanced\<close>

definition block_names :: "string set" where
  "block_names = {''begin'', ''end'', ''section'', ''subsection'', ''subsubsection'', ''listing'', ''post'', ''taglink''}"

definition attr_names :: "string set" where
  "attr_names = {''abbrev'', ''bug'', ''img'', ''link'', ''photo'', ''photolink'', ''wiki''}"

definition opt_attr_names :: "string set" where
  "opt_attr_names = {''abbrev'', ''img'', ''photo''}"

lemma inline_weaken: "inline_ok ta oa f \<Longrightarrow> (ta \<longrightarrow> ta') \<Longrightarrow> (oa \<longrightarrow> oa') \<Longrightarrow> inline_ok ta' oa' f"
  by (auto simp: inline_ok_def)

lemmas inline_all = inline_texts inline_consts inline_degree inline_item inline_trow inline_link inline_photolink
  inline_abbrev inline_img inline_photo inline_wiki inline_bug

lemma cmds_inline:
  "\<forall>c\<in>set cmds. cmd_name c \<notin> block_names \<longrightarrow>
     inline_ok (cmd_name c \<in> attr_names) (cmd_name c \<in> opt_attr_names) (cmd_fxn c)"
  by (simp add: cmds_def block_names_def attr_names_def opt_attr_names_def inline_all)

lemma inline_command:
  fixes E :: "'n file_env"
  assumes "urls_ok E" "text_ok txt" "text_ok opt" "name \<notin> block_names" "plain name"
    and "name \<in> attr_names \<longrightarrow> attr_ok txt" "name \<in> opt_attr_names \<longrightarrow> attr_ok opt"
    and "process_cmd E d name txt opt = Inr (Some s, d')"
  shows "balanced s \<and> d' = d"
proof (cases "find_cmd name :: 'n fmt3_cmd option")
  case None
  then have "s = ''[INVAL CMD '' @ [CHR 0x27] @ name @ [CHR 0x27] @ '']''" "d' = d"
    using assms(8) by (simp_all add: process_cmd_eq)
  with assms(5) show ?thesis by (auto intro!: balanced_plain simp: plain_def)
next
  case (Some c)
  then have c: "c \<in> set cmds" "cmd_name c = name" by (auto simp: find_cmd_def find_Some_iff)
  then have "inline_ok (name \<in> attr_names) (name \<in> opt_attr_names) (cmd_fxn c)"
    using cmds_inline assms(4) by auto
  moreover have "cmd_fxn c E d txt opt = Inr (Some s, d')"
    using Some assms(8) by (auto simp: process_cmd_eq split: if_splits)
  ultimately show ?thesis using assms(1-3,6,7) unfolding inline_ok_def by blast
qed

text \<open>
  Every command that stands in the line of text, and an unknown command, gives balanced markup when
  its arguments are balanced and those that become attributes hold no closing bracket.
\<close>

theorem inline_commands_balanced:
  assumes "urls_ok E" "text_ok txt" "text_ok opt" "name \<notin> block_names" "plain name"
    and "name \<in> attr_names \<longrightarrow> attr_ok txt" "name \<in> opt_attr_names \<longrightarrow> attr_ok opt"
    and "process_cmd E d name txt opt = Inr (Some s, d')"
  shows "balanced s \<and> d' = d"
  using assms by (rule inline_command)

definition demo_files :: "unit file_env" where
  "demo_files = \<lparr>fe_cfg = config_fill (cons_sx (\<lambda>_. Inl 1)) (1, 2) None,
     fe_nvl = \<lparr>nvl_alloc = Some (), nvl_set_str = (\<lambda>_ _ _. (0, ())), nvl_set_int = (\<lambda>_ _ _. (0, ())),
       nvl_set_array = (\<lambda>_ _ _. (0, ())), nvl_lookup = (\<lambda>_ _. Inl 1), nvl_merge = (\<lambda>_ _. (0, ()))\<rparr>,
     fe_cache_get = (\<lambda>_. Inl 1), fe_newer = (\<lambda>_ _. False), fe_xstrerror = (\<lambda>_. ''?''), fe_mem = True\<rparr>"

definition demo_fmt3 :: "unit fmt3" where
  "demo_fmt3 = \<lparr>f3_post = \<lparr>post_refcnt = 1, post_preview = False, post_listed = True, post_id = 1, post_time = 0,
       post_title = None, post_fmt = 3, post_tags = [], post_cats = [], post_comments = [], post_numcom = 0,
       post_body = None, post_twitter_img = None, post_files = ()\<rparr>,
     table_nesting = 0, texttt_nesting = 0, sc_title = None, sc_pub = None, sc_tags = [], sc_twitter_img = None,
     stroutput = None\<rparr>"

lemma demo_urls: "urls_ok demo_files"
  by (simp add: urls_ok_def attr_ok_def demo_files_def config_fill_def config_load_url_def cons_sx_def exampledotcom_def)

theorem inline_commands_balanced_witness:
  "balanced ''<a href=\"x\">y</a>''"
proof -
  have "balanced ''y''" by (rule balanced_plain) simp
  then have ok: "text_ok (Some ''x'')" "text_ok (Some ''y'')"
    using balanced_plain[of "''x''"] by (simp_all add: text_ok_def)
  have run: "process_cmd demo_files demo_fmt3 ''link'' (Some ''x'') (Some ''y'') = Inr (Some ''<a href=\"x\">y</a>'', demo_fmt3)"
    by (simp add: process_cmd_eq find_cmd_def cmds_def takes_def process_link_def pure_cmd_def or_else_def)
  show ?thesis
    using inline_commands_balanced[OF demo_urls ok _ _ _ _ run]
    by (simp add: block_names_def plain_def attr_ok_def attr_names_def opt_attr_names_def)
qed

lemma frag_between: "frag a s b \<Longrightarrow> balanced t \<Longrightarrow> frag b u c \<Longrightarrow> frag a (s @ t @ u) c"
  by (blast intro: frag_append balanced_in)

lemma frag_lits:
  "frag [''p''] (tag_text ''/p'') []" "frag [] (tag_text ''p'') [''p'']"
  "frag [] (tag_text ''h3'') [''h3'']" "frag [''h3''] (tag_text ''/h3'') []"
  "frag [] (tag_text ''h4'') [''h4'']" "frag [''h4''] (tag_text ''/h4'') []"
  "frag [] (tag_text ''h5'') [''h5'']" "frag [''h5''] (tag_text ''/h5'') []"
  "frag [] (tag_text ''pre'') [''pre'']" "frag [''pre''] (tag_text ''/pre'') []"
  "frag [] (tag_text ''ol'') [''ol'']" "frag [''ol''] (tag_text ''/ol'') []"
  "frag [] (tag_text ''ul'') [''ul'']" "frag [''ul''] (tag_text ''/ul'') []"
  "frag [] (tag_text ''dl'') [''dl'']" "frag [''dl''] (tag_text ''/dl'') []"
  "frag [] (tag_text ''table'') [''table'']" "frag [''table''] (tag_text ''/table'') []"
  "frag [] (tag_text ''blockquote'') [''blockquote'']" "frag [''blockquote''] (tag_text ''/blockquote'') []"
  by (simp_all add: frag_def tag_text_def tags.simps closed.simps tag_step_def)

text \<open>
  A section heading closes the paragraph before it and opens one after it: with a balanced title the
  open elements are as before.
\<close>

lemma headings_balanced:
  assumes "text_ok txt" "name \<in> {''section'', ''subsection'', ''subsubsection''}"
    and "process_cmd E d name txt None = Inr (Some s, d')"
  shows "frag [''p''] s [''p''] \<and> d' = d"
proof -
  have t: "balanced (the_text txt)" by (rule text_okD[OF assms(1)])
  have h: "frag [''p''] (tag_text ''/p'' @ tag_text h @ the_text txt @ tag_text (CHR ''/'' # h) @ tag_text ''p'') [''p'']"
    if "frag [] (tag_text h) [h]" "frag [h] (tag_text (CHR ''/'' # h)) []" for h
    by (intro frag_append[OF frag_lits(1)] frag_append[OF that(1)] frag_append[OF balanced_in[OF t]]
        frag_append[OF that(2)] frag_lits(2))
  consider "name = ''section''" | "name = ''subsection''" | "name = ''subsubsection''" using assms(2) by auto
  then show ?thesis
  proof cases
    case 1
    then have "s = tag_text ''/p'' @ tag_text ''h3'' @ the_text txt @ tag_text ''/h3'' @ tag_text ''p''" "d' = d"
      using assms(3) by (auto simp: process_cmd_eq find_cmd_def cmds_def process_section_def pure_cmd_def str_cat_opt tag_text_def
          split: if_splits)
    with h[OF frag_lits(3,4)] show ?thesis by simp
  next
    case 2
    then have "s = tag_text ''/p'' @ tag_text ''h4'' @ the_text txt @ tag_text ''/h4'' @ tag_text ''p''" "d' = d"
      using assms(3) by (auto simp: process_cmd_eq find_cmd_def cmds_def process_subsection_def pure_cmd_def str_cat_opt tag_text_def
          split: if_splits)
    with h[OF frag_lits(5,6)] show ?thesis by simp
  next
    case 3
    then have "s = tag_text ''/p'' @ tag_text ''h5'' @ the_text txt @ tag_text ''/h5'' @ tag_text ''p''" "d' = d"
      using assms(3) by (auto simp: process_cmd_eq find_cmd_def cmds_def process_subsubsection_def pure_cmd_def str_cat_opt tag_text_def
          split: if_splits)
    with h[OF frag_lits(7,8)] show ?thesis by simp
  qed
qed

lemma headings_balanced_witness:
  "frag [''p''] ''</p><h3>A</h3><p>'' [''p'']"
proof -
  have ok: "text_ok (Some ''A'')" using balanced_plain[of "''A''"] by (simp add: text_ok_def)
  have run: "process_cmd demo_files demo_fmt3 ''section'' (Some ''A'') None = Inr (Some ''</p><h3>A</h3><p>'', demo_fmt3)"
    by (simp add: process_cmd_eq find_cmd_def cmds_def takes_def process_section_def pure_cmd_def)
  from headings_balanced[OF ok _ run] show ?thesis by simp
qed

definition environments :: "string set" where
  "environments = {''texttt'', ''enumerate'', ''itemize'', ''description'', ''quote'', ''tabular''}"

lemma frag_pairs:
  "frag [] (tag_text n) [n] \<Longrightarrow> frag [''p''] (tag_text ''/p'' @ tag_text n) [n]"
  "frag [n] (tag_text (CHR ''/'' # n)) [] \<Longrightarrow> frag [n] (tag_text (CHR ''/'' # n) @ tag_text ''p'') [''p'']"
  by (rule frag_append[OF frag_lits(1)], assumption) (rule frag_append[OF _ frag_lits(2)], assumption)

lemma frag_quote:
  "frag [''p''] (tag_text ''/p'' @ tag_text ''blockquote'' @ tag_text ''p'') [''p'', ''blockquote'']"
  "frag [''p'', ''blockquote''] (tag_text ''/p'' @ tag_text ''/blockquote'' @ tag_text ''p'') [''p'']"
proof -
  have q: "frag [''blockquote''] (tag_text ''p'') [''p'', ''blockquote'']"
    "frag [''p'', ''blockquote''] (tag_text ''/p'') [''blockquote'']"
    using frag_more[OF frag_lits(2), of "[''blockquote'']"] frag_more[OF frag_lits(1), of "[''blockquote'']"] by simp_all
  show "frag [''p''] (tag_text ''/p'' @ tag_text ''blockquote'' @ tag_text ''p'') [''p'', ''blockquote'']"
    by (rule frag_append[OF frag_lits(1) frag_append[OF frag_lits(19) q(1)]])
  show "frag [''p'', ''blockquote''] (tag_text ''/p'' @ tag_text ''/blockquote'' @ tag_text ''p'') [''p'']"
    by (rule frag_append[OF q(2) frag_append[OF frag_lits(20) frag_lits(2)]])
qed

lemma int_add_Inr: "int_add a b = Inr c \<longleftrightarrow> INT_MIN \<le> a + b \<and> a + b \<le> INT_MAX \<and> c = a + b"
  by (auto simp: int_add_def)

text \<open>The element of an environment, and the elements open inside it.\<close>

definition env_elem :: "string \<Rightarrow> string" where
  "env_elem e =
     (if e = ''texttt'' then ''pre'' else if e = ''enumerate'' then ''ol'' else if e = ''itemize'' then ''ul''
      else if e = ''description'' then ''dl'' else if e = ''quote'' then ''blockquote'' else ''table'')"

definition env_inner :: "string \<Rightarrow> string list" where
  "env_inner e = (if e = ''quote'' then [''p'', ''blockquote''] else [env_elem e])"

definition env_outer :: "string \<Rightarrow> int \<Rightarrow> string list" where
  "env_outer e tables = (if e = ''tabular'' \<and> tables \<noteq> 0 then [] else [''p''])"

lemma environments_cases:
  "e \<in> environments \<Longrightarrow> e = ''texttt'' \<or> e = ''enumerate'' \<or> e = ''itemize'' \<or> e = ''description'' \<or> e = ''quote'' \<or> e = ''tabular''"
  by (simp add: environments_def)

lemma frag_elem: "e \<in> environments \<Longrightarrow> frag [] (tag_text (env_elem e)) [env_elem e] \<and> frag [env_elem e] (tag_text (CHR ''/'' # env_elem e)) []"
  using frag_lits by (elim environments_cases[elim_format] disjE) (simp_all add: env_elem_def)

lemma begin_frag:
  assumes e: "e \<in> environments" and run: "process_begin E d (Some e) ob = Inr (b, d1)"
  shows "\<exists>s. b = Some s \<and> frag (env_outer e (table_nesting d)) s (env_inner e)" (is ?text)
    "table_nesting d1 = table_nesting d + of_bool (e = ''tabular'')" (is ?tables)
    "texttt_nesting d1 = texttt_nesting d + of_bool (e = ''texttt'')" (is ?tts)
proof -
  have b: "b = Some (if e = ''tabular'' \<and> table_nesting d \<noteq> 0 then tag_text ''table''
      else tag_text ''/p'' @ tag_text (env_elem e) @ (if e = ''quote'' then tag_text ''p'' else []))" and ?tables ?tts
    using environments_cases[OF e] run
    by (elim disjE; auto simp: process_begin_def tag_text_def env_elem_def rbind_eq_Inr int_add_Inr)+
  have elem: "frag [] (tag_text (env_elem e)) [env_elem e]" using frag_elem[OF e] by simp
  show ?text
  proof (cases "e = ''quote''")
    case True
    with b frag_quote(1) show ?thesis by (simp add: env_outer_def env_inner_def env_elem_def)
  next
    case False
    with b elem frag_pairs(1)[OF elem] have ?text if "e = ''tabular'' \<longrightarrow> table_nesting d = 0"
      using that by (auto simp: env_outer_def env_inner_def)
    moreover have ?text if "e = ''tabular''" "table_nesting d \<noteq> 0"
      using b elem that by (simp add: env_outer_def env_inner_def env_elem_def)
    ultimately show ?thesis by blast
  qed
  show ?tables ?tts by fact+
qed

lemma end_frag:
  assumes e: "e \<in> environments" and run: "process_end E d (Some e) ob = Inr (z, d1)"
  shows "\<exists>s. z = Some s \<and> frag (env_inner e) s (env_outer e (table_nesting d1))" (is ?text)
    "table_nesting d1 = table_nesting d - of_bool (e = ''tabular'')" (is ?tables)
    "texttt_nesting d1 = texttt_nesting d - of_bool (e = ''texttt'')" (is ?tts)
proof -
  have z: "z = Some (if e = ''tabular'' \<and> table_nesting d1 \<noteq> 0 then tag_text ''/table''
      else (if e = ''quote'' then tag_text ''/p'' else []) @ tag_text (CHR ''/'' # env_elem e) @ tag_text ''p'')" and ?tables ?tts
    using environments_cases[OF e] run
    by (elim disjE; auto simp: process_end_def tag_text_def env_elem_def rbind_eq_Inr int_add_Inr)+
  have elem: "frag [env_elem e] (tag_text (CHR ''/'' # env_elem e)) []" using frag_elem[OF e] by simp
  show ?text
  proof (cases "e = ''quote''")
    case True
    with z frag_quote(2) show ?thesis by (simp add: env_outer_def env_inner_def env_elem_def)
  next
    case False
    with z elem frag_pairs(2)[OF elem] have ?text if "e = ''tabular'' \<longrightarrow> table_nesting d1 = 0"
      using that by (auto simp: env_outer_def env_inner_def)
    moreover have ?text if "e = ''tabular''" "table_nesting d1 \<noteq> 0"
      using z elem that by (simp add: env_outer_def env_inner_def env_elem_def)
    ultimately show ?thesis by blast
  qed
  show ?tables ?tts by fact+
qed

text \<open>
  The \<^verbatim>\<open>\begin\<close> and the \<^verbatim>\<open>\end\<close> of an environment fit together: what the first opens the second
  closes, around any text that keeps the elements and the nesting counts, and the nesting counts are
  then as before; a table inside a table does not close the paragraph.
\<close>

theorem environments_nest:
  assumes "e \<in> environments" "process_begin E d (Some e) ob = Inr (Some b, d1)"
    and "table_nesting d2 = table_nesting d1" "texttt_nesting d2 = texttt_nesting d1"
    and "process_end E d2 (Some e) ob' = Inr (Some z, d3)"
  shows "\<exists>outer inner. frag outer b inner \<and> frag inner z outer \<and>
     outer = (if e = ''tabular'' \<and> table_nesting d \<noteq> 0 then [] else [''p'']) \<and>
     table_nesting d3 = table_nesting d \<and> texttt_nesting d3 = texttt_nesting d"
  using begin_frag[OF assms(1,2)] end_frag[OF assms(1,5)] assms(3,4) by (auto simp: env_outer_def)

theorem environments_nest_witness:
  "\<exists>outer inner. frag outer ''</p><table>'' inner \<and> frag inner ''</table><p>'' outer \<and> outer = [''p'']"
proof -
  have b: "process_begin demo_files demo_fmt3 (Some ''tabular'') None =
      Inr (Some ''</p><table>'', demo_fmt3\<lparr>table_nesting := 1\<rparr>)"
    and z: "process_end demo_files (demo_fmt3\<lparr>table_nesting := 1\<rparr>) (Some ''tabular'') None =
      Inr (Some ''</table><p>'', demo_fmt3)"
    by (simp_all add: process_begin_def process_end_def demo_fmt3_def)
  have "''tabular'' \<in> environments" by (simp add: environments_def)
  from environments_nest[OF this b refl refl z] show ?thesis by (auto simp: demo_fmt3_def)
qed

text \<open>
  The links to posts and tags are cut to their buffer of 1024 bytes: a long text loses the end tag,
  and the link stays open.
\<close>

theorem long_link_unbalanced:
  "\<exists>s. process_cmd demo_files demo_fmt3 ''post'' (Some ''1'') (Some (replicate 1000 CHR ''x'')) = Inr (Some s, demo_fmt3) \<and>
     length s = 1023 \<and> \<not> balanced s"
proof -
  let ?pre = "''a href='' @ DQ @ ''example.com/?p=1'' @ DQ"
  let ?rep = "replicate 1000 CHR ''x''"
  define s where "s = c_snprintf 1024 (''<a href='' @ DQ @ ''example.com'' @ ''/?p='' @ ''1'' @ DQ @ ''>'' @ ?rep @ ''</a>'')"
  have run: "process_cmd demo_files demo_fmt3 ''post'' (Some ''1'') (Some ?rep) = Inr (Some s, demo_fmt3)"
    by (simp add: process_cmd_eq find_cmd_def cmds_def takes_def process_post_def link_buf_def or_else_def demo_files_def
        config_fill_def config_load_url_def cons_sx_def exampledotcom_def s_def)
  have "s = tag_text ?pre @ replicate 996 CHR ''x''"
    by (simp add: s_def c_snprintf_def tag_text_def)
  moreover have "frag [] (tag_text ?pre) [''a'']" by (rule frag_open) simp_all
  moreover have "balanced (replicate 996 CHR ''x'')" by (rule balanced_plain) simp
  ultimately have "frag [] s [''a'']" by (auto intro: frag_append balanced_in)
  then have "\<not> balanced s" by (simp add: frag_def)
  moreover have "length s = 1023" by (simp add: s_def c_snprintf_def)
  ultimately show ?thesis using run by blast
qed

end
