(* ===== verification/PostTime.thy ===== *)
theory PostTime
  imports Pipeline
begin

text \<open>
  The time stamps of posts and comments: \<^verbatim>\<open>parse_time_cstr\<close> of \<^verbatim>\<open>utils.c\<close> with the part of
  \<^verbatim>\<open>strptime\<close> it uses. The broken-down time it fills is a local variable that is not initialised, so
  its contents before the call are an argument of the model; \<^verbatim>\<open>strptime\<close> sets only the fields its
  format names, and the seconds keep whatever was there. (In UTC the daylight saving flag does not
  matter.)
\<close>

section \<open>strptime\<close>

text \<open>A number of at most \<open>n\<close> digits in a range, after blanks.\<close>

definition strp_num :: "nat \<Rightarrow> nat \<Rightarrow> nat \<Rightarrow> string \<Rightarrow> (nat \<times> string) option" where
  "strp_num lo hi n s =
     (let s1 = dropWhile (\<lambda>c. c = CHR '' '') s; ds = take n (takeWhile is_digit s1); v = nat_of_dec ds
      in if ds = [] \<or> v < lo \<or> hi < v then None else Some (v, drop (length ds) s1))"

definition strp_conv :: "char \<Rightarrow> string \<Rightarrow> tm \<Rightarrow> (string \<times> tm) option" where
  "strp_conv k s t =
     (if k = CHR ''Y'' then map_option (\<lambda>(n, r). (r, t\<lparr>tm_year := int n - 1900\<rparr>)) (strp_num 0 9999 4 s)
      else if k = CHR ''m'' then map_option (\<lambda>(n, r). (r, t\<lparr>tm_mon := int n - 1\<rparr>)) (strp_num 1 12 2 s)
      else if k = CHR ''d'' then map_option (\<lambda>(n, r). (r, t\<lparr>tm_mday := int n\<rparr>)) (strp_num 1 31 2 s)
      else if k = CHR ''H'' then map_option (\<lambda>(n, r). (r, t\<lparr>tm_hour := int n\<rparr>)) (strp_num 0 23 2 s)
      else if k = CHR ''M'' then map_option (\<lambda>(n, r). (r, t\<lparr>tm_min := int n\<rparr>)) (strp_num 0 59 2 s)
      else None)"

text \<open>The fields as they are when the format ends or the first item does not match.\<close>

fun strptime :: "string \<Rightarrow> string \<Rightarrow> tm \<Rightarrow> tm" where
  "strptime [] s t = t"
| "strptime (c # f) s t =
     (if c = CHR ''%'' then
        (case f of [] \<Rightarrow> t
         | k # f' \<Rightarrow> (case strp_conv k s t of None \<Rightarrow> t | Some (s', t') \<Rightarrow> strptime f' s' t'))
      else if c = CHR '' '' then strptime f (dropWhile (\<lambda>c. c = CHR '' '') s) t
      else (case s of [] \<Rightarrow> t | d # s' \<Rightarrow> if d = c then strptime f s' t else t))"

definition parse_time_cstr :: "tm \<Rightarrow> string option \<Rightarrow> int" where
  "parse_time_cstr stale str =
     (case str of None \<Rightarrow> 0 | Some s \<Rightarrow> mktime (strptime ''%Y-%m-%d %H:%M'' s stale))"

definition parse_time_str :: "tm \<Rightarrow> string option \<Rightarrow> int" where
  "parse_time_str stale str = parse_time_cstr stale str"

section \<open>Reading what strftime wrote\<close>

lemma strp_num_digits:
  assumes "\<forall>c\<in>set ds. is_digit c" "ds \<noteq> []" "length ds \<le> n" "r = [] \<or> \<not> is_digit (hd r)"
    and "lo \<le> nat_of_dec ds" "nat_of_dec ds \<le> hi"
  shows "strp_num lo hi n (ds @ r) = Some (nat_of_dec ds, r)"
proof -
  obtain d ds' where ds: "ds = d # ds'" using assms(2) by (cases ds) auto
  with assms(1) have "d \<noteq> CHR '' ''" by (auto simp: is_digit_def)
  then have skip: "dropWhile (\<lambda>c. c = CHR '' '') (ds @ r) = ds @ r" by (simp add: ds)
  have "takeWhile is_digit r = []" using assms(4) by (cases r) auto
  then have tk: "takeWhile is_digit (ds @ r) = ds" using assms(1) by (simp add: takeWhile_append)
  show ?thesis unfolding strp_num_def Let_def skip tk using assms(2,3,5,6) by simp
qed

lemma length_dec2: "n < 100 \<Longrightarrow> length (dec_of_nat n) \<le> 2"
proof -
  assume "n < 100"
  then have "n div 10 < 10" by simp
  then show ?thesis by (cases "n < 10") (simp_all add: dec_of_nat.simps[of n] dec_of_nat.simps[of "n div 10"])
qed

lemma length_dec4: "n < 10000 \<Longrightarrow> length (dec_of_nat n) \<le> 4"
proof -
  assume n: "n < 10000"
  have q: "n div 100 < 100" using n by simp
  have "length (dec_of_nat n) \<le> length (dec_of_nat (n div 100)) + 2"
  proof (cases "n < 100")
    case True
    then show ?thesis using length_dec2[of n] by simp
  next
    case False
    have "n div 10 div 10 = n div 100" by (simp add: div_mult2_eq[symmetric])
    with False show ?thesis by (simp add: dec_of_nat.simps[of n] dec_of_nat.simps[of "n div 10"])
  qed
  with length_dec2[OF q] show ?thesis by simp
qed

lemma dec_of_nat_ne [simp]: "dec_of_nat n \<noteq> []"
  by (subst dec_of_nat.simps) simp

lemma pad2_hd: "0 \<le> i \<Longrightarrow> \<exists>c cs. pad2 (CHR ''0'') i = c # cs \<and> is_digit c"
proof (cases "i < 10")
  case True
  then show ?thesis by (simp add: pad2_def is_digit_def)
next
  case False
  assume "0 \<le> i"
  with False have "pad2 (CHR ''0'') i = dec_of_nat (nat i)" by (simp add: pad2_def dec_of_int_def)
  moreover obtain c cs where "dec_of_nat (nat i) = c # cs" by (cases "dec_of_nat (nat i)") simp_all
  moreover from this have "is_digit c" using dec_of_nat_digits[of "nat i"] by simp
  ultimately show ?thesis by simp
qed

lemma strp_num_year:
  assumes "0 \<le> i" "i \<le> 9999" "r = [] \<or> \<not> is_digit (hd r)"
  shows "strp_num 0 9999 4 (dec_of_int i @ r) = Some (nat i, r)"
proof -
  have d: "dec_of_int i = dec_of_nat (nat i)" using assms(1) by (simp add: dec_of_int_def)
  have "length (dec_of_nat (nat i)) \<le> 4" using assms(1,2) by (intro length_dec4) simp
  from strp_num_digits[OF dec_of_nat_digits dec_of_nat_ne this assms(3)] show ?thesis
    using assms(1,2) by (simp add: d nat_of_dec_of_nat)
qed

lemma strp_num_pad2:
  assumes "0 \<le> i" "int lo \<le> i" "i \<le> int hi" "hi < 100" "r = [] \<or> \<not> is_digit (hd r)"
  shows "strp_num lo hi 2 (pad2 (CHR ''0'') i @ r) = Some (nat i, r)"
proof -
  let ?ds = "pad2 (CHR ''0'') i"
  have d: "?ds = (if i < 10 then CHR ''0'' # dec_of_nat (nat i) else dec_of_nat (nat i))"
    using assms(1) by (simp add: pad2_def dec_of_int_def)
  have "length (dec_of_nat (nat i)) = 1" if "i < 10" using that by (subst dec_of_nat.simps) simp
  moreover have "length (dec_of_nat (nat i)) \<le> 2" using assms(3,4) by (intro length_dec2) simp
  ultimately have len: "length ?ds \<le> 2" by (simp add: d)
  have dig: "\<forall>c\<in>set ?ds. is_digit c" using dec_of_nat_digits by (auto simp: d is_digit_def)
  have val: "nat_of_dec ?ds = nat i" by (simp add: d nat_of_dec_zero nat_of_dec_of_nat)
  have ne: "?ds \<noteq> []" by (simp add: d)
  have "lo \<le> nat i" "nat i \<le> hi" using assms(2,3) by linarith+
  with strp_num_digits[OF dig ne len assms(5), of lo hi] show ?thesis by (simp add: val)
qed

lemma broken_down_upper:
  shows "tm_mon (broken_down ts) \<le> 11" "tm_mday (broken_down ts) \<le> 31" "tm_hour (broken_down ts) \<le> 23"
    "tm_min (broken_down ts) \<le> 59"
proof -
  obtain y yd where y: "find_year 1970 (ts div 86400) = (y, yd)" by (cases "find_year 1970 (ts div 86400)")
  obtain m md where m: "find_month (month_days y) yd = (m, md)" by (cases "find_month (month_days y) yd")
  from find_year_spec[OF y] find_month_spec[OF m] have
    md: "0 \<le> m" "m < 12" "md < month_days y ! nat m" by (simp_all add: sum_month_days)
  have "month_days y ! nat m \<in> set (month_days y)" using md(1,2) by (intro nth_mem) simp
  then have "month_days y ! nat m \<le> 31" by (auto simp: month_days_def split: if_splits)
  with md have "md + 1 \<le> 31" "m \<le> 11" by simp_all
  moreover have "ts mod 86400 div 3600 \<le> 23"
  proof -
    have "ts mod 86400 < 86400" by simp
    then have "ts mod 86400 div 3600 < 24" by (simp add: div_less_iff_less_mult)
    then show ?thesis by simp
  qed
  moreover have "ts mod 86400 div 60 mod 60 \<le> 59"
    using pos_mod_bound[of 60 "ts mod 86400 div 60"] by simp
  ultimately show "tm_mon (broken_down ts) \<le> 11" "tm_mday (broken_down ts) \<le> 31" "tm_hour (broken_down ts) \<le> 23"
    "tm_min (broken_down ts) \<le> 59"
    unfolding broken_down_fields[OF y m] by simp_all
qed

lemma strptime_strftime:
  assumes "0 \<le> ts" "tm_year (broken_down ts) + 1900 \<le> 9999"
  shows "strptime ''%Y-%m-%d %H:%M'' (strftime ''%Y-%m-%d %H:%M'' (broken_down ts)) t =
    t\<lparr>tm_year := tm_year (broken_down ts), tm_mon := tm_mon (broken_down ts), tm_mday := tm_mday (broken_down ts),
      tm_hour := tm_hour (broken_down ts), tm_min := tm_min (broken_down ts)\<rparr>"
proof -
  let ?b = "broken_down ts"
  note r = broken_down_ranges[OF assms(1)] and u = broken_down_upper[of ts]
  have sep: "\<not> is_digit (CHR ''-'')" "\<not> is_digit (CHR '' '')" "\<not> is_digit (CHR '':'')"
    by (simp_all add: is_digit_def)
  have written: "strftime ''%Y-%m-%d %H:%M'' ?b =
    dec_of_int (tm_year ?b + 1900) @ CHR ''-'' # pad2 (CHR ''0'') (tm_mon ?b + 1) @ CHR ''-'' #
    pad2 (CHR ''0'') (tm_mday ?b) @ CHR '' '' # pad2 (CHR ''0'') (tm_hour ?b) @ CHR '':'' #
    pad2 (CHR ''0'') (tm_min ?b) @ []"
    by (simp add: strftime_conv_def)
  have blank: "dropWhile (\<lambda>c. c = CHR '' '') (pad2 (CHR ''0'') (tm_hour ?b) @ s) = pad2 (CHR ''0'') (tm_hour ?b) @ s" for s
  proof -
    obtain c cs where c: "pad2 (CHR ''0'') (tm_hour ?b) = c # cs" "is_digit c"
      using pad2_hd[OF r(3)] by blast
    then have "c \<noteq> CHR '' ''" by (auto simp: is_digit_def)
    with c show ?thesis by simp
  qed
  show ?thesis
    unfolding written using r u assms(2) strp_num_pad2[OF r(2), of 0 59 "[]"]
    by (simp add: strp_conv_def strp_num_year strp_num_pad2 sep blank)
qed

lemma mktime_seconds: "mktime (t\<lparr>tm_sec := s\<rparr>) = mktime t - tm_sec t + s"
  by (simp add: mktime_def Let_def)

text \<open>
  C28. A time stamp written with the format of comment metadata reads back as the minute it names, plus
  whatever the uninitialised seconds of the local variable hold: the time read is exact to the minute
  only when that memory happens to be zero.
\<close>

theorem parse_time_roundtrip:
  assumes "0 \<le> ts" "tm_year (broken_down ts) + 1900 \<le> 9999"
  shows "parse_time_cstr stale (Some (strftime ''%Y-%m-%d %H:%M'' (broken_down ts))) = ts - ts mod 60 + tm_sec stale"
proof -
  let ?b = "broken_down ts"
  let ?t = "stale\<lparr>tm_year := tm_year ?b, tm_mon := tm_mon ?b, tm_mday := tm_mday ?b,
      tm_hour := tm_hour ?b, tm_min := tm_min ?b\<rparr>"
  have "mktime ?t = mktime (?b\<lparr>tm_sec := tm_sec stale\<rparr>)" by (simp add: mktime_def Let_def)
  also have "\<dots> = ts - tm_sec ?b + tm_sec stale" by (simp add: mktime_seconds mktime_broken_down)
  also have "tm_sec ?b = ts mod 60"
    by (simp add: broken_down_def Let_def mod_mod_cancel split: prod.split)
  finally show ?thesis by (simp only: parse_time_cstr_def option.case strptime_strftime[OF assms])
qed

theorem parse_time_roundtrip_witness:
  "parse_time_cstr (tm_zero\<lparr>tm_sec := 7\<rparr>) (Some ''2015-09-19 21:28'') = 1442698080 + 7"
proof -
  have b: "broken_down 1442698125 = \<lparr>tm_sec = 45, tm_min = 28, tm_hour = 21, tm_mday = 19, tm_mon = 8, tm_year = 115, tm_wday = 6\<rparr>"
    by code_simp
  have "strftime ''%Y-%m-%d %H:%M'' (broken_down 1442698125) = ''2015-09-19 21:28''"
    unfolding b by code_simp
  with parse_time_roundtrip[of 1442698125 "tm_zero\<lparr>tm_sec := 7\<rparr>"] b show ?thesis by simp
qed

end
