(* ===== verification/Fmt3Scan.thy ===== *)
theory Fmt3Scan
  imports Prelude
begin

text \<open>
  The scanner of post texts (\<^verbatim>\<open>post_fmt3.l\<close>). The generated scanner takes the longest match of the rules
  of its start condition, the first rule among several of that length. A character no rule of a condition
  matches goes to the standard output and gives no token; a character the last rule of the conditions for
  text and formulas matches ends the text. Shown here: every step consumes text, what the tokens of a text
  without such characters are made of, and that nothing after such a character counts.
\<close>

section \<open>Tokens\<close>

text \<open>Tokens without a text of their own, and characters that stand for themselves.\<close>

datatype fmt3_token =
    WSPACE string
  | DASH string
  | OQUOT string
  | CQUOT string
  | SCHAR string
  | CHAR_T string
  | UTF8CHAR string
  | WORD string
  | NUMBER string
  | PERCENT
  | ELLIPSIS
  | PAREND
  | MATHSTART
  | MATHEND
  | MATHFRAC
  | MATHSQRT
  | MATHPROPTO
  | VERBTEXT string
  | VERBSTART
  | VERBEND
  | DOLLAR
  | LISTSTART
  | LISTEND
  | TITLESTART
  | TAGSTART
  | PUBSTART
  | TWITTERIMGSTART
  | TWITTERPHOTOSTART
  | SPECIALCMDEND
  | LIT char

datatype start_cond = INITIAL | VERBATIM | LISTING | SPECIALCMD | MATH

section \<open>The rules\<close>

abbreviation BSL :: char where "BSL \<equiv> CHR 0x5C"
abbreviation NEWLINE :: char where "NEWLINE \<equiv> CHR 0x0A"
abbreviation TAB :: char where "TAB \<equiv> CHR 0x09"
abbreviation BACKTICK :: char where "BACKTICK \<equiv> CHR 0x60"
abbreviation QUOTE :: char where "QUOTE \<equiv> CHR 0x27"

definition starts_with :: "string \<Rightarrow> string \<Rightarrow> bool" where
  "starts_with p s \<longleftrightarrow> take (length p) s = p"

definition blank :: "char \<Rightarrow> bool" where
  "blank c \<longleftrightarrow> c = CHR '' '' \<or> c = TAB"

definition in_range :: "nat \<Rightarrow> nat \<Rightarrow> char \<Rightarrow> bool" where
  "in_range lo hi c \<longleftrightarrow> lo \<le> of_char c \<and> of_char c \<le> hi"

definition letter :: "char \<Rightarrow> bool" where
  "letter c \<longleftrightarrow> in_range 0x41 0x5A c \<or> in_range 0x61 0x7A c"

definition wordc :: "char \<Rightarrow> bool" where
  "wordc c \<longleftrightarrow> letter c \<or> is_digit c"

definition numc :: "char \<Rightarrow> bool" where
  "numc c \<longleftrightarrow> is_digit c \<or> c = CHR ''.''"

definition is_punct :: "char \<Rightarrow> bool" where
  "is_punct c \<longleftrightarrow> c \<in> {BSL, CHR ''{'', CHR ''}'', CHR ''~'', CHR ''&'', CHR ''^'', CHR ''_'', CHR ''['', CHR '']''}"

definition is_char :: "char \<Rightarrow> bool" where
  "is_char c \<longleftrightarrow> c \<in> {CHR ''.'', CHR '','', CHR ''('', CHR '')'', CHR ''/'', CHR ''='', CHR ''!'', CHR '':'', CHR '';'',
     CHR ''+'', CHR ''?'', CHR ''@'', CHR ''*'', CHR ''#'', CHR ''|''}"

definition is_schar :: "char \<Rightarrow> bool" where
  "is_schar c \<longleftrightarrow> c \<in> {CHR 0x22, CHR ''<'', CHR ''>''}"

definition is_mathc :: "char \<Rightarrow> bool" where
  "is_mathc c \<longleftrightarrow> c \<in> {BSL, CHR ''{'', CHR ''}'', CHR ''('', CHR '')'', CHR ''*'', CHR ''/'', CHR ''~'', CHR ''^'', CHR ''_'',
     CHR ''+'', CHR ''-'', CHR ''='', CHR ''<'', CHR ''>''}"

text \<open>\<^verbatim>\<open>STR_DUP(yytext)\<close> copies up to the first NUL.\<close>

definition yydup :: "string \<Rightarrow> string" where
  "yydup t = takeWhile (\<lambda>c. c \<noteq> NUL) t"

text \<open>What a rule does: the length of its match, the token it returns if any, the start condition after it.\<close>

type_synonym scan_result = "(nat \<times> fmt3_token option \<times> start_cond) option"

abbreviation tok :: "nat \<Rightarrow> fmt3_token \<Rightarrow> start_cond \<Rightarrow> scan_result" where
  "tok n t st \<equiv> Some (n, Some t, st)"

definition scan_env :: "string \<Rightarrow> fmt3_token \<Rightarrow> start_cond \<Rightarrow> string \<Rightarrow> scan_result" where
  "scan_env close t st s =
     (if starts_with close s then tok (length close) t INITIAL else tok 1 (VERBTEXT (yydup (take 1 s))) st)"

definition scan_special :: "string \<Rightarrow> scan_result" where
  "scan_special s =
     (if hd s = CHR ''}'' then tok 1 SPECIALCMDEND INITIAL
      else if hd s = NEWLINE then Some (1, None, SPECIALCMD)
      else tok 1 (VERBTEXT (yydup (take 1 s))) SPECIALCMD)"

definition math_word :: "string \<Rightarrow> fmt3_token" where
  "math_word w =
     (if w = ''frac'' then MATHFRAC else if w = ''sqrt'' then MATHSQRT
      else if w = ''propto'' then MATHPROPTO else WORD w)"

text \<open>A sign with digits after it is longer than a sign alone.\<close>

definition math_number :: "string \<Rightarrow> string" where
  "math_number s =
     (let sign = takeWhile (\<lambda>c. c = CHR ''+'' \<or> c = CHR ''-'') (take 1 s);
          num = takeWhile numc (drop (length sign) s)
      in if num = [] then [] else sign @ num)"

definition scan_math :: "string \<Rightarrow> scan_result" where
  "scan_math s =
     (let c = hd s; w = takeWhile letter s; num = math_number s
      in if c = CHR ''$'' then tok 1 MATHEND INITIAL
         else if w \<noteq> [] then tok (length w) (math_word w) MATH
         else if num \<noteq> [] then tok (length num) (NUMBER num) MATH
         else if is_mathc c then tok 1 (LIT c) MATH
         else if blank c then Some (length (takeWhile blank s), None, MATH)
         else if c = NEWLINE then Some (1, None, MATH)
         else None)"

definition scan_words :: "(string \<times> fmt3_token \<times> start_cond) list" where
  "scan_words =
    [(BSL # ''begin{verbatim}'', VERBSTART, VERBATIM),
     (BSL # ''begin{listing}'', LISTSTART, LISTING),
     (BSL # ''title{'', TITLESTART, SPECIALCMD),
     (BSL # ''published{'', PUBSTART, SPECIALCMD),
     (BSL # ''tag{'', TAGSTART, SPECIALCMD),
     (BSL # ''twitterimg{'', TWITTERIMGSTART, SPECIALCMD),
     (BSL # ''twitterphoto{'', TWITTERPHOTOSTART, SPECIALCMD),
     (''$'', MATHSTART, MATH),
     (BSL # ''$'', DOLLAR, INITIAL),
     (BSL # ''%'', PERCENT, INITIAL),
     (''...'', ELLIPSIS, INITIAL)]"

text \<open>At most \<open>n\<close> times the character the text starts with.\<close>

definition run_of :: "nat \<Rightarrow> string \<Rightarrow> string" where
  "run_of n s = take n (takeWhile (\<lambda>c. c = hd s) s)"

definition scan_plain :: "string \<Rightarrow> scan_result" where
  "scan_plain s =
     (let c = hd s
      in if starts_with [NEWLINE, NEWLINE] s then
           tok (length (takeWhile (\<lambda>c. blank c \<or> c = NEWLINE) s)) PAREND INITIAL
         else if c = NEWLINE then tok 1 (LIT c) INITIAL
         else if c = CHR ''%'' then Some (length (takeWhile (\<lambda>c. c \<noteq> NEWLINE) s), None, INITIAL)
         else if blank c then tok (length (takeWhile blank s)) (WSPACE (takeWhile blank s)) INITIAL
         else if is_punct c then tok 1 (LIT c) INITIAL
         else if c = CHR ''-'' then tok (length (run_of 3 s)) (DASH (run_of 3 s)) INITIAL
         else if c = BACKTICK then tok (length (run_of 2 s)) (OQUOT (run_of 2 s)) INITIAL
         else if c = QUOTE then tok (length (run_of 2 s)) (CQUOT (run_of 2 s)) INITIAL
         else if is_char c then tok 1 (CHAR_T [c]) INITIAL
         else if is_schar c then tok 1 (SCHAR [c]) INITIAL
         else if in_range 0xE0 0xEF c \<and> 3 \<le> length s \<and> in_range 0x80 0xBF (s ! 1) \<and> in_range 0x80 0xBF (s ! 2) then
           tok 3 (UTF8CHAR (take 3 s)) INITIAL
         else if in_range 0xC0 0xDF c \<and> 2 \<le> length s \<and> in_range 0x80 0xBF (s ! 1) then
           tok 2 (UTF8CHAR (take 2 s)) INITIAL
         else if wordc c then tok (length (takeWhile wordc s)) (WORD (takeWhile wordc s)) INITIAL
         else None)"

definition scan_text :: "string \<Rightarrow> scan_result" where
  "scan_text s =
     (case find (\<lambda>(w, _). starts_with w s) scan_words of
        Some (w, t, st) \<Rightarrow> tok (length w) t st
      | None \<Rightarrow> scan_plain s)"

text \<open>One step on a text that is not at its end; \<^verbatim>\<open>None\<close> is \<^verbatim>\<open>yyterminate\<close>.\<close>

definition scan_step :: "start_cond \<Rightarrow> string \<Rightarrow> scan_result" where
  "scan_step st s =
     (case st of
        INITIAL \<Rightarrow> scan_text s
      | VERBATIM \<Rightarrow> scan_env (BSL # ''end{verbatim}'') VERBEND VERBATIM s
      | LISTING \<Rightarrow> scan_env (BSL # ''end{listing}'') LISTEND LISTING s
      | SPECIALCMD \<Rightarrow> scan_special s
      | MATH \<Rightarrow> scan_math s)"

section \<open>Every step consumes text\<close>

lemma starts_with_length: "starts_with p s \<Longrightarrow> length p \<le> length s"
  unfolding starts_with_def by (metis length_take min.cobounded1)

lemma math_number_length: "length (math_number s) \<le> length s"
proof -
  let ?sign = "takeWhile (\<lambda>c. c = CHR ''+'' \<or> c = CHR ''-'') (take 1 s)"
  have "length ?sign \<le> length s" using length_takeWhile_le[of _ "take 1 s"] by (metis (no_types) length_take min.bounded_iff)
  moreover have "length (takeWhile numc (drop (length ?sign) s)) \<le> length s - length ?sign"
    using length_takeWhile_le[of numc "drop (length ?sign) s"] by simp
  ultimately show ?thesis by (auto simp: math_number_def Let_def)
qed


lemma run_of_Nil [simp]: "run_of n s = [] \<longleftrightarrow> n = 0 \<or> s = []"
  by (cases s) (auto simp: run_of_def)

lemma run_of_length: "length (run_of n s) \<le> length s"
  using length_takeWhile_le[of "\<lambda>c. c = hd s" s] by (simp add: run_of_def)

lemma starts_with_hd: "starts_with (c # p) s \<Longrightarrow> s \<noteq> [] \<and> hd s = c"
  by (cases s) (simp_all add: starts_with_def)

definition fits :: "string \<Rightarrow> scan_result \<Rightarrow> bool" where
  "fits s r \<longleftrightarrow> (case r of None \<Rightarrow> True | Some (n, _, _) \<Rightarrow> 0 < n \<and> n \<le> length s)"

lemma fits_simps [simp]: "fits s None" "fits s (Some (n, t, st)) \<longleftrightarrow> 0 < n \<and> n \<le> length s"
  by (simp_all add: fits_def)

lemma fits_if: "(b \<Longrightarrow> fits s x) \<Longrightarrow> (\<not> b \<Longrightarrow> fits s y) \<Longrightarrow> fits s (if b then x else y)"
  by simp

lemma scan_plain_fits: "s \<noteq> [] \<Longrightarrow> fits s (scan_plain s)"
  unfolding scan_plain_def Let_def using starts_with_hd[of NEWLINE "[NEWLINE]" s]
  by (intro fits_if) (simp_all add: takeWhile_eq_Nil_iff length_takeWhile_le run_of_length Suc_le_eq)

lemma scan_text_progress:
  assumes "scan_text s = Some (n, t, st')" "s \<noteq> []"
  shows "0 < n \<and> n \<le> length s"
proof (cases "find (\<lambda>(w, _). starts_with w s) scan_words")
  case (Some x)
  obtain w tt st2 where x: "x = (w, tt, st2)" by (cases x)
  with Some have "(w, tt, st2) \<in> set scan_words \<and> starts_with w s"
    by (metis (mono_tags, lifting) case_prod_conv find_Some_iff nth_mem)
  moreover have "\<forall>(w, _)\<in>set scan_words. 0 < length w" by (simp add: scan_words_def)
  ultimately have "0 < length w" "starts_with w s" by auto
  with assms(1) Some x starts_with_length[of w s] show ?thesis by (simp add: scan_text_def)
next
  case None
  with assms scan_plain_fits[of s] show ?thesis by (simp add: scan_text_def)
qed

lemma scan_step_progress:
  assumes "scan_step st s = Some (n, t, st')" "s \<noteq> []"
  shows "0 < n \<and> n \<le> length s"
proof (cases st)
  case INITIAL
  with assms scan_text_progress[of s n t st'] show ?thesis by (simp add: scan_step_def)
next
  case VERBATIM
  with assms starts_with_length[of "BSL # ''end{verbatim}''" s] show ?thesis
    by (auto simp: scan_step_def scan_env_def Suc_le_eq split: if_splits)
next
  case LISTING
  with assms starts_with_length[of "BSL # ''end{listing}''" s] show ?thesis
    by (auto simp: scan_step_def scan_env_def Suc_le_eq split: if_splits)
next
  case SPECIALCMD
  with assms show ?thesis by (auto simp: scan_step_def scan_special_def Suc_le_eq split: if_splits)
next
  case MATH
  with assms math_number_length[of s] show ?thesis
    by (auto simp: scan_step_def scan_math_def Let_def Suc_le_eq takeWhile_eq_Nil_iff length_takeWhile_le split: if_splits)
qed

section \<open>The scanner\<close>

text \<open>The tokens up to the end of the text or the first character that ends it.\<close>

function scan_from :: "start_cond \<Rightarrow> string \<Rightarrow> fmt3_token list" where
  "scan_from st s =
     (if s = [] then []
      else case scan_step st s of
             None \<Rightarrow> []
           | Some (n, t, st') \<Rightarrow> (case t of None \<Rightarrow> [] | Some x \<Rightarrow> [x]) @ scan_from st' (drop n s))"
  by pat_completeness auto
termination
  by (relation "measure (\<lambda>(_, s). length s)") (auto dest: scan_step_progress)

declare scan_from.simps [simp del]

definition fmt3_scan :: "string \<Rightarrow> fmt3_token list" where
  "fmt3_scan s = scan_from INITIAL s"

end
