(* ===== verification/Fmt3.thy ===== *)
theory Fmt3
  imports PostCmds Fmt3Scan
begin

text \<open>
  The grammar of post texts with its semantic actions (\<^verbatim>\<open>post_fmt3.y\<close>). Every nonterminal is a function
  that gives its value and the tokens it leaves; \<^verbatim>\<open>None\<close> is a syntax error. The actions run in the order
  of the text, as the generated parser runs them. A list of things that a rule repeats is read one thing at
  a time; \<^verbatim>\<open>paragraph\<close> is the only recursive function of the text, \<^verbatim>\<open>mexpr\<close> that of formulas, and both carry a
  bound on the number of tokens, which \<^verbatim>\<open>fmt3_parse\<close> takes from the text.
\<close>

section \<open>Helpers of the actions\<close>

definition dashes :: "string option list" where
  "dashes = [None, Some ''-'', Some ''&ndash;'', Some ''&mdash;'']"

definition oquotes :: "string option list" where
  "oquotes = [None, Some ''&lsquo;'', Some ''&ldquo;'']"

definition cquotes :: "string option list" where
  "cquotes = [None, Some ''&rsquo;'', Some ''&rdquo;'']"

text \<open>The assertion allows an index one past the array.\<close>

definition char_cvt :: "string \<Rightarrow> string option list \<Rightarrow> string option res" where
  "char_cvt v outs =
     rbind (assert_that (length v \<le> length outs)) (\<lambda>_.
       if length v < length outs then rbind (str_cstr (outs ! length v)) (\<lambda>t. Inr (Some t)) else Inl OutOfBounds)"

definition special_char :: "string \<Rightarrow> string option res" where
  "special_char v =
     rbind (assert_that (length v = 1)) (\<lambda>_.
       if hd v = CHR 0x22 then Inr (Some ''&quot;'')
       else if hd v = CHR ''<'' then Inr (Some ''&lt;'')
       else if hd v = CHR ''>'' then Inr (Some ''&gt;'')
       else Inl Panicked)"

definition special_cmd :: "'n file_env \<Rightarrow> string \<Rightarrow> bool \<Rightarrow> string option" where
  "special_cmd E v photo =
     Some (if photo then str_cat [cf_photo_base_url (fe_cfg E), Some ''/'', Some v] else v)"

definition special_cmd_list :: "string list \<Rightarrow> string \<Rightarrow> string list" where
  "special_cmd_list var v = v # var"

definition math_apply :: "string \<Rightarrow> string \<Rightarrow> string option \<Rightarrow> string" where
  "math_apply opn a b =
     (case b of
        Some bb \<Rightarrow> ''<'' @ opn @ ''><mrow>'' @ a @ ''</mrow><mrow>'' @ bb @ ''</mrow></'' @ opn @ ''>''
      | None \<Rightarrow> ''<'' @ opn @ ''><mrow>'' @ a @ ''</mrow></'' @ opn @ ''>'')"

section \<open>Formulas\<close>

text \<open>A parser that may meet a syntax error.\<close>

type_synonym 'a parsed = "'a option res"

definition pbind :: "'a parsed \<Rightarrow> ('a \<Rightarrow> 'b parsed) \<Rightarrow> 'b parsed" where
  "pbind m f = rbind m (\<lambda>r. case r of None \<Rightarrow> Inr None | Some x \<Rightarrow> f x)"

lemma pbind_simps [simp]:
  "pbind (Inl e) f = Inl e" "pbind (Inr None) f = Inr None" "pbind (Inr (Some x)) f = f x"
  by (simp_all add: pbind_def)

lemma pbind_eq_Some: "pbind m f = Inr (Some y) \<longleftrightarrow> (\<exists>x. m = Inr (Some x) \<and> f x = Inr (Some y))"
  by (auto simp: pbind_def rbind_eq_Inr split: option.splits)

lemma pbind_eq_Inl: "pbind m f = Inl e \<longleftrightarrow> m = Inl e \<or> (\<exists>x. m = Inr (Some x) \<and> f x = Inl e)"
  by (auto simp: pbind_def rbind_eq_Inl split: option.splits)

text \<open>The next token must be the one given.\<close>

definition expect :: "fmt3_token \<Rightarrow> fmt3_token list \<Rightarrow> fmt3_token list parsed" where
  "expect t ts = Inr (case ts of [] \<Rightarrow> None | u # us \<Rightarrow> if u = t then Some us else None)"

text \<open>The precedences, lowest first; all operators associate to the left.\<close>

definition prec :: "char \<Rightarrow> nat" where
  "prec c =
     (if c \<in> {CHR ''='', CHR ''<'', CHR ''>''} then 1
      else if c \<in> {CHR ''*'', CHR ''/''} then 2
      else if c \<in> {CHR ''+'', CHR ''-''} then 3
      else if c \<in> {CHR ''_'', CHR ''^''} then 4
      else if c = CHR ''~'' then 5 else 0)"

definition next_prec :: "fmt3_token list \<Rightarrow> nat" where
  "next_prec ts = (case ts of LIT c # _ \<Rightarrow> prec c | _ \<Rightarrow> 0)"

definition math_op :: "char \<Rightarrow> string \<Rightarrow> string \<Rightarrow> string" where
  "math_op c a b =
     (if c = CHR ''^'' then math_apply ''msup'' a (Some b)
      else if c = CHR ''_'' then math_apply ''msub'' a (Some b)
      else if c = CHR ''~'' then a @ b
      else if c = CHR ''<'' then a @ ''<mo>&lt;</mo>'' @ b
      else if c = CHR ''>'' then a @ ''<mo>&gt;</mo>'' @ b
      else a @ ''<mo>'' @ [c] @ ''</mo>'' @ b)"

type_synonym math_parser = "fmt3_token list \<Rightarrow> (string \<times> fmt3_token list) parsed"

text \<open>The next tokens are an expression between two characters.\<close>

definition between :: "math_parser \<Rightarrow> char \<Rightarrow> char \<Rightarrow> math_parser" where
  "between me op cl ts =
     pbind (expect (LIT op) ts) (\<lambda>ts1.
     pbind (me ts1) (\<lambda>(a, ts2).
     pbind (expect (LIT cl) ts2) (\<lambda>ts3. Inr (Some (a, ts3)))))"

text \<open>The productions of \<^verbatim>\<open>mexpr\<close> without an infix operator; \<open>me\<close> reads the expressions inside.\<close>

definition mprimary :: "math_parser \<Rightarrow> math_parser" where
  "mprimary me toks =
     (case toks of
        NUMBER n # ts \<Rightarrow> Inr (Some (''<mn>'' @ n @ ''</mn>'', ts))
      | WORD w # ts \<Rightarrow> Inr (Some (''<mi>'' @ w @ ''</mi>'', ts))
      | MATHFRAC # ts \<Rightarrow> Inr (Some (''<mi>frac</mi>'', ts))
      | MATHSQRT # ts \<Rightarrow> Inr (Some (''<mi>sqrt</mi>'', ts))
      | MATHPROPTO # ts \<Rightarrow> Inr (Some (''<mi>propto</mi>'', ts))
      | LIT c # ts \<Rightarrow>
          if c = CHR ''('' then
            pbind (between me (CHR ''('') (CHR '')'') toks) (\<lambda>(a, ts').
              Inr (Some (''<mrow><mo>(</mo><mrow>'' @ a @ ''</mrow><mo>)</mo></mrow>'', ts')))
          else if c = CHR ''{'' then between me (CHR ''{'') (CHR ''}'') toks
          else if c = BSL then
            (case ts of
               MATHFRAC # us \<Rightarrow>
                 pbind (between me (CHR ''{'') (CHR ''}'') us) (\<lambda>(a, us1).
                 pbind (between me (CHR ''{'') (CHR ''}'') us1) (\<lambda>(b, us2).
                   Inr (Some (math_apply ''mfrac'' a (Some b), us2))))
             | MATHSQRT # us \<Rightarrow>
                 pbind (between me (CHR ''{'') (CHR ''}'') us) (\<lambda>(a, us1).
                   Inr (Some (math_apply ''msqrt'' a None, us1)))
             | MATHPROPTO # us \<Rightarrow> Inr (Some (''<mo>&prop;</mo>'', us))
             | _ \<Rightarrow> Inr None)
          else Inr None
      | _ \<Rightarrow> Inr None)"

text \<open>
  \<open>mexpr n p None\<close> reads an expression whose operators bind tighter than \<open>p\<close>; \<open>mexpr n p (Some a)\<close> goes on
  after its left operand \<open>a\<close>: it shifts an operator that binds tighter than \<open>p\<close> and reduces otherwise.
\<close>

fun mexpr :: "nat \<Rightarrow> nat \<Rightarrow> string option \<Rightarrow> math_parser" where
  "mexpr 0 p acc toks = Inl OutOfFuel"
| "mexpr (Suc n) p acc toks =
     (case acc of
        None \<Rightarrow> pbind (mprimary (mexpr n 0 None) toks) (\<lambda>(a, ts). mexpr n p (Some a) ts)
      | Some a \<Rightarrow>
          if p < next_prec toks then
            (case toks of
               LIT c # ts \<Rightarrow>
                 pbind (mexpr n (prec c) None ts) (\<lambda>(b, ts'). mexpr n p (Some (math_op c a b)) ts')
             | _ \<Rightarrow> Inr None)
          else Inr (Some (a, toks)))"

text \<open>\<^verbatim>\<open>math\<close>: expressions up to the end of the formula.\<close>

fun math :: "nat \<Rightarrow> string option \<Rightarrow> math_parser" where
  "math 0 acc toks = Inl OutOfFuel"
| "math (Suc n) acc toks =
     (case (acc, toks) of
        (Some a, MATHEND # ts) \<Rightarrow> Inr (Some (a, toks))
      | _ \<Rightarrow> pbind (mexpr n 0 None toks) (\<lambda>(b, ts).
          math n (Some (case acc of None \<Rightarrow> b | Some a \<Rightarrow> a @ b)) ts))"

section \<open>Text\<close>

fun verb_rest :: "string \<Rightarrow> fmt3_token list \<Rightarrow> string \<times> fmt3_token list" where
  "verb_rest acc (VERBTEXT t # ts) = verb_rest (acc @ t) ts"
| "verb_rest acc ts = (acc, ts)"

definition verb :: "fmt3_token list \<Rightarrow> (string \<times> fmt3_token list) option" where
  "verb ts = (case ts of VERBTEXT t # us \<Rightarrow> Some (verb_rest t us) | _ \<Rightarrow> None)"

text \<open>A \<^verbatim>\<open>verb\<close> and the token after it.\<close>

definition verb_until :: "fmt3_token \<Rightarrow> fmt3_token list \<Rightarrow> (string \<times> fmt3_token list) parsed" where
  "verb_until t ts =
     pbind (Inr (verb ts)) (\<lambda>(v, us). pbind (expect t us) (\<lambda>vs. Inr (Some (v, vs))))"

text \<open>The productions of \<^verbatim>\<open>thing\<close> that are one token.\<close>

definition simple_thing :: "'n fmt3 \<Rightarrow> fmt3_token \<Rightarrow> string option res option" where
  "simple_thing d t =
     (case t of
        WORD w \<Rightarrow> Some (Inr (Some w))
      | UTF8CHAR w \<Rightarrow> Some (Inr (Some w))
      | WSPACE w \<Rightarrow> Some (Inr (Some w))
      | DASH w \<Rightarrow> Some (char_cvt w dashes)
      | OQUOT w \<Rightarrow> Some (char_cvt w oquotes)
      | CQUOT w \<Rightarrow> Some (char_cvt w cquotes)
      | CHAR_T w \<Rightarrow> Some (Inr (Some w))
      | SCHAR w \<Rightarrow> Some (special_char w)
      | ELLIPSIS \<Rightarrow> Some (Inr (Some ''&hellip;''))
      | DOLLAR \<Rightarrow> Some (Inr (Some ''$''))
      | PERCENT \<Rightarrow> Some (Inr (Some ''%''))
      | LIT c \<Rightarrow>
          if c = NEWLINE then Some (Inr (Some (if texttt_nesting d \<noteq> 0 then [NEWLINE] else '' '')))
          else if c = CHR ''~'' then Some (Inr (Some ''&nbsp;''))
          else if c = CHR ''&'' then Some (Inr (Some ''</td><td>''))
          else None
      | _ \<Rightarrow> None)"

text \<open>The productions of \<^verbatim>\<open>cmd\<close> that are one character.\<close>

definition escaped_char :: "char \<Rightarrow> string option" where
  "escaped_char c =
     (if c = BSL then Some ''<br/>''
      else if c \<in> {CHR ''{'', CHR ''}'', CHR ''['', CHR '']'', CHR ''_'', CHR ''^'', CHR ''~''} then Some [c]
      else if c = CHR ''&'' then Some ''&amp;'' else None)"

type_synonym 'n text_parser = "'n fmt3 \<Rightarrow> fmt3_token list \<Rightarrow> (string option \<times> 'n fmt3 \<times> fmt3_token list) parsed"

text \<open>\<^verbatim>\<open>optcmdarg\<close> and \<^verbatim>\<open>cmdarg\<close>: a paragraph between brackets; \<open>par\<close> reads the paragraph.\<close>

definition bracketed :: "'n text_parser \<Rightarrow> char \<Rightarrow> char \<Rightarrow> 'n text_parser" where
  "bracketed par op cl d ts =
     pbind (expect (LIT op) ts) (\<lambda>ts1.
     pbind (par d ts1) (\<lambda>(v, d', ts2).
     pbind (expect (LIT cl) ts2) (\<lambda>ts3. Inr (Some (v, d', ts3)))))"

definition run_process_cmd ::
  "'n file_env \<Rightarrow> 'n fmt3 \<Rightarrow> string \<Rightarrow> string option \<Rightarrow> string option \<Rightarrow> fmt3_token list \<Rightarrow>
   (string option \<times> 'n fmt3 \<times> fmt3_token list) parsed" where
  "run_process_cmd E d w txt opt ts = rbind (process_cmd E d w txt opt) (\<lambda>(v, d'). Inr (Some (v, d', ts)))"

definition command :: "'n text_parser \<Rightarrow> 'n file_env \<Rightarrow> 'n text_parser" where
  "command par E d toks =
     (case toks of
        WORD w # ts \<Rightarrow>
          (case ts of
             LIT c # us \<Rightarrow>
               if c = CHR ''['' then
                 pbind (bracketed par (CHR ''['') (CHR '']'') d ts) (\<lambda>(o1, d1, ts1).
                 pbind (bracketed par (CHR ''{'') (CHR ''}'') d1 ts1) (\<lambda>(a, d2, ts2).
                   run_process_cmd E d2 w a o1 ts2))
               else if c = CHR ''{'' then
                 pbind (bracketed par (CHR ''{'') (CHR ''}'') d ts) (\<lambda>(a, d1, ts1). run_process_cmd E d1 w a None ts1)
               else run_process_cmd E d w None None ts
           | _ \<Rightarrow> run_process_cmd E d w None None ts)
      | LIT c # ts \<Rightarrow> Inr (case escaped_char c of None \<Rightarrow> None | Some v \<Rightarrow> Some (Some v, d, ts))
      | _ \<Rightarrow> Inr None)"

text \<open>The special commands, which give no text: their value is NULL.\<close>

definition special_start :: "fmt3_token \<Rightarrow> bool" where
  "special_start t \<longleftrightarrow> t \<in> {TITLESTART, PUBSTART, TAGSTART, TWITTERIMGSTART, TWITTERPHOTOSTART}"

definition special_action :: "'n file_env \<Rightarrow> 'n fmt3 \<Rightarrow> fmt3_token \<Rightarrow> string \<Rightarrow> 'n fmt3" where
  "special_action E d t v =
     (case t of
        TITLESTART \<Rightarrow> d\<lparr>sc_title := special_cmd E v False\<rparr>
      | PUBSTART \<Rightarrow> d\<lparr>sc_pub := special_cmd E v False\<rparr>
      | TAGSTART \<Rightarrow> d\<lparr>sc_tags := special_cmd_list (sc_tags d) v\<rparr>
      | TWITTERIMGSTART \<Rightarrow> d\<lparr>sc_twitter_img := special_cmd E v False\<rparr>
      | TWITTERPHOTOSTART \<Rightarrow> d\<lparr>sc_twitter_img := special_cmd E v True\<rparr>
      | _ \<Rightarrow> d)"

definition thing :: "'n text_parser \<Rightarrow> 'n file_env \<Rightarrow> 'n text_parser" where
  "thing par E d toks =
     (case toks of
        [] \<Rightarrow> Inr None
      | t # ts \<Rightarrow>
          (case simple_thing d t of
             Some r \<Rightarrow> rbind r (\<lambda>v. Inr (Some (v, d, ts)))
           | None \<Rightarrow>
               (case t of
                  LIT c \<Rightarrow> if c = BSL then command par E d ts else Inr None
                | MATHSTART \<Rightarrow>
                    pbind (math (length ts + 2) None ts) (\<lambda>(m, ts1).
                    pbind (expect MATHEND ts1) (\<lambda>ts2.
                      Inr (Some (Some (''<math>'' @ m @ ''</math>''), d, ts2))))
                | VERBSTART \<Rightarrow>
                    pbind (verb_until VERBEND ts) (\<lambda>(v, us). Inr (Some (Some (''</p>'' @ v @ ''<p>''), d, us)))
                | LISTSTART \<Rightarrow>
                    pbind (verb_until LISTEND ts) (\<lambda>(v, us).
                    rbind (listing_str (fe_mem E) (Some v)) (\<lambda>l.
                      Inr (Some (Some (str_cat [Some ''</p><pre>'', l, Some ''</pre><p>'']), d, us))))
                | _ \<Rightarrow>
                    if special_start t then
                      pbind (verb_until SPECIALCMDEND ts) (\<lambda>(v, us). Inr (Some (None, special_action E d t v, us)))
                    else Inr None)))"

text \<open>The tokens a \<^verbatim>\<open>thing\<close> can start with.\<close>

definition starts_thing :: "fmt3_token list \<Rightarrow> bool" where
  "starts_thing ts =
     (case ts of
        [] \<Rightarrow> False
      | t # _ \<Rightarrow>
          (case t of
             LIT c \<Rightarrow> c \<in> {NEWLINE, CHR ''~'', CHR ''&'', BSL}
           | NUMBER _ \<Rightarrow> False | VERBTEXT _ \<Rightarrow> False | PAREND \<Rightarrow> False | MATHEND \<Rightarrow> False | MATHFRAC \<Rightarrow> False
           | MATHSQRT \<Rightarrow> False | MATHPROPTO \<Rightarrow> False | VERBEND \<Rightarrow> False | LISTEND \<Rightarrow> False
           | SPECIALCMDEND \<Rightarrow> False | _ \<Rightarrow> True))"

text \<open>A paragraph after the things read so far, whose joined value is \<open>acc\<close>.\<close>

definition join_thing :: "string option option \<Rightarrow> string option \<Rightarrow> string option" where
  "join_thing acc v = (case acc of None \<Rightarrow> v | Some a \<Rightarrow> Some (str_cat [a, v]))"

fun fmt3_paragraph :: "nat \<Rightarrow> 'n file_env \<Rightarrow> string option option \<Rightarrow> 'n text_parser" where
  "fmt3_paragraph 0 E acc d toks = Inl OutOfFuel"
| "fmt3_paragraph (Suc n) E acc d toks =
     (if starts_thing toks then
        pbind (thing (fmt3_paragraph n E None) E d toks) (\<lambda>(v, d', ts). fmt3_paragraph n E (Some (join_thing acc v)) d' ts)
      else Inr (case acc of None \<Rightarrow> None | Some a \<Rightarrow> Some (a, d, toks)))"

fun fmt3_paragraphs :: "nat \<Rightarrow> 'n file_env \<Rightarrow> string \<Rightarrow> 'n fmt3 \<Rightarrow> fmt3_token list \<Rightarrow> (string \<times> 'n fmt3) parsed" where
  "fmt3_paragraphs 0 E acc d toks = Inl OutOfFuel"
| "fmt3_paragraphs (Suc n) E acc d toks =
     pbind (fmt3_paragraph n E None d toks) (\<lambda>(v, d', ts).
       let out = str_cat [Some acc, Some ''<p>'', v, Some (''</p>'' @ [NEWLINE])]
       in case ts of
            [] \<Rightarrow> Inr (Some (out, d'))
          | PAREND # [] \<Rightarrow> Inr (Some (out, d'))
          | PAREND # us \<Rightarrow> fmt3_paragraphs n E out d' us
          | _ \<Rightarrow> Inr None)"

definition post_rule :: "'n file_env \<Rightarrow> 'n fmt3 \<Rightarrow> fmt3_token list \<Rightarrow> 'n fmt3 parsed" where
  "post_rule E d toks =
     (if toks = [PAREND] then Inr (Some (d\<lparr>stroutput := Some ''''\<rparr>))
      else pbind (fmt3_paragraphs (length toks + 2) E '''' d toks) (\<lambda>(out, d'). Inr (Some (d'\<lparr>stroutput := Some out\<rparr>))))"

definition fmt3_parse :: "'n file_env \<Rightarrow> 'n fmt3 \<Rightarrow> string \<Rightarrow> 'n fmt3 parsed" where
  "fmt3_parse E d inp = post_rule E d (fmt3_scan inp)"

end
