(* ===== verification/Fmt3Math.thy ===== *)
theory Fmt3Math
  imports Fmt3
begin

text \<open>
  The formulas of a post as trees: the parser reads exactly the token lists of the trees whose operators
  are nested as their precedences demand, and gives the markup of the tree.
\<close>

section \<open>Trees\<close>

datatype mexp =
    Num string
  | Ident string
  | FracName
  | SqrtName
  | ProptoName
  | Paren mexp
  | Braces mexp
  | Frac mexp mexp
  | Sqrt mexp
  | Propto
  | Infix char mexp mexp

primrec mexp_toks :: "mexp \<Rightarrow> fmt3_token list" where
  "mexp_toks (Num n) = [NUMBER n]"
| "mexp_toks (Ident w) = [WORD w]"
| "mexp_toks FracName = [MATHFRAC]"
| "mexp_toks SqrtName = [MATHSQRT]"
| "mexp_toks ProptoName = [MATHPROPTO]"
| "mexp_toks (Paren e) = LIT (CHR ''('') # mexp_toks e @ [LIT (CHR '')'')]"
| "mexp_toks (Braces e) = LIT (CHR ''{'') # mexp_toks e @ [LIT (CHR ''}'')]"
| "mexp_toks (Frac a b) = [LIT BSL, MATHFRAC, LIT (CHR ''{'')] @ mexp_toks a @ [LIT (CHR ''}''), LIT (CHR ''{'')] @
     mexp_toks b @ [LIT (CHR ''}'')]"
| "mexp_toks (Sqrt a) = [LIT BSL, MATHSQRT, LIT (CHR ''{'')] @ mexp_toks a @ [LIT (CHR ''}'')]"
| "mexp_toks Propto = [LIT BSL, MATHPROPTO]"
| "mexp_toks (Infix c a b) = mexp_toks a @ LIT c # mexp_toks b"

primrec mexp_out :: "mexp \<Rightarrow> string" where
  "mexp_out (Num n) = ''<mn>'' @ n @ ''</mn>''"
| "mexp_out (Ident w) = ''<mi>'' @ w @ ''</mi>''"
| "mexp_out FracName = ''<mi>frac</mi>''"
| "mexp_out SqrtName = ''<mi>sqrt</mi>''"
| "mexp_out ProptoName = ''<mi>propto</mi>''"
| "mexp_out (Paren e) = ''<mrow><mo>(</mo><mrow>'' @ mexp_out e @ ''</mrow><mo>)</mo></mrow>''"
| "mexp_out (Braces e) = mexp_out e"
| "mexp_out (Frac a b) = math_apply ''mfrac'' (mexp_out a) (Some (mexp_out b))"
| "mexp_out (Sqrt a) = math_apply ''msqrt'' (mexp_out a) None"
| "mexp_out Propto = ''<mo>&prop;</mo>''"
| "mexp_out (Infix c a b) = math_op c (mexp_out a) (mexp_out b)"

text \<open>
  The operators outside brackets bind tighter than \<open>p\<close>. Operators of the same precedence are nested to
  the left.
\<close>

primrec mexp_ok :: "nat \<Rightarrow> mexp \<Rightarrow> bool" where
  "mexp_ok p (Num n) = True"
| "mexp_ok p (Ident w) = True"
| "mexp_ok p FracName = True"
| "mexp_ok p SqrtName = True"
| "mexp_ok p ProptoName = True"
| "mexp_ok p (Paren e) = mexp_ok 0 e"
| "mexp_ok p (Braces e) = mexp_ok 0 e"
| "mexp_ok p (Frac a b) = (mexp_ok 0 a \<and> mexp_ok 0 b)"
| "mexp_ok p (Sqrt a) = mexp_ok 0 a"
| "mexp_ok p Propto = True"
| "mexp_ok p (Infix c a b) = (p < prec c \<and> mexp_ok (prec c - 1) a \<and> mexp_ok (prec c) b)"

lemma mexp_ok_mono: "mexp_ok p e \<Longrightarrow> q \<le> p \<Longrightarrow> mexp_ok q e"
  by (cases e) auto

lemma prec_brackets [simp]: "prec (CHR ''('') = 0" "prec (CHR '')'') = 0" "prec (CHR ''{'') = 0" "prec (CHR ''}'') = 0" "prec BSL = 0"
  by (simp_all add: prec_def)

lemma next_prec_simps [simp]:
  "next_prec [] = 0" "next_prec (LIT c # ts) = prec c" "next_prec (NUMBER n # ts) = 0" "next_prec (WORD n # ts) = 0"
  "next_prec (MATHFRAC # ts) = 0" "next_prec (MATHSQRT # ts) = 0" "next_prec (MATHPROPTO # ts) = 0" "next_prec (MATHEND # ts) = 0"
  by (simp_all add: next_prec_def)

lemma mexp_toks_first [simp]: "next_prec (mexp_toks e @ ts) = 0"
  by (induction e arbitrary: ts) simp_all

lemma mexp_toks_Nil [simp]: "mexp_toks e \<noteq> []"
  by (induction e) simp_all

lemma mexp_toks_length: "Suc 0 \<le> length (mexp_toks e)"
  by (simp add: Suc_le_eq)

section \<open>The parser reads every tree\<close>

lemma expect_same [simp]: "expect t (t # ts) = Inr (Some ts)"
  by (simp add: expect_def)

lemma expect_Some: "expect t ts = Inr (Some us) \<longleftrightarrow> ts = t # us"
  by (auto simp: expect_def split: list.splits)

lemma expect_not_Inl [simp]: "expect t ts \<noteq> Inl e"
  by (simp add: expect_def)

definition reads_tree :: "nat \<Rightarrow> mexp \<Rightarrow> bool" where
  "reads_tree p e \<longleftrightarrow>
     (\<forall>q rest n. q \<le> p \<longrightarrow> next_prec rest \<le> Suc p \<longrightarrow> length (mexp_toks e @ rest) < n \<longrightarrow>
        (\<exists>m. length rest < m \<and> mexpr n q None (mexp_toks e @ rest) = mexpr m q (Some (mexp_out e)) rest))"

lemma mexpr_done: "0 < m \<Longrightarrow> next_prec rest \<le> p \<Longrightarrow> mexpr m p (Some a) rest = Inr (Some (a, rest))"
  by (cases m) simp_all

lemma between_reads:
  assumes "reads_tree 0 e" "prec cl = 0" "length (mexp_toks e @ LIT cl # rest) < n"
  shows "between (mexpr n 0 None) op cl (LIT op # mexp_toks e @ LIT cl # rest) = Inr (Some (mexp_out e, rest))"
proof -
  from assms obtain m where "length (LIT cl # rest) < m"
    "mexpr n 0 None (mexp_toks e @ LIT cl # rest) = mexpr m 0 (Some (mexp_out e)) (LIT cl # rest)"
    unfolding reads_tree_def by (metis le0 next_prec_simps(2))
  with assms(2) show ?thesis by (simp add: between_def mexpr_done)
qed

lemma primary_reads:
  assumes "\<And>n rest. length (mexp_toks e @ rest) \<le> n \<Longrightarrow>
    mprimary (mexpr n 0 None) (mexp_toks e @ rest) = Inr (Some (mexp_out e, rest))"
  shows "reads_tree p e"
  unfolding reads_tree_def
proof (intro allI impI)
  fix q rest n assume n: "length (mexp_toks e @ rest) < n"
  then obtain k where k: "n = Suc k" by (cases n) auto
  have "mexpr n q None (mexp_toks e @ rest) = mexpr k q (Some (mexp_out e)) rest"
    using assms[of rest k] n k by simp
  moreover have "length rest < k" using n k mexp_toks_length[of e] by simp
  ultimately show "\<exists>m. length rest < m \<and> mexpr n q None (mexp_toks e @ rest) = mexpr m q (Some (mexp_out e)) rest"
    by blast
qed

lemma mexp_ok_reads: "mexp_ok p e \<Longrightarrow> reads_tree p e"
proof (induction e arbitrary: p)
  case (Paren e)
  then have "reads_tree 0 e" by simp
  then show ?case by (intro primary_reads) (simp add: mprimary_def between_reads)
next
  case (Braces e)
  then have "reads_tree 0 e" by simp
  then show ?case by (intro primary_reads) (simp add: mprimary_def between_reads)
next
  case (Frac a b)
  then have "reads_tree 0 a" "reads_tree 0 b" by simp_all
  then show ?case by (intro primary_reads) (simp add: mprimary_def between_reads)
next
  case (Sqrt a)
  then have "reads_tree 0 a" by simp
  then show ?case by (intro primary_reads) (simp add: mprimary_def between_reads)
next
  case (Infix c a b)
  then have pc: "p < prec c" and a: "reads_tree (prec c - 1) a" and b: "reads_tree (prec c) b" by simp_all
  show ?case
    unfolding reads_tree_def
  proof (intro allI impI)
    fix q rest n
    assume q: "q \<le> p" and rest: "next_prec rest \<le> Suc p" and n: "length (mexp_toks (Infix c a b) @ rest) < n"
    let ?r = "LIT c # mexp_toks b @ rest"
    have "q \<le> prec c - 1" "next_prec ?r \<le> Suc (prec c - 1)" "length (mexp_toks a @ ?r) < n" using q pc n by simp_all
    with a obtain m where m: "length ?r < m" "mexpr n q None (mexp_toks a @ ?r) = mexpr m q (Some (mexp_out a)) ?r"
      unfolding reads_tree_def by blast
    then obtain k where k: "m = Suc k" by (cases m) auto
    have "next_prec rest \<le> Suc (prec c)" "length (mexp_toks b @ rest) < k" using rest pc m(1) k by simp_all
    with b obtain l where l: "length rest < l"
      "mexpr k (prec c) None (mexp_toks b @ rest) = mexpr l (prec c) (Some (mexp_out b)) rest"
      unfolding reads_tree_def by blast
    have "mexpr m q (Some (mexp_out a)) ?r = mexpr k q (Some (mexp_out (Infix c a b))) rest"
      using q pc rest l k by (simp add: mexpr_done)
    moreover have "length rest < k" using m(1) k by simp
    ultimately show "\<exists>m. length rest < m \<and>
        mexpr n q None (mexp_toks (Infix c a b) @ rest) = mexpr m q (Some (mexp_out (Infix c a b))) rest"
      using m(2) by auto
  qed
qed (intro primary_reads; simp add: mprimary_def)+

section \<open>The parser reads nothing else\<close>

text \<open>What a parser of expressions gives is the output of a tree it took from the tokens.\<close>

definition only_trees :: "math_parser \<Rightarrow> bool" where
  "only_trees me \<longleftrightarrow>
     (\<forall>toks a ts. me toks = Inr (Some (a, ts)) \<longrightarrow> (\<exists>e. toks = mexp_toks e @ ts \<and> mexp_ok 0 e \<and> mexp_out e = a))"

lemma between_only:
  assumes "only_trees me" "between me op cl toks = Inr (Some (a, ts))"
  shows "\<exists>e. toks = LIT op # mexp_toks e @ LIT cl # ts \<and> mexp_ok 0 e \<and> mexp_out e = a"
proof -
  from assms(2) obtain ts1 ts2 where "toks = LIT op # ts1" "me ts1 = Inr (Some (a, ts2))" "ts2 = LIT cl # ts"
    by (auto simp: between_def pbind_eq_Some expect_Some)
  with assms(1) show ?thesis unfolding only_trees_def by fastforce
qed

lemma mprimary_only:
  assumes me: "only_trees me" and run: "mprimary me toks = Inr (Some (a, ts))"
  shows "\<exists>e. toks = mexp_toks e @ ts \<and> (\<forall>p. mexp_ok p e) \<and> mexp_out e = a"
proof -
  obtain t us where toks: "toks = t # us" using run by (cases toks) (auto simp: mprimary_def)
  note b = between_only[OF me]
  show ?thesis
  proof (cases t)
    case (LIT c)
    consider "c = CHR ''(''" | "c = CHR ''{''" | "c = BSL"
      using run toks LIT by (auto simp: mprimary_def split: if_splits)
    then show ?thesis
    proof cases
      case 1
      with run toks LIT obtain x where x: "between me (CHR ''('') (CHR '')'') toks = Inr (Some (x, ts))"
        "a = ''<mrow><mo>(</mo><mrow>'' @ x @ ''</mrow><mo>)</mo></mrow>''"
        by (auto simp: mprimary_def pbind_eq_Some)
      from b[OF x(1)] x(2) show ?thesis by (metis append_Cons append_Nil append.assoc mexp_ok.simps(6) mexp_out.simps(6) mexp_toks.simps(6))
    next
      case 2
      with run toks LIT have "between me (CHR ''{'') (CHR ''}'') toks = Inr (Some (a, ts))"
        by (simp add: mprimary_def)
      from b[OF this] show ?thesis by (metis append_Cons append_Nil append.assoc mexp_ok.simps(7) mexp_out.simps(7) mexp_toks.simps(7))
    next
      case 3
      then obtain u vs where us: "us = u # vs" using run toks LIT by (cases us) (auto simp: mprimary_def)
      consider "u = MATHFRAC" | "u = MATHSQRT" | "u = MATHPROPTO"
        using run toks LIT 3 us by (auto simp: mprimary_def split: fmt3_token.splits)
      then show ?thesis
      proof cases
        case 1
        with run toks LIT 3 us obtain x y us1 where f: "between me (CHR ''{'') (CHR ''}'') vs = Inr (Some (x, us1))"
          "between me (CHR ''{'') (CHR ''}'') us1 = Inr (Some (y, ts))" "a = math_apply ''mfrac'' x (Some y)"
          by (auto simp: mprimary_def pbind_eq_Some)
        from b[OF f(1)] b[OF f(2)] obtain d e where "vs = LIT (CHR ''{'') # mexp_toks d @ LIT (CHR ''}'') # us1"
          "us1 = LIT (CHR ''{'') # mexp_toks e @ LIT (CHR ''}'') # ts" "mexp_ok 0 d" "mexp_ok 0 e" "mexp_out d = x" "mexp_out e = y"
          by blast
        with 1 3 us toks LIT f(3) show ?thesis by (intro exI[of _ "Frac d e"]) simp
      next
        case 2
        with run toks LIT 3 us obtain x where f: "between me (CHR ''{'') (CHR ''}'') vs = Inr (Some (x, ts))"
          "a = math_apply ''msqrt'' x None"
          by (auto simp: mprimary_def pbind_eq_Some)
        from b[OF f(1)] obtain e where "vs = LIT (CHR ''{'') # mexp_toks e @ LIT (CHR ''}'') # ts" "mexp_ok 0 e" "mexp_out e = x"
          by blast
        with 2 3 us toks LIT f(2) show ?thesis by (intro exI[of _ "Sqrt e"]) simp
      next
        case 3
        with run toks LIT \<open>c = BSL\<close> us show ?thesis by (intro exI[of _ Propto]) (simp add: mprimary_def)
      qed
    qed
  next
    case (NUMBER n)
    with run toks show ?thesis by (intro exI[of _ "Num n"]) (simp add: mprimary_def)
  next
    case (WORD w)
    with run toks show ?thesis by (intro exI[of _ "Ident w"]) (simp add: mprimary_def)
  next
    case MATHFRAC
    with run toks show ?thesis by (intro exI[of _ FracName]) (simp add: mprimary_def)
  next
    case MATHSQRT
    with run toks show ?thesis by (intro exI[of _ SqrtName]) (simp add: mprimary_def)
  next
    case MATHPROPTO
    with run toks show ?thesis by (intro exI[of _ ProptoName]) (simp add: mprimary_def)
  qed (use run toks in \<open>simp_all add: mprimary_def\<close>)
qed

text \<open>
  The left operand \<open>e0\<close> read so far has operators that bind tighter than \<open>k\<close>, and the next operator binds at
  most as tight as they: it was not shifted while they were read.
\<close>

lemma mexpr_only:
  "mexpr n p acc toks = Inr (Some (a, ts)) \<Longrightarrow>
   (case acc of
      None \<Rightarrow> \<exists>e. toks = mexp_toks e @ ts \<and> mexp_ok p e \<and> mexp_out e = a \<and> next_prec ts \<le> p
    | Some a0 \<Rightarrow> \<forall>e0 k. mexp_out e0 = a0 \<and> mexp_ok k e0 \<and> p \<le> k \<and> next_prec toks \<le> Suc k \<longrightarrow>
        (\<exists>e. mexp_toks e0 @ toks = mexp_toks e @ ts \<and> mexp_ok p e \<and> mexp_out e = a \<and> next_prec ts \<le> p))"
proof (induction n arbitrary: p acc toks a ts)
  case (Suc n)
  show ?case
  proof (cases acc)
    case None
    with Suc.prems obtain b us where b: "mprimary (mexpr n 0 None) toks = Inr (Some (b, us))"
      and go: "mexpr n p (Some b) us = Inr (Some (a, ts))"
      by (auto simp: pbind_eq_Some)
    have "only_trees (mexpr n 0 None)" unfolding only_trees_def using Suc.IH[of 0 None] by fastforce
    from mprimary_only[OF this b] obtain e0 where e0: "toks = mexp_toks e0 @ us" "\<forall>p. mexp_ok p e0" "mexp_out e0 = b" by blast
    have "p \<le> max p (next_prec us)" "next_prec us \<le> Suc (max p (next_prec us))" by simp_all
    with Suc.IH[OF go] e0 None show ?thesis by fastforce
  next
    case (Some a0)
    show ?thesis
    proof (cases "p < next_prec toks")
      case False
      with Suc.prems Some have "a = a0" "ts = toks" by simp_all
      with False Some show ?thesis by (auto intro: mexp_ok_mono)
    next
      case True
      then obtain c us where toks: "toks = LIT c # us"
        by (cases toks) (auto simp: next_prec_def split: fmt3_token.splits)
      with Suc.prems Some True obtain b us' where b: "mexpr n (prec c) None us = Inr (Some (b, us'))"
        and go: "mexpr n p (Some (math_op c a0 b)) us' = Inr (Some (a, ts))"
        by (auto simp: pbind_eq_Some)
      from Suc.IH[OF b] obtain e1 where e1: "us = mexp_toks e1 @ us'" "mexp_ok (prec c) e1" "mexp_out e1 = b" "next_prec us' \<le> prec c"
        by auto
      have "\<exists>e. mexp_toks e0 @ toks = mexp_toks e @ ts \<and> mexp_ok p e \<and> mexp_out e = a \<and> next_prec ts \<le> p"
        if e0: "mexp_out e0 = a0" "mexp_ok k e0" "p \<le> k" "next_prec toks \<le> Suc k" for e0 k
      proof -
        have "mexp_ok (prec c - 1) e0" using e0(2,4) toks by (auto intro: mexp_ok_mono)
        then have "mexp_ok (prec c - 1) (Infix c e0 e1)" using e1(2) True toks by simp
        moreover have "p \<le> prec c - 1" "next_prec us' \<le> Suc (prec c - 1)" using True toks e1(4) by simp_all
        moreover have "mexp_out (Infix c e0 e1) = math_op c a0 b" using e0(1) e1(3) by simp
        ultimately have "\<exists>e. mexp_toks (Infix c e0 e1) @ us' = mexp_toks e @ ts \<and> mexp_ok p e \<and> mexp_out e = a \<and> next_prec ts \<le> p"
          using Suc.IH[OF go] by (simp only: option.case)
        then show ?thesis using toks e1(1) by simp
      qed
      with Some show ?thesis by auto
    qed
  qed
qed simp

text \<open>The bound suffices: with more fuel than tokens the parser comes to an end.\<close>

lemma between_total:
  assumes "\<And>us. length us < length toks \<Longrightarrow> \<exists>r. me us = Inr r"
  shows "\<exists>r. between me op cl toks = Inr r"
proof (cases toks)
  case (Cons t us)
  then obtain r where "me us = Inr r" using assms[of us] by auto
  with Cons show ?thesis by (cases r) (auto simp: between_def expect_def split: list.splits)
qed (simp add: between_def expect_def)

lemma between_shorter:
  assumes "only_trees me" "between me op cl toks = Inr (Some (a, ts))"
  shows "length ts < length toks"
  using between_only[OF assms] by auto

lemma mprimary_total:
  assumes me: "only_trees me" and total: "\<And>us. length us < length toks \<Longrightarrow> \<exists>r. me us = Inr r"
  shows "\<exists>r. mprimary me toks = Inr r"
proof -
  have bt: "\<exists>r. between me op cl us = Inr r" if "length us \<le> length toks" for us op cl
    using that by (intro between_total total) simp
  have pb: "\<exists>r. pbind (between me op cl us) f = Inr r"
    if "length us \<le> length toks" "\<And>a ts. length ts < length us \<Longrightarrow> \<exists>r. f (a, ts) = Inr r" for us op cl f
  proof -
    from bt[OF that(1), of op cl] obtain r where r: "between me op cl us = Inr r" ..
    show ?thesis
    proof (cases r)
      case (Some x)
      then show ?thesis using r that(2)[of "snd x" "fst x"] between_shorter[OF me, of op cl us "fst x" "snd x"] by simp
    qed (simp add: r)
  qed
  show ?thesis
    unfolding mprimary_def
    by (auto split: list.split fmt3_token.split if_split intro!: pb bt)
qed

lemma mexpr_total: "length toks < n \<Longrightarrow> \<exists>r. mexpr n p acc toks = Inr r"
proof (induction n arbitrary: p acc toks)
  case (Suc n)
  show ?case
  proof (cases acc)
    case None
    have "only_trees (mexpr n 0 None)" unfolding only_trees_def using mexpr_only[of n 0 None] by fastforce
    note this mprimary_total[OF this, of toks]
    moreover have "\<exists>r. mexpr n 0 None us = Inr r" if "length us < length toks" for us using that Suc by simp
    ultimately obtain r where r: "mprimary (mexpr n 0 None) toks = Inr r" by blast
    show ?thesis
    proof (cases r)
      case (Some x)
      from mprimary_only[OF \<open>only_trees (mexpr n 0 None)\<close>, of toks "fst x" "snd x"] r Some
      obtain e where "toks = mexp_toks e @ snd x" by auto
      then have "length (snd x) < n" using Suc.prems mexp_toks_length[of e] by simp
      from Suc.IH[OF this] r Some None show ?thesis by (cases x) simp
    qed (use r None in simp)
  next
    case (Some a0)
    show ?thesis
    proof (cases "p < next_prec toks")
      case True
      then obtain c us where toks: "toks = LIT c # us"
        by (cases toks) (auto simp: next_prec_def split: fmt3_token.splits)
      then obtain r where r: "mexpr n (prec c) None us = Inr r" using Suc by fastforce
      show ?thesis
      proof (cases r)
        case (Some x)
        from mexpr_only[of n "prec c" None us "fst x" "snd x"] r Some obtain e where "us = mexp_toks e @ snd x" by auto
        then have "length (snd x) < n" using Suc.prems toks by simp
        from Suc.IH[OF this] r Some True toks \<open>acc = Some a0\<close> show ?thesis by (cases x) simp
      qed (use r toks True \<open>acc = Some a0\<close> in simp)
    qed (use Some in simp)
  qed
qed simp

section \<open>Whole formulas\<close>

definition formula_toks :: "mexp list \<Rightarrow> fmt3_token list" where
  "formula_toks es = concat (map mexp_toks es)"

definition formula_out :: "mexp list \<Rightarrow> string" where
  "formula_out es = concat (map mexp_out es)"

lemma formula_simps [simp]:
  "formula_toks [] = []" "formula_toks (e # es) = mexp_toks e @ formula_toks es"
  "formula_out [] = []" "formula_out (e # es) = mexp_out e @ formula_out es"
  by (simp_all add: formula_toks_def formula_out_def)

lemma next_prec_formula [simp]: "next_prec (formula_toks es @ MATHEND # ts) = 0"
  by (cases es) simp_all

lemma mexp_not_end: "mexp_toks e @ ts \<noteq> MATHEND # us"
  by (induction e arbitrary: ts us) auto

lemma math_step:
  "\<not> (acc \<noteq> None \<and> (\<exists>ts. toks = MATHEND # ts)) \<Longrightarrow>
   math (Suc n) acc toks =
     pbind (mexpr n 0 None toks) (\<lambda>(b, ts). math n (Some (case acc of None \<Rightarrow> b | Some a \<Rightarrow> a @ b)) ts)"
  by (cases acc) (auto split: list.splits fmt3_token.splits)

lemma math_reads:
  "\<forall>e\<in>set es. mexp_ok 0 e \<Longrightarrow> acc \<noteq> None \<or> es \<noteq> [] \<Longrightarrow> Suc (length (formula_toks es @ MATHEND # rest)) < n \<Longrightarrow>
   math n acc (formula_toks es @ MATHEND # rest) = Inr (Some ((case acc of None \<Rightarrow> [] | Some a \<Rightarrow> a) @ formula_out es, MATHEND # rest))"
proof (induction es arbitrary: acc n)
  case Nil
  then obtain a k where "acc = Some a" "n = Suc k" by (cases n) auto
  then show ?case by simp
next
  case (Cons e es)
  from Cons.prems(3) obtain k where n: "n = Suc k" by (cases n) auto
  let ?r = "formula_toks es @ MATHEND # rest"
  have "reads_tree 0 e" using Cons.prems(1) by (simp add: mexp_ok_reads)
  moreover have "length (mexp_toks e @ ?r) < k" using Cons.prems(3) n by simp
  ultimately obtain m where "length ?r < m" "mexpr k 0 None (mexp_toks e @ ?r) = mexpr m 0 (Some (mexp_out e)) ?r"
    unfolding reads_tree_def by (metis le0 next_prec_formula)
  then have e: "mexpr k 0 None (mexp_toks e @ ?r) = Inr (Some (mexp_out e, ?r))" by (simp add: mexpr_done)
  have "Suc (length ?r) < k" using Cons.prems(3) n mexp_toks_length[of e] by simp
  then have "math k (Some x) ?r = Inr (Some (x @ formula_out es, MATHEND # rest))" for x
    using Cons.IH[of "Some x" k] Cons.prems(1) by simp
  with e n math_step[of acc "mexp_toks e @ ?r" k] show ?case by (cases acc) (simp_all add: mexp_not_end)
qed

lemma math_only:
  "math n acc toks = Inr (Some (a, ts)) \<Longrightarrow>
   \<exists>es us. toks = formula_toks es @ MATHEND # us \<and> ts = MATHEND # us \<and> (\<forall>e\<in>set es. mexp_ok 0 e) \<and>
     a = (case acc of None \<Rightarrow> [] | Some x \<Rightarrow> x) @ formula_out es \<and> (acc = None \<longrightarrow> es \<noteq> [])"
proof (induction n arbitrary: acc toks)
  case (Suc n)
  show ?case
  proof (cases "acc \<noteq> None \<and> (\<exists>ts. toks = MATHEND # ts)")
    case True
    with Suc.prems show ?thesis by (intro exI[of _ "[]"] exI[of _ "tl ts"]) auto
  next
    case False
    with Suc.prems obtain b us where b: "mexpr n 0 None toks = Inr (Some (b, us))"
      and go: "math n (Some (case acc of None \<Rightarrow> b | Some a \<Rightarrow> a @ b)) us = Inr (Some (a, ts))"
      by (auto simp: math_step[OF False] pbind_eq_Some simp del: math.simps)
    from mexpr_only[OF b] obtain e where e: "toks = mexp_toks e @ us" "mexp_ok 0 e" "mexp_out e = b" by auto
    from Suc.IH[OF go] obtain es vs where "us = formula_toks es @ MATHEND # vs" "ts = MATHEND # vs" "\<forall>e\<in>set es. mexp_ok 0 e"
      "a = (case acc of None \<Rightarrow> b | Some x \<Rightarrow> x @ b) @ formula_out es"
      by auto
    with e show ?thesis by (intro exI[of _ "e # es"] exI[of _ vs]) (auto split: option.splits)
  qed
qed simp

lemma math_total: "Suc (length toks) < n \<Longrightarrow> \<exists>r. math n acc toks = Inr r"
proof (induction n arbitrary: acc toks)
  case (Suc n)
  show ?case
  proof (cases "acc \<noteq> None \<and> (\<exists>ts. toks = MATHEND # ts)")
    case False
    obtain r where r: "mexpr n 0 None toks = Inr r" using mexpr_total[of toks n 0 None] Suc.prems by auto
    show ?thesis
    proof (cases r)
      case (Some x)
      with r mexpr_only[of n 0 None toks "fst x" "snd x"] obtain e where "toks = mexp_toks e @ snd x" by auto
      then have "Suc (length (snd x)) < n" using Suc.prems mexp_toks_length[of e] by simp
      from Suc.IH[OF this] r Some show ?thesis by (cases x) (simp add: math_step[OF False] del: math.simps)
    qed (use r in \<open>simp add: math_step[OF False] del: math.simps\<close>)
  qed auto
qed simp

end
