(* ===== verification/Fmt3Spec.thy ===== *)
theory Fmt3Spec
  imports Fmt3Math
begin

text \<open>
  The texts of posts as trees. A tree has a text of tokens and a meaning, the semantic actions in the order
  of the text. The parser accepts exactly the texts of trees and does what the tree means.
\<close>

section \<open>Trees\<close>

text \<open>The arguments of a command are lists of things; an argument that is not given is the empty list.\<close>

datatype thing_tree =
    Simple fmt3_token
  | Escaped char
  | Command string "thing_tree list" "thing_tree list"
  | Formula "mexp list"
  | VerbatimEnv "string list"
  | ListingEnv "string list"
  | Special fmt3_token "string list"

definition verb_toks :: "string list \<Rightarrow> fmt3_token list" where
  "verb_toks vs = map VERBTEXT vs"

fun thing_toks :: "thing_tree \<Rightarrow> fmt3_token list" where
  "thing_toks (Simple t) = [t]"
| "thing_toks (Escaped c) = [LIT BSL, LIT c]"
| "thing_toks (Command w opt arg) =
     [LIT BSL, WORD w] @
     (if opt = [] then [] else LIT (CHR ''['') # concat (map thing_toks opt) @ [LIT (CHR '']'')]) @
     (if arg = [] then [] else LIT (CHR ''{'') # concat (map thing_toks arg) @ [LIT (CHR ''}'')])"
| "thing_toks (Formula es) = MATHSTART # formula_toks es @ [MATHEND]"
| "thing_toks (VerbatimEnv vs) = VERBSTART # verb_toks vs @ [VERBEND]"
| "thing_toks (ListingEnv vs) = LISTSTART # verb_toks vs @ [LISTEND]"
| "thing_toks (Special t vs) = t # verb_toks vs @ [SPECIALCMDEND]"

abbreviation things_toks :: "thing_tree list \<Rightarrow> fmt3_token list" where
  "things_toks ts \<equiv> concat (map thing_toks ts)"

text \<open>The tokens that are things of their own.\<close>

definition simple_token :: "fmt3_token \<Rightarrow> bool" where
  "simple_token t \<longleftrightarrow>
     (case t of
        WORD _ \<Rightarrow> True | UTF8CHAR _ \<Rightarrow> True | WSPACE _ \<Rightarrow> True | DASH _ \<Rightarrow> True | OQUOT _ \<Rightarrow> True | CQUOT _ \<Rightarrow> True
      | CHAR_T _ \<Rightarrow> True | SCHAR _ \<Rightarrow> True | ELLIPSIS \<Rightarrow> True | DOLLAR \<Rightarrow> True | PERCENT \<Rightarrow> True
      | LIT c \<Rightarrow> c \<in> {NEWLINE, CHR ''~'', CHR ''&''} | _ \<Rightarrow> False)"

fun thing_ok :: "thing_tree \<Rightarrow> bool" where
  "thing_ok (Simple t) = simple_token t"
| "thing_ok (Escaped c) = (escaped_char c \<noteq> None)"
| "thing_ok (Command w opt arg) = (list_all thing_ok opt \<and> list_all thing_ok arg \<and> (opt \<noteq> [] \<longrightarrow> arg \<noteq> []))"
| "thing_ok (Formula es) = (es \<noteq> [] \<and> list_all (mexp_ok 0) es)"
| "thing_ok (VerbatimEnv vs) = (vs \<noteq> [])"
| "thing_ok (ListingEnv vs) = (vs \<noteq> [])"
| "thing_ok (Special t vs) = (special_start t \<and> vs \<noteq> [])"

text \<open>The value of an argument; one that is not given is NULL.\<close>

definition arg_value :: "string option option \<Rightarrow> string option" where
  "arg_value a = (case a of None \<Rightarrow> None | Some v \<Rightarrow> v)"

definition simple_value :: "'n fmt3 \<Rightarrow> fmt3_token \<Rightarrow> string option res" where
  "simple_value d t = (case simple_thing d t of None \<Rightarrow> Inr None | Some r \<Rightarrow> r)"

fun thing_out :: "'n file_env \<Rightarrow> 'n fmt3 \<Rightarrow> thing_tree \<Rightarrow> (string option \<times> 'n fmt3) res"
  and things_out :: "'n file_env \<Rightarrow> 'n fmt3 \<Rightarrow> string option option \<Rightarrow> thing_tree list \<Rightarrow> (string option option \<times> 'n fmt3) res" where
  "thing_out E d (Simple t) = rbind (simple_value d t) (\<lambda>v. Inr (v, d))"
| "thing_out E d (Escaped c) = Inr (escaped_char c, d)"
| "thing_out E d (Command w opt arg) =
     rbind (things_out E d None opt) (\<lambda>(o1, d1).
     rbind (things_out E d1 None arg) (\<lambda>(a, d2). process_cmd E d2 w (arg_value a) (arg_value o1)))"
| "thing_out E d (Formula es) = Inr (Some (''<math>'' @ formula_out es @ ''</math>''), d)"
| "thing_out E d (VerbatimEnv vs) = Inr (Some (''</p>'' @ concat vs @ ''<p>''), d)"
| "thing_out E d (ListingEnv vs) =
     rbind (listing_str (fe_mem E) (Some (concat vs))) (\<lambda>l. Inr (Some (str_cat [Some ''</p><pre>'', l, Some ''</pre><p>'']), d))"
| "thing_out E d (Special t vs) = Inr (None, special_action E d t (concat vs))"
| "things_out E d acc [] = Inr (acc, d)"
| "things_out E d acc (t # ts) =
     rbind (thing_out E d t) (\<lambda>(v, d'). things_out E d' (Some (join_thing acc v)) ts)"

section \<open>What things start with\<close>

lemma simple_thing_token: "simple_thing d t = None \<longleftrightarrow> \<not> simple_token t"
  by (cases t) (auto simp: simple_thing_def simple_token_def)

lemma simple_thing_Some: "simple_token t \<Longrightarrow> simple_thing d t = Some (simple_value d t)"
  using simple_thing_token[of d t] by (auto simp: simple_value_def)

lemma simple_starts: "simple_token t \<Longrightarrow> starts_thing (t # ts)"
  by (cases t) (auto simp: simple_token_def starts_thing_def)

lemma not_simple [simp]: "\<not> simple_token MATHSTART" "\<not> simple_token VERBSTART" "\<not> simple_token LISTSTART"
  "\<not> simple_token (LIT BSL)" "special_start t \<Longrightarrow> \<not> simple_token t"
  by (auto simp: simple_token_def special_start_def)

lemma thing_starts: "thing_ok t \<Longrightarrow> starts_thing (thing_toks t @ ts)"
  by (cases t) (simp add: simple_starts, auto simp: starts_thing_def special_start_def)

text \<open>What follows a command without arguments is not an argument.\<close>

definition no_arg :: "fmt3_token list \<Rightarrow> bool" where
  "no_arg ts \<longleftrightarrow> (\<forall>c us. ts = LIT c # us \<longrightarrow> c \<noteq> CHR ''['' \<and> c \<noteq> CHR ''{'')"

lemma no_arg_LIT [simp]: "no_arg (LIT c # ts) \<longleftrightarrow> c \<noteq> CHR ''['' \<and> c \<noteq> CHR ''{''"
  by (simp add: no_arg_def)

lemma starts_no_arg: "starts_thing ts \<Longrightarrow> no_arg ts"
  by (auto simp: starts_thing_def no_arg_def)

lemma no_arg_things: "list_all thing_ok ts \<Longrightarrow> no_arg rest \<Longrightarrow> no_arg (things_toks ts @ rest)"
  by (cases ts) (auto intro: starts_no_arg thing_starts)

section \<open>The parser reads every tree\<close>

lemma verb_rest_toks: "(\<And>v us. rest \<noteq> VERBTEXT v # us) \<Longrightarrow> verb_rest acc (verb_toks vs @ rest) = (acc @ concat vs, rest)"
proof (induction vs arbitrary: acc)
  case Nil
  then show ?case by (cases rest; cases "hd rest") (auto simp: verb_toks_def)
qed (simp add: verb_toks_def)

lemma verb_until_reads:
  assumes "vs \<noteq> []" "t \<in> {VERBEND, LISTEND, SPECIALCMDEND}"
  shows "verb_until t (verb_toks vs @ t # rest) = Inr (Some (concat vs, rest))"
proof -
  obtain v us where vs: "vs = v # us" using assms(1) by (cases vs) auto
  have "verb_rest v (verb_toks us @ t # rest) = (v @ concat us, t # rest)"
    using assms(2) by (intro verb_rest_toks) auto
  then have "verb (verb_toks vs @ t # rest) = Some (concat vs, t # rest)" by (simp add: verb_def vs verb_toks_def)
  then show ?thesis by (simp add: verb_until_def)
qed

definition res_map :: "('a \<Rightarrow> 'b) \<Rightarrow> 'a res \<Rightarrow> 'b res" where
  "res_map f m = rbind m (\<lambda>x. Inr (f x))"

lemma res_map_simps [simp]: "res_map f (Inl e) = Inl e" "res_map f (Inr x) = Inr (f x)"
  by (simp_all add: res_map_def)

lemma paragraph_done:
  "0 < m \<Longrightarrow> \<not> starts_thing rest \<Longrightarrow> fmt3_paragraph m E (Some a) d rest = Inr (Some (a, d, rest))"
  by (cases m) simp_all

definition closes :: "fmt3_token list \<Rightarrow> bool" where
  "closes rest \<longleftrightarrow> \<not> starts_thing rest \<and> no_arg rest"

lemma closes_simps [simp]:
  "closes []" "closes (PAREND # ts)" "closes (LIT (CHR '']'') # ts)" "closes (LIT (CHR ''}'') # ts)"
  by (simp_all add: closes_def starts_thing_def no_arg_def)

lemma things_out_Some: "things_out E d (Some a) ts = Inr (acc, d') \<Longrightarrow> acc \<noteq> None"
  by (induction ts arbitrary: d a) (auto simp: rbind_eq_Inr)

lemma things_out_nonempty: "ts \<noteq> [] \<Longrightarrow> things_out E d acc ts = Inr (acc', d') \<Longrightarrow> acc' \<noteq> None"
  by (cases ts) (auto simp: rbind_eq_Inr dest: things_out_Some)

text \<open>A paragraph whose things are read with \<open>n\<close> to spend; the rest has still enough.\<close>

lemma paragraph_whole:
  assumes "closes rest" "ts \<noteq> []"
    and "\<exists>m. length rest < m \<and> fmt3_paragraph n E None d (things_toks ts @ rest) =
           rbind (things_out E d None ts) (\<lambda>(acc, d'). fmt3_paragraph m E acc d' rest)"
  shows "fmt3_paragraph n E None d (things_toks ts @ rest) =
           rbind (things_out E d None ts) (\<lambda>(acc, d'). Inr (Some (arg_value acc, d', rest)))"
proof -
  from assms(3) obtain m where m: "length rest < m" "fmt3_paragraph n E None d (things_toks ts @ rest) =
           rbind (things_out E d None ts) (\<lambda>(acc, d'). fmt3_paragraph m E acc d' rest)" by blast
  have "fmt3_paragraph m E acc d' rest = Inr (Some (arg_value acc, d', rest))" if "things_out E d None ts = Inr (acc, d')" for acc d'
  proof -
    from things_out_nonempty[OF assms(2) that] obtain a where "acc = Some a" by auto
    with m(1) assms(1) show ?thesis by (simp add: paragraph_done closes_def arg_value_def)
  qed
  with m(2) show ?thesis by (cases "things_out E d None ts") auto
qed

text \<open>An argument in its brackets.\<close>

lemma argument_reads:
  assumes "cl = CHR '']'' \<or> cl = CHR ''}''" "ts \<noteq> []"
    and "\<exists>m. length (LIT cl # rest) < m \<and> fmt3_paragraph n E None d (things_toks ts @ LIT cl # rest) =
           rbind (things_out E d None ts) (\<lambda>(acc, d'). fmt3_paragraph m E acc d' (LIT cl # rest))"
  shows "bracketed (fmt3_paragraph n E None) op cl d (LIT op # things_toks ts @ LIT cl # rest) =
           rbind (things_out E d None ts) (\<lambda>(acc, d'). Inr (Some (arg_value acc, d', rest)))"
proof -
  have "closes (LIT cl # rest)" using assms(1) by auto
  from paragraph_whole[OF this assms(2,3)] show ?thesis
    by (cases "things_out E d None ts") (auto simp: bracketed_def)
qed

lemma trees_read:
  "thing_ok t \<Longrightarrow> no_arg rest \<Longrightarrow> length (thing_toks t @ rest) \<le> n \<Longrightarrow>
     thing (fmt3_paragraph n E None) E d (thing_toks t @ rest) = rbind (thing_out E d t) (\<lambda>(v, d'). Inr (Some (v, d', rest)))"
  "list_all thing_ok ts \<Longrightarrow> no_arg rest \<Longrightarrow> length (things_toks ts @ rest) < n \<Longrightarrow>
     \<exists>m. length rest < m \<and>
       fmt3_paragraph n E acc d (things_toks ts @ rest) = rbind (things_out E d acc ts) (\<lambda>(acc', d'). fmt3_paragraph m E acc' d' rest)"
proof (induction E d t and E d acc ts arbitrary: rest n and rest n rule: thing_out_things_out.induct)
  case (1 E d t)
  then show ?case by (cases "simple_value d t") (simp_all add: thing_def simple_thing_Some)
next
  case (2 E d c)
  have "simple_thing d (LIT BSL) = None" by (simp add: simple_thing_token)
  with 2 show ?case by (auto simp: thing_def command_def)
next
  case (3 E d w opt arg)
  have s: "simple_thing d (LIT BSL) = None" by (simp add: simple_thing_token)
  consider "opt \<noteq> []" "arg \<noteq> []" | "opt = []" "arg \<noteq> []" | "opt = []" "arg = []" using "3.prems"(1) by auto
  then show ?case
  proof cases
    case 1
    let ?r = "LIT (CHR ''{'') # things_toks arg @ LIT (CHR ''}'') # rest"
    have o1: "bracketed (fmt3_paragraph n E None) (CHR ''['') (CHR '']'') d (LIT (CHR ''['') # things_toks opt @ LIT (CHR '']'') # ?r) =
        rbind (things_out E d None opt) (\<lambda>(acc, d'). Inr (Some (arg_value acc, d', ?r)))"
      using "3.prems" 1 by (intro argument_reads "3.IH"(1)) auto
    have a1: "bracketed (fmt3_paragraph n E None) (CHR ''{'') (CHR ''}'') d1 ?r =
        rbind (things_out E d1 None arg) (\<lambda>(acc, d'). Inr (Some (arg_value acc, d', rest)))"
      if "things_out E d None opt = Inr (o1, d1)" for o1 d1
      using "3.prems" 1 that by (intro argument_reads "3.IH"(2)[OF that refl]) auto
    show ?thesis
    proof (cases "things_out E d None opt")
      case (Inr x)
      obtain v1 d1 where x: "x = (v1, d1)" by (cases x)
      with Inr a1 have a2: "bracketed (fmt3_paragraph n E None) (CHR ''{'') (CHR ''}'') d1 ?r =
        rbind (things_out E d1 None arg) (\<lambda>(acc, d'). Inr (Some (arg_value acc, d', rest)))" by simp
      show ?thesis
        using 1 s o1 a2 Inr x by (cases "things_out E d1 None arg") (auto simp: thing_def command_def run_process_cmd_def)
    qed (use 1 s o1 in \<open>simp add: thing_def command_def\<close>)
  next
    case 2
    have "bracketed (fmt3_paragraph n E None) (CHR ''{'') (CHR ''}'') d (LIT (CHR ''{'') # things_toks arg @ LIT (CHR ''}'') # rest) =
        rbind (things_out E d None arg) (\<lambda>(acc, d'). Inr (Some (arg_value acc, d', rest)))"
      using "3.prems" 2 by (intro argument_reads "3.IH"(2)[of "(None, d)"]) auto
    then show ?thesis
      using 2 s by (cases "things_out E d None arg") (auto simp: thing_def command_def run_process_cmd_def arg_value_def)
  next
    case 3
    with "3.prems"(2) s show ?thesis
      by (cases rest; cases "hd rest") (auto simp: thing_def command_def run_process_cmd_def arg_value_def no_arg_def)
  qed
next
  case (4 E d es)
  have "simple_thing d MATHSTART = None" by (simp add: simple_thing_token)
  moreover have "math (length (formula_toks es @ MATHEND # rest) + 2) None (formula_toks es @ MATHEND # rest) = Inr (Some (formula_out es, MATHEND # rest))"
    using math_reads[of es None rest] 4 by (simp add: list_all_iff del: math.simps)
  ultimately show ?case by (simp add: thing_def)
next
  case (5 E d vs)
  have "simple_thing d VERBSTART = None" by (simp add: simple_thing_token)
  with 5 show ?case by (simp add: thing_def verb_until_reads)
next
  case (6 E d vs)
  have "simple_thing d LISTSTART = None" by (simp add: simple_thing_token)
  with 6 show ?case by (simp add: thing_def verb_until_reads rbind_assoc)
next
  case (7 E d t vs)
  then have "simple_thing d t = None" by (simp add: simple_thing_token)
  with 7 show ?case by (auto simp: thing_def verb_until_reads special_start_def)
next
  case (8 E d acc)
  then show ?case by auto
next
  case (9 E d acc t ts)
  then obtain k where n: "n = Suc k" by (cases n) auto
  have ok: "thing_ok t" "list_all thing_ok ts" using "9.prems"(1) by simp_all
  have len: "length (thing_toks t @ things_toks ts @ rest) \<le> k" using "9.prems"(3) n by simp
  have t: "thing (fmt3_paragraph k E None) E d (thing_toks t @ things_toks ts @ rest) =
      rbind (thing_out E d t) (\<lambda>(v, d'). Inr (Some (v, d', things_toks ts @ rest)))"
    using "9.IH"(1)[OF ok(1) no_arg_things[OF ok(2) "9.prems"(2)] len] .
  show ?case
  proof (cases "thing_out E d t")
    case (Inl e)
    then show ?thesis using t n thing_starts[OF ok(1), of "things_toks ts @ rest"] by auto
  next
    case (Inr x)
    obtain v d1 where x: "x = (v, d1)" by (cases x)
    have "length (things_toks ts @ rest) < k" using len by (cases t) auto
    from "9.IH"(2)[OF Inr x[symmetric] ok(2) "9.prems"(2) this] show ?thesis
      using t n x Inr thing_starts[OF ok(1), of "things_toks ts @ rest"] by auto
  qed
qed

section \<open>The parser reads nothing else\<close>

lemma verb_rest_only: "verb_rest acc ts = (v, us) \<Longrightarrow> \<exists>vs. ts = verb_toks vs @ us \<and> v = acc @ concat vs"
proof (induction acc ts rule: verb_rest.induct)
  case (1 acc t ts)
  then obtain vs where "ts = verb_toks vs @ us" "v = (acc @ t) @ concat vs" by auto
  then show ?case by (intro exI[of _ "t # vs"]) (simp add: verb_toks_def)
qed (simp_all add: verb_toks_def)

lemma verb_until_only:
  assumes "verb_until t ts = Inr (Some (v, us))"
  shows "\<exists>vs. vs \<noteq> [] \<and> ts = verb_toks vs @ t # us \<and> v = concat vs"
proof -
  from assms have "verb ts = Some (v, t # us)"
    by (cases "verb ts") (auto simp: verb_until_def pbind_eq_Some expect_Some)
  then obtain v0 vs0 where "ts = VERBTEXT v0 # vs0" "verb_rest v0 vs0 = (v, t # us)"
    by (auto simp: verb_def split: list.splits fmt3_token.splits)
  with verb_rest_only[of v0 vs0 v "t # us"] obtain vs where "ts = VERBTEXT v0 # verb_toks vs @ t # us" "v = v0 @ concat vs" by auto
  then show ?thesis by (intro exI[of _ "v0 # vs"]) (simp add: verb_toks_def)
qed

definition only_things :: "'n file_env \<Rightarrow> 'n text_parser \<Rightarrow> bool" where
  "only_things E par \<longleftrightarrow>
     (\<forall>d toks v d' rest. par d toks = Inr (Some (v, d', rest)) \<longrightarrow>
        (\<exists>ts acc. ts \<noteq> [] \<and> list_all thing_ok ts \<and> toks = things_toks ts @ rest \<and>
           things_out E d None ts = Inr (acc, d') \<and> arg_value acc = v))"

lemma bracketed_only:
  assumes "only_things E par" "bracketed par op cl d toks = Inr (Some (v, d', rest))"
  obtains ts acc where "ts \<noteq> []" "list_all thing_ok ts" "toks = LIT op # things_toks ts @ LIT cl # rest"
    "things_out E d None ts = Inr (acc, d')" "arg_value acc = v"
proof -
  from assms(2) obtain ts1 ts2 where "toks = LIT op # ts1" "par d ts1 = Inr (Some (v, d', ts2))" "ts2 = LIT cl # rest"
    by (auto simp: bracketed_def pbind_eq_Some expect_Some)
  with assms(1) show thesis unfolding only_things_def by (metis that)
qed

lemma run_process_cmd_only:
  "run_process_cmd E d w a b ts = Inr (Some (v, d', rest)) \<longleftrightarrow> process_cmd E d w a b = Inr (v, d') \<and> ts = rest"
  by (auto simp: run_process_cmd_def rbind_eq_Inr)

lemma command_only:
  assumes par: "only_things E par" and run: "command par E d toks = Inr (Some (v, d', rest))"
  shows "\<exists>t. thing_ok t \<and> LIT BSL # toks = thing_toks t @ rest \<and> thing_out E d t = Inr (v, d')"
proof -
  obtain t us where toks: "toks = t # us" using run by (cases toks) (auto simp: command_def)
  consider (W) w where "t = WORD w" | (L) c where "t = LIT c"
    using run toks by (cases t) (auto simp: command_def)
  then show ?thesis
  proof cases
    case (L c)
    with run toks obtain x where "escaped_char c = Some x" "v = Some x" "d' = d" "rest = us"
      by (cases "escaped_char c") (auto simp: command_def)
    with L toks show ?thesis by (intro exI[of _ "Escaped c"]) simp
  next
    case (W w)
    consider (opt) vs where "us = LIT (CHR ''['') # vs" | (arg) vs where "us = LIT (CHR ''{'') # vs"
      | (none) "run_process_cmd E d w None None us = Inr (Some (v, d', rest))"
      using run toks W by (cases us; cases "hd us") (auto simp: command_def split: if_splits)
    then show ?thesis
    proof cases
      case opt
      with run toks W obtain x d1 ts1 y d2 ts2 where
        o1: "bracketed par (CHR ''['') (CHR '']'') d us = Inr (Some (x, d1, ts1))" and
        a: "bracketed par (CHR ''{'') (CHR ''}'') d1 ts1 = Inr (Some (y, d2, ts2))" and
        r: "run_process_cmd E d2 w y x ts2 = Inr (Some (v, d', rest))"
        by (auto simp: command_def pbind_eq_Some)
      obtain os oacc where os: "os \<noteq> []" "list_all thing_ok os" "us = LIT (CHR ''['') # things_toks os @ LIT (CHR '']'') # ts1"
        "things_out E d None os = Inr (oacc, d1)" "arg_value oacc = x"
        by (rule bracketed_only[OF par o1])
      obtain as acc where as: "as \<noteq> []" "list_all thing_ok as" "ts1 = LIT (CHR ''{'') # things_toks as @ LIT (CHR ''}'') # ts2"
        "things_out E d1 None as = Inr (acc, d2)" "arg_value acc = y"
        by (rule bracketed_only[OF par a])
      show ?thesis
        using os as r toks W by (intro exI[of _ "Command w os as"]) (simp add: run_process_cmd_only)
    next
      case arg
      with run toks W obtain y d2 ts2 where
        a: "bracketed par (CHR ''{'') (CHR ''}'') d us = Inr (Some (y, d2, ts2))" and
        r: "run_process_cmd E d2 w y None ts2 = Inr (Some (v, d', rest))"
        by (auto simp: command_def pbind_eq_Some)
      obtain as acc where as: "as \<noteq> []" "list_all thing_ok as" "us = LIT (CHR ''{'') # things_toks as @ LIT (CHR ''}'') # ts2"
        "things_out E d None as = Inr (acc, d2)" "arg_value acc = y"
        by (rule bracketed_only[OF par a])
      show ?thesis
        using as r toks W by (intro exI[of _ "Command w [] as"]) (simp add: run_process_cmd_only arg_value_def)
    next
      case none
      with toks W show ?thesis
        by (intro exI[of _ "Command w [] []"]) (simp add: run_process_cmd_only arg_value_def)
    qed
  qed
qed

lemma thing_only:
  assumes par: "only_things E par" and run: "thing par E d toks = Inr (Some (v, d', rest))"
  shows "\<exists>t. thing_ok t \<and> toks = thing_toks t @ rest \<and> thing_out E d t = Inr (v, d')"
proof -
  obtain t us where toks: "toks = t # us" using run by (cases toks) (auto simp: thing_def)
  show ?thesis
  proof (cases "simple_thing d t")
    case (Some r)
    then have "simple_token t" "simple_value d t = r"
      using simple_thing_token[of d t] by (auto simp: simple_value_def)
    with run toks Some show ?thesis by (intro exI[of _ "Simple t"]) (auto simp: thing_def rbind_eq_Inr)
  next
    case None
    consider (bsl) "t = LIT BSL" | (math) "t = MATHSTART" | (verb) "t = VERBSTART" | (list) "t = LISTSTART" | (special) "special_start t"
      using run toks None by (cases t) (auto simp: thing_def special_start_def split: if_splits)
    then show ?thesis
    proof cases
      case bsl
      with run toks None have "command par E d us = Inr (Some (v, d', rest))" by (simp add: thing_def)
      from command_only[OF par this] toks bsl show ?thesis by simp
    next
      case math
      with run toks None obtain m ts1 where m: "math (length us + 2) None us = Inr (Some (m, ts1))" "ts1 = MATHEND # rest"
        and v: "v = Some (''<math>'' @ m @ ''</math>'')" "d' = d"
        by (auto simp: thing_def pbind_eq_Some expect_Some simp del: math.simps)
      from math_only[OF m(1)] m(2) obtain es where
        "us = formula_toks es @ MATHEND # rest" "\<forall>e\<in>set es. mexp_ok 0 e" "m = formula_out es" "es \<noteq> []" by auto
      with toks math v show ?thesis by (intro exI[of _ "Formula es"]) (simp add: list_all_iff)
    next
      case verb
      with run toks None obtain x where x: "verb_until VERBEND us = Inr (Some (x, rest))" "v = Some (''</p>'' @ x @ ''<p>'')" "d' = d"
        by (auto simp: thing_def pbind_eq_Some)
      from verb_until_only[OF x(1)] obtain vs where "vs \<noteq> []" "us = verb_toks vs @ VERBEND # rest" "x = concat vs" by blast
      with toks verb x(2,3) show ?thesis by (intro exI[of _ "VerbatimEnv vs"]) simp
    next
      case list
      with run toks None obtain x l where x: "verb_until LISTEND us = Inr (Some (x, rest))"
        and l: "listing_str (fe_mem E) (Some x) = Inr l" "v = Some (str_cat [Some ''</p><pre>'', l, Some ''</pre><p>''])" "d' = d"
        by (auto simp: thing_def pbind_eq_Some rbind_eq_Inr)
      from verb_until_only[OF x] obtain vs where "vs \<noteq> []" "us = verb_toks vs @ LISTEND # rest" "x = concat vs" by blast
      with toks list l show ?thesis by (intro exI[of _ "ListingEnv vs"]) simp
    next
      case special
      with run toks None obtain x where x: "verb_until SPECIALCMDEND us = Inr (Some (x, rest))" "v = None" "d' = special_action E d t x"
        by (auto simp: thing_def pbind_eq_Some special_start_def)
      from verb_until_only[OF x(1)] obtain vs where "vs \<noteq> []" "us = verb_toks vs @ SPECIALCMDEND # rest" "x = concat vs" by blast
      with toks special x(2,3) show ?thesis by (intro exI[of _ "Special t vs"]) simp
    qed
  qed
qed

lemma paragraph_only:
  "fmt3_paragraph n E acc d toks = Inr (Some (v, d', rest)) \<Longrightarrow>
   \<not> starts_thing rest \<and> (\<exists>ts acc'. list_all thing_ok ts \<and> toks = things_toks ts @ rest \<and> (acc = None \<longrightarrow> ts \<noteq> []) \<and>
     things_out E d acc ts = Inr (acc', d') \<and> arg_value acc' = v)"
proof (induction n arbitrary: acc d toks v d' rest)
  case (Suc n)
  show ?case
  proof (cases "starts_thing toks")
    case False
    with Suc.prems show ?thesis by (intro conjI exI[of _ "[]"]) (auto simp: arg_value_def split: option.splits)
  next
    case True
    with Suc.prems obtain x d1 us where x: "thing (fmt3_paragraph n E None) E d toks = Inr (Some (x, d1, us))"
      and go: "fmt3_paragraph n E (Some (join_thing acc x)) d1 us = Inr (Some (v, d', rest))"
      by (auto simp: pbind_eq_Some)
    have "only_things E (fmt3_paragraph n E None)" unfolding only_things_def using Suc.IH[of None] by fastforce
    from thing_only[OF this x] obtain t where t: "thing_ok t" "toks = thing_toks t @ us" "thing_out E d t = Inr (x, d1)" by blast
    from Suc.IH[OF go] obtain ts acc' where "\<not> starts_thing rest" "list_all thing_ok ts" "us = things_toks ts @ rest"
      "things_out E d1 (Some (join_thing acc x)) ts = Inr (acc', d')" "arg_value acc' = v"
      by blast
    with t show ?thesis by (intro conjI exI[of _ "t # ts"] exI[of _ acc']) auto
  qed
qed simp

lemma paragraph_only_things: "only_things E (fmt3_paragraph n E None)"
  unfolding only_things_def using paragraph_only[of n E None] by fastforce

section \<open>Posts\<close>

text \<open>A post is a list of paragraphs, with or without an empty line at the end.\<close>

type_synonym post_tree = "thing_tree list list \<times> bool"

fun paras_toks :: "thing_tree list list \<Rightarrow> fmt3_token list" where
  "paras_toks [] = []"
| "paras_toks [p] = things_toks p"
| "paras_toks (p # q # ps) = things_toks p @ PAREND # paras_toks (q # ps)"

fun post_toks :: "post_tree \<Rightarrow> fmt3_token list" where
  "post_toks (ps, b) = paras_toks ps @ (if b then [PAREND] else [])"

abbreviation para_ok :: "thing_tree list \<Rightarrow> bool" where
  "para_ok p \<equiv> p \<noteq> [] \<and> list_all thing_ok p"

fun post_ok :: "post_tree \<Rightarrow> bool" where
  "post_ok (ps, b) = (list_all para_ok ps \<and> (ps = [] \<longrightarrow> b))"

fun paras_out :: "'n file_env \<Rightarrow> string \<Rightarrow> 'n fmt3 \<Rightarrow> thing_tree list list \<Rightarrow> (string \<times> 'n fmt3) res" where
  "paras_out E out d [] = Inr (out, d)"
| "paras_out E out d (p # ps) =
     rbind (things_out E d None p) (\<lambda>(acc, d').
       paras_out E (str_cat [Some out, Some ''<p>'', arg_value acc, Some (''</p>'' @ [NEWLINE])]) d' ps)"

fun post_out :: "'n file_env \<Rightarrow> 'n fmt3 \<Rightarrow> post_tree \<Rightarrow> 'n fmt3 res" where
  "post_out E d (ps, b) = rbind (paras_out E '''' d ps) (\<lambda>(out, d'). Inr (d'\<lparr>stroutput := Some out\<rparr>))"

lemma things_toks_length: "para_ok ts \<Longrightarrow> 0 < length (things_toks ts)"
  by (cases ts; cases "hd ts") auto

lemma para_starts: "para_ok ts \<Longrightarrow> starts_thing (things_toks ts @ rest)"
  by (cases ts) (auto intro: thing_starts)

lemma paras_starts: "list_all para_ok ps \<Longrightarrow> ps \<noteq> [] \<Longrightarrow> starts_thing (post_toks (ps, b))"
  by (cases ps rule: paras_toks.cases) (auto simp: para_starts)

lemma paragraph_reads:
  assumes "para_ok ts" "closes rest" "length (things_toks ts @ rest) < n"
  shows "fmt3_paragraph n E None d (things_toks ts @ rest) =
           rbind (things_out E d None ts) (\<lambda>(acc, d'). Inr (Some (arg_value acc, d', rest)))"
  using assms by (intro paragraph_whole trees_read(2)) (auto simp: closes_def)

lemma paragraphs_reads:
  "list_all para_ok ps \<Longrightarrow> ps \<noteq> [] \<Longrightarrow> Suc (length (post_toks (ps, b))) < n \<Longrightarrow>
   fmt3_paragraphs n E out d (post_toks (ps, b)) = rbind (paras_out E out d ps) (\<lambda>x. Inr (Some x))"
proof (induction ps arbitrary: n out d rule: paras_toks.induct)
  case (2 p)
  then obtain k where n: "n = Suc k" by (cases n) auto
  let ?r = "if b then [PAREND] else []"
  have "closes ?r" by simp
  with 2 n have "fmt3_paragraph k E None d (things_toks p @ ?r) =
      rbind (things_out E d None p) (\<lambda>(acc, d'). Inr (Some (arg_value acc, d', ?r)))"
    by (intro paragraph_reads) auto
  with n show ?case by (cases "things_out E d None p") (auto simp: Let_def)
next
  case (3 p q ps)
  then obtain k where n: "n = Suc k" by (cases n) auto
  let ?us = "post_toks (q # ps, b)"
  have p: "para_ok p" "list_all para_ok (q # ps)" using "3.prems"(1) by simp_all
  have ne: "?us \<noteq> []" using paras_starts[OF p(2), of b] by (auto simp: starts_thing_def simp del: post_toks.simps)
  have len: "Suc (length (things_toks p @ PAREND # ?us)) < n" using "3.prems"(3) by simp
  then have rd: "fmt3_paragraph k E None d (things_toks p @ PAREND # ?us) =
      rbind (things_out E d None p) (\<lambda>(acc, d'). Inr (Some (arg_value acc, d', PAREND # ?us)))"
    using n p(1) by (intro paragraph_reads) (auto simp del: post_toks.simps)
  have "Suc (length ?us) < k" using len n things_toks_length[OF p(1)] by (simp del: post_toks.simps)
  then have rest: "fmt3_paragraphs k E out' d' ?us = rbind (paras_out E out' d' (q # ps)) (\<lambda>x. Inr (Some x))" for out' d'
    using p(2) by (intro "3.IH") auto
  have toks: "post_toks (p # q # ps, b) = things_toks p @ PAREND # ?us" by simp
  obtain u us where us: "?us = u # us" using ne by (cases ?us) auto
  show ?case
    unfolding toks n
  proof (cases "things_out E d None p")
    case (Inr x)
    with rd rest us show "fmt3_paragraphs (Suc k) E out d (things_toks p @ PAREND # ?us) =
        rbind (paras_out E out d (p # q # ps)) (\<lambda>x. Inr (Some x))"
      by (cases x) (simp add: Let_def del: post_toks.simps str_cat.simps paras_out.simps(2), simp add: paras_out.simps(2)[of E out])
  qed (use rd in \<open>simp del: post_toks.simps\<close>)
qed simp

lemma paragraphs_only:
  "fmt3_paragraphs n E out d toks = Inr (Some (res, d')) \<Longrightarrow>
   \<exists>ps b. ps \<noteq> [] \<and> list_all para_ok ps \<and> toks = post_toks (ps, b) \<and> paras_out E out d ps = Inr (res, d')"
proof (induction n arbitrary: out d toks)
  case (Suc n)
  then obtain v d1 ts where p: "fmt3_paragraph n E None d toks = Inr (Some (v, d1, ts))"
    and go: "(let out' = str_cat [Some out, Some ''<p>'', v, Some (''</p>'' @ [NEWLINE])]
       in case ts of
            [] \<Rightarrow> Inr (Some (out', d1))
          | PAREND # [] \<Rightarrow> Inr (Some (out', d1))
          | PAREND # us \<Rightarrow> fmt3_paragraphs n E out' d1 us
          | _ \<Rightarrow> Inr None) = Inr (Some (res, d'))"
    by (auto simp: pbind_eq_Some simp del: str_cat.simps)
  from paragraph_only[OF p] obtain t acc where t: "list_all thing_ok t" "toks = things_toks t @ ts" "t \<noteq> []"
    "things_out E d None t = Inr (acc, d1)" "arg_value acc = v" by blast
  let ?out = "str_cat [Some out, Some ''<p>'', v, Some (''</p>'' @ [NEWLINE])]"
  consider (nil) "ts = []" | (last) "ts = [PAREND]" | (more) u us where "ts = PAREND # u # us"
    using go by (cases ts; cases "tl ts") (auto simp: Let_def split: fmt3_token.splits)
  then show ?case
  proof cases
    case nil
    with go t show ?thesis by (intro exI[of _ "[t]"] exI[of _ False]) (auto simp: Let_def)
  next
    case last
    with go t show ?thesis by (intro exI[of _ "[t]"] exI[of _ True]) (auto simp: Let_def)
  next
    case (more u us)
    with go have "fmt3_paragraphs n E ?out d1 (u # us) = Inr (Some (res, d'))" by (simp add: Let_def)
    from Suc.IH[OF this] obtain ps b where ps: "ps \<noteq> []" "list_all para_ok ps"
      "u # us = post_toks (ps, b)" "paras_out E ?out d1 ps = Inr (res, d')" by blast
    from ps(1) obtain q qs where "ps = q # qs" by (cases ps) auto
    with ps t more show ?thesis by (intro exI[of _ "t # ps"] exI[of _ b]) auto
  qed
qed simp

text \<open>A text of a tree is parsed as the tree means, aborts of the program included.\<close>

lemma fmt3_parse_reads:
  assumes "post_ok t" "post_toks t = fmt3_scan inp"
  shows "fmt3_parse E d inp = rbind (post_out E d t) (\<lambda>x. Inr (Some x))"
proof -
  obtain ps b where t: "t = (ps, b)" by (cases t)
  show ?thesis
  proof (cases "ps = []")
    case True
    with assms t have "fmt3_scan inp = [PAREND]" by simp
    with t True show ?thesis by (simp add: fmt3_parse_def post_rule_def)
  next
    case False
    have "starts_thing (fmt3_scan inp)" using paras_starts[of ps b] False assms(1) t unfolding assms(2)[symmetric] by simp
    then have ne: "fmt3_scan inp \<noteq> [PAREND]" by (auto simp: starts_thing_def)
    have "fmt3_paragraphs (length (fmt3_scan inp) + 2) E [] d (fmt3_scan inp) = rbind (paras_out E [] d ps) (\<lambda>x. Inr (Some x))"
      using paragraphs_reads[of ps b "length (fmt3_scan inp) + 2" E "[]" d] assms False t
      by (simp del: fmt3_paragraphs.simps post_toks.simps)
    with ne t show ?thesis
      by (cases "paras_out E [] d ps") (auto simp: fmt3_parse_def post_rule_def simp del: fmt3_paragraphs.simps)
  qed
qed

lemma fmt3_parse_trees:
  "fmt3_parse E d inp = Inr (Some x) \<longleftrightarrow>
     (\<exists>t. post_ok t \<and> post_toks t = fmt3_scan inp \<and> post_out E d t = Inr x)"
proof
  assume "fmt3_parse E d inp = Inr (Some x)"
  then consider (par) "fmt3_scan inp = [PAREND]" "x = d\<lparr>stroutput := Some []\<rparr>"
    | (ps) out d' where "fmt3_paragraphs (length (fmt3_scan inp) + 2) E [] d (fmt3_scan inp) = Inr (Some (out, d'))"
        "x = d'\<lparr>stroutput := Some out\<rparr>"
    by (auto simp: fmt3_parse_def post_rule_def pbind_eq_Some simp del: fmt3_paragraphs.simps split: if_splits)
  then show "\<exists>t. post_ok t \<and> post_toks t = fmt3_scan inp \<and> post_out E d t = Inr x"
  proof cases
    case par
    then show ?thesis by (intro exI[of _ "([], True)"]) simp
  next
    case ps
    from paragraphs_only[OF ps(1)] obtain qs b where "qs \<noteq> []" "list_all para_ok qs" "fmt3_scan inp = post_toks (qs, b)"
      "paras_out E [] d qs = Inr (out, d')" by blast
    with ps(2) show ?thesis by (intro exI[of _ "(qs, b)"]) simp
  qed
next
  assume "\<exists>t. post_ok t \<and> post_toks t = fmt3_scan inp \<and> post_out E d t = Inr x"
  then show "fmt3_parse E d inp = Inr (Some x)" using fmt3_parse_reads by (metis rbind_Inr)
qed

text \<open>
  C22. The parser of post texts implements its grammar: it succeeds exactly when the tokens of the text are
  those of a tree in which every production of the grammar is a node, operators in formulas being nested by
  their precedences, and the result is then what the semantic actions of the tree give in the order of the
  text.
\<close>

theorem fmt3_parse_grammar:
  "fmt3_parse E d inp = Inr (Some x) \<longleftrightarrow>
     (\<exists>t. post_ok t \<and> post_toks t = fmt3_scan inp \<and> post_out E d t = Inr x)"
  by (rule fmt3_parse_trees)

end
