(* ===== verification/Fmt3Props.thy ===== *)
theory Fmt3Props
  imports Fmt3Spec PostCmdsSpec
begin

text \<open>
  Properties of the parser of post texts: it comes to an end on every text, it changes nothing of the post
  but its list of files, and a character its scanner does not know ends the post without an error.
\<close>

section \<open>The parser comes to an end\<close>

definition ends :: "'a res \<Rightarrow> bool" where
  "ends m \<longleftrightarrow> m \<noteq> Inl OutOfFuel"

named_theorems ends_intros

lemma ends_Inr [ends_intros, simp]: "ends (Inr x)"
  by (simp add: ends_def)

lemma ends_Inl [simp]: "ends (Inl f) \<longleftrightarrow> f \<noteq> OutOfFuel"
  by (simp add: ends_def)

lemma ends_rbind [ends_intros]: "ends m \<Longrightarrow> (\<And>x. m = Inr x \<Longrightarrow> ends (f x)) \<Longrightarrow> ends (rbind m f)"
  by (cases m) (auto simp: ends_def)

lemma ends_pbind [ends_intros]: "ends m \<Longrightarrow> (\<And>x. m = Inr (Some x) \<Longrightarrow> ends (f x)) \<Longrightarrow> ends (pbind m f)"
  by (auto simp: pbind_def intro!: ends_rbind split: option.split)

lemma ends_if [ends_intros]: "(b \<Longrightarrow> ends m) \<Longrightarrow> (\<not> b \<Longrightarrow> ends m') \<Longrightarrow> ends (if b then m else m')"
  by simp

lemma ends_assert [ends_intros]: "ends (assert_that b)"
  by (simp add: assert_that_def)

lemma ends_int_add [ends_intros]: "ends (int_add a b)"
  by (simp add: int_add_def)

lemma ends_str_cstr [ends_intros]: "ends (str_cstr a)"
  by (cases a) simp_all

lemma ends_put_char [ends_intros]: "ends (put_char b i c)"
  by (simp add: put_char_def)

lemma ends_put_chars [ends_intros]: "ends (put_chars b i s)"
  by (induction s arbitrary: b i) (auto intro!: ends_intros)

lemma ends_read_cstr [ends_intros]: "ends (read_cstr b)"
  by (induction b rule: read_cstr.induct) (auto intro!: ends_intros)

lemma ends_grow_loop [ends_intros]: "(\<And>c. ends (g c)) \<Longrightarrow> ends (grow_loop g s n)"
  by (induction s arbitrary: n) (auto intro!: ends_intros)

lemma ends_fill_loop [ends_intros]: "(\<And>b i c. ends (put b i c)) \<Longrightarrow> ends (fill_loop put s b i)"
  by (induction s arbitrary: b i) (auto intro!: ends_intros split: prod.split)

lemma ends_htmlescape [ends_intros]: "ends (mangle_htmlescape mem s)"
  unfolding mangle_htmlescape_def escape_with_def html_put_def c_strcpy_def
  by (auto intro!: ends_intros split: prod.split)

lemma ends_listing_str [ends_intros]: "ends (listing_str mem s)"
  unfolding listing_str_def by (intro ends_intros)

lemma ends_listing [ends_intros]: "ends (listing E p f)"
  unfolding listing_def post_path_def by (auto intro!: ends_intros split: prod.split sum.split)

lemma ends_pure_cmd [ends_intros]: "ends (pure_cmd d parts)"
  by (simp add: pure_cmd_def)

lemma ends_cmds: "c \<in> set cmds \<Longrightarrow> ends (cmd_fxn c E d txt opt)"
  unfolding cmds_def
  apply (simp only: list.set insert_iff empty_iff)
  apply (elim disjE)
  apply (simp_all add: process_abbrev_def process_bug_def process_degree_def process_emph_def process_img_def
      process_leftarrow_def process_leftrightarrow_def process_link_def process_photo_def process_photolink_def
      process_nop_def process_rightarrow_def process_section_def process_subsection_def process_subsubsection_def
      process_textbf_def process_textit_def process_texttt_def process_tm_def process_trow_def process_wiki_def ends_pure_cmd)
  apply (auto simp: process_begin_def process_end_def process_item_def process_listing_def process_post_def process_taglink_def
      link_buf_def intro!: ends_intros split: option.split prod.split)
  done

lemma ends_process_cmd [ends_intros]:
  fixes E :: "'n file_env"
  shows "ends (process_cmd E d w txt opt)"
proof -
  have "find_cmd w = Some c \<Longrightarrow> c \<in> set (cmds :: 'n fmt3_cmd list)" for c
    unfolding find_cmd_def by (metis (no_types, lifting) find_Some_iff nth_mem)
  then show ?thesis
    unfolding process_cmd_def bsearch_cmds check_arg_def
    by (auto intro!: ends_intros ends_cmds split: option.split tri.split)
qed

lemma ends_total: "\<exists>r. m = Inr r \<Longrightarrow> ends m"
  by auto

lemma ends_expect [ends_intros]: "ends (expect t ts)"
  by (simp add: expect_def)

lemma ends_verb_until [ends_intros]: "ends (verb_until t ts)"
  unfolding verb_until_def by (intro ends_intros) (auto intro!: ends_intros split: prod.split)

lemma ends_simple_thing [ends_intros]: "simple_thing d t = Some r \<Longrightarrow> ends r"
  by (auto simp: simple_thing_def char_cvt_def special_char_def intro!: ends_intros split: fmt3_token.splits if_splits)

lemma ends_bracketed:
  assumes "\<And>d us. length us < length ts \<Longrightarrow> ends (par d us)"
  shows "ends (bracketed par op cl d ts)"
proof (cases ts)
  case (Cons t us)
  with assms show ?thesis
    unfolding bracketed_def by (intro ends_intros) (auto simp: expect_Some intro!: ends_intros split: prod.split)
qed (simp add: bracketed_def expect_def)

lemma bracketed_shorter:
  "only_things E par \<Longrightarrow> bracketed par op cl d ts = Inr (Some (v, d', us)) \<Longrightarrow> length us < length ts"
  by (erule (1) bracketed_only) simp

lemma ends_command:
  assumes par: "only_things E par" "\<And>d us. length us < length toks \<Longrightarrow> ends (par d us)"
  shows "ends (command par E d toks)"
proof -
  have arg: "ends (bracketed par op cl d us)" if "length us \<le> length toks" for op cl d us
    using that par(2) by (intro ends_bracketed) simp
  note short = bracketed_shorter[OF par(1)]
  show ?thesis
    unfolding command_def run_process_cmd_def
    by (auto intro!: ends_intros arg split: list.split fmt3_token.split prod.split option.split dest!: short)
qed

lemma ends_thing:
  assumes par: "only_things E par" "\<And>d us. length us < length toks \<Longrightarrow> ends (par d us)"
  shows "ends (thing par E d toks)"
proof (cases toks)
  case (Cons t ts)
  have "ends (command par E d ts)" using par Cons by (intro ends_command) auto
  moreover have "ends (math (length ts + 2) None ts)" by (rule ends_total, rule math_total) simp
  ultimately show ?thesis
    unfolding thing_def Cons
    by (auto intro!: ends_intros simp del: math.simps split: option.split fmt3_token.split prod.split)
qed (simp add: thing_def)

lemma ends_paragraph: "length toks < n \<Longrightarrow> ends (fmt3_paragraph n E acc d toks)"
proof (induction n arbitrary: acc d toks)
  case (Suc n)
  have th: "ends (thing (fmt3_paragraph n E None) E d toks)"
    using Suc by (intro ends_thing paragraph_only_things) auto
  have short: "length ts < length toks" if "thing (fmt3_paragraph n E None) E d toks = Inr (Some (v, d', ts))" for v d' ts
  proof -
    from thing_only[OF paragraph_only_things that] obtain t where "thing_ok t" "toks = thing_toks t @ ts" by blast
    then show ?thesis by (cases t) auto
  qed
  show ?case using th Suc short by (auto intro!: ends_intros split: prod.split)
qed simp

lemma ends_paragraphs: "Suc (length toks) < n \<Longrightarrow> ends (fmt3_paragraphs n E out d toks)"
proof (induction n arbitrary: out d toks)
  case (Suc n)
  have par: "ends (fmt3_paragraph n E None d toks)" using Suc.prems by (intro ends_paragraph) simp
  have rest: "ends (fmt3_paragraphs n E out' d' us)" if "fmt3_paragraph n E None d toks = Inr (Some (v, d', PAREND # us))" for v d' us out'
  proof -
    from paragraph_only[OF that] obtain ts where "list_all thing_ok ts" "ts \<noteq> []" "toks = things_toks ts @ PAREND # us" by auto
    with things_toks_length[of ts] Suc.prems show ?thesis by (intro Suc.IH) simp
  qed
  show ?case
    unfolding fmt3_paragraphs.simps
    by (rule ends_pbind[OF par]) (auto simp: Let_def intro!: rest split: list.split fmt3_token.split prod.split)
qed simp

lemma ends_fmt3_parse: "ends (fmt3_parse E d inp)"
  unfolding fmt3_parse_def post_rule_def
  by (intro ends_intros ends_paragraphs) (auto split: prod.split)

text \<open>
  C24. The bound on the number of tokens the parser carries is always enough: parsing a post comes to an
  end with a result, a syntax error or an abort of the program, whatever the text and however deep its
  commands and formulas are nested.
\<close>

theorem fmt3_parse_ends: "fmt3_parse E d inp \<noteq> Inl OutOfFuel"
  using ends_fmt3_parse[of E d inp] by (simp add: ends_def)

section \<open>What parsing leaves alone\<close>

text \<open>A property of the post that reading a file through the cache keeps.\<close>

definition file_stable :: "'n file_env \<Rightarrow> ('n post \<Rightarrow> bool) \<Rightarrow> bool" where
  "file_stable E P \<longleftrightarrow> (\<forall>p path r q. P p \<longrightarrow> post_get_cached_file E p path = (r, q) \<longrightarrow> P q)"

lemma listing_stable: "file_stable E P \<Longrightarrow> P p \<Longrightarrow> listing E p f = Inr (r, q) \<Longrightarrow> P q"
proof -
  assume P: "file_stable E P" "P p" and l: "listing E p f = Inr (r, q)"
  then obtain path where path: "post_path E (post_id p) f = Inr path" by (auto simp: listing_def rbind_eq_Inr)
  obtain x p' where g: "post_get_cached_file E p path = (x, p')" by (cases "post_get_cached_file E p path")
  have "q = p'" using l path g by (cases x) (auto simp: listing_def rbind_eq_Inr)
  with P g show "P q" unfolding file_stable_def by blast
qed

definition stable_cmd :: "'n cmd_fxn \<Rightarrow> bool" where
  "stable_cmd f \<longleftrightarrow>
     (\<forall>E P d txt opt v d'. file_stable E P \<longrightarrow> P (f3_post d) \<longrightarrow> f E d txt opt = Inr (v, d') \<longrightarrow>
        P (f3_post d') \<and> sc_tags d' = sc_tags d \<and> v \<noteq> None)"

lemma stable_cmdI:
  "(\<And>E d txt opt v d'. f E d txt opt = Inr (v, d') \<Longrightarrow> f3_post d' = f3_post d \<and> sc_tags d' = sc_tags d \<and> v \<noteq> None) \<Longrightarrow>
   stable_cmd f"
  unfolding stable_cmd_def by metis

lemma stable_listing: "stable_cmd process_listing"
  unfolding stable_cmd_def by (auto simp: process_listing_def pure_cmd_def rbind_eq_Inr dest: listing_stable)

lemma stable_pure:
  "stable_cmd process_abbrev" "stable_cmd process_bug" "stable_cmd process_nop" "stable_cmd process_degree"
  "stable_cmd process_emph" "stable_cmd process_img" "stable_cmd process_leftarrow" "stable_cmd process_leftrightarrow"
  "stable_cmd process_link" "stable_cmd process_photo" "stable_cmd process_photolink" "stable_cmd process_rightarrow"
  "stable_cmd process_section" "stable_cmd process_subsection" "stable_cmd process_subsubsection"
  "stable_cmd process_textbf" "stable_cmd process_textit" "stable_cmd process_texttt"
  "stable_cmd process_tm" "stable_cmd process_trow" "stable_cmd process_wiki"
  by (rule stable_cmdI,
      simp add: pure_cmd_def process_abbrev_def process_bug_def process_degree_def process_emph_def process_img_def
        process_leftarrow_def process_leftrightarrow_def process_link_def process_photo_def process_photolink_def
        process_nop_def process_rightarrow_def process_section_def process_subsection_def process_subsubsection_def
        process_textbf_def process_textit_def process_texttt_def process_tm_def process_trow_def process_wiki_def)+

lemma stable_links: "stable_cmd process_post" "stable_cmd process_taglink" "stable_cmd process_item"
  by (rule stable_cmdI, auto simp: process_post_def process_taglink_def link_buf_def rbind_eq_Inr
      process_item_def pure_cmd_def split: option.splits)+

definition leaves :: "'n fmt3 \<Rightarrow> (string option \<times> 'n fmt3) res \<Rightarrow> bool" where
  "leaves d r \<longleftrightarrow> (\<forall>v d'. r = Inr (v, d') \<longrightarrow> f3_post d' = f3_post d \<and> sc_tags d' = sc_tags d \<and> v \<noteq> None)"

lemma leaves_Inr: "f3_post d' = f3_post d \<and> sc_tags d' = sc_tags d \<Longrightarrow> leaves d (Inr (Some s, d'))"
  by (simp add: leaves_def)

lemma leaves_rbind: "(\<And>x. leaves d (f x)) \<Longrightarrow> leaves d (rbind m f)"
  by (cases m) (simp_all add: leaves_def)

lemma leaves_if: "leaves d r \<Longrightarrow> leaves d r' \<Longrightarrow> leaves d (if b then r else r')"
  by simp

lemma leaves_stable: "(\<And>E d txt opt. leaves d (f E d txt opt)) \<Longrightarrow> stable_cmd f"
  unfolding leaves_def by (rule stable_cmdI) blast

lemma stable_begin: "stable_cmd process_begin"
  by (rule leaves_stable) (unfold process_begin_def, intro leaves_rbind leaves_if leaves_Inr; simp)

lemma stable_end: "stable_cmd process_end"
  by (rule leaves_stable) (unfold process_end_def, intro leaves_rbind leaves_if leaves_Inr; simp)

lemma stable_cmds: "\<forall>c\<in>set (cmds :: 'n fmt3_cmd list). stable_cmd (cmd_fxn c)"
  unfolding cmds_def by (simp add: stable_pure stable_links stable_begin stable_end stable_listing)

lemma process_cmd_stable:
  fixes E :: "'n file_env"
  assumes "file_stable E P" "P (f3_post d)" "process_cmd E d w txt opt = Inr (v, d')"
  shows "P (f3_post d') \<and> sc_tags d' = sc_tags d \<and> v \<noteq> None"
proof (cases "find_cmd w :: 'n fmt3_cmd option")
  case (Some c)
  then have "c \<in> set cmds" unfolding find_cmd_def by (metis (no_types, lifting) find_Some_iff nth_mem)
  then have "stable_cmd (cmd_fxn c)" using stable_cmds by blast
  moreover have "cmd_fxn c E d txt opt = Inr (v, d')" using assms(3) Some by (simp add: process_cmd_eq split: if_splits)
  ultimately show ?thesis using assms(1,2) unfolding stable_cmd_def by blast
qed (use assms in \<open>auto simp: process_cmd_eq\<close>)

definition tags_cstring :: "'n fmt3 \<Rightarrow> bool" where
  "tags_cstring d \<longleftrightarrow> (\<forall>t\<in>set (sc_tags d). cstring t)"

definition verb_cstring :: "fmt3_token list \<Rightarrow> bool" where
  "verb_cstring ts \<longleftrightarrow> (\<forall>v. VERBTEXT v \<in> set ts \<longrightarrow> cstring v)"

lemma verb_cstring_simps [simp]:
  "verb_cstring []" "verb_cstring (t # ts) \<longleftrightarrow> (\<forall>v. t = VERBTEXT v \<longrightarrow> cstring v) \<and> verb_cstring ts"
  "verb_cstring (ts @ us) \<longleftrightarrow> verb_cstring ts \<and> verb_cstring us" "verb_cstring (verb_toks vs) \<longleftrightarrow> (\<forall>v\<in>set vs. cstring v)"
  by (auto simp: verb_cstring_def verb_toks_def)

lemma cstring_concat_all: "\<forall>v\<in>set vs. cstring v \<Longrightarrow> cstring (concat vs)"
  by (induction vs) auto

lemma special_action_stable:
  "f3_post (special_action E d t v) = f3_post d"
  "tags_cstring d \<Longrightarrow> cstring v \<Longrightarrow> tags_cstring (special_action E d t v)"
  by (auto simp: special_action_def special_cmd_list_def tags_cstring_def split: fmt3_token.split)

lemma trees_stable:
  "file_stable E P \<Longrightarrow> P (f3_post d) \<Longrightarrow> tags_cstring d \<Longrightarrow> verb_cstring (thing_toks t) \<Longrightarrow>
     thing_out E d t = Inr (v, d') \<Longrightarrow> P (f3_post d') \<and> tags_cstring d'"
  "file_stable E P \<Longrightarrow> P (f3_post d) \<Longrightarrow> tags_cstring d \<Longrightarrow> verb_cstring (things_toks ts) \<Longrightarrow>
     things_out E d acc ts = Inr (acc', d') \<Longrightarrow> P (f3_post d') \<and> tags_cstring d'"
proof (induction E d t and E d acc ts arbitrary: v d' and acc' d' rule: thing_out_things_out.induct)
  case (3 E d w opt arg)
  from "3.prems"(5) obtain o1 d1 a d2 where o1: "things_out E d None opt = Inr (o1, d1)"
    and a: "things_out E d1 None arg = Inr (a, d2)" and c: "process_cmd E d2 w (arg_value a) (arg_value o1) = Inr (v, d')"
    by (auto simp: rbind_eq_Inr)
  have toks: "verb_cstring (things_toks opt)" "verb_cstring (things_toks arg)" using "3.prems"(4) by (simp_all split: if_splits)
  have d1: "P (f3_post d1) \<and> tags_cstring d1" using "3.IH"(1)[OF "3.prems"(1-3) toks(1) o1] .
  have "P (f3_post d2) \<and> tags_cstring d2" using "3.IH"(2)[OF o1 refl "3.prems"(1) _ _ toks(2) a] d1 by simp
  with process_cmd_stable[OF "3.prems"(1) _ c] show ?case by (simp add: tags_cstring_def)
next
  case (7 E d t vs)
  then show ?case by (auto simp: special_action_stable cstring_concat_all)
next
  case (9 E d acc t ts)
  from "9.prems"(5) obtain x d1 where t: "thing_out E d t = Inr (x, d1)"
    and ts: "things_out E d1 (Some (join_thing acc x)) ts = Inr (acc', d')"
    by (auto simp: rbind_eq_Inr)
  have toks: "verb_cstring (thing_toks t)" "verb_cstring (things_toks ts)" using "9.prems"(4) by simp_all
  have "P (f3_post d1) \<and> tags_cstring d1" using "9.IH"(1)[OF "9.prems"(1-3) toks(1) t] .
  with "9.IH"(2)[OF t refl "9.prems"(1) _ _ toks(2) ts] show ?case by simp
qed (auto simp: rbind_eq_Inr)

lemma paras_stable:
  "file_stable E P \<Longrightarrow> P (f3_post d) \<Longrightarrow> tags_cstring d \<Longrightarrow> verb_cstring (paras_toks ps) \<Longrightarrow>
   paras_out E out d ps = Inr (out', d') \<Longrightarrow> P (f3_post d') \<and> tags_cstring d'"
proof (induction ps arbitrary: d out rule: paras_toks.induct)
  case (2 p)
  from "2.prems"(5) obtain acc where "things_out E d None p = Inr (acc, d')" by (auto simp: rbind_eq_Inr)
  from trees_stable(2)[OF "2.prems"(1-3) _ this] "2.prems"(4) show ?case by simp
next
  case (3 p q ps)
  from "3.prems"(5) obtain acc d1 where p: "things_out E d None p = Inr (acc, d1)"
    and rest: "paras_out E (str_cat [Some out, Some ''<p>'', arg_value acc, Some (''</p>'' @ [NEWLINE])]) d1 (q # ps) = Inr (out', d')"
    by (auto simp: rbind_eq_Inr simp del: str_cat.simps)
  from trees_stable(2)[OF "3.prems"(1-3) _ p] "3.prems"(4) have "P (f3_post d1) \<and> tags_cstring d1" by simp
  with "3.IH"[OF "3.prems"(1) _ _ _ rest] "3.prems"(4) show ?case by simp
qed simp

lemma scan_step_cstring: "scan_step st s = Some (n, Some (VERBTEXT v), st') \<Longrightarrow> cstring v"
proof -
  assume step: "scan_step st s = Some (n, Some (VERBTEXT v), st')"
  have y: "cstring (yydup u)" for u by (auto simp: yydup_def cstring_def dest: set_takeWhileD)
  have "scan_math s \<noteq> Some (n, Some (VERBTEXT v), st')"
    by (simp add: scan_math_def math_word_def Let_def)
  moreover have "scan_plain s \<noteq> Some (n, Some (VERBTEXT v), st')"
    by (simp add: scan_plain_def Let_def)
  moreover have "scan_text s \<noteq> Some (n, Some (VERBTEXT v), st')"
    using calculation(2) by (auto simp: scan_text_def scan_words_def)
  ultimately show "cstring v"
    using step y by (auto simp: scan_step_def scan_env_def scan_special_def split: start_cond.splits if_splits)
qed

lemma scan_verb_cstring: "verb_cstring (scan_from st s)"
proof (induction st s rule: scan_from.induct)
  case (1 st s)
  show ?case
  proof (cases "s = [] \<or> scan_step st s = None")
    case False
    then obtain n t st' where step: "scan_step st s = Some (n, t, st')" by (cases "scan_step st s") auto
    with 1 False have "verb_cstring (scan_from st' (drop n s))" by auto
    with step False scan_step_cstring[of st s n _ st'] show ?thesis by (cases t) (auto simp: scan_from.simps[of st s])
  qed (auto simp: scan_from.simps[of st s])
qed

lemma fmt3_parse_stable:
  assumes "file_stable E P" "P (f3_post d)" "tags_cstring d" "fmt3_parse E d inp = Inr (Some x)"
  shows "P (f3_post x) \<and> tags_cstring x"
proof -
  from assms(4) obtain ps b where t: "post_toks (ps, b) = fmt3_scan inp" "post_out E d (ps, b) = Inr x"
    using fmt3_parse_trees[of E d inp x] by auto
  then obtain out d' where "paras_out E [] d ps = Inr (out, d')" "x = d'\<lparr>stroutput := Some out\<rparr>"
    by (auto simp: rbind_eq_Inr)
  moreover have "verb_cstring (post_toks (ps, b))" unfolding t(1) fmt3_scan_def by (rule scan_verb_cstring)
  ultimately show ?thesis using paras_stable[OF assms(1-3), of ps "[]" out d'] by (simp add: tags_cstring_def)
qed

end
