(* ===== verification/Fmt3Place.thy ===== *)
theory Fmt3Place
  imports Fmt3Props
begin

text \<open>
  What the scanner of post texts does with a character depends on where it stands: in text, in a formula,
  in a comment, or in a place whose text is copied. \<^verbatim>\<open>scan_place\<close> computes that place from the text before
  the character. Shown here: what becomes of a character of four bytes in each place, and how the tokens of
  two empty lines with a comment between them follow each other.
\<close>

section \<open>A byte the scanner does not know\<close>

text \<open>The first byte of a character that UTF-8 writes in four bytes, and a whole one.\<close>

definition four_byte :: "char \<Rightarrow> bool" where
  "four_byte c \<longleftrightarrow> in_range 0xF0 0xFF c"

definition four_byte_char :: "string \<Rightarrow> bool" where
  "four_byte_char u \<longleftrightarrow> length u = 4 \<and> four_byte (hd u) \<and> list_all (in_range 0x80 0xBF) (tl u)"

lemma starts_with_before: "c \<notin> set p \<Longrightarrow> starts_with p (a @ c # b) \<longleftrightarrow> starts_with p a"
proof (cases "length p \<le> length a")
  case False
  assume c: "c \<notin> set p"
  from False obtain k where "length p - length a = Suc k" by (cases "length p - length a") auto
  then have mem: "c \<in> set (take (length p) (a @ c # b))" by simp
  have "take (length p) (a @ c # b) \<noteq> p"
  proof
    assume eq: "take (length p) (a @ c # b) = p"
    from mem c show False unfolding eq by contradiction
  qed
  moreover have "length (take (length p) a) \<noteq> length p" using False by simp
  then have "take (length p) a \<noteq> p" by auto
  ultimately show ?thesis by (simp add: starts_with_def)
qed (simp add: starts_with_def)

lemma takeWhile_before: "\<not> P c \<Longrightarrow> takeWhile P (a @ c # b) = takeWhile P a"
  by (induction a) simp_all

lemma four_byte_is: "four_byte c \<Longrightarrow> 0xF0 \<le> (of_char c :: nat)"
  by (simp add: four_byte_def in_range_def)

lemma four_byte_not:
  assumes "four_byte c"
  shows "\<not> blank c" "\<not> letter c" "\<not> wordc c" "\<not> numc c" "\<not> is_punct c" "\<not> is_char c" "\<not> is_schar c" "\<not> is_mathc c"
    "\<not> in_range 0x80 0xBF c" "\<not> in_range 0xC0 0xDF c" "\<not> in_range 0xE0 0xEF c"
    "c \<noteq> NEWLINE" "c \<noteq> CHR ''-''" "c \<noteq> BACKTICK" "c \<noteq> QUOTE" "c \<noteq> CHR ''%''" "c \<noteq> CHR ''$''" "c \<noteq> BSL" "c \<noteq> CHR ''+''"
proof -
  have ne: "c \<noteq> x" if "(of_char x :: nat) < 0xF0" for x using four_byte_is[OF assms] that by auto
  show "c \<noteq> NEWLINE" "c \<noteq> CHR ''-''" "c \<noteq> BACKTICK" "c \<noteq> QUOTE" "c \<noteq> CHR ''%''" "c \<noteq> CHR ''$''" "c \<noteq> BSL" "c \<noteq> CHR ''+''"
    by (rule ne, simp)+
  have nin: "c \<notin> S" if "\<forall>x\<in>S. (of_char x :: nat) < 0xF0" for S using ne that by blast
  show "\<not> is_punct c" unfolding is_punct_def by (rule nin) simp
  show "\<not> is_char c" unfolding is_char_def by (rule nin) simp
  show "\<not> is_schar c" unfolding is_schar_def by (rule nin) simp
  show "\<not> is_mathc c" unfolding is_mathc_def by (rule nin) simp
  show "\<not> blank c" using ne[of "CHR '' ''"] ne[of TAB] by (simp add: blank_def)
  show "\<not> letter c" "\<not> in_range 0x80 0xBF c" "\<not> in_range 0xC0 0xDF c" "\<not> in_range 0xE0 0xEF c"
    using four_byte_is[OF assms] by (simp_all add: letter_def in_range_def)
  have "\<not> is_digit c" using four_byte_is[OF assms] by (simp add: is_digit_def)
  then show "\<not> wordc c" "\<not> numc c"
    using four_byte_is[OF assms] ne[of "CHR ''.''"] by (simp_all add: wordc_def numc_def letter_def in_range_def)
qed

lemma run_of_before: "a \<noteq> [] \<Longrightarrow> hd a \<noteq> c \<Longrightarrow> run_of n (a @ c # b) = run_of n a"
  by (simp add: run_of_def takeWhile_before)

lemma scan_words_before: "four_byte c \<Longrightarrow> find (\<lambda>(w, _). starts_with w (a @ c # b)) scan_words = find (\<lambda>(w, _). starts_with w a) scan_words"
proof (intro find_cong refl)
  fix x assume "four_byte c" "x \<in> set scan_words"
  moreover have "\<forall>(w, _)\<in>set scan_words. \<forall>x\<in>set w. (of_char x :: nat) < 0xF0" by (simp add: scan_words_def)
  ultimately have "c \<notin> set (fst x)" using four_byte_is[of c] by fastforce
  then show "(case x of (w, _) \<Rightarrow> starts_with w (a @ c # b)) = (case x of (w, _) \<Rightarrow> starts_with w a)"
    by (cases x) (simp add: starts_with_before)
qed

lemma utf8_before:
  assumes "four_byte c" "a \<noteq> []"
  shows "3 \<le> length (a @ c # b) \<and> in_range 0x80 0xBF ((a @ c # b) ! 1) \<and> in_range 0x80 0xBF ((a @ c # b) ! 2) \<longleftrightarrow>
      3 \<le> length a \<and> in_range 0x80 0xBF (a ! 1) \<and> in_range 0x80 0xBF (a ! 2)"
    "2 \<le> length (a @ c # b) \<and> in_range 0x80 0xBF ((a @ c # b) ! 1) \<longleftrightarrow> 2 \<le> length a \<and> in_range 0x80 0xBF (a ! 1)"
  using four_byte_not(9)[OF assms(1)] assms(2)
  by (cases a; cases "tl a"; cases "tl (tl a)"; auto simp: nth_Cons')+

text \<open>A comment that has not ended goes on over the character; no other step does.\<close>

definition in_comment :: "start_cond \<Rightarrow> string \<Rightarrow> bool" where
  "in_comment st s \<longleftrightarrow> st = INITIAL \<and> hd s = CHR ''%'' \<and> NEWLINE \<notin> set s"

lemma scan_plain_before:
  assumes "four_byte c" "a \<noteq> []" "hd a = CHR ''%'' \<Longrightarrow> NEWLINE \<in> set a"
  shows "scan_plain (a @ c # b) = scan_plain a"
proof -
  note n = four_byte_not[OF assms(1)]
  have [simp]: "hd (a @ c # b) = hd a" using assms(2) by simp
  have sw: "starts_with [NEWLINE, NEWLINE] (a @ c # b) = starts_with [NEWLINE, NEWLINE] a"
    using n by (intro starts_with_before) auto
  have comment: "takeWhile (\<lambda>x. x \<noteq> NEWLINE) (a @ c # b) = takeWhile (\<lambda>x. x \<noteq> NEWLINE) a" if "hd a = CHR ''%''"
    using assms(3)[OF that] by (rule takeWhile_append1) simp
  have run: "run_of k (a @ c # b) = run_of k a" if "hd a = x" "x \<in> {CHR ''-'', BACKTICK, QUOTE}" for k x
    using that n assms(2) by (intro run_of_before) auto
  show ?thesis
    unfolding scan_plain_def Let_def sw utf8_before[OF assms(1,2)]
    using assms(2) n by (simp add: takeWhile_before comment run cong: if_cong)
qed

lemma scan_step_before:
  assumes "four_byte c" "a \<noteq> []" "\<not> in_comment st a"
  shows "scan_step st (a @ c # b) = scan_step st a"
proof -
  note n = four_byte_not[OF assms(1)]
  have hd: "hd (a @ c # b) = hd a" "take 1 (a @ c # b) = take 1 a" using assms(2) by (cases a; simp)+
  have ne: "c \<notin> set p" if "\<forall>x\<in>set p. (of_char x :: nat) < 0xF0" for p using four_byte_is[OF assms(1)] that by fastforce
  have words: "scan_text (a @ c # b) = scan_text a" if "st = INITIAL"
  proof -
    have "scan_plain (a @ c # b) = scan_plain a"
      using scan_plain_before[OF assms(1,2)] assms(3) that by (simp add: in_comment_def)
    then show ?thesis unfolding scan_text_def scan_words_before[OF assms(1)] by (simp only:)
  qed
  have "math_number (a @ c # b) = math_number a"
  proof -
    have "drop (length (takeWhile P (take 1 a))) (a @ c # b) = drop (length (takeWhile P (take 1 a))) a @ c # b" for P
      using assms(2) length_takeWhile_le[of P "take 1 a"] by (cases a) auto
    with n show ?thesis unfolding math_number_def hd(2) by (simp add: takeWhile_before Let_def)
  qed
  then have math: "scan_math (a @ c # b) = scan_math a"
    unfolding scan_math_def hd(1) Let_def by (simp add: takeWhile_before n)
  have env: "scan_env cl t st (a @ c # b) = scan_env cl t st a" if "\<forall>x\<in>set cl. (of_char x :: nat) < 0xF0" for cl t st
    unfolding scan_env_def starts_with_before[OF ne[OF that]] hd(2) by (rule refl)
  have special: "scan_special (a @ c # b) = scan_special a"
    unfolding scan_special_def hd by (rule refl)
  show ?thesis
    by (cases st) (simp_all only: scan_step_def start_cond.case words math special, (rule env, simp)+)
qed

section \<open>Places\<close>

text \<open>
  The place in which the scanner is after a text: between two steps in a start condition, or in a comment
  that goes on; \<^verbatim>\<open>None\<close> when a character of the text ended the scan.
\<close>

datatype place = At start_cond | InComment

function scan_place :: "start_cond \<Rightarrow> string \<Rightarrow> place option" where
  "scan_place st s =
     (if s = [] then Some (At st)
      else if in_comment st s then Some InComment
      else case scan_step st s of None \<Rightarrow> None | Some (n, t, st') \<Rightarrow> scan_place st' (drop n s))"
  by pat_completeness auto
termination
  by (relation "measure (\<lambda>(_, s). length s)") (auto dest: scan_step_progress)

declare scan_place.simps [simp del]

lemma scan_place_Nil [simp]: "scan_place st [] = Some (At st)"
  by (simp add: scan_place.simps)

lemma scan_from_Nil [simp]: "scan_from st [] = []"
  by (simp add: scan_from.simps)

lemma no_word_starts: "hd s \<noteq> BSL \<Longrightarrow> hd s \<noteq> CHR ''$'' \<Longrightarrow> hd s \<noteq> CHR ''.'' \<Longrightarrow> find (\<lambda>(w, _). starts_with w s) scan_words = None"
  using starts_with_hd[of _ _ s] by (auto simp: find_None_iff scan_words_def)

lemma comment_step: "hd s = CHR ''%'' \<Longrightarrow> scan_step INITIAL s = Some (length (takeWhile (\<lambda>c. c \<noteq> NEWLINE) s), None, INITIAL)"
  using starts_with_hd[of NEWLINE "[NEWLINE]" s]
  by (auto simp: scan_step_def scan_text_def no_word_starts scan_plain_def Let_def)

lemma scan_comment: "scan_from INITIAL (CHR ''%'' # s) = scan_from INITIAL (dropWhile (\<lambda>c. c \<noteq> NEWLINE) s)"
  by (simp add: scan_from.simps[of INITIAL "CHR ''%'' # s"] comment_step dropWhile_eq_drop)

section \<open>Characters of four bytes\<close>

lemma scan_four_byte:
  assumes c: "four_byte c" and that: "st = INITIAL \<or> st = MATH"
  shows "scan_step st (c # b) = None"
proof -
  note n = four_byte_not[OF c]
  have "find (\<lambda>(w, _). starts_with w (c # b)) scan_words = None"
    using scan_words_before[OF c, of "[]" b] by (simp add: scan_words_def starts_with_def)
  then show ?thesis
    using that n by (auto simp: scan_step_def scan_text_def scan_plain_def scan_math_def math_number_def starts_with_def Let_def)
qed

text \<open>Places whose text is copied take any byte that UTF-8 uses beyond ASCII.\<close>

lemma scan_copied:
  assumes "list_all (\<lambda>c. 0x80 \<le> (of_char c :: nat)) u" "st \<noteq> INITIAL" "st \<noteq> MATH"
  shows "scan_from st (u @ b) = map (\<lambda>c. VERBTEXT [c]) u @ scan_from st b"
  using assms(1)
proof (induction u)
  case (Cons c u)
  have ne: "c \<noteq> x" if "(of_char x :: nat) < 0x80" for x using Cons.prems that by auto
  have "c \<noteq> BSL" "c \<noteq> NUL" "c \<noteq> CHR ''}''" "c \<noteq> NEWLINE" by (rule ne, simp)+
  then have "scan_step st (c # u @ b) = Some (1, Some (VERBTEXT [c]), st)"
    using assms(2,3) by (cases st) (auto simp: scan_step_def scan_env_def scan_special_def starts_with_def yydup_def)
  with Cons show ?case by (simp add: scan_from.simps[of st "c # u @ b"])
qed simp

lemma scan_four_byte_char:
  assumes u: "four_byte_char u"
  shows "scan_from st (a @ u @ b) = scan_from st a @
    (case scan_place st a of
       None \<Rightarrow> []
     | Some InComment \<Rightarrow> scan_from INITIAL (dropWhile (\<lambda>c. c \<noteq> NEWLINE) b)
     | Some (At q) \<Rightarrow> if q = INITIAL \<or> q = MATH then [] else map (\<lambda>c. VERBTEXT [c]) u @ scan_from q b)"
proof -
  obtain c r where cr: "u = c # r" "four_byte c" using u by (cases u) (auto simp: four_byte_char_def)
  have high: "list_all (\<lambda>c. 0x80 \<le> (of_char c :: nat)) u"
    using u cr four_byte_is[OF cr(2)] by (auto simp: four_byte_char_def list_all_iff in_range_def)
  then have nl: "NEWLINE \<notin> set u" by (auto simp: list_all_iff)
  show ?thesis
  proof (induction st a rule: scan_from.induct)
    case (1 st a)
    consider (over) "a = []" | (comment) "a \<noteq> []" "in_comment st a" | (step) "a \<noteq> []" "\<not> in_comment st a" by blast
    then show ?case
    proof cases
      case over
      then show ?thesis
        using scan_four_byte[OF cr(2), of st "r @ b"] scan_copied[OF high, of st b]
        by (auto simp: scan_from.simps[of _ "c # r @ b"] cr(1))
    next
      case comment
      then obtain a' where a: "a = CHR ''%'' # a'" "st = INITIAL" "NEWLINE \<notin> set a'"
        by (cases a) (auto simp: in_comment_def)
      have "c \<noteq> NEWLINE" if "c \<in> set (a' @ u)" for c using a(3) nl that by auto
      from dropWhile_append2[of "a' @ u" "\<lambda>c. c \<noteq> NEWLINE" b, OF this]
      have "dropWhile (\<lambda>c. c \<noteq> NEWLINE) (a' @ u @ b) = dropWhile (\<lambda>c. c \<noteq> NEWLINE) b" by simp
      moreover have "dropWhile (\<lambda>c. c \<noteq> NEWLINE) a' = []" using a(3) by (auto simp: dropWhile_eq_Nil_conv)
      then have "scan_from INITIAL (dropWhile (\<lambda>c. c \<noteq> NEWLINE) a') = []" by (simp only: scan_from_Nil)
      moreover have "scan_place INITIAL a = Some InComment" using comment a(2) by (simp add: scan_place.simps)
      ultimately show ?thesis by (simp add: a scan_comment)
    next
      case step
      note before = scan_step_before[OF cr(2) step, of "r @ b"]
      show ?thesis
      proof (cases "scan_step st a")
        case None
        with before step show ?thesis by (simp add: scan_from.simps[of st] scan_place.simps[of st] cr(1))
      next
        case (Some x)
        obtain n t st' where x: "x = (n, t, st')" by (cases x)
        from scan_step_progress[of st a n t st'] Some x step have n: "n \<le> length a" by simp
        from before Some x step n have
          "scan_from st (a @ u @ b) = (case t of None \<Rightarrow> [] | Some x \<Rightarrow> [x]) @ scan_from st' (drop n a @ u @ b)"
          "scan_from st a = (case t of None \<Rightarrow> [] | Some x \<Rightarrow> [x]) @ scan_from st' (drop n a)"
          "scan_place st a = scan_place st' (drop n a)"
          by (simp_all add: scan_from.simps[of st] scan_place.simps[of st a] cr(1))
        with 1[OF step(1) Some x[symmetric] refl] show ?thesis by simp
      qed
    qed
  qed
qed

text \<open>
  C25. What a character that UTF-8 writes in four bytes does to a post, wherever it stands. In text and in
  formulas it ends the post: everything from it on is dropped, without an error, and the text before it is
  parsed as if it were the whole post. In a comment it is skipped with the rest of the line; in verbatim text,
  listings and special commands its bytes are copied and the scan goes on after it.
\<close>

theorem four_byte_chars:
  assumes "four_byte_char u"
  shows "fmt3_scan (a @ u @ b) = fmt3_scan a @
    (case scan_place INITIAL a of
       None \<Rightarrow> []
     | Some InComment \<Rightarrow> scan_from INITIAL (dropWhile (\<lambda>c. c \<noteq> NEWLINE) b)
     | Some (At q) \<Rightarrow> if q = INITIAL \<or> q = MATH then [] else map (\<lambda>c. VERBTEXT [c]) u @ scan_from q b) \<and>
   (scan_place INITIAL a \<in> {Some (At INITIAL), Some (At MATH), None} \<longrightarrow> fmt3_parse E d (a @ u @ b) = fmt3_parse E d a)"
  using scan_four_byte_char[OF assms, of INITIAL a b] by (auto simp: fmt3_parse_def fmt3_scan_def)

definition smiley :: string where
  "smiley = [CHR 0xF0, CHR 0x9F, CHR 0x98, CHR 0x80]"

lemma four_byte_chars_witness:
  "(\<forall>E d. fmt3_parse E d (''ab '' @ smiley @ '' not shown'') = fmt3_parse E d ''ab '') \<and>
   fmt3_scan (''ab% '' @ smiley @ [NEWLINE] @ ''c'') = [WORD ''ab'', LIT NEWLINE, WORD ''c''] \<and>
   fmt3_scan ((BSL # ''title{'') @ smiley @ ''}'') = TITLESTART # map (\<lambda>c. VERBTEXT [c]) smiley @ [SPECIALCMDEND]"
proof (intro conjI allI)
  fix E :: "'a file_env" and d
  have u: "four_byte_char smiley" by code_simp
  have p: "scan_place INITIAL ''ab '' = Some (At INITIAL)" "scan_place INITIAL ''ab% '' = Some InComment"
    "scan_place INITIAL (BSL # ''title{'') = Some (At SPECIALCMD)" by code_simp+
  show "fmt3_parse E d (''ab '' @ smiley @ '' not shown'') = fmt3_parse E d ''ab ''"
    using four_byte_chars[OF u, of "''ab ''" "'' not shown''" E d] p(1) by simp
  have "fmt3_scan ''ab% '' = [WORD ''ab'']" "scan_from INITIAL (NEWLINE # ''c'') = [LIT NEWLINE, WORD ''c'']"
    "fmt3_scan (BSL # ''title{'') = [TITLESTART]" "scan_from SPECIALCMD ''}'' = [SPECIALCMDEND]" by code_simp+
  then show "fmt3_scan (''ab% '' @ smiley @ [NEWLINE] @ ''c'') = [WORD ''ab'', LIT NEWLINE, WORD ''c'']"
    "fmt3_scan ((BSL # ''title{'') @ smiley @ ''}'') = TITLESTART # map (\<lambda>c. VERBTEXT [c]) smiley @ [SPECIALCMDEND]"
    using four_byte_chars[OF u, of "''ab% ''" "[NEWLINE] @ ''c''"] four_byte_chars[OF u, of "BSL # ''title{''" "''}''"] p(2,3)
    by simp_all
qed

section \<open>A comment after an empty line\<close>

text \<open>A comment at the start of a line changes no step before it.\<close>

lemma newline_not:
  "\<not> blank NEWLINE" "\<not> letter NEWLINE" "\<not> wordc NEWLINE" "\<not> numc NEWLINE" "\<not> is_punct NEWLINE" "\<not> is_char NEWLINE"
  "\<not> is_schar NEWLINE" "\<not> is_mathc NEWLINE"
  by (simp_all add: blank_def letter_def wordc_def numc_def is_punct_def is_char_def is_schar_def is_mathc_def in_range_def is_digit_def)

lemma scan_words_line: "find (\<lambda>(w, _). starts_with w (a @ NEWLINE # r)) scan_words = find (\<lambda>(w, _). starts_with w a) scan_words"
proof (intro find_cong refl)
  fix x assume "x \<in> set scan_words"
  moreover have "\<forall>(w, _)\<in>set scan_words. NEWLINE \<notin> set w" by (simp add: scan_words_def)
  ultimately show "(case x of (w, _) \<Rightarrow> starts_with w (a @ NEWLINE # r)) = (case x of (w, _) \<Rightarrow> starts_with w a)"
    by (auto simp: starts_with_before)
qed

lemma utf8_line:
  assumes "a \<noteq> []"
  shows "3 \<le> length (a @ NEWLINE # r) \<and> in_range 0x80 0xBF ((a @ NEWLINE # r) ! 1) \<and> in_range 0x80 0xBF ((a @ NEWLINE # r) ! 2) \<longleftrightarrow>
      3 \<le> length a \<and> in_range 0x80 0xBF (a ! 1) \<and> in_range 0x80 0xBF (a ! 2)"
    "2 \<le> length (a @ NEWLINE # r) \<and> in_range 0x80 0xBF ((a @ NEWLINE # r) ! 1) \<longleftrightarrow> 2 \<le> length a \<and> in_range 0x80 0xBF (a ! 1)"
  using assms by (cases a; cases "tl a"; cases "tl (tl a)"; auto simp: nth_Cons' in_range_def)+

lemma scan_plain_line: "scan_plain (a @ NEWLINE # CHR ''%'' # r) = scan_plain (a @ [NEWLINE])"
proof (cases "a = []")
  case True
  then show ?thesis by (simp add: scan_plain_def starts_with_def)
next
  case False
  then have hd: "hd (a @ NEWLINE # t) = hd a" for t by simp
  have sw: "starts_with [NEWLINE, NEWLINE] (a @ NEWLINE # CHR ''%'' # r) = starts_with [NEWLINE, NEWLINE] (a @ [NEWLINE])"
    using starts_with_before[of "CHR ''%''" "[NEWLINE, NEWLINE]" "a @ [NEWLINE]" r] by simp
  have gap: "takeWhile (\<lambda>c. blank c \<or> c = NEWLINE) (a @ NEWLINE # CHR ''%'' # r) = takeWhile (\<lambda>c. blank c \<or> c = NEWLINE) (a @ [NEWLINE])"
    using takeWhile_before[of "\<lambda>c. blank c \<or> c = NEWLINE" "CHR ''%''" "a @ [NEWLINE]" r] by (simp add: blank_def)
  have run: "run_of k (a @ NEWLINE # t) = run_of k a" if "hd a = x" "x \<in> {CHR ''-'', BACKTICK, QUOTE}" for k x t
    using that False by (intro run_of_before) auto
  show ?thesis
    unfolding scan_plain_def Let_def sw gap hd utf8_line[OF False]
    using False newline_not by (simp add: takeWhile_before run cong: if_cong)
qed

lemma scan_step_line: "scan_step st (a @ NEWLINE # CHR ''%'' # r) = scan_step st (a @ [NEWLINE])"
proof -
  have hd: "hd (a @ NEWLINE # t) = (if a = [] then NEWLINE else hd a)" "take 1 (a @ NEWLINE # t) = (if a = [] then [NEWLINE] else take 1 a)" for t
    by (cases a; simp)+
  have words: "scan_text (a @ NEWLINE # CHR ''%'' # r) = scan_text (a @ [NEWLINE])"
    unfolding scan_text_def scan_words_line scan_plain_line by (rule refl)
  let ?sign = "takeWhile (\<lambda>c. c = CHR ''+'' \<or> c = CHR ''-'') (if a = [] then [NEWLINE] else take 1 a)"
  have "length ?sign \<le> length a"
    using length_takeWhile_le[of "\<lambda>c. c = CHR ''+'' \<or> c = CHR ''-''" "take 1 a"] by auto
  then have "takeWhile numc (drop (length ?sign) (a @ NEWLINE # t)) = takeWhile numc (drop (length ?sign) a)" for t
    by (simp add: takeWhile_before newline_not)
  then have "math_number (a @ NEWLINE # CHR ''%'' # r) = math_number (a @ [NEWLINE])"
    unfolding math_number_def hd Let_def by (simp only:)
  then have math: "scan_math (a @ NEWLINE # CHR ''%'' # r) = scan_math (a @ [NEWLINE])"
    unfolding scan_math_def hd Let_def by (simp add: takeWhile_before newline_not)
  have env: "scan_env cl t st (a @ NEWLINE # CHR ''%'' # r) = scan_env cl t st (a @ [NEWLINE])" if "NEWLINE \<notin> set cl" for cl t st
    unfolding scan_env_def starts_with_before[OF that] hd by (rule refl)
  have special: "scan_special (a @ NEWLINE # CHR ''%'' # r) = scan_special (a @ [NEWLINE])"
    unfolding scan_special_def hd by (rule refl)
  show ?thesis
    by (cases st) (simp_all only: scan_step_def start_cond.case words math special, (rule env, simp)+)
qed

lemma scan_line:
  "s = a @ [NEWLINE] \<Longrightarrow> scan_place st s = Some (At q) \<Longrightarrow> scan_from st (s @ CHR ''%'' # r) = scan_from st s @ scan_from q (CHR ''%'' # r)"
proof (induction st s arbitrary: a rule: scan_from.induct)
  case (1 st s)
  have s: "s \<noteq> []" "\<not> in_comment st s" using 1(2) by (auto simp: in_comment_def)
  have line: "scan_step st (s @ CHR ''%'' # r) = scan_step st s" using scan_step_line[of st a r] 1(2) by simp
  from 1(3) s obtain n t st' where x: "scan_step st s = Some (n, t, st')" "scan_place st' (drop n s) = Some (At q)"
    by (auto simp: scan_place.simps[of st s] split: option.splits)
  from scan_step_progress[OF x(1) s(1)] have n: "n \<le> length s" by simp
  have step: "scan_from st (s @ CHR ''%'' # r) = (case t of None \<Rightarrow> [] | Some x \<Rightarrow> [x]) @ scan_from st' (drop n s @ CHR ''%'' # r)"
    "scan_from st s = (case t of None \<Rightarrow> [] | Some x \<Rightarrow> [x]) @ scan_from st' (drop n s)"
    using x(1) n s(1) line by (simp_all add: scan_from.simps[of st])
  show ?case
  proof (cases "n = length s")
    case True
    with step x(2) show ?thesis by simp
  next
    case False
    then have "drop n s = drop n a @ [NEWLINE]" using n 1(2) by simp
    from 1(1)[OF s(1) x(1) refl refl this x(2)] step show ?thesis by simp
  qed
qed

text \<open>After an empty line of the text the last token is the end of a paragraph.\<close>

lemma takeWhile_line: "\<not> P NEWLINE \<Longrightarrow> length (takeWhile P (a @ NEWLINE # r)) \<le> length a"
  by (simp add: takeWhile_before length_takeWhile_le)

lemma starts_with_line: "starts_with p (a @ NEWLINE # r) \<Longrightarrow> NEWLINE \<notin> set p \<Longrightarrow> length p \<le> length a"
  by (simp add: starts_with_before starts_with_length)

lemma words_line:
  assumes "find (\<lambda>(w, _). starts_with w (a @ NEWLINE # r)) scan_words = Some (w, t, st)"
  shows "length w \<le> length a"
proof -
  from assms have "(w, t, st) \<in> set scan_words" "starts_with w (a @ NEWLINE # r)"
    by (metis (mono_tags, lifting) case_prod_conv find_Some_iff nth_mem)+
  moreover have "\<forall>(w, _)\<in>set scan_words. NEWLINE \<notin> set w" by (simp add: scan_words_def)
  ultimately show ?thesis using starts_with_line by fastforce
qed

abbreviation empty_line :: string where
  "empty_line \<equiv> [NEWLINE, NEWLINE]"

definition up_to_line :: "string \<Rightarrow> scan_result \<Rightarrow> bool" where
  "up_to_line a r \<longleftrightarrow> (case r of None \<Rightarrow> True | Some (n, t, _) \<Rightarrow> n \<le> length a \<or> n = length a + 2 \<and> t = Some PAREND)"

lemma up_to_line_simps [simp]:
  "up_to_line a None" "up_to_line a (Some (n, t, st)) \<longleftrightarrow> n \<le> length a \<or> n = length a + 2 \<and> t = Some PAREND"
  by (simp_all add: up_to_line_def)

lemma up_to_line_if: "(b \<Longrightarrow> up_to_line a x) \<Longrightarrow> (\<not> b \<Longrightarrow> up_to_line a y) \<Longrightarrow> up_to_line a (if b then x else y)"
  by simp

lemma plain_line: "up_to_line a (scan_plain (a @ empty_line))"
proof (cases "a = []")
  case True
  then show ?thesis by (auto simp: scan_plain_def starts_with_def)
next
  case False
  let ?P = "\<lambda>c. blank c \<or> c = NEWLINE"
  have hd: "hd (a @ empty_line) = hd a" using False by simp
  have gap: "length (takeWhile ?P (a @ empty_line)) = length a + 2 \<or> length (takeWhile ?P (a @ empty_line)) \<le> length a"
  proof (cases "\<forall>c\<in>set a. ?P c")
    case True
    then have "takeWhile ?P (a @ empty_line) = a @ empty_line" by (subst takeWhile_append2) auto
    then show ?thesis by simp
  next
    case False
    then obtain c where "c \<in> set a" "\<not> ?P c" by blast
    then have "takeWhile ?P (a @ empty_line) = takeWhile ?P a" by (rule takeWhile_append1)
    then show ?thesis by (simp add: length_takeWhile_le)
  qed
  have run: "length (run_of k (a @ empty_line)) \<le> length a" if "hd a = x" "x \<in> {CHR ''-'', BACKTICK, QUOTE}" for k x
  proof -
    have "run_of k (a @ empty_line) = run_of k a" using that False by (intro run_of_before) auto
    then show ?thesis by (simp add: run_of_length)
  qed
  have utf8: "3 \<le> length (a @ empty_line) \<and> in_range 0x80 0xBF ((a @ empty_line) ! 1) \<and> in_range 0x80 0xBF ((a @ empty_line) ! 2) \<Longrightarrow> 3 \<le> length a"
    "2 \<le> length (a @ empty_line) \<and> in_range 0x80 0xBF ((a @ empty_line) ! 1) \<Longrightarrow> 2 \<le> length a"
    using utf8_line[OF False, of "[NEWLINE]"] by blast+
  have one: "1 \<le> length a" using False by (simp add: Suc_le_eq)
  have short: "length (takeWhile blank (a @ empty_line)) \<le> length a" "length (takeWhile wordc (a @ empty_line)) \<le> length a"
    "length (takeWhile (\<lambda>c. c \<noteq> NEWLINE) (a @ empty_line)) \<le> length a"
    using newline_not by (simp_all add: takeWhile_line)
  show ?thesis
    unfolding scan_plain_def Let_def hd using gap one run short utf8
    by (intro up_to_line_if) (simp_all only: up_to_line_simps insert_iff, blast+)
qed

lemma math_line:
  assumes "scan_math (a @ NEWLINE # r) = Some (n, t, st')"
  shows "n \<le> length a \<or> a = [] \<and> n = 1 \<and> st' = MATH"
proof (cases "a = []")
  case True
  with assms show ?thesis
    by (auto simp: scan_math_def Let_def newline_not math_number_def split: if_splits)
next
  case False
  let ?sign = "takeWhile (\<lambda>c. c = CHR ''+'' \<or> c = CHR ''-'') (take 1 a)"
  have sign: "length ?sign \<le> length a"
    using length_takeWhile_le[of "\<lambda>c. c = CHR ''+'' \<or> c = CHR ''-''" "take 1 a"] by simp
  have hd: "hd (a @ NEWLINE # r) = hd a" "take 1 (a @ NEWLINE # r) = take 1 a" using False by (cases a; simp)+
  have "math_number (a @ NEWLINE # r) = math_number a"
    unfolding math_number_def hd Let_def using sign by (simp add: takeWhile_before newline_not)
  then have "length (math_number (a @ NEWLINE # r)) \<le> length a" by (simp add: math_number_length)
  moreover have "1 \<le> length a" using False by (simp add: Suc_le_eq)
  ultimately show ?thesis
    using assms unfolding scan_math_def Let_def hd by (auto simp: takeWhile_line newline_not split: if_splits)
qed

lemma step_line:
  assumes "scan_step st (a @ empty_line) = Some (n, t, st')"
  shows "n \<le> length a \<or> n = length a + 2 \<and> t = Some PAREND \<or> a = [] \<and> n = 1 \<and> st' = st \<and> st \<noteq> INITIAL"
proof (cases st)
  case INITIAL
  show ?thesis
  proof (cases "find (\<lambda>(w, _). starts_with w (a @ empty_line)) scan_words")
    case None
    with assms INITIAL plain_line[of a] show ?thesis by (auto simp: scan_step_def scan_text_def)
  next
    case (Some x)
    with assms INITIAL words_line[of a "[NEWLINE]"] show ?thesis by (cases x) (auto simp: scan_step_def scan_text_def)
  qed
next
  case VERBATIM
  with assms starts_with_line[of "BSL # ''end{verbatim}''" a "[NEWLINE]"] show ?thesis
    by (cases a) (auto simp: scan_step_def scan_env_def split: if_splits)
next
  case LISTING
  with assms starts_with_line[of "BSL # ''end{listing}''" a "[NEWLINE]"] show ?thesis
    by (cases a) (auto simp: scan_step_def scan_env_def split: if_splits)
next
  case SPECIALCMD
  with assms show ?thesis by (cases a) (auto simp: scan_step_def scan_special_def split: if_splits)
next
  case MATH
  with assms math_line[of a "[NEWLINE]" n t st'] show ?thesis by (auto simp: scan_step_def)
qed

lemma place_newline: "scan_place st [NEWLINE] = Some (At INITIAL) \<Longrightarrow> st = INITIAL"
  by (cases st; simp add: scan_place.simps[of _ "[NEWLINE]"] in_comment_def scan_step_def scan_env_def scan_special_def
      scan_math_def math_number_def starts_with_def newline_not Let_def)

lemma parend_line:
  "s = a @ empty_line \<Longrightarrow> scan_place st s = Some (At INITIAL) \<Longrightarrow> \<exists>us. scan_from st s = us @ [PAREND]"
proof (induction st s arbitrary: a rule: scan_from.induct)
  case (1 st s)
  have s: "s \<noteq> []" "\<not> in_comment st s" using 1(2) by (auto simp: in_comment_def)
  from 1(3) s obtain n t st' where x: "scan_step st s = Some (n, t, st')" "scan_place st' (drop n s) = Some (At INITIAL)"
    by (auto simp: scan_place.simps[of st s] split: option.splits)
  have split: "scan_from st s = (case t of None \<Rightarrow> [] | Some x \<Rightarrow> [x]) @ scan_from st' (drop n s)"
    using x(1) s(1) by (simp add: scan_from.simps[of st])
  from step_line[of st a n t st'] x(1) 1(2)
  consider "n \<le> length a" | "n = length a + 2" "t = Some PAREND" | "a = []" "n = 1" "st' = st" "st \<noteq> INITIAL" by auto
  then show ?case
  proof cases
    case 1
    then have "drop n s = drop n a @ empty_line" using \<open>s = a @ empty_line\<close> by simp
    from "1.IH"[OF s(1) x(1) refl refl this x(2)] split show ?thesis by auto
  next
    case 2
    with split \<open>s = a @ empty_line\<close> show ?thesis by simp
  next
    case 3
    with x(2) \<open>s = a @ empty_line\<close> place_newline[of st] show ?thesis by simp
  qed
qed

text \<open>The tokens of a text with an empty line, a line that holds only a comment, and an empty line.\<close>

lemma scan_blank_comment:
  assumes "scan_place INITIAL (a @ empty_line) = Some (At INITIAL)" "NEWLINE \<notin> set c"
  obtains us where "fmt3_scan (a @ empty_line) = us @ [PAREND]"
    "\<exists>vs. fmt3_scan (a @ empty_line @ (CHR ''%'' # c) @ empty_line @ b) = us @ PAREND # PAREND # vs"
proof -
  obtain us where us: "scan_from INITIAL (a @ empty_line) = us @ [PAREND]" using parend_line[OF refl assms(1)] by blast
  have "dropWhile (\<lambda>x. x \<noteq> NEWLINE) (c @ empty_line @ b) = empty_line @ b"
    using assms(2) by (subst dropWhile_append2) auto
  then have "scan_from INITIAL (CHR ''%'' # c @ empty_line @ b) = scan_from INITIAL (empty_line @ b)"
    by (simp only: scan_comment)
  moreover have "\<exists>vs. scan_from INITIAL (empty_line @ b) = PAREND # vs"
  proof -
    have "starts_with empty_line (empty_line @ b)" by (simp add: starts_with_def)
    then have "scan_step INITIAL (empty_line @ b) = Some (length (takeWhile (\<lambda>c. blank c \<or> c = NEWLINE) (empty_line @ b)), Some PAREND, INITIAL)"
      using no_word_starts[of "empty_line @ b"] by (simp add: scan_step_def scan_text_def scan_plain_def)
    then show ?thesis by (simp add: scan_from.simps[of INITIAL "NEWLINE # NEWLINE # b"])
  qed
  moreover have "scan_from INITIAL ((a @ empty_line) @ CHR ''%'' # c @ empty_line @ b) =
      scan_from INITIAL (a @ empty_line) @ scan_from INITIAL (CHR ''%'' # c @ empty_line @ b)"
    using assms(1) by (intro scan_line[of _ "a @ [NEWLINE]"]) simp_all
  ultimately show ?thesis using us by (intro that[of us]) (auto simp: fmt3_scan_def)
qed

end
