(* ===== verification/Fmt3Markup.thy ===== *)
theory Fmt3Markup
  imports Fmt3Props
begin

text \<open>
  The markup of whole posts: the text of a post that uses the commands in their places is balanced, every
  element that is opened is closed in order. Which places those are is said on the trees of \<^verbatim>\<open>Fmt3Spec\<close>.
\<close>

section \<open>Things in the line\<close>

definition angle_free :: "string \<Rightarrow> bool" where
  "angle_free s \<longleftrightarrow> CHR ''<'' \<notin> set s \<and> GT \<notin> set s"

text \<open>The text of a token of the scanner holds no angle bracket; the cells of a table are not in the line.\<close>

definition line_token :: "fmt3_token \<Rightarrow> bool" where
  "line_token t \<longleftrightarrow> simple_token t \<and> t \<noteq> LIT (CHR ''&'') \<and>
     (case t of WORD w \<Rightarrow> angle_free w | UTF8CHAR w \<Rightarrow> angle_free w | WSPACE w \<Rightarrow> angle_free w | CHAR_T w \<Rightarrow> angle_free w | _ \<Rightarrow> True)"

primrec mexp_plain :: "mexp \<Rightarrow> bool" where
  "mexp_plain (Num n) = angle_free n"
| "mexp_plain (Ident w) = angle_free w"
| "mexp_plain FracName = True"
| "mexp_plain SqrtName = True"
| "mexp_plain ProptoName = True"
| "mexp_plain (Paren e) = mexp_plain e"
| "mexp_plain (Braces e) = mexp_plain e"
| "mexp_plain (Frac a b) = (mexp_plain a \<and> mexp_plain b)"
| "mexp_plain (Sqrt a) = mexp_plain a"
| "mexp_plain Propto = True"
| "mexp_plain (Infix c a b) = (mexp_plain a \<and> mexp_plain b)"

text \<open>What may stand in an argument that becomes an attribute.\<close>

fun attr_tree :: "thing_tree \<Rightarrow> bool" where
  "attr_tree (Simple t) = line_token t"
| "attr_tree (Escaped c) = (c \<noteq> BSL)"
| "attr_tree _ = False"

fun line_tree :: "thing_tree \<Rightarrow> bool" where
  "line_tree (Simple t) = line_token t"
| "line_tree (Escaped c) = True"
| "line_tree (Command w opt arg) =
     (w \<notin> block_names \<and> plain w \<and> list_all line_tree opt \<and> list_all line_tree arg \<and>
      (w \<in> attr_names \<longrightarrow> list_all attr_tree arg) \<and> (w \<in> opt_attr_names \<longrightarrow> list_all attr_tree opt))"
| "line_tree (Formula es) = list_all mexp_plain es"
| "line_tree (VerbatimEnv vs) = False"
| "line_tree (ListingEnv vs) = False"
| "line_tree (Special t vs) = True"

lemma angle_free_simps [simp]:
  "angle_free []" "angle_free (c # s) \<longleftrightarrow> c \<noteq> CHR ''<'' \<and> c \<noteq> GT \<and> angle_free s"
  "angle_free (s @ t) \<longleftrightarrow> angle_free s \<and> angle_free t"
  by (auto simp: angle_free_def)

lemma angle_free_balanced: "angle_free s \<Longrightarrow> balanced s"
  by (simp add: angle_free_def balanced_plain)

lemma simple_value_free: "line_token t \<Longrightarrow> simple_value d t = Inr v \<Longrightarrow> \<exists>s. v = Some s \<and> angle_free s"
  by (auto simp: line_token_def simple_token_def simple_value_def simple_thing_def char_cvt_def dashes_def oquotes_def cquotes_def
      special_char_def rbind_eq_Inr nth_Cons' split: fmt3_token.splits if_splits)

lemma escaped_free: "escaped_char c = Some s \<Longrightarrow> c \<noteq> BSL \<Longrightarrow> angle_free s"
  by (auto simp: escaped_char_def split: if_splits)

lemma escaped_balanced: "text_ok (escaped_char c)"
proof -
  have "balanced (tag_text ''br/'')" by (rule frag_void) simp_all
  then have "text_ok (escaped_char BSL)" by (simp add: text_ok_def escaped_char_def tag_text_def)
  moreover have "text_ok (escaped_char c)" if "c \<noteq> BSL"
    using escaped_free[of c] that by (auto simp: text_ok_def intro: angle_free_balanced)
  ultimately show ?thesis by (cases "c = BSL") auto
qed

section \<open>Formulas are balanced\<close>

lemma balanced_tagged:
  assumes "balanced t" "GT \<notin> set n" "n \<noteq> []" "hd n \<noteq> CHR ''/''" "last n \<noteq> CHR ''/''" "CHR '' '' \<notin> set n"
  shows "balanced (tag_text n @ t @ tag_text (CHR ''/'' # n))"
proof -
  have "takeWhile (\<lambda>x. x \<noteq> CHR '' '') n = n" using assms(6) by (auto simp: takeWhile_eq_all_conv)
  from balanced_elem[OF assms(1-5) this[symmetric]] show ?thesis .
qed

lemma math_elems:
  "balanced t \<Longrightarrow> balanced (tag_text ''mn'' @ t @ tag_text ''/mn'')"
  "balanced t \<Longrightarrow> balanced (tag_text ''mi'' @ t @ tag_text ''/mi'')"
  "balanced t \<Longrightarrow> balanced (tag_text ''mo'' @ t @ tag_text ''/mo'')"
  "balanced t \<Longrightarrow> balanced (tag_text ''mrow'' @ t @ tag_text ''/mrow'')"
  "balanced t \<Longrightarrow> balanced (tag_text ''math'' @ t @ tag_text ''/math'')"
  using balanced_tagged[of t "''mn''"] balanced_tagged[of t "''mi''"] balanced_tagged[of t "''mo''"]
    balanced_tagged[of t "''mrow''"] balanced_tagged[of t "''math''"] by simp_all

lemma math_apply_balanced:
  assumes "balanced a" "text_ok b" "GT \<notin> set n" "n \<noteq> []" "hd n \<noteq> CHR ''/''" "last n \<noteq> CHR ''/''" "CHR '' '' \<notin> set n"
  shows "balanced (math_apply n a b)"
proof (cases b)
  case None
  with balanced_tagged[OF math_elems(4)[OF assms(1)] assms(3-7)] show ?thesis by (simp add: math_apply_def tag_text_def)
next
  case (Some c)
  then have "balanced c" using assms(2) by (simp add: text_ok_def)
  with balanced_tagged[OF balanced_append[OF math_elems(4)[OF assms(1)] math_elems(4)] assms(3-7)] Some
  show ?thesis by (simp add: math_apply_def tag_text_def)
qed

lemma math_op_balanced:
  assumes "balanced a" "balanced b"
  shows "balanced (math_op c a b)"
proof -
  have o1: "balanced (a @ (tag_text ''mo'' @ t @ tag_text ''/mo'') @ b)" if "angle_free t" for t
    by (rule balanced_append[OF assms(1) balanced_append[OF math_elems(3)[OF angle_free_balanced[OF that]] assms(2)]])
  have ab: "text_ok (Some b)" using assms(2) by (simp add: text_ok_def)
  show ?thesis
    using math_apply_balanced[OF assms(1) ab, of "''msup''"] math_apply_balanced[OF assms(1) ab, of "''msub''"]
      o1[of "''&lt;''"] o1[of "''&gt;''"] o1[of "[c]"] balanced_append[OF assms]
    by (simp add: math_op_def tag_text_def)
qed

lemma mexp_balanced: "mexp_plain e \<Longrightarrow> balanced (mexp_out e)"
proof (induction e)
  case (Num n)
  then show ?case using math_elems(1)[OF angle_free_balanced, of n] by (simp add: tag_text_def)
next
  case (Ident w)
  then show ?case using math_elems(2)[OF angle_free_balanced, of w] by (simp add: tag_text_def)
next
  case FracName
  then show ?case using math_elems(2)[OF angle_free_balanced, of "''frac''"] by (simp add: tag_text_def)
next
  case SqrtName
  then show ?case using math_elems(2)[OF angle_free_balanced, of "''sqrt''"] by (simp add: tag_text_def)
next
  case ProptoName
  then show ?case using math_elems(2)[OF angle_free_balanced, of "''propto''"] by (simp add: tag_text_def)
next
  case (Paren e)
  have mo: "balanced (tag_text ''mo'' @ [c] @ tag_text ''/mo'')" if "angle_free [c]" for c
    by (rule math_elems(3)[OF angle_free_balanced[OF that]])
  have "balanced (mexp_out e)" using Paren by simp
  from math_elems(4)[OF balanced_append[OF mo[of "CHR ''(''"] balanced_append[OF math_elems(4)[OF this] mo[of "CHR '')''"]]]]
  show ?case by (simp add: tag_text_def)
next
  case (Frac a b)
  then show ?case using math_apply_balanced[of "mexp_out a" "Some (mexp_out b)" "''mfrac''"] by (simp add: text_ok_def)
next
  case (Sqrt a)
  then show ?case using math_apply_balanced[of "mexp_out a" None "''msqrt''"] by (simp add: text_ok_def)
next
  case Propto
  then show ?case using math_elems(3)[OF angle_free_balanced, of "''&prop;''"] by (simp add: tag_text_def)
qed (simp_all add: math_op_balanced)

lemma formula_balanced: "list_all mexp_plain es \<Longrightarrow> balanced (''<math>'' @ formula_out es @ ''</math>'')"
proof -
  assume "list_all mexp_plain es"
  then have "balanced (formula_out es)" by (induction es) (auto intro: balanced_append mexp_balanced simp: frag_Nil)
  with math_elems(5)[of "formula_out es"] show ?thesis by (simp add: tag_text_def)
qed

section \<open>Text in the line is balanced\<close>

definition nests_same :: "'n fmt3 \<Rightarrow> 'n fmt3 \<Rightarrow> bool" where
  "nests_same d d' \<longleftrightarrow> table_nesting d' = table_nesting d \<and> texttt_nesting d' = texttt_nesting d"

lemma nests_same_refl [simp]: "nests_same d d"
  by (simp add: nests_same_def)

lemma nests_same_trans: "nests_same d e \<Longrightarrow> nests_same e f \<Longrightarrow> nests_same d f"
  by (simp add: nests_same_def)

lemma special_nests: "nests_same d (special_action E d t v)"
  by (simp add: nests_same_def special_action_def split: fmt3_token.split)

lemma text_ok_None [simp]: "text_ok None" "attr_ok None"
  by (simp_all add: text_ok_def attr_ok_def)

lemma join_ok: "text_ok (arg_value acc) \<Longrightarrow> text_ok v \<Longrightarrow> text_ok (arg_value (Some (join_thing acc v)))"
  "attr_ok (arg_value acc) \<Longrightarrow> attr_ok v \<Longrightarrow> attr_ok (arg_value (Some (join_thing acc v)))"
  by (auto simp: join_thing_def arg_value_def text_ok_def attr_ok_def str_cat_opt frag_Nil intro!: balanced_append split: option.splits)

lemma attr_out:
  "list_all attr_tree ts \<Longrightarrow> things_out E d acc ts = Inr (acc', d') \<Longrightarrow> attr_ok (arg_value acc) \<Longrightarrow> attr_ok (arg_value acc')"
proof (induction ts arbitrary: d acc)
  case (Cons t ts)
  from Cons.prems obtain v d1 where t: "thing_out E d t = Inr (v, d1)"
    and ts: "things_out E d1 (Some (join_thing acc v)) ts = Inr (acc', d')" by (auto simp: rbind_eq_Inr)
  have "attr_ok v"
  proof (cases t)
    case (Simple x)
    with t Cons.prems(1) simple_value_free[of x d v] show ?thesis by (auto simp: rbind_eq_Inr attr_ok_def angle_free_def)
  next
    case (Escaped c)
    with t Cons.prems(1) escaped_free[of c] show ?thesis by (auto simp: attr_ok_def angle_free_def)
  qed (use Cons.prems(1) in simp_all)
  with Cons.IH[OF _ ts] Cons.prems(1,3) join_ok(2) show ?case by simp
qed simp

lemma line_out:
  "urls_ok E \<Longrightarrow> line_tree t \<Longrightarrow> thing_out E d t = Inr (v, d') \<Longrightarrow> text_ok v \<and> nests_same d d'"
  "urls_ok E \<Longrightarrow> list_all line_tree ts \<Longrightarrow> things_out E d acc ts = Inr (acc', d') \<Longrightarrow> text_ok (arg_value acc) \<Longrightarrow>
     text_ok (arg_value acc') \<and> nests_same d d'"
proof (induction E d t and E d acc ts arbitrary: v d' and acc' d' rule: thing_out_things_out.induct)
  case (1 E d t)
  then show ?case using simple_value_free[of t d v] by (auto simp: rbind_eq_Inr text_ok_def intro: angle_free_balanced)
next
  case (2 E d c)
  then show ?case using escaped_balanced[of c] by auto
next
  case (3 E d w opt arg)
  from "3.prems"(3) obtain o1 d1 a d2 where o1: "things_out E d None opt = Inr (o1, d1)"
    and a: "things_out E d1 None arg = Inr (a, d2)" and c: "process_cmd E d2 w (arg_value a) (arg_value o1) = Inr (v, d')"
    by (auto simp: rbind_eq_Inr)
  have w: "w \<notin> block_names" "plain w" "list_all line_tree opt" "list_all line_tree arg"
    "w \<in> attr_names \<longrightarrow> list_all attr_tree arg" "w \<in> opt_attr_names \<longrightarrow> list_all attr_tree opt"
    using "3.prems"(2) by simp_all
  have none: "arg_value None = None" by (simp add: arg_value_def)
  have ok: "text_ok (arg_value o1)" "nests_same d d1" "text_ok (arg_value a)" "nests_same d1 d2"
    using "3.IH"(1)[OF "3.prems"(1) w(3) o1] "3.IH"(2)[OF o1 refl "3.prems"(1) w(4) a] none by simp_all
  have attrs: "w \<in> attr_names \<longrightarrow> attr_ok (arg_value a)" "w \<in> opt_attr_names \<longrightarrow> attr_ok (arg_value o1)"
    using w(5,6) attr_out[OF _ a] attr_out[OF _ o1] none by simp_all
  show ?case
  proof (cases v)
    case (Some s)
    from inline_command[OF "3.prems"(1) ok(3,1) w(1,2) attrs] c Some have "balanced s" "d' = d2" by simp_all
    with ok Some show ?thesis by (auto simp: text_ok_def nests_same_def)
  next
    case None
    have "file_stable E (\<lambda>_. True)" by (simp add: file_stable_def)
    with process_cmd_stable[OF _ _ c, of "\<lambda>_. True"] None show ?thesis by simp
  qed
next
  case (4 E d es)
  then show ?case using formula_balanced[of es] by (auto simp: text_ok_def)
next
  case (7 E d t vs)
  then show ?case by (auto simp: special_nests)
next
  case (9 E d acc t ts)
  from "9.prems"(3) obtain x d1 where t: "thing_out E d t = Inr (x, d1)"
    and ts: "things_out E d1 (Some (join_thing acc x)) ts = Inr (acc', d')"
    by (auto simp: rbind_eq_Inr)
  have ok: "text_ok x" "nests_same d d1" using "9.IH"(1)[OF "9.prems"(1) _ t] "9.prems"(2) by simp_all
  from "9.IH"(2)[OF t refl "9.prems"(1) _ ts join_ok(1)[OF "9.prems"(4) ok(1)]] "9.prems"(2) ok(2)
  show ?case by (auto intro: nests_same_trans)
qed auto

section \<open>Blocks\<close>

text \<open>The joined text of things.\<close>

fun texts_out :: "'n file_env \<Rightarrow> 'n fmt3 \<Rightarrow> thing_tree list \<Rightarrow> (string \<times> 'n fmt3) res" where
  "texts_out E d [] = Inr ([], d)"
| "texts_out E d (t # ts) =
     rbind (thing_out E d t) (\<lambda>(v, d1). rbind (texts_out E d1 ts) (\<lambda>(s, d2). Inr (the_text v @ s, d2)))"

lemma the_text_join: "the_text (arg_value (Some (join_thing acc v))) = the_text (arg_value acc) @ the_text v"
  by (auto simp: join_thing_def arg_value_def str_cat_opt split: option.splits)

lemma things_texts:
  "things_out E d acc ts = Inr (acc', d') \<Longrightarrow>
   \<exists>s. texts_out E d ts = Inr (s, d') \<and> the_text (arg_value acc') = the_text (arg_value acc) @ s"
proof (induction ts arbitrary: d acc)
  case (Cons t ts)
  then obtain v d1 where t: "thing_out E d t = Inr (v, d1)"
    and ts: "things_out E d1 (Some (join_thing acc v)) ts = Inr (acc', d')" by (auto simp: rbind_eq_Inr)
  from Cons.IH[OF ts] obtain s where "texts_out E d1 ts = Inr (s, d')"
    "the_text (arg_value acc') = (the_text (arg_value acc) @ the_text v) @ s" unfolding the_text_join by blast
  with t show ?case by (intro exI[of _ "the_text v @ s"]) simp
qed simp

lemma texts_append:
  "texts_out E d (ts @ us) = Inr (s, d') \<Longrightarrow>
   \<exists>s1 d1 s2. texts_out E d ts = Inr (s1, d1) \<and> texts_out E d1 us = Inr (s2, d') \<and> s = s1 @ s2"
proof (induction ts arbitrary: d s)
  case (Cons t ts)
  then obtain v d1 r where t: "thing_out E d t = Inr (v, d1)" and r: "texts_out E d1 (ts @ us) = Inr (r, d')" "s = the_text v @ r"
    by (auto simp: rbind_eq_Inr)
  from Cons.IH[OF r(1)] obtain s1 d2 s2 where "texts_out E d1 ts = Inr (s1, d2)" "texts_out E d2 us = Inr (s2, d')" "r = s1 @ s2"
    by blast
  with t r(2) show ?case by (intro exI[of _ "the_text v @ s1"] exI[of _ d2] exI[of _ s2]) simp
qed simp

lemma line_texts:
  "urls_ok E \<Longrightarrow> list_all line_tree ts \<Longrightarrow> texts_out E d ts = Inr (s, d') \<Longrightarrow> balanced s \<and> nests_same d d'"
proof (induction ts arbitrary: d s)
  case (Cons t ts)
  then obtain v d1 r where t: "thing_out E d t = Inr (v, d1)" and r: "texts_out E d1 ts = Inr (r, d')" "s = the_text v @ r"
    by (auto simp: rbind_eq_Inr)
  have "text_ok v" "nests_same d d1" using line_out(1)[OF Cons.prems(1) _ t] Cons.prems(2) by simp_all
  with Cons.IH[OF Cons.prems(1) _ r(1)] Cons.prems(2) r(2) show ?case
    by (auto intro: balanced_append text_okD nests_same_trans)
qed (simp add: frag_Nil)

text \<open>A command whose only argument is a word.\<close>

abbreviation word_cmd :: "string \<Rightarrow> string \<Rightarrow> thing_tree" where
  "word_cmd w a \<equiv> Command w [] [Simple (WORD a)]"

text \<open>
  The contents of a paragraph: text in the line, headings, verbatim text that is balanced itself, listings,
  environments around text in the line, and quotations around such contents.
\<close>

inductive contents :: "thing_tree list \<Rightarrow> bool" where
  empty: "contents []"
| line: "line_tree t \<Longrightarrow> contents ts \<Longrightarrow> contents (t # ts)"
| heading: "w \<in> {''section'', ''subsection'', ''subsubsection''} \<Longrightarrow> list_all line_tree arg \<Longrightarrow> contents ts \<Longrightarrow>
    contents (Command w [] arg # ts)"
| verbatim: "balanced (concat vs) \<Longrightarrow> contents ts \<Longrightarrow> contents (VerbatimEnv vs # ts)"
| listing: "cstring (concat vs) \<Longrightarrow> 6 * int (length (concat vs)) < INT_MAX \<Longrightarrow> contents ts \<Longrightarrow> contents (ListingEnv vs # ts)"
| environment: "e \<in> environments \<Longrightarrow> list_all line_tree body \<Longrightarrow> contents ts \<Longrightarrow>
    contents (word_cmd ''begin'' e # body @ word_cmd ''end'' e # ts)"
| quotation: "contents body \<Longrightarrow> contents ts \<Longrightarrow>
    contents (word_cmd ''begin'' ''quote'' # body @ word_cmd ''end'' ''quote'' # ts)"

lemma word_cmd_out: "thing_out E d (word_cmd w a) = process_cmd E d w (Some a) None"
  by (simp add: simple_value_def simple_thing_def join_thing_def arg_value_def)

lemma begin_cmd: "process_cmd E d ''begin'' (Some e) None = process_begin E d (Some e) None"
  "process_cmd E d ''end'' (Some e) None = process_end E d (Some e) None"
  by (simp_all add: process_cmd_eq find_cmd_def cmds_def takes_def)

text \<open>An environment whose body keeps the elements open inside it.\<close>

lemma environment_frag:
  assumes e: "e \<in> environments" and tables: "table_nesting d = 0"
    and run: "texts_out E d (word_cmd ''begin'' e # body @ word_cmd ''end'' e # ts) = Inr (s, d')"
    and body: "\<And>d1 s1 d2. texts_out E d1 body = Inr (s1, d2) \<Longrightarrow> table_nesting d1 = of_bool (e = ''tabular'') \<Longrightarrow>
      frag (env_inner e) s1 (env_inner e) \<and> table_nesting d2 = table_nesting d1"
    and rest: "\<And>d1 s1 d2. texts_out E d1 ts = Inr (s1, d2) \<Longrightarrow> table_nesting d1 = 0 \<Longrightarrow>
      frag [''p''] s1 [''p''] \<and> table_nesting d2 = 0"
  shows "frag [''p''] s [''p''] \<and> table_nesting d' = 0"
proof -
  from run obtain b d1 r where b: "process_begin E d (Some e) None = Inr (b, d1)"
    and r: "texts_out E d1 (body @ word_cmd ''end'' e # ts) = Inr (r, d')" and s: "s = the_text b @ r"
    by (auto simp: rbind_eq_Inr word_cmd_out begin_cmd simp del: thing_out.simps(3))
  from texts_append[OF r] obtain s1 d2 s2 where s1: "texts_out E d1 body = Inr (s1, d2)"
    and s2: "texts_out E d2 (word_cmd ''end'' e # ts) = Inr (s2, d')" and r12: "r = s1 @ s2" by blast
  from s2 obtain z d3 s3 where z: "process_end E d2 (Some e) None = Inr (z, d3)" and s3: "texts_out E d3 ts = Inr (s3, d')"
    and s23: "s2 = the_text z @ s3"
    by (auto simp: rbind_eq_Inr word_cmd_out begin_cmd simp del: thing_out.simps(3))
  have outer: "env_outer e 0 = [''p'']" by (simp add: env_outer_def)
  obtain sb where sb: "b = Some sb" "frag [''p''] sb (env_inner e)"
    using begin_frag(1)[OF e b] tables outer by auto
  have n1: "table_nesting d1 = of_bool (e = ''tabular'')" using begin_frag(2)[OF e b] tables by simp
  have f1: "frag (env_inner e) s1 (env_inner e)" "table_nesting d2 = table_nesting d1" using body[OF s1 n1] by simp_all
  have n3: "table_nesting d3 = 0" using end_frag(2)[OF e z] f1(2) n1 by simp
  then obtain sz where sz: "z = Some sz" "frag (env_inner e) sz [''p'']"
    using end_frag(1)[OF e z] outer by auto
  have f3: "frag [''p''] s3 [''p'']" "table_nesting d' = 0" using rest[OF s3 n3] by simp_all
  have "frag [''p''] (sb @ s1 @ sz @ s3) [''p'']"
    by (rule frag_append[OF sb(2) frag_append[OF f1(1) frag_append[OF sz(2) f3(1)]]])
  with f3(2) s r12 s23 sb(1) sz(1) show ?thesis by simp
qed

lemma escaped_listing_balanced:
  assumes "mangle_htmlescape mem s = Inr l" "cstring s" "6 * int (length s) < INT_MAX"
  shows "balanced (the_text l)"
proof (cases mem)
  case True
  then have "l = Some (html_escaped s)"
    using assms html.escape_text[OF assms(2,3)] by (simp add: mangle_htmlescape_def html_escaped_def list_all_iff)
  moreover have "CHR ''<'' \<notin> set (html_escaped s)" using html_escaped_safe(1)[of s] by auto
  ultimately show ?thesis by (simp add: balanced_plain)
next
  case False
  then have "l = None" using assms(1) by (auto simp: mangle_htmlescape_def escape_with_def rbind_eq_Inr)
  then show ?thesis by (simp add: frag_Nil)
qed

lemma contents_frag:
  "contents ts \<Longrightarrow> urls_ok E \<Longrightarrow> table_nesting d = 0 \<Longrightarrow> texts_out E d ts = Inr (s, d') \<Longrightarrow>
   frag [''p''] s [''p''] \<and> table_nesting d' = 0"
proof (induction arbitrary: d s d' rule: contents.induct)
  case empty
  then show ?case by (simp add: frag_Nil)
next
  case (line t ts)
  from line.prems(3) obtain v d1 r where t: "thing_out E d t = Inr (v, d1)" and r: "texts_out E d1 ts = Inr (r, d')" "s = the_text v @ r"
    by (auto simp: rbind_eq_Inr)
  have "text_ok v" "nests_same d d1" using line_out(1)[OF line.prems(1) line.hyps(1) t] by simp_all
  with line.IH[OF line.prems(1) _ r(1)] line.prems(2) r(2) show ?case
    by (auto simp: nests_same_def intro: frag_append balanced_in text_okD)
next
  case (heading w arg ts)
  from heading.prems(3) obtain acc d1 v d2 r where acc: "things_out E d None arg = Inr (acc, d1)"
    and c: "process_cmd E d1 w (arg_value acc) None = Inr (v, d2)" and r: "texts_out E d2 ts = Inr (r, d')" "s = the_text v @ r"
    by (auto simp: rbind_eq_Inr arg_value_def)
  have ok: "text_ok (arg_value acc)" "nests_same d d1"
    using line_out(2)[OF heading.prems(1) heading.hyps(2) acc] by (simp_all add: arg_value_def)
  have "file_stable E (\<lambda>_. True)" by (simp add: file_stable_def)
  with process_cmd_stable[OF _ _ c, of "\<lambda>_. True"] obtain x where v: "v = Some x" by auto
  from headings_balanced[OF ok(1) heading.hyps(1) c[unfolded v]] have "frag [''p''] x [''p'']" "d2 = d1" by simp_all
  with heading.IH[OF heading.prems(1) _ r(1)] heading.prems(2) r(2) ok(2) v show ?case
    by (auto simp: nests_same_def intro: frag_append)
next
  case (verbatim vs ts)
  then obtain r where r: "texts_out E d ts = Inr (r, d')" "s = (tag_text ''/p'' @ concat vs @ tag_text ''p'') @ r"
    by (auto simp: rbind_eq_Inr tag_text_def)
  have f: "frag [''p''] (tag_text ''/p'' @ concat vs @ tag_text ''p'') [''p'']"
    by (rule frag_between[OF frag_lits(1) verbatim.hyps(1) frag_lits(2)])
  from verbatim.IH[OF verbatim.prems(1,2) r(1)] frag_append[OF f] show ?case unfolding r(2) by blast
next
  case (listing vs ts)
  from listing.prems(3) obtain l r where l: "mangle_htmlescape (fe_mem E) (concat vs) = Inr l"
    and r: "texts_out E d ts = Inr (r, d')"
    "s = (tag_text ''/p'' @ (tag_text ''pre'' @ the_text l @ tag_text ''/pre'') @ tag_text ''p'') @ r"
    by (auto simp: rbind_eq_Inr tag_text_def listing_str_def str_cat_opt)
  have "balanced (the_text l)" by (rule escaped_listing_balanced[OF l listing.hyps(1,2)])
  then have "balanced (tag_text ''pre'' @ the_text l @ tag_text ''/pre'')" using balanced_tagged[of "the_text l" "''pre''"] by simp
  from listing.IH[OF listing.prems(1,2) r(1)] frag_append[OF frag_between[OF frag_lits(1) this frag_lits(2)]]
  show ?case unfolding r(2) by blast
next
  case (environment e body ts)
  show ?case
  proof (rule environment_frag[OF environment.hyps(1) environment.prems(2,3)])
    fix d1 s1 d2 assume "texts_out E d1 body = Inr (s1, d2)"
    from line_texts[OF environment.prems(1) environment.hyps(2) this]
    show "frag (env_inner e) s1 (env_inner e) \<and> table_nesting d2 = table_nesting d1" by (simp add: balanced_in nests_same_def)
  qed (use environment.IH[OF environment.prems(1)] in blast)
next
  case (quotation body ts)
  have q: "''quote'' \<in> environments" by (simp add: environments_def)
  show ?case
  proof (rule environment_frag[OF q quotation.prems(2,3)])
    fix d1 s1 d2 assume "texts_out E d1 body = Inr (s1, d2)" "table_nesting d1 = of_bool (''quote'' = ''tabular'')"
    with quotation.IH(1)[OF quotation.prems(1) _ this(1)] frag_more[of "[''p'']" s1 "[''p'']" "[''blockquote'']"]
    show "frag (env_inner ''quote'') s1 (env_inner ''quote'') \<and> table_nesting d2 = table_nesting d1"
      by (simp add: env_inner_def)
  qed (use quotation.IH(2)[OF quotation.prems(1)] in blast)
qed

section \<open>Whole posts\<close>

lemma paras_balanced:
  "urls_ok E \<Longrightarrow> table_nesting d = 0 \<Longrightarrow> list_all contents ps \<Longrightarrow> balanced out \<Longrightarrow> paras_out E out d ps = Inr (res, d') \<Longrightarrow>
   balanced res"
proof (induction ps arbitrary: out d)
  case (Cons p ps)
  from Cons.prems(5) obtain acc d1 where p: "things_out E d None p = Inr (acc, d1)"
    and rest: "paras_out E (str_cat [Some out, Some ''<p>'', arg_value acc, Some (''</p>'' @ [NEWLINE])]) d1 ps = Inr (res, d')"
    by (auto simp: rbind_eq_Inr simp del: str_cat.simps)
  from things_texts[OF p] obtain s where s: "texts_out E d p = Inr (s, d1)" "the_text (arg_value acc) = s"
    by (auto simp: arg_value_def)
  have f: "frag [''p''] s [''p'']" "table_nesting d1 = 0"
    using contents_frag[OF _ Cons.prems(1,2) s(1)] Cons.prems(3) by simp_all
  have nl: "balanced [NEWLINE]" by (rule balanced_plain) simp
  have "balanced (out @ (tag_text ''p'' @ s @ tag_text ''/p'') @ [NEWLINE])"
    by (intro balanced_append[OF Cons.prems(4)] balanced_append[OF _ nl] frag_append[OF frag_lits(2)] frag_append[OF f(1)] frag_lits(1))
  then have "balanced (str_cat [Some out, Some ''<p>'', arg_value acc, Some (''</p>'' @ [NEWLINE])])"
    using s(2) by (simp add: str_cat_opt tag_text_def)
  from Cons.IH[OF Cons.prems(1) f(2) _ this rest] Cons.prems(3) show ?case by simp
qed simp

text \<open>
  C23. The text of a post whose paragraphs consist of text in the line, headings, listings, balanced verbatim
  text, environments around text in the line and quotations is balanced markup: every element the parser
  opens is closed in order, formulas and nested commands included.
\<close>

theorem post_balanced:
  assumes "post_ok (ps, b)" "post_toks (ps, b) = fmt3_scan inp" "list_all contents ps"
    and "urls_ok E" "table_nesting d = 0" "fmt3_parse E d inp = Inr (Some x)"
  shows "\<exists>s. stroutput x = Some s \<and> balanced s"
proof -
  from assms(6) fmt3_parse_reads[OF assms(1,2), of E d] have "post_out E d (ps, b) = Inr x" by (auto simp: rbind_eq_Inr)
  then obtain out d' where out: "paras_out E [] d ps = Inr (out, d')" and x: "x = d'\<lparr>stroutput := Some out\<rparr>"
    by (auto simp: rbind_eq_Inr)
  from paras_balanced[OF assms(4,5,3) frag_Nil out] x show ?thesis by simp
qed

text \<open>A post with a heading, a list, a formula and a command in a command.\<close>

definition sample_post :: string where
  "sample_post = BSL # ''section{A}'' @ BSL # ''begin{itemize}'' @ BSL # ''item{x}'' @ BSL # ''end{itemize}b '' @
     BSL # ''emph{'' @ BSL # ''textbf{c}}$a^2$''"

definition sample_tree :: "thing_tree list" where
  "sample_tree =
    [Command ''section'' [] [Simple (WORD ''A'')],
     word_cmd ''begin'' ''itemize'', Command ''item'' [] [Simple (WORD ''x'')], word_cmd ''end'' ''itemize'',
     Simple (WORD ''b''), Simple (WSPACE '' ''),
     Command ''emph'' [] [Command ''textbf'' [] [Simple (WORD ''c'')]],
     Formula [Infix (CHR ''^'') (Ident ''a'') (Num ''2'')]]"

lemma sample_contents: "contents sample_tree"
proof -
  have line: "contents (Simple (WORD ''b'') # Simple (WSPACE '' '') # Command ''emph'' [] [Command ''textbf'' [] [Simple (WORD ''c'')]] #
      [Formula [Infix (CHR ''^'') (Ident ''a'') (Num ''2'')]])"
    by (intro contents.line contents.empty)
      (simp_all add: line_token_def simple_token_def block_names_def plain_def attr_names_def opt_attr_names_def)
  have "contents (word_cmd ''begin'' ''itemize'' # [Command ''item'' [] [Simple (WORD ''x'')]] @ word_cmd ''end'' ''itemize'' #
      Simple (WORD ''b'') # Simple (WSPACE '' '') # Command ''emph'' [] [Command ''textbf'' [] [Simple (WORD ''c'')]] #
      [Formula [Infix (CHR ''^'') (Ident ''a'') (Num ''2'')]])"
    by (rule contents.environment[OF _ _ line])
      (simp_all add: environments_def line_token_def simple_token_def block_names_def plain_def attr_names_def opt_attr_names_def)
  from contents.heading[OF _ _ this, of "''section''" "[Simple (WORD ''A'')]"] show ?thesis
    by (simp add: sample_tree_def line_token_def simple_token_def)
qed

lemma post_balanced_witness:
  "\<exists>x s. fmt3_parse demo_files demo_fmt3 sample_post = Inr (Some x) \<and> stroutput x = Some s \<and> balanced s"
proof -
  have ok: "post_ok ([sample_tree], False)"
    by (simp add: sample_tree_def simple_token_def prec_def)
  have toks: "post_toks ([sample_tree], False) = fmt3_scan sample_post" by code_simp
  have "\<exists>x. post_out demo_files demo_fmt3 ([sample_tree], False) = Inr x"
    by (simp add: sample_tree_def process_cmd_eq find_cmd_def cmds_def takes_def arg_value_def join_thing_def simple_value_def
        simple_thing_def process_section_def process_item_def process_emph_def process_textbf_def pure_cmd_def
        process_begin_def process_end_def)
  then obtain x where "fmt3_parse demo_files demo_fmt3 sample_post = Inr (Some x)"
    using fmt3_parse_reads[OF ok toks, of demo_files demo_fmt3] by auto
  moreover have "table_nesting demo_fmt3 = 0" by (simp add: demo_fmt3_def)
  moreover have "list_all contents [sample_tree]" using sample_contents by simp
  ultimately show ?thesis using post_balanced[OF ok toks _ demo_urls] by blast
qed

end
