(* ===== verification/Post.thy ===== *)
theory Post
  imports Fmt3 PostTime
begin

text \<open>
  Loading posts (\<^verbatim>\<open>post.c\<close>): a post is made from its metadata, the metadata and texts of its
  comments and its own text, remembers the files it was made from, and is made again when one of them
  changes.
\<close>

section \<open>The environment\<close>

text \<open>
  \<^verbatim>\<open>pe_iter\<close> are the pairs of a name-value list in the order the library visits them. \<^verbatim>\<open>pe_stale\<close> is what the local variable of
  \<^verbatim>\<open>parse_time_cstr\<close> holds, \<^verbatim>\<open>pe_time\<close> the current time.
\<close>

record 'n post_env =
  pe_files :: "'n file_env"
  pe_sx :: "'n sx_ops"
  pe_unset :: "'n \<Rightarrow> string \<Rightarrow> int \<times> 'n"
  pe_iter :: "'n \<Rightarrow> (string \<times> 'n val) list"
  pe_stale :: tm
  pe_time :: u32

text \<open>An execution that does not end is reported as one that ran out of fuel.\<close>

definition returns :: "'a res option \<Rightarrow> 'a res" where
  "returns r = (case r of None \<Rightarrow> Inl OutOfFuel | Some x \<Rightarrow> x)"

lemma returns_Some [simp]: "returns (Some x) = x"
  by (simp add: returns_def)

section \<open>Tags\<close>

definition tag_cmp :: "string \<Rightarrow> string \<Rightarrow> int" where
  "tag_cmp a b = (let ret = strcasecmp a b in if ret < 0 then -1 else if 0 < ret then 1 else 0)"

text \<open>Insertion into the tree of tags, kept as the list of its elements in order.\<close>

fun put_tag :: "string \<Rightarrow> string list \<Rightarrow> string list" where
  "put_tag t [] = [t]"
| "put_tag t (u # us) =
     (let c = tag_cmp t u in if c = 0 then u # us else if c < 0 then t # u # us else u # put_tag t us)"

fun add_tags :: "bool \<Rightarrow> string list \<Rightarrow> 'n val list \<Rightarrow> string list res" where
  "add_tags mem taglist [] = Inr taglist"
| "add_tags mem taglist (tagval # vs) =
     (case tagval of
        VT_STR s \<Rightarrow> rbind (assert_that mem) (\<lambda>_. add_tags mem (put_tag s taglist) vs)
      | _ \<Rightarrow> Inl AssertFailed)"

definition post_add_tags :: "'n post_env \<Rightarrow> string list \<Rightarrow> 'n sexpr \<Rightarrow> string list res" where
  "post_add_tags E taglist list = add_tags (fe_mem (pe_files E)) taglist (sexpr_elems (pe_sx E) list)"

definition post_remove_all_tags :: "string list \<Rightarrow> string list" where
  "post_remove_all_tags taglist = []"

section \<open>Files\<close>

partial_function (option) post_remove_all_filenames :: "'n post_env \<Rightarrow> 'n \<Rightarrow> 'n res option" where
  "post_remove_all_filenames E files =
     (case pe_iter E files of
        [] \<Rightarrow> Some (Inr files)
      | (name, _) # _ \<Rightarrow>
          let (ret, files') = pe_unset E files name
          in if ret \<noteq> 0 then Some (Inl AssertFailed) else post_remove_all_filenames E files')"

section \<open>Comments\<close>

definition post_remove_all_comments :: "'n post \<Rightarrow> 'n post" where
  "post_remove_all_comments post = post\<lparr>post_comments := [], post_numcom := 0\<rparr>"

definition comment_path :: "'n post_env \<Rightarrow> u32 \<Rightarrow> int \<Rightarrow> string \<Rightarrow> string res" where
  "comment_path E pid commid fname =
     rbind (str_cstr (cf_data_dir (fe_cfg (pe_files E)))) (\<lambda>dir.
       Inr (c_snprintf FILENAME_MAX (dir @ ''/posts/'' @ dec_of_int (sint pid) @ ''/comments/'' @
              dec_of_int commid @ ''/'' @ fname)))"

definition load_comment :: "'n post_env \<Rightarrow> 'n post \<Rightarrow> int \<Rightarrow> (string \<times> 'n post) res" where
  "load_comment E post commid =
     rbind (comment_path E (post_id post) commid ''text.txt'') (\<lambda>path.
       case post_get_cached_file (pe_files E) post path of
         (Inr out, post') \<Rightarrow> Inr (out, post')
       | (Inl _, post') \<Rightarrow> Inr (''Error: could not load comment text.'', post'))"

text \<open>Whether the metadata say that a comment was moderated.\<close>

definition moderated :: "'n post_env \<Rightarrow> 'n sexpr \<Rightarrow> bool" where
  "moderated E lv = (case alist_val (pe_sx E) lv ''moderated'' of Some (VT_BOOL b) \<Rightarrow> b | _ \<Rightarrow> False)"

definition make_comment :: "'n post_env \<Rightarrow> 'n sexpr \<Rightarrow> int \<Rightarrow> string \<Rightarrow> comment" where
  "make_comment E lv commid body =
    \<lparr>com_id = word_of_int commid,
     com_author = (case alist_str (pe_sx E) lv ''author'' of None \<Rightarrow> Some ''[unknown]'' | Some a \<Rightarrow> Some a),
     com_email = alist_str (pe_sx E) lv ''email'',
     com_time = word_of_int (parse_time_str (pe_stale E) (alist_str (pe_sx E) lv ''time'')),
     com_ip = alist_str (pe_sx E) lv ''ip'',
     com_url = alist_str (pe_sx E) lv ''url'',
     com_body = Some body\<rparr>"

definition post_add_comment :: "'n post_env \<Rightarrow> 'n post \<Rightarrow> int \<Rightarrow> 'n post res" where
  "post_add_comment E post commid =
     rbind (comment_path E (post_id post) commid ''meta.lisp'') (\<lambda>path.
       case post_get_cached_file (pe_files E) post path of
         (Inl _, _) \<Rightarrow> Inl AssertFailed
       | (Inr meta, post1) \<Rightarrow>
           (case sexpr_parse (pe_sx E) meta of
              Inl _ \<Rightarrow> Inl AssertFailed
            | Inr lv \<Rightarrow>
                if \<not> moderated E lv then Inr post1
                else rbind (assert_that (fe_mem (pe_files E))) (\<lambda>_.
                     rbind (load_comment E post1 (sint (word_of_int commid :: u32))) (\<lambda>(body, post2).
                       Inr (post2\<lparr>post_comments := post_comments post2 @ [make_comment E lv commid body],
                                  post_numcom := post_numcom post2 + 1\<rparr>)))))"

text \<open>The id of a comment is cut from 64 bits to an \<^verbatim>\<open>int\<close> when it is passed on.\<close>

fun add_comments :: "'n post_env \<Rightarrow> 'n post \<Rightarrow> 'n val list \<Rightarrow> 'n post res" where
  "add_comments E post [] = Inr post"
| "add_comments E post (v # vs) =
     (case v of
        VT_INT i \<Rightarrow> rbind (post_add_comment E post (sint (ucast i :: u32))) (\<lambda>post'. add_comments E post' vs)
      | _ \<Rightarrow> Inl AssertFailed)"

definition post_add_comments :: "'n post_env \<Rightarrow> 'n post \<Rightarrow> 'n sexpr \<Rightarrow> 'n post res" where
  "post_add_comments E post list = add_comments E post (sexpr_elems (pe_sx E) list)"

section \<open>The text of a post\<close>

definition fmt3_init :: "'n post \<Rightarrow> 'n fmt3" where
  "fmt3_init post =
    \<lparr>f3_post = post, table_nesting = 0, texttt_nesting = 0, sc_title = None, sc_pub = None,
     sc_tags = [], sc_twitter_img = None, stroutput = None\<rparr>"

definition set_title :: "'n fmt3 \<Rightarrow> 'n post \<Rightarrow> 'n post" where
  "set_title x post = (case sc_title x of None \<Rightarrow> post | Some t \<Rightarrow> post\<lparr>post_title := Some t\<rparr>)"

definition set_pub :: "tm \<Rightarrow> 'n fmt3 \<Rightarrow> 'n post \<Rightarrow> 'n post" where
  "set_pub stale x post =
     (case sc_pub x of None \<Rightarrow> post | Some t \<Rightarrow> post\<lparr>post_time := word_of_int (parse_time_str stale (Some t))\<rparr>)"

definition set_twitter_img :: "'n fmt3 \<Rightarrow> 'n post \<Rightarrow> 'n post" where
  "set_twitter_img x post =
     (case sc_twitter_img x of None \<Rightarrow> post | Some t \<Rightarrow> post\<lparr>post_twitter_img := Some t\<rparr>)"

definition do_load_post_body_fmt3 :: "'n post_env \<Rightarrow> 'n post \<Rightarrow> string \<Rightarrow> (int \<times> 'n post) res" where
  "do_load_post_body_fmt3 E post inp =
     rbind (fmt3_parse (pe_files E) (fmt3_init post) inp) (\<lambda>r.
       case r of
         None \<Rightarrow> Inl Panicked
       | Some x \<Rightarrow>
           let p1 = set_twitter_img x (set_pub (pe_stale E) x (set_title x (f3_post x)))
           in rbind (add_tags (fe_mem (pe_files E)) (post_tags p1) (map VT_STR (sc_tags x) :: 'n val list)) (\<lambda>tags.
              rbind (assert_that (stroutput x \<noteq> None)) (\<lambda>_.
                Inr (0, p1\<lparr>post_tags := tags, post_body := stroutput x\<rparr>))))"

definition load_post_body :: "'n post_env \<Rightarrow> 'n post \<Rightarrow> (int \<times> 'n post) res" where
  "load_post_body E post =
     rbind (assert_that (post_fmt post = 3)) (\<lambda>_.
     rbind (post_path (pe_files E) (post_id post) ''post.tex'') (\<lambda>path.
       case post_get_cached_file (pe_files E) post path of
         (Inl e, post') \<Rightarrow> Inr (e, post')
       | (Inr raw, post') \<Rightarrow> do_load_post_body_fmt3 E post' raw))"

section \<open>Refreshing\<close>

definition refresh_published_prop :: "'n post_env \<Rightarrow> 'n post \<Rightarrow> 'n sexpr \<Rightarrow> 'n post" where
  "refresh_published_prop E post lv =
     post\<lparr>post_time := word_of_int (parse_time_str (pe_stale E) (alist_str (pe_sx E) lv ''time'')),
          post_title := alist_str (pe_sx E) lv ''title'',
          post_fmt := (case alist_int (pe_sx E) lv ''fmt'' of None \<Rightarrow> 0 | Some i \<Rightarrow> ucast i),
          post_listed := (case alist_bool (pe_sx E) lv ''listed'' of None \<Rightarrow> True | Some b \<Rightarrow> b)\<rparr>"

definition refresh_published :: "'n post_env \<Rightarrow> 'n post \<Rightarrow> (int \<times> 'n post) res" where
  "refresh_published E post =
     rbind (post_path (pe_files E) (post_id post) ''post.lisp'') (\<lambda>path.
       case post_get_cached_file (pe_files E) post path of
         (Inl e, post') \<Rightarrow> Inr (e, post')
       | (Inr meta, post') \<Rightarrow>
           (case sexpr_parse (pe_sx E) meta of
              Inl e \<Rightarrow> Inr (e, post')
            | Inr lv \<Rightarrow>
                let p1 = refresh_published_prop E post' lv;
                    p2 = post_remove_all_comments (p1\<lparr>post_tags := post_remove_all_tags (post_tags p1)\<rparr>)
                in rbind (post_add_tags E (post_tags p2) (alist_list (pe_sx E) lv ''tags'')) (\<lambda>tags.
                   rbind (post_add_comments E (p2\<lparr>post_tags := tags\<rparr>) (alist_list (pe_sx E) lv ''comments'')) (\<lambda>p3.
                     Inr (0, p3)))))"

fun files_newer :: "'n file_env \<Rightarrow> (string \<times> 'n val) list \<Rightarrow> bool res" where
  "files_newer F [] = Inr False"
| "files_newer F ((name, v) # ps) =
     (case v of
        VT_INT file_rev \<Rightarrow> if fe_newer F name file_rev then Inr True else files_newer F ps
      | _ \<Rightarrow> Inl AssertFailed)"

definition must_refresh :: "'n post_env \<Rightarrow> 'n post \<Rightarrow> bool res" where
  "must_refresh E post =
     (if post_preview post then Inr True
      else if pe_iter E (post_files post) = [] then Inr True
      else files_newer (pe_files E) (pe_iter E (post_files post)))"

definition post_refresh :: "'n post_env \<Rightarrow> 'n post \<Rightarrow> (int \<times> 'n post) res" where
  "post_refresh E post =
     rbind (must_refresh E post) (\<lambda>must.
       if \<not> must then Inr (0, post)
       else rbind (returns (post_remove_all_filenames E (post_files post))) (\<lambda>files.
         let p0 = post\<lparr>post_files := files, post_title := None\<rparr>
         in rbind (if post_preview p0
                   then Inr (0, p0\<lparr>post_title := Some ''PREVIEW'', post_time := pe_time E, post_fmt := 3\<rparr>)
                   else refresh_published E p0) (\<lambda>(ret, p1).
              if ret \<noteq> 0 then Inr (ret, p1) else load_post_body E p1)))"

section \<open>Loading into the index\<close>

definition new_post :: "u32 \<Rightarrow> bool \<Rightarrow> 'n \<Rightarrow> 'n post" where
  "new_post pid preview files =
    \<lparr>post_refcnt = 1, post_preview = preview, post_listed = False, post_id = pid, post_time = 0,
     post_title = None, post_fmt = 0, post_tags = [], post_cats = [], post_comments = [], post_numcom = 0,
     post_body = None, post_twitter_img = None, post_files = files\<rparr>"

definition post_destroy :: "('n, 't) pindex \<Rightarrow> nat \<Rightarrow> ('n, 't) pindex" where
  "post_destroy s p = s\<lparr>posts := (posts s)(p := None)\<rparr>"

text \<open>The part after the cache of loaded posts has been asked.\<close>

definition load_post_fresh ::
  "'n post_env \<Rightarrow> 't rb_ops \<Rightarrow> ('n, 't) pindex \<Rightarrow> int \<Rightarrow> bool \<Rightarrow> (nat option \<times> ('n, 't) pindex) res" where
  "load_post_fresh E R s postid preview =
     (case mem_cache_alloc s of
        (None, s1) \<Rightarrow> Inr (None, s1)
      | (Some a, s1) \<Rightarrow>
          (case nvl_alloc (fe_nvl (pe_files E)) of
             None \<Rightarrow> Inr (None, post_destroy s1 a)
           | Some files \<Rightarrow>
               rbind (post_refresh E (new_post (word_of_int postid) preview files)) (\<lambda>(err, post).
                 let s2 = s1\<lparr>posts := (posts s1)(a \<mapsto> post)\<rparr>
                 in if err \<noteq> 0 then Inr (None, post_destroy s2 a)
                    else if preview then Inr (Some a, s2)
                    else rbind (index_insert_post R s2 a) (\<lambda>(ret, s3).
                         rbind (assert_that (ret = 0)) (\<lambda>_. Inr (Some a, s3))))))"

definition load_post ::
  "'n post_env \<Rightarrow> 't rb_ops \<Rightarrow> ('n, 't) pindex \<Rightarrow> int \<Rightarrow> bool \<Rightarrow> (nat option \<times> ('n, 't) pindex) res" where
  "load_post E R s postid preview =
     (if \<not> preview then
        rbind (index_lookup_post R s (word_of_int postid)) (\<lambda>(r, s').
          case r of Some a \<Rightarrow> Inr (Some a, s') | None \<Rightarrow> load_post_fresh E R s' postid preview)
      else load_post_fresh E R s postid preview)"

text \<open>Dropping a reference that may be NULL.\<close>

definition putref_opt :: "('n, 't) pindex \<Rightarrow> nat option \<Rightarrow> ('n, 't) pindex res" where
  "putref_opt s r = (case r of None \<Rightarrow> Inr s | Some a \<Rightarrow> post_putref s a)"

definition tq_load_post :: "'n post_env \<Rightarrow> 't rb_ops \<Rightarrow> ('n, 't) pindex \<Rightarrow> int \<Rightarrow> ('n, 't) pindex res" where
  "tq_load_post E R s postid = rbind (load_post E R s postid False) (\<lambda>(r, s'). putref_opt s' r)"

text \<open>
  The entries of the directory as \<^verbatim>\<open>readdir\<close> gives them; \<open>num\<close> is \<^verbatim>\<open>str2u32\<close>, \<open>isdir\<close> the result of
  \<^verbatim>\<open>xlstat\<close> and the test of its mode. The posts are loaded by a task queue; here they are loaded one
  after the other in the order of the directory. \<open>tq_err\<close> is the error of making the queue, if any.
\<close>

fun load_entries ::
  "'n post_env \<Rightarrow> 't rb_ops \<Rightarrow> (string \<Rightarrow> u32 option) \<Rightarrow> (string \<Rightarrow> int + bool) \<Rightarrow> string \<Rightarrow> string list \<Rightarrow>
     ('n, 't) pindex \<Rightarrow> ('n, 't) pindex res" where
  "load_entries E R num isdir dir [] s = Inr s"
| "load_entries E R num isdir dir (de # des) s =
     (if de = ''.'' \<or> de = ''..'' then load_entries E R num isdir dir des s
      else case num de of
        None \<Rightarrow> load_entries E R num isdir dir des s
      | Some postid \<Rightarrow>
          (case isdir (c_snprintf FILENAME_MAX (dir @ ''/posts/'' @ dec_of_nat (unat postid))) of
             Inl _ \<Rightarrow> load_entries E R num isdir dir des s
           | Inr False \<Rightarrow> load_entries E R num isdir dir des s
           | Inr True \<Rightarrow>
               rbind (tq_load_post E R s (sint postid)) (\<lambda>s'. load_entries E R num isdir dir des s')))"

definition load_all_posts ::
  "'n post_env \<Rightarrow> 't rb_ops \<Rightarrow> (string \<Rightarrow> u32 option) \<Rightarrow> (string \<Rightarrow> int + bool) \<Rightarrow> (string \<Rightarrow> int + string list) \<Rightarrow>
     int option \<Rightarrow> ('n, 't) pindex \<Rightarrow> (int \<times> ('n, 't) pindex) res" where
  "load_all_posts E R num isdir opendir tq_err s =
     rbind (str_cstr (cf_data_dir (fe_cfg (pe_files E)))) (\<lambda>dir.
       case opendir (c_snprintf FILENAME_MAX (dir @ ''/posts'')) of
         Inl errno \<Rightarrow> Inr (- errno, s)
       | Inr des \<Rightarrow>
           (case tq_err of
              Some e \<Rightarrow> Inr (e, s)
            | None \<Rightarrow> rbind (load_entries E R num isdir dir des s) (\<lambda>s'. Inr (0, s'))))"

end
