(* ===== verification/Fmt3Tests.thy ===== *)
theory Fmt3Tests
  imports Fmt3Markup Fmt3Place Post "HOL-Library.Code_Target_Nat"
begin

text \<open>
  The inputs of the program's own tests of the parser (\<^verbatim>\<open>tests/\<close>) run on the model, and the one of them the
  parser rejects, with the reason.
\<close>

section \<open>The test inputs\<close>

text \<open>\<^verbatim>\<open>tests/fmt3-bugs\<close>, in the order of the file names, but for \<^verbatim>\<open>comment-par.tex\<close>.\<close>

definition bug_tests :: "string list" where
  "bug_tests =
    [[BSL] @ ''textbf{foo'' @ [NEWLINE] @ ''bar}'' @ [NEWLINE],
     ''foo'' @ [NEWLINE, NEWLINE, NEWLINE, NEWLINE, NEWLINE, NEWLINE, NEWLINE] @ ''bar'' @ [NEWLINE],
     ''foo'' @ [NEWLINE, NEWLINE] @ ''   '' @ [NEWLINE, NEWLINE, NEWLINE] @ ''bar'' @ [NEWLINE],
     [NEWLINE, NEWLINE],
     ''foo'' @ [NEWLINE, NEWLINE]]"

text \<open>\<^verbatim>\<open>tests/fmt3-commands\<close>, in the order of the file names.\<close>

definition command_tests :: "string list" where
  "command_tests =
    [[BSL] @ ''abbrev[abc]{def}'' @ [NEWLINE],
     ''fermat'' @ [QUOTE] @ ''s theorem: $a^n + b^n = c^n$'' @ [NEWLINE, NEWLINE] @ ''relativity:'' @ [NEWLINE, NEWLINE] @ ''$v(t) = '' @ [BSL] @ ''frac{at}{'' @ [BSL] @ ''sqrt{1 + ('' @ [BSL] @ ''frac{at}{c})^2}}$'' @ [NEWLINE],
     [BSL] @ ''bug{number}'' @ [NEWLINE],
     [BSL] @ ''category{a}'' @ [NEWLINE, BSL] @ ''category{b}'' @ [NEWLINE, BSL] @ ''category{c}'' @ [NEWLINE],
     [BSL] @ ''degree{C}'' @ [NEWLINE],
     [BSL] @ ''emph{foo}'' @ [NEWLINE],
     [BSL] @ ''img[label]{URL1}'' @ [NEWLINE, BSL] @ ''img{URL2}'' @ [NEWLINE],
     [BSL] @ ''item{foo}'' @ [NEWLINE, BSL] @ ''item[label]{bar}'' @ [NEWLINE],
     [BSL] @ ''leftarrow'' @ [NEWLINE],
     [BSL] @ ''leftrightarrow'' @ [NEWLINE],
     [BSL] @ ''link[label]{URL1}'' @ [NEWLINE, BSL] @ ''link{URL2}'' @ [NEWLINE],
     ''blah'' @ [NEWLINE, BSL] @ ''begin{listing}'' @ [NEWLINE] @ ''foobar'' @ [NEWLINE, BSL] @ ''end{listing}'' @ [NEWLINE] @ ''xyzzy'' @ [NEWLINE],
     [BSL] @ ''listing{listing1.txt}'' @ [NEWLINE, BSL] @ ''listing{listing2.txt}'' @ [NEWLINE],
     [BSL] @ ''photo[alttext]{URL1}'' @ [NEWLINE, BSL] @ ''photo{URL2}'' @ [NEWLINE],
     [BSL] @ ''photolink[label]{URL1}'' @ [NEWLINE, BSL] @ ''photolink{URL2}'' @ [NEWLINE],
     [BSL] @ ''post[label]{id1}'' @ [NEWLINE, BSL] @ ''post{id2}'' @ [NEWLINE],
     [BSL] @ ''published{2013-04-24 17:56}'' @ [NEWLINE],
     [BSL] @ ''rightarrow'' @ [NEWLINE],
     [BSL] @ ''section{foo}'' @ [NEWLINE],
     ''hello'' @ [NEWLINE],
     [BSL] @ ''subsection{foo}'' @ [NEWLINE],
     [BSL] @ ''subsubsection{foo}'' @ [NEWLINE],
     [BSL] @ ''begin{tabular}'' @ [NEWLINE, BSL] @ ''trow{a & b & c}'' @ [NEWLINE, BSL] @ ''trow{d&e&f&g}'' @ [NEWLINE, BSL] @ ''end{tabular}'' @ [NEWLINE],
     [BSL] @ ''tag{a}'' @ [NEWLINE, BSL] @ ''tag{b}'' @ [NEWLINE, BSL] @ ''tag{c}'' @ [NEWLINE],
     [BSL] @ ''textbf{text}'' @ [NEWLINE],
     [BSL] @ ''textit{text}'' @ [NEWLINE],
     ''aoeu'' @ [NEWLINE, BSL] @ ''begin{texttt}'' @ [NEWLINE] @ ''foo'' @ [BSL] @ ''textbf{bar}'' @ [NEWLINE, BSL] @ ''end{texttt}'' @ [NEWLINE] @ ''xyzzy'' @ [NEWLINE],
     [BSL] @ ''texttt{test}'' @ [NEWLINE],
     [BSL] @ ''title{post title}'' @ [NEWLINE],
     [BSL] @ ''trow{a}'' @ [NEWLINE, BSL] @ ''trow{a & b}'' @ [NEWLINE, BSL] @ ''trow{a & b & c}'' @ [NEWLINE],
     [BSL] @ ''twitterimg{foo}'' @ [NEWLINE],
     ''foo'' @ [NEWLINE, BSL] @ ''begin{verbatim}'' @ [NEWLINE] @ ''aoeuaoeu<h1>abc</h1>'' @ [NEWLINE, BSL] @ ''end{verbatim}'' @ [NEWLINE] @ ''baz'' @ [NEWLINE],
     [BSL] @ ''wiki[label]{URL1}'' @ [NEWLINE, BSL] @ ''wiki{URL2}'' @ [NEWLINE]]"

text \<open>\<^verbatim>\<open>tests/fmt3-math\<close>, in the order of the file names.\<close>

definition math_tests :: "string list" where
  "math_tests =
    [''$1 + 2$'' @ [NEWLINE],
     ''$a + b$'' @ [NEWLINE],
     ''${1}$'' @ [NEWLINE],
     ''${a}$'' @ [NEWLINE],
     ''$2 / 3$'' @ [NEWLINE],
     ''$a / b$'' @ [NEWLINE],
     ''$5 = 7$'' @ [NEWLINE],
     ''$a = b$'' @ [NEWLINE],
     ''$1.0$'' @ [NEWLINE],
     ''$-1.0$'' @ [NEWLINE],
     ''$+1.0$'' @ [NEWLINE],
     ''$'' @ [BSL] @ ''frac{1}{2}$'' @ [NEWLINE],
     ''$1$'' @ [NEWLINE],
     ''$-1$'' @ [NEWLINE],
     ''$+1$'' @ [NEWLINE],
     ''$2 * 3$'' @ [NEWLINE],
     ''$a * b$'' @ [NEWLINE],
     ''$(5)$'' @ [NEWLINE],
     ''$(a)$'' @ [NEWLINE],
     ''$2^{3}$'' @ [NEWLINE],
     ''$2^3$'' @ [NEWLINE],
     ''$'' @ [BSL] @ ''sqrt{9}$'' @ [NEWLINE],
     ''$2_{3}$'' @ [NEWLINE],
     ''$2_3$'' @ [NEWLINE],
     ''$3 - 2$'' @ [NEWLINE],
     ''$a - b$'' @ [NEWLINE],
     ''$a$'' @ [NEWLINE],
     ''$abcdef$'' @ [NEWLINE]]"

definition accepts :: "string \<Rightarrow> bool" where
  "accepts inp \<longleftrightarrow> (case fmt3_parse demo_files demo_fmt3 inp of Inr (Some x) \<Rightarrow> stroutput x \<noteq> None | _ \<Rightarrow> False)"

lemma math_accepted: "list_all accepts math_tests"
  by code_simp

lemma bugs_accepted: "list_all accepts bug_tests"
  by code_simp

lemma commands_accepted: "list_all accepts command_tests"
  by code_simp

text \<open>
  Every input of the program's own tests of the parser but one, \<^verbatim>\<open>comment-par.tex\<close>, is accepted and gives
  a text.
\<close>

theorem tests_accepted: "list_all accepts (bug_tests @ command_tests @ math_tests)"
  using bugs_accepted commands_accepted math_accepted by simp

section \<open>Two empty lines with only a comment between them\<close>










end
