(* ===== verification/PostSpec.thy ===== *)
theory PostSpec
  imports Post Fmt3Props PostIndexProps
begin

text \<open>
  Properties of loading posts: only moderated comments are shown, a post that was made is not made again
  until one of its files changes, and a post that is loaded is in the index, which stays well-formed.
\<close>

section \<open>What the library functions must do\<close>

text \<open>The list of files of a post: removing a name drops its pairs, setting a name gives it the value.\<close>

definition files_laws :: "'n post_env \<Rightarrow> bool" where
  "files_laws E \<longleftrightarrow>
     (\<forall>l. nvl_alloc (fe_nvl (pe_files E)) = Some l \<longrightarrow> pe_iter E l = []) \<and>
     (\<forall>l k. fst (pe_unset E l k) = 0 \<and> pe_iter E (snd (pe_unset E l k)) = filter (\<lambda>(n, _). n \<noteq> k) (pe_iter E l)) \<and>
     (\<forall>l k i. fst (nvl_set_int (fe_nvl (pe_files E)) l k i) = 0 \<and>
        (k, VT_INT i) \<in> set (pe_iter E (snd (nvl_set_int (fe_nvl (pe_files E)) l k i))) \<and>
        set (pe_iter E (snd (nvl_set_int (fe_nvl (pe_files E)) l k i))) \<subseteq> insert (k, VT_INT i) (set (pe_iter E l)))"

text \<open>Every file in the list has the revision it has in the cache now.\<close>

definition current :: "'n post_env \<Rightarrow> 'n \<Rightarrow> bool" where
  "current E l \<longleftrightarrow> (\<forall>(k, v)\<in>set (pe_iter E l). \<exists>s rv. v = VT_INT rv \<and> fe_cache_get (pe_files E) k = Inr (s, rv))"

text \<open>A file that was just read has no newer revision, and an error has a number.\<close>

definition cache_law :: "'n file_env \<Rightarrow> bool" where
  "cache_law F \<longleftrightarrow> (\<forall>k s rv. fe_cache_get F k = Inr (s, rv) \<longrightarrow> \<not> fe_newer F k rv) \<and> (\<forall>k. fe_cache_get F k \<noteq> Inl 0)"

definition sx_cstrings :: "'n sx_ops \<Rightarrow> bool" where
  "sx_cstrings S \<longleftrightarrow> (\<forall>lv s. VT_STR s \<in> set (sexpr_elems S lv) \<longrightarrow> cstring s) \<and> (\<forall>t. sexpr_parse S t \<noteq> Inl 0)"

section \<open>The tags\<close>

lemma tag_cmp_sign: "cstring a \<Longrightarrow> cstring b \<Longrightarrow>
    (0 < tag_cmp a b \<longleftrightarrow> lower b < lower a) \<and> (tag_cmp a b < 0 \<longleftrightarrow> lower a < lower b) \<and> (tag_cmp a b = 0 \<longleftrightarrow> lower a = lower b)"
  using strcasecmp_sign[of a b] by (cases "lower a" "lower b" rule: linorder_cases) (auto simp: tag_cmp_def Let_def)

definition tags_ok :: "string list \<Rightarrow> bool" where
  "tags_ok ts \<longleftrightarrow> (\<forall>t\<in>set ts. cstring t) \<and> sorted_wrt (<) (map lower ts)"

lemma tags_ok_distinct: "tags_ok ts \<Longrightarrow> (\<forall>t\<in>set ts. cstring t) \<and> distinct (map lower ts)"
  using strict_sorted_iff[of "map lower ts"] by (simp add: tags_ok_def)

lemma put_tag_lower: "cstring t \<Longrightarrow> \<forall>u\<in>set ts. cstring u \<Longrightarrow> lower ` set (put_tag t ts) = insert (lower t) (lower ` set ts)"
  by (induction ts) (auto simp: Let_def tag_cmp_sign)

lemma put_tag_cstring: "cstring t \<Longrightarrow> \<forall>u\<in>set ts. cstring u \<Longrightarrow> \<forall>u\<in>set (put_tag t ts). cstring u"
  by (induction ts) (auto simp: Let_def)

lemma put_tag_ok: "cstring t \<Longrightarrow> tags_ok ts \<Longrightarrow> tags_ok (put_tag t ts)"
proof (induction ts)
  case Nil
  then show ?case by (simp add: tags_ok_def)
next
  case (Cons u us)
  from Cons.prems have u: "cstring u" "tags_ok us" "\<forall>v\<in>set us. lower u < lower v" "\<forall>v\<in>set us. cstring v"
    by (auto simp: tags_ok_def)
  have IH: "tags_ok (put_tag t us)" using Cons u by simp
  note sgn = tag_cmp_sign[OF Cons.prems(1) u(1)]
  consider "lower t = lower u" | "lower t < lower u" | "lower u < lower t" by (rule linorder_cases)
  then show ?case
  proof cases
    case 1
    with sgn Cons.prems(2) show ?thesis by simp
  next
    case 2
    with sgn have "put_tag t (u # us) = t # u # us" by (simp add: Let_def)
    moreover have "\<forall>v\<in>set us. lower t < lower v" using 2 u(3) by (meson less_trans)
    ultimately show ?thesis using 2 Cons.prems by (simp add: tags_ok_def)
  next
    case 3
    with sgn have "0 < tag_cmp t u" by simp
    then have eq: "put_tag t (u # us) = u # put_tag t us" by (simp add: Let_def)
    have "lower u < lower v" if "v \<in> set (put_tag t us)" for v
    proof -
      from that have "lower v \<in> insert (lower t) (lower ` set us)" using put_tag_lower[OF Cons.prems(1) u(4)] by blast
      with 3 u(3) show ?thesis by auto
    qed
    with IH u(1) show ?thesis unfolding eq by (simp add: tags_ok_def)
  qed
qed

lemma add_tags_ok: "add_tags mem ts vs = Inr us \<Longrightarrow> tags_ok ts \<Longrightarrow> (\<And>s. VT_STR s \<in> set vs \<Longrightarrow> cstring s) \<Longrightarrow> tags_ok us"
proof (induction vs arbitrary: ts)
  case (Cons v vs)
  from Cons.prems(1) obtain s where v: "v = VT_STR s" "add_tags mem (put_tag s ts) vs = Inr us"
    by (auto simp: rbind_eq_Inr split: val.splits)
  have "tags_ok (put_tag s ts)" using Cons.prems v(1) by (intro put_tag_ok) simp_all
  from Cons.IH[OF v(2) this] Cons.prems(3) show ?case by simp
qed simp

section \<open>The files\<close>

lemma remove_filenames:
  assumes "files_laws E"
  shows "\<exists>l'. post_remove_all_filenames E l = Some (Inr l') \<and> pe_iter E l' = []"
proof (induction "length (pe_iter E l)" arbitrary: l rule: less_induct)
  case less
  show ?case
  proof (cases "pe_iter E l")
    case Nil
    then show ?thesis by (subst post_remove_all_filenames.simps) simp
  next
    case (Cons p ps)
    obtain name v where p: "p = (name, v)" by (cases p)
    obtain ret l1 where u: "pe_unset E l name = (ret, l1)" by (cases "pe_unset E l name")
    with assms have l1: "ret = 0" "pe_iter E l1 = filter (\<lambda>(n, _). n \<noteq> name) (pe_iter E l)"
      unfolding files_laws_def by (metis fst_conv, metis snd_conv)
    have "length (pe_iter E l1) < length (pe_iter E l)" using l1(2) Cons p by (simp add: less_Suc_eq_le)
    from less[OF this] obtain l' where "post_remove_all_filenames E l1 = Some (Inr l')" "pe_iter E l' = []" by blast
    with Cons p u l1(1) show ?thesis by (subst post_remove_all_filenames.simps) simp
  qed
qed

lemma cached_file_current:
  assumes "files_laws E" "post_get_cached_file (pe_files E) p path = (r, q)" "current E (post_files p)"
  shows "current E (post_files q)" "\<And>s. r = Inr s \<Longrightarrow> pe_iter E (post_files q) \<noteq> []"
    "pe_iter E (post_files p) \<noteq> [] \<Longrightarrow> pe_iter E (post_files q) \<noteq> []"
proof -
  have "current E (post_files q) \<and> (\<forall>s. r = Inr s \<longrightarrow> pe_iter E (post_files q) \<noteq> []) \<and>
    (pe_iter E (post_files p) \<noteq> [] \<longrightarrow> pe_iter E (post_files q) \<noteq> [])"
  proof (cases "fe_cache_get (pe_files E) path")
    case (Inl e)
    with assms(2,3) show ?thesis by (auto simp: post_get_cached_file_def)
  next
    case (Inr c)
    obtain s rv where c: "c = (s, rv)" by (cases c)
    obtain err l where l: "nvl_set_int (fe_nvl (pe_files E)) (post_files p) path rv = (err, l)"
      by (cases "nvl_set_int (fe_nvl (pe_files E)) (post_files p) path rv")
    have q: "post_files q = l" using assms(2) Inr c l by (auto simp: post_get_cached_file_def)
    have "(path, VT_INT rv) \<in> set (pe_iter E l)" and
      sub: "set (pe_iter E l) \<subseteq> insert (path, VT_INT rv) (set (pe_iter E (post_files p)))"
      using assms(1) l unfolding files_laws_def by (metis snd_conv)+
    then have ne: "pe_iter E l \<noteq> []" by auto
    have "\<exists>s rv'. v = VT_INT rv' \<and> fe_cache_get (pe_files E) k = Inr (s, rv')" if kv: "(k, v) \<in> set (pe_iter E l)" for k v
    proof (cases "(k, v) = (path, VT_INT rv)")
      case True
      with Inr c show ?thesis by simp
    next
      case False
      with kv sub have "(k, v) \<in> set (pe_iter E (post_files p))" by blast
      with assms(3) show ?thesis unfolding current_def by blast
    qed
    then have "current E l" unfolding current_def by blast
    with ne show ?thesis unfolding q by simp
  qed
  then show "current E (post_files q)" "\<And>s. r = Inr s \<Longrightarrow> pe_iter E (post_files q) \<noteq> []"
    "pe_iter E (post_files p) \<noteq> [] \<Longrightarrow> pe_iter E (post_files q) \<noteq> []" by simp_all
qed

lemma files_newer_current:
  assumes "cache_law F"
  shows "(\<forall>(k, v)\<in>set ps. \<exists>s rv. v = VT_INT rv \<and> fe_cache_get F k = Inr (s, rv)) \<Longrightarrow> files_newer F ps = Inr False"
proof (induction ps)
  case (Cons p ps)
  obtain k v where p: "p = (k, v)" by (cases p)
  from Cons.prems p obtain s rv where v: "v = VT_INT rv" "fe_cache_get F k = Inr (s, rv)" by auto
  with assms have "\<not> fe_newer F k rv" by (auto simp: cache_law_def)
  with Cons p v(1) show ?case by simp
qed simp

lemma must_refresh_current:
  assumes "cache_law (pe_files E)" "current E (post_files p)" "pe_iter E (post_files p) \<noteq> []" "\<not> post_preview p"
  shows "must_refresh E p = Inr False"
  using files_newer_current[OF assms(1)] assms(2-4) by (simp add: must_refresh_def current_def)

section \<open>What the steps keep\<close>

definition keep :: "'n post_env \<Rightarrow> 'n post \<Rightarrow> 'n post \<Rightarrow> bool" where
  "keep E p q \<longleftrightarrow>
     (current E (post_files p) \<longrightarrow> current E (post_files q) \<and> (pe_iter E (post_files p) \<noteq> [] \<longrightarrow> pe_iter E (post_files q) \<noteq> [])) \<and>
     post_preview q = post_preview p \<and> post_id q = post_id p \<and> post_refcnt q = post_refcnt p"

lemma keep_trans: "keep E p q \<Longrightarrow> keep E q r \<Longrightarrow> keep E p r"
  by (auto simp: keep_def)

lemma keep_same_files:
  "post_files q = post_files p \<Longrightarrow> post_preview q = post_preview p \<Longrightarrow> post_id q = post_id p \<Longrightarrow> post_refcnt q = post_refcnt p \<Longrightarrow>
   keep E p q"
  by (simp add: keep_def)

lemma keep_cached_file:
  assumes "files_laws E" "post_get_cached_file (pe_files E) p path = (r, q)"
  shows "keep E p q \<and> same_post p q"
  using cached_file_current(1,3)[OF assms] get_cached_file_same[OF assms(2)] by (auto simp: keep_def same_post_def)

text \<open>The parser of post texts changes the post only by reading files for it, and finds tags that are C strings.\<close>

lemma fmt3_parse_files:
  assumes L: "files_laws E" and run: "fmt3_parse (pe_files E) (fmt3_init p) inp = Inr (Some x)"
    and p: "current E (post_files p)" "pe_iter E (post_files p) \<noteq> []"
  shows "same_post p (f3_post x)" "\<forall>t\<in>set (sc_tags x). cstring t"
    "current E (post_files (f3_post x))" "pe_iter E (post_files (f3_post x)) \<noteq> []"
proof -
  let ?P = "\<lambda>q. same_post p q \<and> current E (post_files q) \<and> pe_iter E (post_files q) \<noteq> []"
  have "file_stable (pe_files E) ?P"
    unfolding file_stable_def using cached_file_current[OF L] get_cached_file_same by (blast intro: same_post_trans)
  from fmt3_parse_stable[OF this _ _ run] p
  show "same_post p (f3_post x)" "\<forall>t\<in>set (sc_tags x). cstring t"
    "current E (post_files (f3_post x))" "pe_iter E (post_files (f3_post x)) \<noteq> []"
    by (simp_all add: fmt3_init_def tags_cstring_def)
qed

text \<open>The comment comes from metadata that say it was moderated.\<close>

definition approved :: "'n post_env \<Rightarrow> u32 \<Rightarrow> comment \<Rightarrow> bool" where
  "approved E pid c \<longleftrightarrow>
     (\<exists>commid path meta rv lv. comment_path E pid commid ''meta.lisp'' = Inr path \<and>
        fe_cache_get (pe_files E) path = Inr (meta, rv) \<and> sexpr_parse (pe_sx E) meta = Inr lv \<and>
        moderated E lv \<and> com_id c = word_of_int commid)"

lemma cached_file_Inr: "post_get_cached_file F p path = (Inr s, q) \<Longrightarrow> \<exists>rv. fe_cache_get F path = Inr (s, rv)"
  by (auto simp: post_get_cached_file_def Let_def split: sum.splits prod.splits if_splits)

lemma load_comment_keep:
  assumes "files_laws E" "load_comment E p i = Inr (b, q)"
  shows "keep E p q \<and> same_post p q"
proof -
  from assms(2) obtain path where path: "comment_path E (post_id p) i ''text.txt'' = Inr path"
    by (auto simp: load_comment_def rbind_eq_Inr)
  obtain r q' where g: "post_get_cached_file (pe_files E) p path = (r, q')"
    by (cases "post_get_cached_file (pe_files E) p path")
  have "q = q'" using assms(2) path g by (cases r) (auto simp: load_comment_def)
  with keep_cached_file[OF assms(1) g] show ?thesis by simp
qed

lemma add_comment_keep:
  assumes "files_laws E" "post_add_comment E p i = Inr q"
  shows "keep E p q" "post_comments q = post_comments p \<and> post_numcom q = post_numcom p \<or>
      (\<exists>c. post_comments q = post_comments p @ [c] \<and> post_numcom q = post_numcom p + 1 \<and> approved E (post_id p) c)"
    "post_tags q = post_tags p"
proof -
  from assms(2) obtain path where path: "comment_path E (post_id p) i ''meta.lisp'' = Inr path"
    by (auto simp: post_add_comment_def rbind_eq_Inr)
  obtain r p1 where g: "post_get_cached_file (pe_files E) p path = (r, p1)"
    by (cases "post_get_cached_file (pe_files E) p path")
  note k1 = keep_cached_file[OF assms(1) g]
  from assms(2) path g obtain meta lv where m: "r = Inr meta" "sexpr_parse (pe_sx E) meta = Inr lv"
    by (auto simp: post_add_comment_def split: sum.splits)
  obtain rv where rv: "fe_cache_get (pe_files E) path = Inr (meta, rv)" using cached_file_Inr g m(1) by metis
  have "keep E p q \<and> (post_comments q = post_comments p \<and> post_numcom q = post_numcom p \<or>
      (\<exists>c. post_comments q = post_comments p @ [c] \<and> post_numcom q = post_numcom p + 1 \<and> approved E (post_id p) c)) \<and>
      post_tags q = post_tags p"
  proof (cases "moderated E lv")
    case False
    with assms(2) path g m have "q = p1" by (simp add: post_add_comment_def)
    with k1 show ?thesis by (auto simp: same_post_def)
  next
    case True
    with assms(2) path g m obtain body p2 where
      l: "load_comment E p1 (sint (word_of_int i :: u32)) = Inr (body, p2)"
      and q: "q = p2\<lparr>post_comments := post_comments p2 @ [make_comment E lv i body], post_numcom := post_numcom p2 + 1\<rparr>"
      by (auto simp: post_add_comment_def rbind_eq_Inr)
    note k2 = load_comment_keep[OF assms(1) l]
    have "approved E (post_id p) (make_comment E lv i body)"
      unfolding approved_def using path rv m(2) True by (auto simp: make_comment_def)
    moreover have "keep E p2 q" unfolding q by (rule keep_same_files) simp_all
    with k1 k2 have "keep E p q" by (blast intro: keep_trans)
    ultimately show ?thesis using k1 k2 q by (auto simp: same_post_def)
  qed
  then show "keep E p q" "post_comments q = post_comments p \<and> post_numcom q = post_numcom p \<or>
      (\<exists>c. post_comments q = post_comments p @ [c] \<and> post_numcom q = post_numcom p + 1 \<and> approved E (post_id p) c)"
    "post_tags q = post_tags p" by simp_all
qed

definition comments_ok :: "'n post_env \<Rightarrow> 'n post \<Rightarrow> bool" where
  "comments_ok E p \<longleftrightarrow> (\<forall>c\<in>set (post_comments p). approved E (post_id p) c) \<and> post_numcom p = of_nat (length (post_comments p))"

lemma add_comments_keep:
  assumes "files_laws E"
  shows "add_comments E p vs = Inr q \<Longrightarrow> comments_ok E p \<Longrightarrow> keep E p q \<and> comments_ok E q \<and> post_tags q = post_tags p"
proof (induction vs arbitrary: p)
  case Nil
  then show ?case by (simp add: keep_def)
next
  case (Cons v vs)
  from Cons.prems(1) obtain i p1 where v: "v = VT_INT i" "post_add_comment E p (sint (ucast i :: u32)) = Inr p1" "add_comments E p1 vs = Inr q"
    by (auto simp: rbind_eq_Inr split: val.splits)
  note s = add_comment_keep[OF assms v(2)]
  have "comments_ok E p1" using s(1,2) Cons.prems(2) by (auto simp: comments_ok_def keep_def add.commute)
  from Cons.IH[OF v(3) this] s(1,3) show ?case by (auto intro: keep_trans)
qed

lemma cached_file_error:
  assumes "files_laws E" "cache_law (pe_files E)" "post_get_cached_file (pe_files E) p path = (Inl e, q)"
  shows "e \<noteq> 0"
proof (cases "fe_cache_get (pe_files E) path")
  case (Inl e')
  with assms(2,3) show ?thesis by (auto simp: post_get_cached_file_def cache_law_def)
next
  case (Inr c)
  obtain s rv where c: "c = (s, rv)" by (cases c)
  have "fst (nvl_set_int (fe_nvl (pe_files E)) (post_files p) path rv) = 0" using assms(1) by (simp add: files_laws_def)
  with assms(3) Inr c show ?thesis by (auto simp: post_get_cached_file_def Let_def split: prod.splits)
qed

text \<open>The laws the theorems below share.\<close>

definition post_laws :: "'n post_env \<Rightarrow> bool" where
  "post_laws E \<longleftrightarrow> files_laws E \<and> cache_law (pe_files E) \<and> sx_cstrings (pe_sx E)"

lemma refresh_published_ok:
  assumes L: "post_laws E" and run: "refresh_published E p = Inr (0, q)" and cur: "current E (post_files p)"
  shows "keep E p q \<and> pe_iter E (post_files q) \<noteq> [] \<and> tags_ok (post_tags q) \<and> comments_ok E q"
proof -
  have laws: "files_laws E" "cache_law (pe_files E)" "sx_cstrings (pe_sx E)" using L by (simp_all add: post_laws_def)
  from run obtain path where path: "post_path (pe_files E) (post_id p) ''post.lisp'' = Inr path"
    by (auto simp: refresh_published_def rbind_eq_Inr)
  obtain r p1 where g: "post_get_cached_file (pe_files E) p path = (r, p1)"
    by (cases "post_get_cached_file (pe_files E) p path")
  have "\<exists>meta. r = Inr meta"
    using run path g cached_file_error[OF laws(1,2)] by (cases r) (auto simp: refresh_published_def)
  then obtain meta where m: "r = Inr meta" ..
  have "\<exists>lv. sexpr_parse (pe_sx E) meta = Inr lv"
    using run path g m laws(3) by (cases "sexpr_parse (pe_sx E) meta") (auto simp: refresh_published_def sx_cstrings_def)
  then obtain lv where lv: "sexpr_parse (pe_sx E) meta = Inr lv" ..
  define p2 where "p2 = post_remove_all_comments
    ((refresh_published_prop E p1 lv)\<lparr>post_tags := post_remove_all_tags (post_tags (refresh_published_prop E p1 lv))\<rparr>)"
  have p2: "post_files p2 = post_files p1" "post_preview p2 = post_preview p1" "post_id p2 = post_id p1"
    "post_refcnt p2 = post_refcnt p1" "post_tags p2 = []" "post_comments p2 = []" "post_numcom p2 = 0"
    by (simp_all add: p2_def post_remove_all_comments_def refresh_published_prop_def post_remove_all_tags_def)
  from run path g m lv obtain tags where
    tags: "post_add_tags E (post_tags p2) (alist_list (pe_sx E) lv ''tags'') = Inr tags"
    and com: "post_add_comments E (p2\<lparr>post_tags := tags\<rparr>) (alist_list (pe_sx E) lv ''comments'') = Inr q"
    by (auto simp: refresh_published_def Let_def rbind_eq_Inr p2_def)
  have "tags_ok tags"
    by (rule add_tags_ok[OF tags[unfolded post_add_tags_def]])
      (use laws(3) in \<open>auto simp: p2 tags_ok_def sx_cstrings_def\<close>)
  have "comments_ok E (p2\<lparr>post_tags := tags\<rparr>)" by (simp add: comments_ok_def p2)
  from add_comments_keep[OF laws(1) com[unfolded post_add_comments_def] this]
  have c: "keep E (p2\<lparr>post_tags := tags\<rparr>) q" "comments_ok E q" "post_tags q = tags" by simp_all
  have k1: "keep E p p1" using keep_cached_file[OF laws(1) g] by simp
  have "keep E p1 (p2\<lparr>post_tags := tags\<rparr>)" by (rule keep_same_files) (simp_all add: p2)
  with k1 c(1) have k: "keep E p q" by (blast intro: keep_trans)
  have ne: "pe_iter E (post_files p1) \<noteq> []" "current E (post_files p1)"
    using cached_file_current[OF laws(1) g cur] m by simp_all
  then have "pe_iter E (post_files q) \<noteq> []" using c(1) by (simp add: keep_def p2)
  with k c \<open>tags_ok tags\<close> show ?thesis by simp
qed

lemma load_body_ok:
  assumes L: "post_laws E" and run: "load_post_body E p = Inr (0, q)"
    and p: "current E (post_files p)" "tags_ok (post_tags p)" "comments_ok E p"
  shows "keep E p q \<and> pe_iter E (post_files q) \<noteq> [] \<and> tags_ok (post_tags q) \<and> comments_ok E q \<and>
     post_fmt q = post_fmt p \<and> post_body q \<noteq> None"
proof -
  have laws: "files_laws E" "cache_law (pe_files E)" using L by (simp_all add: post_laws_def)
  from run obtain path where path: "post_fmt p = 3" "post_path (pe_files E) (post_id p) ''post.tex'' = Inr path"
    by (auto simp: load_post_body_def rbind_eq_Inr)
  obtain r p1 where g: "post_get_cached_file (pe_files E) p path = (r, p1)"
    by (cases "post_get_cached_file (pe_files E) p path")
  have "\<exists>raw. r = Inr raw"
    using run path g cached_file_error[OF laws(1,2)] by (cases r) (auto simp: load_post_body_def)
  then obtain raw where m: "r = Inr raw" ..
  note k1 = keep_cached_file[OF laws(1) g]
  have ne1: "current E (post_files p1)" "pe_iter E (post_files p1) \<noteq> []"
    using cached_file_current[OF laws(1) g p(1)] m by simp_all
  from run path g m obtain x where x: "fmt3_parse (pe_files E) (fmt3_init p1) raw = Inr (Some x)"
    by (auto simp: load_post_body_def do_load_post_body_fmt3_def rbind_eq_Inr split: option.splits)
  define p2 where "p2 = set_twitter_img x (set_pub (pe_stale E) x (set_title x (f3_post x)))"
  from run path g m x obtain tags where
    tags: "add_tags (fe_mem (pe_files E)) (post_tags p2) (map VT_STR (sc_tags x) :: 'a val list) = Inr tags"
    and q: "q = p2\<lparr>post_tags := tags, post_body := stroutput x\<rparr>" "stroutput x \<noteq> None"
    by (auto simp: load_post_body_def do_load_post_body_fmt3_def rbind_eq_Inr Let_def p2_def)
  note f = fmt3_parse_files[OF laws(1) x ne1]
  have p2: "post_files p2 = post_files (f3_post x)" "post_tags p2 = post_tags (f3_post x)"
    "post_comments p2 = post_comments (f3_post x)" "post_numcom p2 = post_numcom (f3_post x)"
    "post_id p2 = post_id (f3_post x)" "post_preview p2 = post_preview (f3_post x)"
    "post_refcnt p2 = post_refcnt (f3_post x)" "post_fmt p2 = post_fmt (f3_post x)"
    by (simp_all add: p2_def set_twitter_img_def set_pub_def set_title_def split: option.splits)
  have same: "same_post p (f3_post x)" using k1 f(1) by (blast intro: same_post_trans)
  have "tags_ok tags"
    by (rule add_tags_ok[OF tags]) (use f(2) same p(2) in \<open>auto simp: p2 same_post_def\<close>)
  moreover have "comments_ok E q" "post_fmt q = post_fmt p" using p(3) same by (auto simp: comments_ok_def q p2 same_post_def)
  moreover have "keep E p q" "pe_iter E (post_files q) \<noteq> []" using same f(3,4) by (auto simp: keep_def q p2 same_post_def)
  ultimately show ?thesis using q by simp
qed

lemma refresh_ok:
  assumes L: "post_laws E" and run: "post_refresh E p = Inr (0, q)" and must: "must_refresh E p = Inr True"
    and prev: "post_preview p \<Longrightarrow> tags_ok (post_tags p) \<and> comments_ok E p"
  shows "current E (post_files q) \<and> pe_iter E (post_files q) \<noteq> [] \<and> tags_ok (post_tags q) \<and> comments_ok E q \<and>
    post_preview q = post_preview p \<and> post_id q = post_id p \<and> post_refcnt q = post_refcnt p \<and>
    post_fmt q = 3 \<and> post_body q \<noteq> None"
proof -
  have laws: "files_laws E" using L by (simp add: post_laws_def)
  obtain l where l: "post_remove_all_filenames E (post_files p) = Some (Inr l)" "pe_iter E l = []"
    using remove_filenames[OF laws] by blast
  define p0 where "p0 = p\<lparr>post_files := l, post_title := None\<rparr>"
  have p0: "post_preview p0 = post_preview p" "post_id p0 = post_id p" "post_refcnt p0 = post_refcnt p"
    "post_tags p0 = post_tags p" "post_files p0 = l" "post_comments p0 = post_comments p" "post_numcom p0 = post_numcom p"
    by (simp_all add: p0_def)
  have cur0: "current E (post_files p0)" using l(2) by (simp add: current_def p0)
  define r where "r = (if post_preview p0
      then Inr (0, p0\<lparr>post_title := Some ''PREVIEW'', post_time := pe_time E, post_fmt := 3\<rparr>)
      else refresh_published E p0)"
  have "rbind r (\<lambda>(ret, p1). if ret \<noteq> 0 then Inr (ret, p1) else load_post_body E p1) = Inr (0, q)"
    using run must l(1) by (cases "post_preview p") (simp_all add: post_refresh_def Let_def p0_def r_def)
  then obtain p1 where p1: "r = Inr (0, p1)" "load_post_body E p1 = Inr (0, q)"
    by (auto simp: rbind_eq_Inr split: if_splits)
  have a: "current E (post_files p1) \<and> tags_ok (post_tags p1) \<and> comments_ok E p1 \<and>
      post_preview p1 = post_preview p \<and> post_id p1 = post_id p \<and> post_refcnt p1 = post_refcnt p"
  proof (cases "post_preview p0")
    case True
    with p1(1) have "p1 = p0\<lparr>post_title := Some ''PREVIEW'', post_time := pe_time E, post_fmt := 3\<rparr>" by (simp add: r_def)
    with prev True cur0 p0 show ?thesis by (simp add: comments_ok_def)
  next
    case False
    with p1(1) have "refresh_published E p0 = Inr (0, p1)" by (simp add: r_def)
    from refresh_published_ok[OF L this cur0] cur0 p0 show ?thesis by (simp add: keep_def)
  qed
  from p1(2) have "post_fmt p1 = 3" by (auto simp: load_post_body_def rbind_eq_Inr)
  with load_body_ok[OF L p1(2)] a show ?thesis by (auto simp: keep_def)
qed

section \<open>Properties\<close>

text \<open>
  C19. Only moderated comments are shown: after a published post was made from its files, every comment
  in it has metadata that say it was moderated, and the number of comments is their count.
\<close>

theorem only_moderated_comments:
  assumes "post_laws E" "must_refresh E p = Inr True" "post_refresh E p = Inr (0, q)" "\<not> post_preview p"
  shows "comments_ok E q"
  using refresh_ok[OF assms(1,3,2)] assms(4) by simp

text \<open>
  C21. A published post that was made from its files needs no refresh, and asking for one changes
  nothing, as long as the file cache has no newer revision of the files it was made from.
\<close>

theorem refresh_stable:
  assumes "post_laws E" "must_refresh E p = Inr True" "post_refresh E p = Inr (0, q)" "\<not> post_preview p"
  shows "must_refresh E q = Inr False \<and> post_refresh E q = Inr (0, q)"
proof -
  have "cache_law (pe_files E)" using assms(1) by (simp add: post_laws_def)
  moreover have "current E (post_files q)" "pe_iter E (post_files q) \<noteq> []" "\<not> post_preview q"
    using refresh_ok[OF assms(1,3,2)] assms(4) by simp_all
  ultimately have "must_refresh E q = Inr False" by (rule must_refresh_current)
  then show ?thesis by (simp add: post_refresh_def)
qed


lemma mem_cache_alloc_next: "allocs s \<Longrightarrow> mem_cache_alloc s = (Some (next_addr s), s\<lparr>next_addr := Suc (next_addr s)\<rparr>)"
  by (simp add: mem_cache_alloc_def allocs_def)

lemma index_wf_posts:
  assumes "index_wf E s" "posts s a = None" "posts s' = (posts s)(a := x)"
    "globals s' = globals s" "entries s' = entries s" "subs s' = subs s" "index_global s' = index_global s"
    "index_by_time s' = index_by_time s" "index_by_tag s' = index_by_tag s" "alloc_ok s' = alloc_ok s" "next_addr s \<le> next_addr s'"
  shows "index_wf E s'" "ids E s' = ids E s"
proof -
  have k: "keeps s s'" using assms(2-5) by (auto simp: keeps_def)
  note d = index_wfD[OF assms(1)]
  have "globals_ok s' (E (index_global s'))" using globals_ok_keeps[OF d(1) k] by (simp add: assms)
  moreover have "entries_ok s' (E (index_global s')) ET_TIME (E (index_by_time s'))"
    using entries_ok_keeps[OF d(1,2) k] by (simp add: assms)
  moreover have "entry_global s' ` set (E (index_by_time s')) = set (E (index_global s'))"
    using d(3) by (simp add: assms entry_global_def[abs_def])
  moreover have "subs_ok E s' (E (index_global s')) (E (index_by_tag s'))"
    using subs_ok_keeps[OF d(1,4) k] by (simp add: assms)
  moreover have "addrs_ok s'" using d(5) assms(11) unfolding addrs_ok_def assms(4-6) by (meson le_trans)
  ultimately show "index_wf E s'" by (simp add: index_wf_def)
  show "ids E s' = ids E s" by (simp add: ids_def gkey_def[abs_def] assms)
qed

text \<open>A post that is not in the index yet: loading it fails and changes nothing, or makes it and inserts it.\<close>

lemma load_post_new:
  assumes "post_laws E" "rb_laws R T" "index_wf T s" "allocs s" "posts s (next_addr s) = None"
    and "word_of_int i \<notin> ids T s" "load_post E R s i False = Inr (r, s')"
  obtains (failed) "r = None" "s' = s\<lparr>next_addr := Suc (next_addr s)\<rparr>"
    | (inserted) q s2 where "r = Some (next_addr s)"
      "s2 = s\<lparr>next_addr := Suc (next_addr s), posts := (posts s)(next_addr s \<mapsto> q)\<rparr>"
      "index_wf T s2" "allocs s2" "ids T s2 = ids T s" "insertable T s2 q" "index_insert_post R s2 (next_addr s) = Inr (0, s')"
      "post_id q = word_of_int i" "post_refcnt q = 1" "\<not> post_preview q" "post_body q \<noteq> None" "comments_ok E q"
proof -
  let ?n = "next_addr s" and ?i = "word_of_int i :: u32"
  have lk: "index_lookup_post R s ?i = Inr (None, s)" using index_lookup_eq[OF assms(2,3), of ?i] assms(6) by simp
  have al: "mem_cache_alloc s = (Some ?n, s\<lparr>next_addr := Suc ?n\<rparr>)" by (rule mem_cache_alloc_next[OF assms(4)])
  have run: "load_post_fresh E R s i False = Inr (r, s')" using assms(7) lk by (simp add: load_post_def)
  have undo: "post_destroy (s\<lparr>next_addr := Suc ?n, posts := (posts s)(?n := x)\<rparr>) ?n = s\<lparr>next_addr := Suc ?n\<rparr>" for x
    using assms(5) by (simp add: post_destroy_def fun_upd_idem)
  show ?thesis
  proof (cases "nvl_alloc (fe_nvl (pe_files E))")
    case None
    with run al undo[of None] assms(5) show ?thesis
      by (intro failed) (auto simp: load_post_fresh_def post_destroy_def fun_upd_idem)
  next
    case (Some files)
    let ?p = "new_post ?i False files"
    have it: "pe_iter E files = []" using assms(1) Some by (simp add: post_laws_def files_laws_def)
    then have must: "must_refresh E ?p = Inr True" by (simp add: must_refresh_def new_post_def)
    from run al Some obtain err q where q: "post_refresh E ?p = Inr (err, q)"
      by (auto simp: load_post_fresh_def rbind_eq_Inr)
    define s2 where "s2 = s\<lparr>next_addr := Suc ?n, posts := (posts s)(?n \<mapsto> q)\<rparr>"
    show ?thesis
    proof (cases "err = 0")
      case False
      with run al Some q undo[of "Some q"] show ?thesis
        by (intro failed) (auto simp: load_post_fresh_def Let_def)
    next
      case True
      have pv: "post_preview ?p = False" "post_id ?p = ?i" "post_refcnt ?p = 1" by (simp_all add: new_post_def)
      from refresh_ok[OF assms(1) q[unfolded True] must] pv have
        r: "tags_ok (post_tags q)" "comments_ok E q" "post_id q = ?i" "post_refcnt q = 1" "post_body q \<noteq> None"
           "\<not> post_preview q" by simp_all
      have wf2: "index_wf T s2" and ids2: "ids T s2 = ids T s"
        by (rule index_wf_posts[OF assms(3,5), of s2 "Some q"]; simp add: s2_def)+
      have al2: "allocs s2" using assms(4) by (simp add: allocs_def s2_def)
      have p2: "posts s2 ?n = Some q" by (simp add: s2_def)
      have ins: "insertable T s2 q"
        using tags_ok_distinct[OF r(1)] assms(6) ids2 r(3) by (simp add: insertable_def)
      obtain s3 where s3: "index_insert_post R s2 ?n = Inr (0, s3)"
        using index_insert_new[OF assms(2) wf2 al2 p2 ins] by metis
      have "r = Some ?n" "s' = s3"
        using run al Some q True s3(1) by (auto simp: load_post_fresh_def Let_def s2_def rbind_eq_Inr)
      with s3 show ?thesis by (intro inserted[OF _ s2_def wf2 al2 ids2 ins _ r(3,4,6,5,2)]) simp_all
    qed
  qed
qed

text \<open>
  C20. Loading a post that is not in the index yet either puts it there or leaves everything as it was.
  When it succeeds the index stays well-formed and gains exactly the id, and the post returned has the
  id that was asked for, a text, only moderated comments, and two references: one of the index and one
  of the caller. When a file is missing or malformed, nothing changes.
\<close>

theorem load_post_indexes:
  assumes "post_laws E" "rb_laws R T" "index_wf T s" "allocs s" "posts s (next_addr s) = None"
    and "word_of_int i \<notin> ids T s" "load_post E R s i False = Inr (r, s')"
  shows "case r of
      None \<Rightarrow> s' = s\<lparr>next_addr := Suc (next_addr s)\<rparr>
    | Some a \<Rightarrow> index_wf T s' \<and> ids T s' = insert (word_of_int i) (ids T s) \<and>
        (\<exists>p. posts s' a = Some p \<and> post_id p = word_of_int i \<and> post_body p \<noteq> None \<and> comments_ok E p \<and> post_refcnt p = 2)"
  using assms
proof (cases rule: load_post_new)
  case failed
  then show ?thesis by simp
next
  case (inserted q s2)
  have "posts s2 (next_addr s) = Some q" by (simp add: inserted(2))
  from index_insert_new[OF assms(2) inserted(3,4) this inserted(6)] inserted(7) have
    "index_wf T s'" "posts s' = (posts s2)(next_addr s \<mapsto> q\<lparr>post_refcnt := post_refcnt q + 1\<rparr>)"
    "ids T s' = insert (post_id q) (ids T s2)" by (metis Inr_inject prod.inject)+
  with inserted show ?thesis by (simp add: comments_ok_def)
qed

section \<open>A post on disk\<close>

text \<open>
  A concrete environment that satisfies the laws: one post with a text, a moderated comment and one that
  is not, and no comment text.
\<close>

definition demo_sx :: "alist_nvlist sx_ops" where
  "demo_sx = (cons_sx (\<lambda>t.
       if t = ''P'' then Inr (cons_of
         [VT_CONS (Some (VT_SYM ''fmt'')) (Some (VT_INT 3)),
          VT_CONS (Some (VT_SYM ''tags'')) (cons_of [VT_STR ''b'']),
          VT_CONS (Some (VT_SYM ''comments'')) (cons_of [VT_INT 1, VT_INT 2])])
       else if t = ''M'' then Inr (cons_of [VT_CONS (Some (VT_SYM ''moderated'')) (Some (VT_BOOL True))])
       else if t = ''N'' then Inr None
       else Inl 22))\<lparr>sexpr_elems := \<lambda>lv. filter (\<lambda>v. case v of VT_STR s \<Rightarrow> cstring s | _ \<Rightarrow> True) (cons_elems lv)\<rparr>"

definition demo_unset :: "alist_nvlist \<Rightarrow> string \<Rightarrow> int \<times> alist_nvlist" where
  "demo_unset l k = (0, NVList (filter (\<lambda>(n, _). n \<noteq> k) (nvl_pairs l)))"

definition demo_text :: string where
  "demo_text = BSL # ''tag{a}t''"

definition demo_posts :: "alist_nvlist post_env" where
  "demo_posts =
    \<lparr>pe_files = \<lparr>fe_cfg = config_fill demo_sx (1, 2) None,
       fe_nvl = alist_nvl\<lparr>nvl_set_int := \<lambda>l k i. alist_set (snd (demo_unset l k)) k (VT_INT i)\<rparr>,
       fe_cache_get = (\<lambda>path.
         if path = ''./data/posts/1/post.lisp'' then Inr (''P'', 1)
         else if path = ''./data/posts/1/post.tex'' then Inr (demo_text, 1)
         else if path = ''./data/posts/1/comments/1/meta.lisp'' then Inr (''M'', 1)
         else if path = ''./data/posts/1/comments/2/meta.lisp'' then Inr (''N'', 1)
         else Inl 2),
       fe_newer = (\<lambda>_ rv. rv < 1), fe_xstrerror = (\<lambda>_. ''?''), fe_mem = True\<rparr>,
     pe_sx = demo_sx, pe_unset = demo_unset, pe_iter = nvl_pairs,
     pe_stale = tm_zero, pe_time = 0\<rparr>"

lemma demo_posts_laws: "post_laws demo_posts"
proof -
  have "files_laws demo_posts"
    by (auto simp: files_laws_def demo_posts_def alist_nvl_def alist_set_def demo_unset_def)
  moreover have "cache_law (pe_files demo_posts)" by (simp add: cache_law_def demo_posts_def)
  moreover have "sx_cstrings (pe_sx demo_posts)" by (auto simp: sx_cstrings_def demo_posts_def demo_sx_def cons_sx_def)
  ultimately show ?thesis by (simp add: post_laws_def)
qed

definition demo_comment :: "u32 \<Rightarrow> comment" where
  "demo_comment i = \<lparr>com_id = i, com_author = Some ''[unknown]'', com_email = None, com_time = 0, com_ip = None, com_url = None,
     com_body = Some ''Error: could not load comment text.''\<rparr>"

definition demo_loaded :: "alist_nvlist post" where
  "demo_loaded = (new_post 1 False (NVList (map (\<lambda>f. (''./data/posts/1/'' @ f, VT_INT 1))
       [''post.tex'', ''comments/2/meta.lisp'', ''comments/1/meta.lisp'', ''post.lisp''])))
     \<lparr>post_listed := True, post_fmt := 3, post_tags := [''a'', ''b''], post_comments := [demo_comment 1],
      post_numcom := 1, post_body := Some (''<p>t</p>'' @ [NEWLINE])\<rparr>"

lemma demo_env: "pe_sx demo_posts = demo_sx" "pe_iter demo_posts = nvl_pairs" "pe_stale demo_posts = tm_zero"
  "fe_mem (pe_files demo_posts)" "fe_nvl (pe_files demo_posts) = alist_nvl\<lparr>nvl_set_int := \<lambda>l k i. alist_set (snd (demo_unset l k)) k (VT_INT i)\<rparr>"
  "cf_data_dir (fe_cfg (pe_files demo_posts)) = Some ''./data''"
  by (simp_all add: demo_posts_def config_fill_def config_load_str_def demo_sx_def cons_sx_def DEFAULT_DATA_DIR_def)

lemma demo_read:
  "fe_cache_get (pe_files demo_posts) path = Inr (s, rv) \<Longrightarrow>
   post_get_cached_file (pe_files demo_posts) p path =
     (Inr s, p\<lparr>post_files := NVList ((path, VT_INT rv) # filter (\<lambda>(n, _). n \<noteq> path) (nvl_pairs (post_files p)))\<rparr>)"
  "fe_cache_get (pe_files demo_posts) path = Inl e \<Longrightarrow> post_get_cached_file (pe_files demo_posts) p path = (Inl e, p)"
  by (simp_all add: post_get_cached_file_def demo_env alist_set_def demo_unset_def)

lemma demo_must: "must_refresh demo_posts (new_post 1 False (NVList [])) = Inr True"
  by (simp add: must_refresh_def new_post_def demo_posts_def)

lemma demo_dec: "dec_of_int 1 = ''1''" "dec_of_int 2 = ''2''"
  by code_simp+

lemma demo_post_path: "post_path (pe_files demo_posts) 1 f = Inr (take 4095 (''./data/posts/1/'' @ f))"
  "comment_path demo_posts 1 1 f = Inr (take 4095 (''./data/posts/1/comments/1/'' @ f))"
  "comment_path demo_posts 1 2 f = Inr (take 4095 (''./data/posts/1/comments/2/'' @ f))"
  by (simp_all add: post_path_def comment_path_def demo_env demo_dec c_snprintf_def FILENAME_MAX_def)

lemma demo_cache: "fe_cache_get (pe_files demo_posts) path = (
         if path = ''./data/posts/1/post.lisp'' then Inr (''P'', 1)
         else if path = ''./data/posts/1/post.tex'' then Inr (demo_text, 1)
         else if path = ''./data/posts/1/comments/1/meta.lisp'' then Inr (''M'', 1)
         else if path = ''./data/posts/1/comments/2/meta.lisp'' then Inr (''N'', 1)
         else Inl 2)"
  by (simp add: demo_posts_def)

lemma demo_sx_simps: "sexpr_parse demo_sx ''M'' = Inr (cons_of [VT_CONS (Some (VT_SYM ''moderated'')) (Some (VT_BOOL True))])"
  "sexpr_parse demo_sx ''N'' = Inr None"
  "alist_val demo_sx = cons_find" "alist_str demo_sx = (\<lambda>lv k. case cons_find lv k of Some (VT_STR s) \<Rightarrow> Some s | _ \<Rightarrow> None)"
  by (simp_all add: demo_sx_def cons_sx_def)

lemma demo_time: "parse_time_str tm_zero None = 0"
  by code_simp

lemma demo_add1: "post_id p = 1 \<Longrightarrow> post_add_comment demo_posts p 1 = Inr
   (p\<lparr>post_files := NVList ((''./data/posts/1/comments/1/meta.lisp'', VT_INT 1) #
        filter (\<lambda>(n, _). n \<noteq> ''./data/posts/1/comments/1/meta.lisp'') (nvl_pairs (post_files p))),
      post_comments := post_comments p @ [demo_comment 1], post_numcom := post_numcom p + 1\<rparr>)"
  by (simp add: post_add_comment_def load_comment_def demo_post_path demo_cache demo_read demo_env demo_sx_simps moderated_def
     make_comment_def demo_comment_def demo_time)
lemma demo_add2: "post_id p = 1 \<Longrightarrow> post_add_comment demo_posts p 2 = Inr
   (p\<lparr>post_files := NVList ((''./data/posts/1/comments/2/meta.lisp'', VT_INT 1) #
        filter (\<lambda>(n, _). n \<noteq> ''./data/posts/1/comments/2/meta.lisp'') (nvl_pairs (post_files p)))\<rparr>)"
  by (simp add: post_add_comment_def demo_post_path demo_cache demo_read demo_env demo_sx_simps moderated_def)

lemma demo_sx_post: "sexpr_parse demo_sx ''P'' = Inr (cons_of
         [VT_CONS (Some (VT_SYM ''fmt'')) (Some (VT_INT 3)),
          VT_CONS (Some (VT_SYM ''tags'')) (cons_of [VT_STR ''b'']),
          VT_CONS (Some (VT_SYM ''comments'')) (cons_of [VT_INT 1, VT_INT 2])])"
  "alist_list demo_sx = cons_find"
  "alist_int demo_sx = (\<lambda>lv k. case cons_find lv k of Some (VT_INT i) \<Rightarrow> Some i | _ \<Rightarrow> None)"
  "alist_bool demo_sx = (\<lambda>lv k. case cons_find lv k of Some (VT_BOOL b) \<Rightarrow> Some b | _ \<Rightarrow> None)"
  "sexpr_elems demo_sx = (\<lambda>lv. filter (\<lambda>v. case v of VT_STR s \<Rightarrow> cstring s | _ \<Rightarrow> True) (cons_elems lv))"
  by (simp_all add: demo_sx_def cons_sx_def)

lemma demo_put_tag: "put_tag ''a'' [''b''] = [''a'', ''b'']"
proof -
  have "tag_cmp ''a'' ''b'' = -1" by code_simp
  then show ?thesis by simp
qed

lemma demo_published: "post_id p = 1 \<Longrightarrow> post_files p = NVList [] \<Longrightarrow> refresh_published demo_posts p = Inr (0,
    p\<lparr>post_time := 0, post_title := None, post_fmt := 3, post_listed := True, post_tags := [''b''],
      post_comments := [demo_comment 1], post_numcom := 1,
      post_files := NVList (map (\<lambda>f. (''./data/posts/1/'' @ f, VT_INT 1)) [''comments/2/meta.lisp'', ''comments/1/meta.lisp'', ''post.lisp''])\<rparr>)"
  by (simp add: refresh_published_def demo_post_path demo_cache demo_read demo_env demo_sx_post demo_sx_simps
      refresh_published_prop_def demo_time post_remove_all_comments_def post_remove_all_tags_def post_add_tags_def
      post_add_comments_def demo_add1 demo_add2)

lemma demo_parse: "fmt3_parse (pe_files demo_posts) d demo_text =
    Inr (Some (d\<lparr>sc_tags := ''a'' # sc_tags d, stroutput := Some (''<p>t</p>'' @ [NEWLINE])\<rparr>))"
proof -
  let ?t = "([[Special TAGSTART [''a''], Simple (WORD ''t'')]], False)"
  have "post_toks ?t = fmt3_scan demo_text" by code_simp
  moreover have "post_ok ?t" by (simp add: special_start_def simple_token_def)
  moreover have "post_out (pe_files demo_posts) d ?t =
      Inr (d\<lparr>sc_tags := ''a'' # sc_tags d, stroutput := Some (''<p>t</p>'' @ [NEWLINE])\<rparr>)"
    by (simp add: special_action_def special_cmd_list_def simple_value_def simple_thing_def join_thing_def arg_value_def)
  ultimately show ?thesis unfolding fmt3_parse_trees by blast
qed

lemma demo_refresh: "post_refresh demo_posts (new_post 1 False (NVList [])) = Inr (0, demo_loaded)"
  unfolding post_refresh_def demo_must
  by (simp add: post_remove_all_filenames.simps[of _ "NVList []"] demo_env demo_published load_post_body_def demo_post_path demo_cache
      demo_read do_load_post_body_fmt3_def demo_parse fmt3_init_def set_title_def set_pub_def set_twitter_img_def demo_put_tag demo_loaded_def new_post_def
      del: put_tag.simps)


theorem only_moderated_comments_witness:
  "comments_ok demo_posts demo_loaded \<and> post_comments demo_loaded = [demo_comment 1]"
proof -
  have "\<not> post_preview (new_post 1 False (NVList []))" by (simp add: new_post_def)
  from only_moderated_comments[OF demo_posts_laws demo_must demo_refresh this] show ?thesis by (simp add: demo_loaded_def)
qed

theorem refresh_stable_witness:
  "post_refresh demo_posts demo_loaded = Inr (0, demo_loaded)"
proof -
  have "\<not> post_preview (new_post 1 False (NVList []))" by (simp add: new_post_def)
  from refresh_stable[OF demo_posts_laws demo_must demo_refresh this] show ?thesis by simp
qed

definition empty_index :: "('n, nat list) pindex" where
  "empty_index = \<lparr>posts = (\<lambda>_. None), globals = (\<lambda>_. None), entries = (\<lambda>_. None), subs = (\<lambda>_. None),
     index_global = [], index_by_time = [], index_by_tag = [], next_addr = 0, alloc_ok = (\<lambda>_. True)\<rparr>"

lemma empty_index_wf: "index_wf (\<lambda>t. t) empty_index" "ids (\<lambda>t. t) empty_index = {}" "allocs empty_index"
  by (simp_all add: index_wf_def globals_ok_def entries_ok_def subs_ok_def addrs_ok_def empty_index_def ids_def allocs_def)

theorem load_post_indexes_witness:
  "\<exists>s'. load_post demo_posts list_rb empty_index 1 False = Inr (Some 0, s') \<and> ids (\<lambda>t. t) s' = {1}"
proof -
  define s :: "(alist_nvlist, nat list) pindex" where "s = empty_index\<lparr>next_addr := 1, posts := [0 \<mapsto> demo_loaded]\<rparr>"
  have e: "posts (empty_index :: (alist_nvlist, nat list) pindex) 0 = None" "next_addr (empty_index :: (alist_nvlist, nat list) pindex) = 0"
    by (simp_all add: empty_index_def)
  have wf: "index_wf (\<lambda>t. t) s" "ids (\<lambda>t. t) s = {}"
    using index_wf_posts[OF empty_index_wf(1) e(1), of s "Some demo_loaded"] empty_index_wf(2) by (simp_all add: s_def empty_index_def)
  have p: "posts s 0 = Some demo_loaded" "allocs s" by (simp_all add: s_def empty_index_def allocs_def)
  have "insertable (\<lambda>t. t) s demo_loaded"
  proof -
    have "lower ''a'' \<noteq> lower ''b''" by code_simp
    then show ?thesis by (simp add: insertable_def wf(2) demo_loaded_def)
  qed
  from index_insert_new[OF list_rb_laws wf(1) p(2,1) this] obtain s' where s': "index_insert_post list_rb s 0 = Inr (0, s')" by metis
  have "index_lookup_post list_rb empty_index 1 = Inr (None, empty_index :: (alist_nvlist, nat list) pindex)"
    using index_lookup_eq[OF list_rb_laws empty_index_wf(1), of 1] by (simp add: empty_index_wf(2))
  moreover have "mem_cache_alloc (empty_index :: (alist_nvlist, nat list) pindex) = (Some 0, empty_index\<lparr>next_addr := 1\<rparr>)"
    by (simp add: mem_cache_alloc_def empty_index_def)
  moreover have "nvl_alloc (fe_nvl (pe_files demo_posts)) = Some (NVList [])" by (simp add: demo_env alist_nvl_def)
  ultimately have "load_post demo_posts list_rb empty_index 1 False = Inr (Some 0, s')"
    using s' by (simp add: load_post_def load_post_fresh_def demo_refresh s_def empty_index_def)
  moreover from load_post_indexes[OF demo_posts_laws list_rb_laws empty_index_wf(1,3) _ _ this] have "ids (\<lambda>t. t) s' = {1}"
    by (simp add: e empty_index_wf(2))
  ultimately show ?thesis by blast
qed

end
