(* ===== verification/Web.thy ===== *)
theory Web
  imports Post Rendering
begin

text \<open>
  What the request handlers share: the environment they run in, the library functions on name-value
  lists only they use, assignments to request variables and response headers, and rendering a page with
  the settings of the configuration.
\<close>

section \<open>The environment\<close>

text \<open>
  The names of the request headers are macros of the library. \<^verbatim>\<open>nvl_set_null_str\<close> is \<^verbatim>\<open>nvl_set_str\<close> given a NULL string. \<^verbatim>\<open>nvl_convert\<close> converts the named pairs
  of a list to the given types; the flag tells whether it goes on after a pair it cannot convert.
  \<^verbatim>\<open>qstring_parse\<close> reads the text of a query string into a list and gives an error number.
\<close>

record 'n nvq_ops =
  nvl_set_null_str :: "'n \<Rightarrow> string \<Rightarrow> int \<times> 'n"
  nvl_lookup_str :: "'n \<Rightarrow> string \<Rightarrow> int + string"
  nvl_lookup_int :: "'n \<Rightarrow> string \<Rightarrow> int + u64"
  nvl_exists :: "'n \<Rightarrow> string \<Rightarrow> bool"
  nvl_exists_type :: "'n \<Rightarrow> string \<Rightarrow> val_type \<Rightarrow> int"
  nvl_convert :: "'n \<Rightarrow> (string \<times> val_type) list \<Rightarrow> bool \<Rightarrow> int \<times> 'n"
  qstring_parse :: "'n \<Rightarrow> string \<Rightarrow> int \<times> 'n"
  SCGI_DOCUMENT_URI :: string
  SCGI_HTTP_USER_AGENT :: string
  SCGI_REMOTE_ADDR :: string

text \<open>The operations on files that save a comment.\<close>

datatype fs_op = FS_mkdir string | FS_write string string | FS_rename string string

text \<open>
  The search trees \<^verbatim>\<open>we_rb\<close>, the template cache, the file system and the clock are library code;
  \<^verbatim>\<open>we_levels\<close> bounds the nesting of templates, as in \<^verbatim>\<open>render\<close>. \<^verbatim>\<open>we_secret\<close> is the constant
  \<^verbatim>\<open>PREVIEW_SECRET\<close> chosen when the program is built, \<^verbatim>\<open>we_fs\<close> the error number of an operation on
  files, \<^verbatim>\<open>we_nonce\<close> the value of the counter \<^verbatim>\<open>nonce\<close>.
\<close>

record ('n, 't) web_env =
  we_posts :: "'n post_env"
  we_rb :: "'t rb_ops"
  we_nvq :: "'n nvq_ops"
  we_templates :: "string \<Rightarrow> string option"
  we_str2u64 :: "string \<Rightarrow> u64 option"
  we_levels :: nat
  we_version :: string
  we_time :: u64
  we_secret :: u64
  we_read_file_len :: "string \<Rightarrow> int + string \<times> u64"
  we_fs :: "fs_op \<Rightarrow> int"
  we_nonce :: u32

abbreviation we_nvl :: "('n, 't) web_env \<Rightarrow> 'n nvl_ops" where
  "we_nvl W \<equiv> fe_nvl (pe_files (we_posts W))"

abbreviation we_mem :: "('n, 't) web_env \<Rightarrow> bool" where
  "we_mem W \<equiv> fe_mem (pe_files (we_posts W))"

abbreviation we_cfg :: "('n, 't) web_env \<Rightarrow> 'n config" where
  "we_cfg W \<equiv> fe_cfg (pe_files (we_posts W))"

section \<open>Assignments\<close>

text \<open>A sequence of calls that stops at the first error, the \<^verbatim>\<open>if ((ret = ...)) goto err\<close> of the code.\<close>

fun nvl_sets :: "('n \<Rightarrow> int \<times> 'n) list \<Rightarrow> 'n \<Rightarrow> int \<times> 'n" where
  "nvl_sets [] l = (0, l)"
| "nvl_sets (f # fs) l = (let (ret, l') = f l in if ret \<noteq> 0 then (ret, l') else nvl_sets fs l')"

definition set_opt_str :: "('n, 't) web_env \<Rightarrow> string \<Rightarrow> string option \<Rightarrow> 'n \<Rightarrow> int \<times> 'n" where
  "set_opt_str W name s l =
     (case s of None \<Rightarrow> nvl_set_null_str (we_nvq W) l name | Some t \<Rightarrow> nvl_set_str (we_nvl W) l name t)"

definition var_str :: "('n, 't) web_env \<Rightarrow> string \<Rightarrow> string option \<Rightarrow> 'n req \<Rightarrow> 'n req res" where
  "var_str W name s r = with_vars (wrap_set (set_opt_str W name s)) r"

definition var_int :: "('n, 't) web_env \<Rightarrow> string \<Rightarrow> u64 \<Rightarrow> 'n req \<Rightarrow> 'n req res" where
  "var_int W name i r = with_vars (\<lambda>v. vars_set_int (we_nvl W) v name i) r"

definition var_array :: "('n, 't) web_env \<Rightarrow> string \<Rightarrow> 'n val list \<Rightarrow> 'n req \<Rightarrow> 'n req res" where
  "var_array W name xs r = with_vars (\<lambda>v. vars_set_array (we_nvl W) v name xs) r"

definition push_scope :: "('n, 't) web_env \<Rightarrow> 'n req \<Rightarrow> 'n req res" where
  "push_scope W r = with_vars (vars_scope_push (we_nvl W)) r"

text \<open>A signed number stored as an unsigned 64-bit one.\<close>

abbreviation u64_of_int :: "int \<Rightarrow> u64" where
  "u64_of_int i \<equiv> word_of_int i"

section \<open>Response headers and pages\<close>

definition req_head :: "('n, 't) web_env \<Rightarrow> 'n req \<Rightarrow> string \<Rightarrow> string \<Rightarrow> 'n req res" where
  "req_head W r name v =
     (let (ret, l) = nvl_set_str (we_nvl W) (resp_headers (scgi r)) name v
      in if ret \<noteq> 0 then Inl AssertFailed else Inr (r\<lparr>scgi := (scgi r)\<lparr>resp_headers := l\<rparr>\<rparr>))"

definition set_body :: "string option \<Rightarrow> 'n req \<Rightarrow> 'n req" where
  "set_body b r = r\<lparr>scgi := (scgi r)\<lparr>resp_body := b\<rparr>\<rparr>"

definition web_tmpl :: "('n, 't) web_env \<Rightarrow> string \<Rightarrow> 'n tmpl_env" where
  "web_tmpl W dir =
    \<lparr>env_nvl = we_nvl W, env_mem = we_mem W, template_dir = dir, file_cache_get = we_templates W,
     str2u64 = we_str2u64 W\<rparr>"

text \<open>\<^verbatim>\<open>response.body = render_page(req, tmpl)\<close>, the end of every handler that makes a page.\<close>

definition respond :: "('n, 't) web_env \<Rightarrow> string \<Rightarrow> 'n req \<Rightarrow> 'n req res" where
  "respond W tmpl r =
     rbind (str_cstr (cf_template_dir (we_cfg W))) (\<lambda>dir.
     rbind (render (we_levels W) (web_tmpl W dir) r tmpl) (\<lambda>(out, r'). Inr (set_body out r')))"

end
