(* ===== verification/PostNv.thy ===== *)
theory PostNv
  imports Web
begin

text \<open>
  Posts as template variables (\<^verbatim>\<open>post_nv.c\<close>): the tags and comments of a post as arrays, a post as a
  name-value list, and the variables of a page that lists posts.
\<close>

section \<open>One post\<close>

definition tag_val :: "('n, 't) web_env \<Rightarrow> string list \<Rightarrow> 'n \<Rightarrow> int \<times> 'n" where
  "tag_val W tags l =
     (if \<not> we_mem W then (- ENOMEM, l) else nvl_set_array (we_nvl W) l ''tags'' (map VT_STR tags))"

text \<open>A comment as a list; an error number when something cannot be stored.\<close>

definition one_com :: "('n, 't) web_env \<Rightarrow> comment \<Rightarrow> int + 'n" where
  "one_com W c =
     (case nvl_alloc (we_nvl W) of
        None \<Rightarrow> Inl (- ENOMEM)
      | Some l0 \<Rightarrow>
          (case nvl_sets
             [\<lambda>l. nvl_set_int (we_nvl W) l ''commid'' (ucast (com_id c)),
              \<lambda>l. nvl_set_int (we_nvl W) l ''commtime'' (ucast (com_time c)),
              set_opt_str W ''commauthor'' (com_author c),
              set_opt_str W ''commemail'' (com_email c),
              set_opt_str W ''commip'' (com_ip c),
              set_opt_str W ''commurl'' (com_url c),
              set_opt_str W ''commbody'' (com_body c)] l0 of
             (ret, l) \<Rightarrow> if ret \<noteq> 0 then Inl ret else Inr l))"

fun com_list :: "('n, 't) web_env \<Rightarrow> comment list \<Rightarrow> int + 'n val list" where
  "com_list W [] = Inr []"
| "com_list W (c # cs) =
     rbind (one_com W c) (\<lambda>l. rbind (com_list W cs) (\<lambda>vs. Inr (VT_NVL l # vs)))"

definition com_val :: "('n, 't) web_env \<Rightarrow> comment list \<Rightarrow> 'n \<Rightarrow> int \<times> 'n" where
  "com_val W cs l =
     (if cs = [] then (0, l)
      else if \<not> we_mem W then (- ENOMEM, l)
      else case com_list W cs of
        Inl ret \<Rightarrow> (ret, l)
      | Inr vs \<Rightarrow> nvl_set_array (we_nvl W) l ''comments'' vs)"

text \<open>The title of a page that shows one post.\<close>

definition store_title_vars :: "('n, 't) web_env \<Rightarrow> 'n req \<Rightarrow> 'n post \<Rightarrow> string option \<Rightarrow> 'n req res" where
  "store_title_vars W r p titlevar =
     (case titlevar of
        None \<Rightarrow> Inr r
      | Some tv \<Rightarrow>
          rbind (var_str W tv (post_title p) r) (\<lambda>r1.
          rbind (var_str W ''twittertitle'' (post_title p) r1) (\<lambda>r2.
            case post_twitter_img p of None \<Rightarrow> Inr r2 | Some img \<Rightarrow> var_str W ''twitterimg'' (Some img) r2)))"

definition post_nvl :: "('n, 't) web_env \<Rightarrow> 'n post \<Rightarrow> int + 'n" where
  "post_nvl W p =
     (case nvl_alloc (we_nvl W) of
        None \<Rightarrow> Inl (- ENOMEM)
      | Some l0 \<Rightarrow>
          (case nvl_sets
             [\<lambda>l. nvl_set_int (we_nvl W) l ''id'' (ucast (post_id p)),
              \<lambda>l. nvl_set_int (we_nvl W) l ''time'' (ucast (post_time p)),
              set_opt_str W ''title'' (post_title p),
              \<lambda>l. nvl_set_int (we_nvl W) l ''numcom'' (ucast (post_numcom p)),
              set_opt_str W ''body'' (post_body p),
              tag_val W (post_tags p),
              com_val W (post_comments p)] l0 of
             (ret, l) \<Rightarrow> if ret \<noteq> 0 then Inl ret else Inr l))"

text \<open>The result is the list or an error pointer.\<close>

definition store_vars :: "('n, 't) web_env \<Rightarrow> 'n req \<Rightarrow> 'n post \<Rightarrow> string option \<Rightarrow> ((int + 'n) \<times> 'n req) res" where
  "store_vars W r p titlevar = rbind (store_title_vars W r p titlevar) (\<lambda>r'. Inr (post_nvl W p, r'))"

section \<open>Posts of a page\<close>

text \<open>The post at an address is refreshed in place; failing is an assertion.\<close>

definition refresh_at :: "('n, 't) web_env \<Rightarrow> ('n, 't) pindex \<Rightarrow> nat \<Rightarrow> ('n post \<times> ('n, 't) pindex) res" where
  "refresh_at W s a =
     rbind (deref (posts s) a) (\<lambda>p.
     rbind (post_refresh (we_posts W) p) (\<lambda>(ret, q).
     rbind (assert_that (ret = 0)) (\<lambda>_. Inr (q, s\<lparr>posts := (posts s)(a \<mapsto> q)\<rparr>))))"

text \<open>The result is NULL, an error pointer, or the list.\<close>

definition get_post ::
  "('n, 't) web_env \<Rightarrow> 'n req \<Rightarrow> ('n, 't) pindex \<Rightarrow> int \<Rightarrow> string option \<Rightarrow> bool \<Rightarrow>
     ((int + 'n) option \<times> 'n req \<times> ('n, 't) pindex) res" where
  "get_post W r s postid titlevar preview =
     rbind (load_post (we_posts W) (we_rb W) s postid preview) (\<lambda>(x, s1).
       case x of
         None \<Rightarrow> Inr (None, r, s1)
       | Some a \<Rightarrow>
           rbind (refresh_at W s1 a) (\<lambda>(p, s2).
           rbind (store_vars W r p titlevar) (\<lambda>(out, r').
           rbind (post_putref s2 a) (\<lambda>s3. Inr (Some out, r', s3)))))"

text \<open>The loop over the posts of a page; a post that cannot be stored is left out.\<close>

fun load_posts_loop ::
  "('n, 't) web_env \<Rightarrow> 'n req \<Rightarrow> ('n, 't) pindex \<Rightarrow> nat list \<Rightarrow> 'n val list \<Rightarrow> int \<Rightarrow>
     ('n val list \<times> int \<times> 'n req \<times> ('n, 't) pindex) res" where
  "load_posts_loop W r s [] vs maxtime = Inr (vs, maxtime, r, s)"
| "load_posts_loop W r s (a # as) vs maxtime =
     rbind (refresh_at W s a) (\<lambda>(p, s1).
     rbind (store_vars W r p None) (\<lambda>(out, r1).
     rbind (post_putref s1 a) (\<lambda>s2.
       case out of
         Inl _ \<Rightarrow> load_posts_loop W r1 s2 as vs maxtime
       | Inr l \<Rightarrow> load_posts_loop W r1 s2 as (vs @ [VT_NVL l]) (max maxtime (uint (post_time p))))))"

definition load_posts ::
  "('n, 't) web_env \<Rightarrow> 'n req \<Rightarrow> ('n, 't) pindex \<Rightarrow> nat list \<Rightarrow> bool \<Rightarrow> ('n req \<times> ('n, 't) pindex) res" where
  "load_posts W r s ps moreposts =
     rbind (assert_that (we_mem W)) (\<lambda>_.
     rbind (load_posts_loop W r s ps [] 0) (\<lambda>(nvposts, maxtime, r1, s1).
     rbind (var_array W ''posts'' nvposts r1) (\<lambda>r2.
     rbind (var_int W ''lastupdate'' (u64_of_int maxtime) r2) (\<lambda>r3.
     rbind (var_int W ''moreposts'' (if moreposts then 1 else 0) r3) (\<lambda>r4. Inr (r4, s1))))))"

end
