(* ===== verification/Sidebar.thy ===== *)
theory Sidebar
  imports PostNv "HOL-Library.Log_Nat"
begin

text \<open>
  The tag cloud of the sidebar (\<^verbatim>\<open>sidebar.c\<close>). The size of a tag is computed in single precision; the
  arithmetic is written out on rationals with the rounding of IEEE 754 (to nearest, ties to even, 24
  bits). Subnormal numbers and overflow do not occur: the operands are quotients of 64-bit integers.
\<close>

section \<open>Single precision\<close>

definition round_half_even :: "rat \<Rightarrow> int" where
  "round_half_even q =
     (let n = \<lfloor>q\<rfloor>; d = q - of_int n
      in if d < 1 / 2 then n else if 1 / 2 < d then n + 1 else if even n then n else n + 1)"

text \<open>The distance of the numbers of 24 bits around a positive number.\<close>

definition f32_ulp :: "rat \<Rightarrow> rat" where
  "f32_ulp q =
     (if 1 \<le> q then 2 ^ (floorlog 2 (nat \<lfloor>q\<rfloor>) - 24) / 2 ^ (24 - floorlog 2 (nat \<lfloor>q\<rfloor>))
      else 1 / 2 ^ (floorlog 2 (nat \<lfloor>1 / q\<rfloor>) + 23))"

definition f32 :: "rat \<Rightarrow> rat" where
  "f32 q = (if q \<le> 0 then 0 else of_int (round_half_even (q / f32_ulp q)) * f32_ulp q)"

section \<open>The size of a tag\<close>

definition sint32 :: "u64 \<Rightarrow> int" where
  "sint32 w = sint (ucast w :: u32)"

definition int_of_int :: "int \<Rightarrow> int res" where
  "int_of_int i = (if INT_MIN \<le> i \<and> i \<le> INT_MAX then Inr i else Inl IntOverflow)"

text \<open>
  \<open>count - cmin\<close> and \<open>cmax - cmin\<close> are \<^verbatim>\<open>int\<close> subtractions. A quotient by zero is infinite, and its
  conversion to \<^verbatim>\<open>int\<close> is undefined like that of any number out of range.
\<close>

definition tag_size :: "'n config \<Rightarrow> int \<Rightarrow> int \<Rightarrow> int \<Rightarrow> int res" where
  "tag_size cfg count cmin cmax =
     (if count \<le> cmin then Inr (sint32 (cf_tagcloud_min_size cfg))
      else
        rbind (int_add count (- cmin)) (\<lambda>d.
        rbind (int_add cmax (- cmin)) (\<lambda>range.
          if range = 0 then Inl IntOverflow
          else
            let size = f32 (of_int (uint ((cf_tagcloud_max_size cfg - cf_tagcloud_min_size cfg) * word_of_int d)));
                size1 = sgn (of_int range) * f32 (size / f32 \<bar>of_int range\<bar>)
            in int_of_int \<lceil>sgn (f32 (of_int (uint (cf_tagcloud_min_size cfg))) + size1) *
                   f32 \<bar>f32 (of_int (uint (cf_tagcloud_min_size cfg))) + size1\<bar>\<rceil>)))"

section \<open>The cloud\<close>

text \<open>The array being filled, \<^verbatim>\<open>struct tagcloud_state\<close>; a step may break a rule of C.\<close>

type_synonym 'n tagcloud_state = "'n val list res"

definition tagcloud_init :: "('n, 't) web_env \<Rightarrow> 'n tagcloud_state \<Rightarrow> nat \<Rightarrow> int \<times> 'n tagcloud_state" where
  "tagcloud_init W state ntags = (if we_mem W then 0 else - ENOMEM, Inr [])"

definition tagcloud_step ::
  "('n, 't) web_env \<Rightarrow> 'n tagcloud_state \<Rightarrow> string \<Rightarrow> u64 \<Rightarrow> u64 \<Rightarrow> u64 \<Rightarrow> 'n tagcloud_state" where
  "tagcloud_step W state name count cmin cmax =
     rbind state (\<lambda>cloud.
       if count \<le> 1 then Inr cloud
       else case nvl_alloc (we_nvl W) of
         None \<Rightarrow> Inr cloud
       | Some l0 \<Rightarrow>
           (case nvl_sets
              [\<lambda>l. nvl_set_str (we_nvl W) l ''name'' name,
               \<lambda>l. nvl_set_int (we_nvl W) l ''count'' count] l0 of
              (ret, l) \<Rightarrow>
                if ret \<noteq> 0 then Inr cloud
                else rbind (tag_size (we_cfg W) (sint32 count) (sint32 cmin) (sint32 cmax)) (\<lambda>size.
                  case nvl_set_int (we_nvl W) l ''size'' (u64_of_int size) of
                    (ret, l) \<Rightarrow> if ret \<noteq> 0 then Inr cloud else Inr (cloud @ [VT_NVL l]))))"

definition sidebar :: "('n, 't) web_env \<Rightarrow> ('n, 't) pindex \<Rightarrow> 'n req \<Rightarrow> 'n req res" where
  "sidebar W s r =
     rbind (returns (index_for_each_tag (we_rb W) s (Some (tagcloud_init W)) (Some (tagcloud_step W)) (Inr []))) (\<lambda>state.
     rbind state (\<lambda>cloud. var_array W ''tagcloud'' cloud r))"

section \<open>Rounding\<close>

lemma round_half_even_int [simp]: "round_half_even (of_int n) = n"
  by (simp add: round_half_even_def)

lemma round_half_even_le: "q \<le> of_int n \<Longrightarrow> round_half_even q \<le> n"
proof -
  assume q: "q \<le> of_int n"
  show ?thesis
  proof (cases "q = of_int n")
    case False
    with q have "\<lfloor>q\<rfloor> < n" by (simp add: floor_less_iff)
    then show ?thesis by (auto simp: round_half_even_def Let_def)
  qed simp
qed

lemma round_half_even_ge: "of_int n \<le> q \<Longrightarrow> n \<le> round_half_even q"
proof -
  assume "of_int n \<le> q"
  then have "n \<le> \<lfloor>q\<rfloor>" by (simp add: le_floor_iff)
  then show ?thesis by (auto simp: round_half_even_def Let_def)
qed

text \<open>Below \<open>2 ^ 24\<close> the whole numbers lie on the grid, so rounding does not cross them.\<close>

lemma f32_grid:
  assumes "0 < q" "q < 2 ^ 24"
  obtains k where "f32_ulp q = 1 / 2 ^ k"
proof (cases "1 \<le> q")
  case True
  have "\<lfloor>q\<rfloor> < 2 ^ 24" using assms(2) by (simp add: floor_less_iff)
  then have "nat \<lfloor>q\<rfloor> < 2 ^ 24" using assms(1) by (simp add: nat_less_iff)
  then have "floorlog 2 (nat \<lfloor>q\<rfloor>) \<le> 24" by (simp add: floorlog_le_iff)
  with True that show thesis by (simp add: f32_ulp_def)
next
  case False
  with that show thesis by (simp add: f32_ulp_def)
qed

lemma f32_bounds:
  assumes "0 \<le> q" "q < 2 ^ 24"
  shows "q \<le> of_int n \<Longrightarrow> f32 q \<le> of_int n" "of_int n \<le> q \<Longrightarrow> of_int n \<le> f32 q"
proof -
  have "(q \<le> of_int n \<longrightarrow> f32 q \<le> of_int n) \<and> (of_int n \<le> q \<longrightarrow> of_int n \<le> f32 q)"
  proof (cases "q = 0")
    case False
    with assms have pos: "0 < q" by simp
    from f32_grid[OF pos assms(2)] obtain k where k: "f32_ulp q = 1 / 2 ^ k" by blast
    have f: "f32 q = of_int (round_half_even (q * 2 ^ k)) / 2 ^ k" using pos by (simp add: f32_def k)
    have e: "of_int n * 2 ^ k = (of_int (n * 2 ^ k) :: rat)" by simp
    have "f32 q \<le> of_int n" if "q \<le> of_int n"
    proof -
      have "q * 2 ^ k \<le> of_int n * 2 ^ k" using that by simp
      then have "round_half_even (q * 2 ^ k) \<le> n * 2 ^ k" by (intro round_half_even_le) (simp only: e)
      then have "(of_int (round_half_even (q * 2 ^ k)) :: rat) \<le> of_int n * 2 ^ k" by (simp only: e of_int_le_iff)
      then show ?thesis by (simp add: f divide_le_eq)
    qed
    moreover have "of_int n \<le> f32 q" if "of_int n \<le> q"
    proof -
      have "of_int n * 2 ^ k \<le> q * 2 ^ k" using that by simp
      then have "n * 2 ^ k \<le> round_half_even (q * 2 ^ k)" by (intro round_half_even_ge) (simp only: e)
      then have "of_int n * 2 ^ k \<le> (of_int (round_half_even (q * 2 ^ k)) :: rat)" by (simp only: e of_int_le_iff)
      then show ?thesis by (simp add: f le_divide_eq)
    qed
    ultimately show ?thesis by simp
  qed (simp add: f32_def)
  then show "q \<le> of_int n \<Longrightarrow> f32 q \<le> of_int n" "of_int n \<le> q \<Longrightarrow> of_int n \<le> f32 q" by simp_all
qed

lemma f32_exact: "0 \<le> n \<Longrightarrow> n < 2 ^ 24 \<Longrightarrow> f32 (of_int n) = of_int n"
proof (rule antisym)
  assume n: "0 \<le> n" "n < 2 ^ 24"
  then have "(of_int n :: rat) < of_int (2 ^ 24)" by (simp only: of_int_less_iff)
  then have "(of_int n :: rat) < 2 ^ 24" by simp
  with n f32_bounds[of "of_int n" n] show "f32 (of_int n) \<le> of_int n" "of_int n \<le> f32 (of_int n)" by simp_all
qed

section \<open>Sizes stay between the configured bounds\<close>

lemma f32_nonneg: "0 \<le> q \<Longrightarrow> q < 2 ^ 24 \<Longrightarrow> 0 \<le> f32 q"
  using f32_bounds(2)[of q 0] by simp

text \<open>The scaled size, before the smallest size is added.\<close>

lemma scaled_bounds:
  fixes m d range :: int
  assumes "0 \<le> m" "0 \<le> d" "d \<le> range" "0 < range" "m * range < 2 ^ 24" "m < 2 ^ 24"
  shows "0 \<le> f32 (f32 (of_int (m * d)) / f32 (of_int range)) \<and> f32 (f32 (of_int (m * d)) / f32 (of_int range)) \<le> of_int m \<and>
    (d = range \<longrightarrow> f32 (f32 (of_int (m * d)) / f32 (of_int range)) = of_int m)"
proof (cases "m = 0")
  case True
  then show ?thesis by (simp add: f32_def)
next
  case False
  with assms(1) have m: "1 \<le> m" by simp
  then have "range \<le> m * range" using assms(4) by (simp add: mult_le_cancel_right1)
  with assms(5) have "range < 2 ^ 24" by linarith
  with assms(4) have r: "f32 (of_int range) = of_int range" by (intro f32_exact) simp_all
  have "m * d \<le> m * range" using assms(1,3) by (rule mult_left_mono[rotated])
  with assms have x: "f32 (of_int (m * d)) = of_int (m * d)" by (intro f32_exact) simp_all
  let ?q = "of_int (m * d) / of_int range :: rat"
  have "(of_int (m * d) :: rat) \<le> of_int (m * range)" using \<open>m * d \<le> m * range\<close> by (simp only: of_int_le_iff)
  then have q: "0 \<le> ?q" "?q \<le> of_int m" using assms(1,2,4) by (simp_all add: divide_le_eq)
  have "(of_int m :: rat) < of_int (2 ^ 24)" using assms(6) by (simp only: of_int_less_iff)
  with q have q24: "?q < 2 ^ 24" by simp
  have "?q = of_int m" if "d = range" using that assms(4) by simp
  moreover have "f32 (of_int m) = of_int m" using assms(1,6) by (rule f32_exact)
  ultimately show ?thesis unfolding r x using f32_nonneg[OF q(1) q24] f32_bounds(1)[OF q(1) q24 q(2)] by simp
qed

text \<open>
  C38. The size of a tag lies between the configured smallest and largest size, the rarest tags get the
  smallest and the most frequent the largest size, for all counts and sizes whose products are exact in
  single precision: rounding never takes a size out of its bounds.
\<close>

theorem tag_size_bounds:
  assumes "cf_tagcloud_min_size cfg \<le> cf_tagcloud_max_size cfg" "uint (cf_tagcloud_max_size cfg) < 2 ^ 24"
    and "0 \<le> cmin" "cmin \<le> count" "count \<le> cmax" "cmax \<le> INT_MAX"
    and "uint (cf_tagcloud_max_size cfg) * (cmax - cmin) < 2 ^ 24"
  shows "\<exists>n. tag_size cfg count cmin cmax = Inr n \<and>
    uint (cf_tagcloud_min_size cfg) \<le> n \<and> n \<le> uint (cf_tagcloud_max_size cfg) \<and>
    (count = cmin \<longrightarrow> n = uint (cf_tagcloud_min_size cfg)) \<and>
    (count = cmax \<and> cmin < cmax \<longrightarrow> n = uint (cf_tagcloud_max_size cfg))"
proof -
  let ?a = "cf_tagcloud_min_size cfg" and ?b = "cf_tagcloud_max_size cfg"
  define a b m d range where "a = uint ?a" and "b = uint ?b" and "m = b - a" and "d = count - cmin" and "range = cmax - cmin"
  have a: "0 \<le> a" "a \<le> b" "b < 2 ^ 24" using assms(1,2) by (simp_all add: a_def b_def word_le_def)
  have "take_bit 32 a = a" "signed_take_bit 31 a = a"
    using a by (simp_all add: take_bit_int_eq_self signed_take_bit_int_eq_self)
  then have w: "sint32 ?a = a" by (simp add: sint32_def a_def sint_uint unsigned_ucast_eq)
  show ?thesis
  proof (cases "count = cmin")
    case True
    with w a show ?thesis by (simp add: tag_size_def a_def b_def)
  next
    case False
    with assms have d: "0 < d" "d \<le> range" "range \<le> INT_MAX" by (simp_all add: d_def range_def)
    have m: "0 \<le> m" "m < 2 ^ 24" "m \<le> b" using a by (simp_all add: m_def)
    have mr: "m * range < 2 ^ 24"
    proof -
      have "m * range \<le> b * range" using m(3) d by (intro mult_right_mono) simp_all
      also have "\<dots> < 2 ^ 24" using assms(7) by (simp add: b_def range_def)
      finally show ?thesis .
    qed
    have "m * d \<le> m * range" using m(1) d(2) by (rule mult_left_mono[rotated])
    with mr have u: "uint (word_of_int (m * d) :: u64) = m * d" using m(1) d(1) by (intro uint_of_int64) simp_all
    have "(?b - ?a) * word_of_int d = word_of_int (m * d)" by (simp add: m_def a_def b_def)
    with u have md: "uint ((?b - ?a) * word_of_int d) = m * d" by (simp only:)
    define s where "s = f32 (f32 (of_int (m * d)) / f32 (of_int range))"
    from scaled_bounds[OF m(1) _ d(2) _ mr m(2)] d have
      s: "0 \<le> s" "s \<le> of_int m" "d = range \<longrightarrow> s = of_int m" by (simp_all add: s_def)
    have fa: "f32 (of_int a) = of_int a" using a by (intro f32_exact) simp_all
    define q where "q = of_int a + s"
    have "(of_int b :: rat) < of_int (2 ^ 24)" using a(3) by (simp only: of_int_less_iff)
    then have q: "0 \<le> q" "q < 2 ^ 24" "of_int a \<le> q" "q \<le> of_int b" using s a(1) by (simp_all add: q_def m_def)
    note fq = f32_bounds(1)[OF q(1,2,4)] f32_bounds(2)[OF q(1,2,3)]
    have sg: "sgn q * f32 \<bar>q\<bar> = f32 q" using q(1) by (cases "q = 0") (simp_all add: f32_def)
    have range: "a \<le> \<lceil>f32 q\<rceil>" "\<lceil>f32 q\<rceil> \<le> b" using fq by (simp_all add: le_ceiling_iff ceiling_le_iff less_le_trans)
    have "b \<le> INT_MAX" "INT_MIN \<le> a" using a by simp_all
    with range have res: "int_of_int \<lceil>f32 q\<rceil> = Inr \<lceil>f32 q\<rceil>" unfolding int_of_int_def by (meson order_trans)
    have top: "\<lceil>f32 q\<rceil> = b" if "d = range"
    proof -
      have "q = of_int b" using s(3) that by (simp add: q_def m_def)
      with a f32_exact[of b] show ?thesis by simp
    qed
    have "tag_size cfg count cmin cmax = Inr \<lceil>f32 q\<rceil>"
      using False assms d fa by (simp add: tag_size_def Let_def a_def[symmetric] d_def[symmetric] range_def[symmetric] md
          s_def[symmetric] q_def[symmetric] sg res del: of_int_uint of_int_mult)
    with range top False show ?thesis by (simp add: a_def[symmetric] b_def[symmetric] d_def range_def)
  qed
qed

theorem tag_size_bounds_witness:
  "\<exists>n. tag_size (config_fill (cons_sx (\<lambda>_. Inl 1)) (1, 2) None :: alist_nvlist config) 3 1 7 = Inr n \<and> 6 \<le> n \<and> n \<le> 18"
proof -
  let ?c = "config_fill (cons_sx (\<lambda>_. Inl 1)) (1, 2) None :: alist_nvlist config"
  have "cf_tagcloud_min_size ?c = 6" "cf_tagcloud_max_size ?c = 18"
    by (simp_all add: config_fill_def config_load_u64_def cons_sx_def DEFAULT_TAGCLOUD_MIN_SIZE_def DEFAULT_TAGCLOUD_MAX_SIZE_def)
  with tag_size_bounds[of ?c 1 3 7] show ?thesis by auto
qed

end
