(* ===== verification/Comment.thy ===== *)
theory Comment
  imports Sidebar
begin

text \<open>
  Submitting a comment (\<^verbatim>\<open>comment.c\<close>): the spam checks, the required fields, and writing the comment
  into a directory of its own that is renamed into place when both files are complete. The result of a
  step is an error message or NULL; the operations on files it performed are collected in order.
\<close>

section \<open>Messages\<close>

definition INTERNAL_ERR :: string where
  "INTERNAL_ERR = ''Ouch!  Encountered an internal error.  Please contact me to resolve this issue.''"

definition GENERIC_ERR_STR :: string where
  "GENERIC_ERR_STR = ''Somehow, your post is getting rejected. If your issues persist, contact me to resolve this issue.''"

definition REQ_FIELDS :: string where
  "REQ_FIELDS = ''The required fields are: name, email address, the math field, and of course the content.''"

definition USERAGENT_MISSING :: string where
  "USERAGENT_MISSING = ''You need to send a user-agent.''"

definition CAPTCHA_FAIL :: string where
  "CAPTCHA_FAIL = ''You need to get better at math.''"

definition MISSING_EMAIL :: string where
  "MISSING_EMAIL = ''You need to supply a valid email address. '' @ REQ_FIELDS"

definition MISSING_NAME :: string where
  "MISSING_NAME = ''You do have a name, right? '' @ REQ_FIELDS"

definition MISSING_CONTENT :: string where
  "MISSING_CONTENT = ''No content? '' @ REQ_FIELDS"

definition comment_convert :: "(string \<times> val_type) list" where
  "comment_convert = [(''d'', TINT), (''i'', TINT), (''v'', TINT)]"

section \<open>The fields of the form\<close>

definition get_postid :: "('n, 't) web_env \<Rightarrow> 'n \<Rightarrow> string + int" where
  "get_postid W qs =
     (case nvl_lookup_int (we_nvq W) qs ''i'' of
        Inl _ \<Rightarrow> Inl GENERIC_ERR_STR
      | Inr pid \<Rightarrow> if uint pid > INT_MAX then Inl GENERIC_ERR_STR else Inr (uint pid))"

definition spam_check :: "('n, 't) web_env \<Rightarrow> 'n \<Rightarrow> string option" where
  "spam_check W qs =
     (case nvl_lookup_str (we_nvq W) qs ''x'' of
        Inl _ \<Rightarrow> Some GENERIC_ERR_STR
      | Inr str \<Rightarrow>
          if length str \<noteq> 0 then Some GENERIC_ERR_STR
          else case nvl_lookup_int (we_nvq W) qs ''d'' of
            Inl _ \<Rightarrow> Some GENERIC_ERR_STR
          | Inr date \<Rightarrow>
              let deltat = we_time W - date
              in if deltat > 1000000000 * cf_comment_max_think (we_cfg W) \<or>
                    deltat < 1000000000 * cf_comment_min_think (we_cfg W) then Some GENERIC_ERR_STR
                 else case nvl_lookup_int (we_nvq W) qs ''v'' of
                   Inl _ \<Rightarrow> Some GENERIC_ERR_STR
                 | Inr captcha \<Rightarrow>
                     if captcha \<noteq> cf_captcha_a (we_cfg W) + cf_captcha_b (we_cfg W) then Some CAPTCHA_FAIL
                     else None)"

text \<open>An empty string is an error when there is a message for it, and NULL otherwise.\<close>

definition get_str :: "('n, 't) web_env \<Rightarrow> 'n \<Rightarrow> string \<Rightarrow> string option \<Rightarrow> string + string option" where
  "get_str W nvl name err =
     (case nvl_lookup_str (we_nvq W) nvl name of
        Inl _ \<Rightarrow> Inl GENERIC_ERR_STR
      | Inr str \<Rightarrow>
          if length str = 0 then (case err of Some e \<Rightarrow> Inl e | None \<Rightarrow> Inr None) else Inr (Some str))"

text \<open>Email, author, comment and URL.\<close>

definition get_strings :: "('n, 't) web_env \<Rightarrow> 'n \<Rightarrow>
    string + string option \<times> string option \<times> string option \<times> string option" where
  "get_strings W qs =
     rbind (get_str W qs ''e'' (Some MISSING_EMAIL)) (\<lambda>email.
     rbind (get_str W qs ''a'' (Some MISSING_NAME)) (\<lambda>author.
     rbind (get_str W qs ''c'' (Some MISSING_CONTENT)) (\<lambda>comment.
     rbind (get_str W qs ''u'' None) (\<lambda>url. Inr (email, author, comment, url)))))"

section \<open>Writing the comment\<close>

text \<open>The list the metadata are printed from; its keys are strings. A NULL string makes a NULL value.\<close>

definition meta_list :: "string option \<Rightarrow> string option \<Rightarrow> string \<Rightarrow> string \<Rightarrow> string option \<Rightarrow> 'n sexpr" where
  "meta_list author email curdate ip url =
     cons_of [VT_CONS (Some (VT_STR ''author'')) (map_option VT_STR author),
              VT_CONS (Some (VT_STR ''email'')) (map_option VT_STR email),
              VT_CONS (Some (VT_STR ''time'')) (Some (VT_STR curdate)),
              VT_CONS (Some (VT_STR ''ip'')) (Some (VT_STR ip)),
              VT_CONS (Some (VT_STR ''url'')) (map_option VT_STR url),
              VT_CONS (Some (VT_STR ''moderated'')) (Some (VT_BOOL False))]"

definition prep_meta_sexpr ::
  "'n sx_ops \<Rightarrow> string option \<Rightarrow> string option \<Rightarrow> string \<Rightarrow> string \<Rightarrow> string option \<Rightarrow> string option" where
  "prep_meta_sexpr S author email curdate ip url = sexpr_dump S (meta_list author email curdate ip url)"

fun hex_of_nat :: "nat \<Rightarrow> string" where
  "hex_of_nat n = (if n < 16 then [''0123456789abcdef'' ! n] else hex_of_nat (n div 16) @ [''0123456789abcdef'' ! (n mod 16)])"

declare hex_of_nat.simps [simp del]

text \<open>The conversion \<^verbatim>\<open>%0wx\<close>.\<close>

definition hex_pad :: "nat \<Rightarrow> nat \<Rightarrow> string" where
  "hex_pad w n = replicate (w - length (hex_of_nat n)) CHR ''0'' @ hex_of_nat n"

definition pending_base :: "('n, 't) web_env \<Rightarrow> string \<Rightarrow> int \<Rightarrow> string" where
  "pending_base W dir pid =
     c_snprintf FILENAME_MAX (dir @ ''/pending-comments/'' @ dec_of_int pid @ ''-'' @
       hex_pad 8 (unat (we_time W div 1000000000)) @ ''.'' @ hex_pad 8 (unat (we_time W mod 1000000000)) @ ''.'' @
       hex_pad 5 (unat (we_nonce W)))"

text \<open>Performing the operations in order until one fails; the ones tried are reported.\<close>

fun fs_run :: "(fs_op \<Rightarrow> int) \<Rightarrow> fs_op list \<Rightarrow> bool \<times> fs_op list" where
  "fs_run fs [] = (True, [])"
| "fs_run fs (x # xs) =
     (if fs x \<noteq> 0 then (False, [x]) else (let (ok, ys) = fs_run fs xs in (ok, x # ys)))"

text \<open>
  The files of a comment: the text, the metadata when they can be printed, and the renaming. Without
  metadata the operations stop after the text.
\<close>

definition comment_ops :: "string \<Rightarrow> string \<Rightarrow> string option \<Rightarrow> fs_op list" where
  "comment_ops base comment meta =
     (let dirpath = c_snprintf FILENAME_MAX (base @ ''W'')
      in [FS_mkdir dirpath, FS_write (c_snprintf FILENAME_MAX (dirpath @ ''/text.txt'')) comment] @
         (case meta of None \<Rightarrow> []
          | Some m \<Rightarrow> [FS_write (c_snprintf FILENAME_MAX (dirpath @ ''/meta.lisp'')) m, FS_rename dirpath base]))"

definition write_out_comment ::
  "('n, 't) web_env \<Rightarrow> 'n req \<Rightarrow> ('n, 't) pindex \<Rightarrow> int \<Rightarrow> string option \<Rightarrow> string option \<Rightarrow> string option \<Rightarrow>
     string option \<Rightarrow> (string option \<times> fs_op list \<times> 'n req \<times> ('n, 't) pindex) res" where
  "write_out_comment W r s pid email author url comment =
     rbind (get_post W r s pid None False) (\<lambda>(post, r1, s1).
       case post of
         None \<Rightarrow> Inr (Some GENERIC_ERR_STR, [], r1, s1)
       | Some (Inl _) \<Rightarrow> Inl NullDeref
       | Some (Inr _) \<Rightarrow>
           rbind (str_cstr (cf_data_dir (we_cfg W))) (\<lambda>dir.
           let base = pending_base W dir pid;
               dirpath = c_snprintf FILENAME_MAX (base @ ''W'');
               curdate = strftime ''%Y-%m-%d %H:%M'' (broken_down (uint (we_time W div 1000000000)))
           in rbind (assert_that (length dirpath < FILENAME_MAX - 1)) (\<lambda>_.
              rbind (assert_that (length (c_snprintf FILENAME_MAX (dirpath @ ''/text.txt'')) < FILENAME_MAX - 1)) (\<lambda>_.
              rbind (assert_that (length (c_snprintf FILENAME_MAX (dirpath @ ''/meta.lisp'')) < FILENAME_MAX - 1)) (\<lambda>_.
              rbind (str_cstr comment) (\<lambda>txt.
                case nvl_lookup_str (we_nvq W) (scgi_headers (scgi r1)) (SCGI_REMOTE_ADDR (we_nvq W)) of
                  Inl _ \<Rightarrow> Inl NullDeref
                | Inr ip \<Rightarrow>
                    let meta = prep_meta_sexpr (pe_sx (we_posts W)) author email curdate ip url;
                        (ok, ops) = fs_run (we_fs W) (comment_ops base txt meta)
                    in Inr (if ok \<and> meta \<noteq> None then None else Some INTERNAL_ERR, ops, r1, s1)))))))"

definition save_comment ::
  "('n, 't) web_env \<Rightarrow> 'n req \<Rightarrow> ('n, 't) pindex \<Rightarrow> (string option \<times> fs_op list \<times> 'n req \<times> ('n, 't) pindex) res" where
  "save_comment W r s =
     (let Q = we_nvq W; hdrs = scgi_headers (scgi r); fail = (\<lambda>e. Inr (Some e, [], r, s))
      in if nvl_exists_type Q hdrs (SCGI_HTTP_USER_AGENT Q) TSTR \<noteq> 0 then fail USERAGENT_MISSING
         else if nvl_exists_type Q hdrs (SCGI_REMOTE_ADDR Q) TSTR \<noteq> 0 then fail INTERNAL_ERR
         else case scgi_body (scgi r) of
           None \<Rightarrow> fail INTERNAL_ERR
         | Some body \<Rightarrow>
             (case nvl_alloc (we_nvl W) of
                None \<Rightarrow> fail INTERNAL_ERR
              | Some qs0 \<Rightarrow>
                  (case qstring_parse Q qs0 body of
                     (ret, qs1) \<Rightarrow>
                       if ret \<noteq> 0 then fail GENERIC_ERR_STR
                       else (case nvl_convert Q qs1 comment_convert False of
                          (ret, qs) \<Rightarrow>
                            if ret \<noteq> 0 then fail GENERIC_ERR_STR
                            else case get_postid W qs of
                              Inl e \<Rightarrow> fail e
                            | Inr pid \<Rightarrow>
                                (case spam_check W qs of
                                   Some e \<Rightarrow> fail e
                                 | None \<Rightarrow>
                                     (case get_strings W qs of
                                        Inl e \<Rightarrow> fail e
                                      | Inr (email, author, comment, url) \<Rightarrow>
                                          write_out_comment W r s pid email author url comment))))))"

definition blahg_comment ::
  "('n, 't) web_env \<Rightarrow> 'n req \<Rightarrow> ('n, 't) pindex \<Rightarrow> (fs_op list \<times> 'n req \<times> ('n, 't) pindex) res" where
  "blahg_comment W r s =
     rbind (req_head W r ''Content-Type'' ''text/html'') (\<lambda>r1.
     rbind (sidebar W s r1) (\<lambda>r2.
     rbind (push_scope W r2) (\<lambda>r3.
     rbind (save_comment W r3 s) (\<lambda>(errmsg, ops, r4, s1).
     rbind (case errmsg of
              Some e \<Rightarrow> rbind (var_str W ''comment_error_str'' (Some e) r4) (respond W ''{comment_error}'')
            | None \<Rightarrow> respond W ''{comment_saved}'' r4) (\<lambda>r5. Inr (ops, r5, s1))))))"

end
