(* ===== verification/Handlers.thy ===== *)
theory Handlers
  imports Comment Static
begin

text \<open>
  The request handlers: \<^verbatim>\<open>req.c\<close>, which starts a request, chooses its handler and finishes the
  response, and the pages of \<^verbatim>\<open>index.c\<close>, \<^verbatim>\<open>tag.c\<close>, \<^verbatim>\<open>story.c\<close>, \<^verbatim>\<open>static.c\<close> and \<^verbatim>\<open>admin.c\<close>. A handler
  takes the request and the post index and gives both after it; the number it returns is always 0.
\<close>

section \<open>Starting and finishing a request\<close>

definition vars_set_social :: "('n, 't) web_env \<Rightarrow> 'n req \<Rightarrow> 'n req res" where
  "vars_set_social W r =
     rbind (case cf_twitter_username (we_cfg W) of None \<Rightarrow> Inr r | Some u \<Rightarrow> var_str W ''twitteruser'' (Some u) r) (\<lambda>r1.
       case cf_twitter_description (we_cfg W) of None \<Rightarrow> Inr r1 | Some d \<Rightarrow> var_str W ''twitterdesc'' (Some d) r1)"

text \<open>The structure is zeroed first; the first constructor of \<^verbatim>\<open>page\<close> is the number 0.\<close>

definition zero_req :: "'n scgi \<Rightarrow> 'n req" where
  "zero_req c = \<lparr>scgi = c, req_page = PAGE_ARCHIVE, req_vars = \<lparr>scopes = replicate VAR_MAX_SCOPES None, cur = 0\<rparr>,
     req_fmt = None, index_stories = 0\<rparr>"

definition req_init :: "('n, 't) web_env \<Rightarrow> 'n scgi \<Rightarrow> 'n req res" where
  "req_init W c =
     rbind (with_vars (vars_init (we_nvl W)) (zero_req c)) (\<lambda>r.
     rbind (var_str W ''generatorversion'' (Some (we_version W)) r) (\<lambda>r.
     rbind (var_str W ''baseurl'' (cf_base_url (we_cfg W)) r) (\<lambda>r.
     rbind (var_int W ''now'' (we_time W) r) (\<lambda>r.
     rbind (var_int W ''captcha_a'' (cf_captcha_a (we_cfg W)) r) (\<lambda>r.
     rbind (var_int W ''captcha_b'' (cf_captcha_b (we_cfg W)) r) (\<lambda>r.
     rbind (var_array W ''posts'' [] r) (\<lambda>r.
     rbind (vars_set_social W r) (\<lambda>r. Inr (r\<lparr>req_fmt := None\<rparr>)))))))))"

definition calculate_content_length :: "('n, 't) web_env \<Rightarrow> 'n req \<Rightarrow> 'n req res" where
  "calculate_content_length W r =
     rbind (if resp_bodylen (scgi r) = 0
            then rbind (str_cstr (resp_body (scgi r))) (\<lambda>b.
                   Inr (r\<lparr>scgi := (scgi r)\<lparr>resp_bodylen := of_nat (length (takeWhile (\<lambda>c. c \<noteq> NUL) b))\<rparr>\<rparr>))
            else Inr r) (\<lambda>r1.
     req_head W r1 ''Content-Length'' (c_snprintf 64 (dec_of_nat (unat (resp_bodylen (scgi r1))))))"

text \<open>The conversion \<^verbatim>\<open>%0\<close> with a width.\<close>

definition zero_pad :: "nat \<Rightarrow> nat \<Rightarrow> string" where
  "zero_pad w n = replicate (w - length (dec_of_nat n)) CHR ''0'' @ dec_of_nat n"

definition calculate_render_time :: "('n, 't) web_env \<Rightarrow> u64 \<Rightarrow> 'n req \<Rightarrow> 'n req res" where
  "calculate_render_time W read_body_time r =
     (let delta = we_time W - read_body_time
      in req_head W r ''X-blahgd-render-time''
           (c_snprintf 64 (dec_of_nat (unat (delta div 1000000000)) @ ''.'' @ zero_pad 9 (unat (delta mod 1000000000)))))"

definition req_output :: "('n, 't) web_env \<Rightarrow> u64 \<Rightarrow> 'n req \<Rightarrow> 'n req res" where
  "req_output W read_body_time r =
     rbind (calculate_content_length W r) (calculate_render_time W read_body_time)"

section \<open>Errors and redirects\<close>

definition set_status :: "scgi_status \<Rightarrow> 'n req \<Rightarrow> 'n req" where
  "set_status st r = r\<lparr>scgi := (scgi r)\<lparr>resp_status := st\<rparr>, req_fmt := Some ''html''\<rparr>"

definition R404 :: "('n, 't) web_env \<Rightarrow> string option \<Rightarrow> 'n req \<Rightarrow> ('n, 't) pindex \<Rightarrow> ('n req \<times> ('n, 't) pindex) res" where
  "R404 W tmpl r s =
     (let tmpl' = (case tmpl of None \<Rightarrow> ''{404}'' | Some t \<Rightarrow> t)
      in rbind (req_head W r ''Content-Type'' ''text/html'') (\<lambda>r1.
         rbind (push_scope W (set_status SCGI_STATUS_NOTFOUND r1)) (\<lambda>r2.
         rbind (sidebar W s r2) (\<lambda>r3.
         rbind (respond W tmpl' r3) (\<lambda>r4. Inr (r4, s))))))"

definition R301 :: "('n, 't) web_env \<Rightarrow> string \<Rightarrow> 'n req \<Rightarrow> ('n, 't) pindex \<Rightarrow> ('n req \<times> ('n, 't) pindex) res" where
  "R301 W url r s =
     rbind (req_head W r ''Content-Type'' ''text/html'') (\<lambda>r1.
     rbind (req_head W r1 ''Location'' url) (\<lambda>r2.
     rbind (push_scope W (set_status SCGI_STATUS_REDIRECT r2)) (\<lambda>r3.
     rbind (var_str W ''redirect'' (Some url) r3) (\<lambda>r4.
     rbind (respond W ''{301}'' r4) (\<lambda>r5. Inr (r5, s))))))"

section \<open>Pages of posts\<close>

text \<open>The right-pointing guillemet in UTF-8.\<close>

definition raquo :: string where
  "raquo = [CHR 0xC2, CHR 0xBB]"

definition store_pages :: "('n, 't) web_env \<Rightarrow> int \<Rightarrow> 'n req \<Rightarrow> 'n req res" where
  "store_pages W pg r =
     rbind (int_add pg 1) (\<lambda>prev.
     rbind (var_int W ''prevpage'' (u64_of_int prev) r) (\<lambda>r1.
     rbind (var_int W ''curpage'' (u64_of_int pg) r1) (\<lambda>r2.
     rbind (int_add pg (-1)) (\<lambda>nextp.
     var_int W ''nextpage'' (u64_of_int nextp) r2))))"

text \<open>
  \<^verbatim>\<open>page * posts_per_page\<close> is a product of unsigned 32-bit numbers that is passed as an \<^verbatim>\<open>int\<close>. The
  array of posts on the stack has \<^verbatim>\<open>posts_per_page\<close> places; none at all is undefined behaviour.
\<close>

definition skip_of :: "int \<Rightarrow> int \<Rightarrow> int" where
  "skip_of pg n = sint (word_of_int pg * word_of_int n :: u32)"

definition page_posts ::
  "('n, 't) web_env \<Rightarrow> 'n req \<Rightarrow> ('n, 't) pindex \<Rightarrow> string option \<Rightarrow> ('n post \<Rightarrow> bool) option \<Rightarrow> int \<Rightarrow>
     ('n req \<times> ('n, 't) pindex) res" where
  "page_posts W r s tag pred pg =
     (let n = index_stories r
      in if n \<le> 0 then Inl OutOfBounds
         else rbind (returns (index_get_posts (we_rb W) (nat n) s tag pred (skip_of pg n) n)) (\<lambda>(ps, s1).
              load_posts W r s1 ps (int (length ps) = n)))"

definition archive_filter :: "u32 \<times> u32 \<Rightarrow> 'n post \<Rightarrow> bool" where
  "archive_filter args p \<longleftrightarrow> fst args \<le> post_time p \<and> post_time p < snd args"

text \<open>The month of an archive id; after December the end is set to the second month of the next year.\<close>

definition archive_args :: "int \<Rightarrow> u32 \<times> u32" where
  "archive_args archid =
     (let start = tm_zero\<lparr>tm_year := archid div 100 - 1900, tm_mon := archid mod 100 - 1, tm_mday := 1\<rparr>;
          end1 = start\<lparr>tm_mon := tm_mon start + 1\<rparr>;
          end2 = (if 12 \<le> tm_mon end1 then end1\<lparr>tm_mon := 1, tm_year := tm_year end1 + 1\<rparr> else end1)
      in (word_of_int (mktime start), word_of_int (mktime end2)))"

definition index_load_posts ::
  "('n, 't) web_env \<Rightarrow> 'n req \<Rightarrow> ('n, 't) pindex \<Rightarrow> int \<Rightarrow> int \<Rightarrow> ('n req \<times> ('n, 't) pindex) res" where
  "index_load_posts W r s pg archid =
     page_posts W r s None (if archid = 0 then None else Some (archive_filter (archive_args archid))) pg"

definition index_store_title :: "('n, 't) web_env \<Rightarrow> string \<Rightarrow> bool \<Rightarrow> 'n req \<Rightarrow> 'n req res" where
  "index_store_title W title prepend r =
     (let twittertitle = (if prepend then c_snprintf 1024 (''Blahg '' @ raquo @ '' '' @ title) else take 1023 title)
      in rbind (var_str W ''title'' (Some title) r) (var_str W ''twittertitle'' (Some twittertitle)))"

definition blahg_index ::
  "('n, 't) web_env \<Rightarrow> 'n req \<Rightarrow> ('n, 't) pindex \<Rightarrow> int \<Rightarrow> ('n req \<times> ('n, 't) pindex) res" where
  "blahg_index W r s pg =
     rbind (index_store_title W ''Blahg'' False r) (\<lambda>r.
     rbind (store_pages W pg r) (\<lambda>r.
     rbind (sidebar W s r) (\<lambda>r.
     rbind (push_scope W r) (\<lambda>r.
     rbind (index_load_posts W r s pg 0) (\<lambda>(r, s).
     rbind (respond W ''{index}'' r) (\<lambda>r. Inr (r, s)))))))"

definition valid_arch_id :: "u64 \<Rightarrow> bool" where
  "valid_arch_id arch =
     (let y = arch div 100; m = arch mod 100 in 1 \<le> m \<and> m \<le> 12 \<and> 1970 \<le> y \<and> y < 2100)"

definition get_arch_id :: "('n, 't) web_env \<Rightarrow> 'n req \<Rightarrow> int" where
  "get_arch_id W r =
     (case nvl_lookup_int (we_nvq W) (scgi_query (scgi r)) ''m'' of
        Inl _ \<Rightarrow> 197001
      | Inr tmp \<Rightarrow> if valid_arch_id tmp then sint32 tmp else 197001)"

definition months :: "string list" where
  "months = [''January'', ''February'', ''March'', ''April'', ''May'', ''June'', ''July'', ''August'',
     ''September'', ''October'', ''November'', ''December'']"

definition blahg_archive ::
  "('n, 't) web_env \<Rightarrow> 'n req \<Rightarrow> ('n, 't) pindex \<Rightarrow> int \<Rightarrow> ('n req \<times> ('n, 't) pindex) res" where
  "blahg_archive W r s pg =
     (let m = get_arch_id W r
      in if m mod 100 < 1 \<or> 12 < m mod 100 then Inl OutOfBounds
         else
           let nicetitle = c_snprintf 32 (dec_of_int (m div 100) @ '' '' @ raquo @ '' '' @ months ! nat (m mod 100 - 1))
           in rbind (req_head W r ''Content-Type'' ''text/html'') (\<lambda>r.
              rbind (index_store_title W nicetitle True r) (\<lambda>r.
              rbind (store_pages W pg r) (\<lambda>r.
              rbind (var_int W ''archid'' (u64_of_int m) r) (\<lambda>r.
              rbind (sidebar W s r) (\<lambda>r.
              rbind (push_scope W r) (\<lambda>r.
              rbind (index_load_posts W r s pg m) (\<lambda>(r, s).
              rbind (respond W ''{archive}'' r) (\<lambda>r. Inr (r, s))))))))))"

definition tag_store_title :: "('n, 't) web_env \<Rightarrow> string \<Rightarrow> 'n req \<Rightarrow> 'n req res" where
  "tag_store_title W title r =
     rbind (var_str W ''title'' (Some title) r)
       (var_str W ''twittertitle'' (Some (c_snprintf 1024 (''Blahg '' @ raquo @ '' '' @ title))))"

definition blahg_tag ::
  "('n, 't) web_env \<Rightarrow> 'n req \<Rightarrow> ('n, 't) pindex \<Rightarrow> int \<Rightarrow> ('n req \<times> ('n, 't) pindex) res" where
  "blahg_tag W r s pg =
     (case nvl_lookup_str (we_nvq W) (scgi_query (scgi r)) ''tag'' of
        Inl _ \<Rightarrow> R404 W None r s
      | Inr tag \<Rightarrow>
          rbind (req_head W r ''Content-Type'' ''text/html'') (\<lambda>r.
          rbind (tag_store_title W tag r) (\<lambda>r.
          rbind (store_pages W pg r) (\<lambda>r.
          rbind (var_str W ''tagid'' (Some tag) r) (\<lambda>r.
          rbind (sidebar W s r) (\<lambda>r.
          rbind (push_scope W r) (\<lambda>r.
          rbind (page_posts W r s (Some tag) None pg) (\<lambda>(r, s).
          rbind (respond W ''{tagindex}'' r) (\<lambda>r. Inr (r, s))))))))))"

definition blahg_category :: "('n, 't) web_env \<Rightarrow> 'n req \<Rightarrow> ('n, 't) pindex \<Rightarrow> ('n req \<times> ('n, 't) pindex) res" where
  "blahg_category W r s =
     (case nvl_lookup_str (we_nvq W) (scgi_query (scgi r)) ''cat'' of
        Inl _ \<Rightarrow> R404 W None r s
      | Inr cat \<Rightarrow>
          (case alist_str (pe_sx (we_posts W)) (cf_category_to_tag (we_cfg W)) cat of
             None \<Rightarrow> R404 W None r s
           | Some tag \<Rightarrow> R301 W (str_cat [cf_base_url (we_cfg W), Some ''/?tag='', Some tag]) r s))"

section \<open>A single post\<close>

definition is_preview :: "('n, 't) web_env \<Rightarrow> 'n req \<Rightarrow> bool" where
  "is_preview W r =
     (case nvl_lookup_int (we_nvq W) (scgi_query (scgi r)) ''preview'' of Inl _ \<Rightarrow> False | Inr tmp \<Rightarrow> tmp = we_secret W)"

text \<open>
  The result is whether the post is there. An error pointer passes the test for NULL and is then used
  as a list.
\<close>

definition story_load_post ::
  "('n, 't) web_env \<Rightarrow> 'n req \<Rightarrow> ('n, 't) pindex \<Rightarrow> int \<Rightarrow> bool \<Rightarrow> (bool \<times> 'n req \<times> ('n, 't) pindex) res" where
  "story_load_post W r s p preview =
     rbind (get_post W r s p (Some ''title'') preview) (\<lambda>(post, r1, s1).
       case post of
         None \<Rightarrow> rbind (var_str W ''title'' (Some ''not found'') r1) (\<lambda>r2. Inr (False, r2, s1))
       | Some x \<Rightarrow>
           if \<not> we_mem W then Inr (False, r1, s1)
           else (case x of
             Inl _ \<Rightarrow> Inl NullDeref
           | Inr l \<Rightarrow>
               rbind (var_array W ''posts'' [VT_NVL l] r1) (\<lambda>r2.
               rbind (if preview then var_int W ''preview'' 1 r2 else Inr r2) (\<lambda>r3. Inr (True, r3, s1)))))"

definition blahg_story :: "('n, 't) web_env \<Rightarrow> 'n req \<Rightarrow> ('n, 't) pindex \<Rightarrow> ('n req \<times> ('n, 't) pindex) res" where
  "blahg_story W r s =
     (case nvl_lookup_int (we_nvq W) (scgi_query (scgi r)) ''p'' of
        Inl _ \<Rightarrow> R404 W None r s
      | Inr postid \<Rightarrow>
          if uint postid > INT_MAX then R404 W None r s
          else
            rbind (sidebar W s r) (\<lambda>r.
            rbind (push_scope W r) (\<lambda>r.
            rbind (story_load_post W r s (uint postid) (is_preview W r)) (\<lambda>(found, r, s).
              if \<not> found then R404 W None r s
              else rbind (respond W ''{storyview}'' r) (\<lambda>r. Inr (r, s))))))"

section \<open>Files and the administrator's page\<close>

definition blahg_admin :: "('n, 't) web_env \<Rightarrow> 'n req \<Rightarrow> ('n, 't) pindex \<Rightarrow> ('n req \<times> ('n, 't) pindex) res" where
  "blahg_admin W r s =
     rbind (req_head W r ''Content-Type'' ''text/plain'') (\<lambda>r1.
       Inr (set_body (Some ''Nothing here to see...move along'') r1, s))"

text \<open>A content type that is NULL would be duplicated as a string.\<close>

definition blahg_static :: "('n, 't) web_env \<Rightarrow> 'n req \<Rightarrow> ('n, 't) pindex \<Rightarrow> ('n req \<times> ('n, 't) pindex) res" where
  "blahg_static W r s =
     (case nvl_lookup_str (we_nvq W) (scgi_headers (scgi r)) (SCGI_DOCUMENT_URI (we_nvq W)) of
        Inl _ \<Rightarrow> Inl AssertFailed
      | Inr uri_str \<Rightarrow>
          (case get_uri_info (Some uri_str) of
             None \<Rightarrow> Inl AssertFailed
           | Some info \<Rightarrow>
               rbind (str_cstr (cf_web_dir (we_cfg W))) (\<lambda>dir.
                 case we_read_file_len W (c_snprintf FILENAME_MAX (dir @ ''/'' @ tl uri_str)) of
                   Inl _ \<Rightarrow> R404 W None r s
                 | Inr (body, len) \<Rightarrow>
                     rbind (str_cstr (content_type info)) (\<lambda>ct.
                     rbind (req_head W (r\<lparr>scgi := (scgi r)\<lparr>resp_body := Some body, resp_bodylen := len\<rparr>\<rparr>)
                              ''Content-Type'' ct) (\<lambda>r1. Inr (r1, s))))))"

section \<open>Choosing the handler\<close>

definition query_info :: "(string \<times> val_type) list" where
  "query_info = [(''p'', TINT), (''paged'', TINT), (''m'', TINT), (''preview'', TINT)]"

definition with_query :: "'n \<Rightarrow> 'n req \<Rightarrow> 'n req" where
  "with_query q r = r\<lparr>scgi := (scgi r)\<lparr>scgi_query := q\<rparr>\<rparr>"

definition query_page :: "('n, 't) web_env \<Rightarrow> 'n \<Rightarrow> page" where
  "query_page W query =
     (let has = nvl_exists (we_nvq W) query
      in if has ''comment'' then PAGE_COMMENT
         else if has ''tag'' then PAGE_TAG
         else if has ''cat'' then PAGE_CATEGORY
         else if has ''m'' then PAGE_ARCHIVE
         else if has ''p'' then PAGE_STORY
         else if has ''admin'' then PAGE_ADMIN
         else PAGE_INDEX)"

definition select_page :: "('n, 't) web_env \<Rightarrow> 'n req \<Rightarrow> (bool \<times> 'n req) res" where
  "select_page W r =
     (case nvl_lookup_str (we_nvq W) (scgi_headers (scgi r)) (SCGI_DOCUMENT_URI (we_nvq W)) of
        Inl _ \<Rightarrow> Inl AssertFailed
      | Inr doc_uri \<Rightarrow>
          (case get_uri_type (Some doc_uri) of
             URI_STATIC \<Rightarrow> Inr (True, r\<lparr>req_page := PAGE_STATIC\<rparr>)
           | URI_BAD \<Rightarrow> Inr (False, r\<lparr>req_page := PAGE_INDEX\<rparr>)
           | URI_DYNAMIC \<Rightarrow>
               let query = snd (nvl_convert (we_nvq W) (scgi_query (scgi r)) query_info True)
               in Inr (True, with_query query (r\<lparr>req_page := query_page W query\<rparr>))))"

definition html_only :: "page \<Rightarrow> bool" where
  "html_only p \<longleftrightarrow> p \<noteq> PAGE_INDEX \<and> p \<noteq> PAGE_STORY"

text \<open>The format, content type and number of stories for the \<^verbatim>\<open>feed\<close> of the query.\<close>

definition feed_format :: "('n, 't) web_env \<Rightarrow> int + string \<Rightarrow> (string \<times> string \<times> u64) option" where
  "feed_format W feed =
     (case feed of
        Inl e \<Rightarrow> if e \<noteq> - ENOENT then None else Some (''html'', ''text/html'', cf_html_index_stories (we_cfg W))
      | Inr f \<Rightarrow>
          if f = ''atom'' then Some (''atom'', ''application/atom+xml'', cf_feed_index_stories (we_cfg W))
          else if f = ''rss2'' then Some (''rss2'', ''application/rss+xml'', cf_feed_index_stories (we_cfg W))
          else None)"

definition switch_content_type :: "('n, 't) web_env \<Rightarrow> 'n req \<Rightarrow> (bool \<times> 'n req) res" where
  "switch_content_type W r =
     (case feed_format W (nvl_lookup_str (we_nvq W) (scgi_query (scgi r)) ''feed'') of
        None \<Rightarrow> Inr (False, r)
      | Some (fmt, ct, stories) \<Rightarrow>
          if html_only (req_page r) \<and> fmt \<noteq> ''html'' then Inr (False, r)
          else rbind (req_head W (r\<lparr>req_fmt := Some fmt\<rparr>) ''Content-Type'' ct) (\<lambda>r1.
                 Inr (True, r1\<lparr>index_stories := sint32 stories\<rparr>)))"

definition get_page_number :: "('n, 't) web_env \<Rightarrow> 'n req \<Rightarrow> int" where
  "get_page_number W r =
     (case nvl_lookup_int (we_nvq W) (scgi_query (scgi r)) ''paged'' of
        Inl _ \<Rightarrow> 0 | Inr tmp \<Rightarrow> if uint tmp > INT_MAX then 0 else uint tmp)"

text \<open>The operations on files are those of a comment; the other pages perform none.\<close>

definition no_ops :: "('n req \<times> ('n, 't) pindex) res \<Rightarrow> (fs_op list \<times> 'n req \<times> ('n, 't) pindex) res" where
  "no_ops m = rbind m (\<lambda>(r, s). Inr ([], r, s))"

definition req_dispatch ::
  "('n, 't) web_env \<Rightarrow> 'n req \<Rightarrow> ('n, 't) pindex \<Rightarrow> (fs_op list \<times> 'n req \<times> ('n, 't) pindex) res" where
  "req_dispatch W r s =
     rbind (select_page W r) (\<lambda>(ok, r).
       if \<not> ok then no_ops (R404 W None r s)
       else rbind (switch_content_type W r) (\<lambda>(ok, r).
         if \<not> ok then no_ops (R404 W (Some ''{error_unsupported_feed_fmt}'') r s)
         else case req_page r of
           PAGE_STATIC \<Rightarrow> no_ops (blahg_static W r s)
         | PAGE_ARCHIVE \<Rightarrow> no_ops (blahg_archive W r s (get_page_number W r))
         | PAGE_CATEGORY \<Rightarrow> no_ops (blahg_category W r s)
         | PAGE_TAG \<Rightarrow> no_ops (blahg_tag W r s (get_page_number W r))
         | PAGE_COMMENT \<Rightarrow> blahg_comment W r s
         | PAGE_INDEX \<Rightarrow> no_ops (blahg_index W r s (get_page_number W r))
         | PAGE_STORY \<Rightarrow> no_ops (blahg_story W r s)
         | PAGE_ADMIN \<Rightarrow> no_ops (blahg_admin W r s)))"

end
