(* ===== verification/PostNvSpec.thy ===== *)
theory PostNvSpec
  imports Handlers PostSpec
begin

text \<open>
  Posts as template variables, under the contract of name-value lists: the list made of a post holds its
  fields, and a post that is up to date is turned into variables without changing the index.
\<close>

section \<open>Name-value lists of posts\<close>

definition set_laws :: "('n, 't) web_env \<Rightarrow> ('n \<Rightarrow> string \<Rightarrow> 'n val option) \<Rightarrow> bool" where
  "set_laws W A \<longleftrightarrow> nvl_laws (we_nvl W) A \<and> we_mem W \<and>
     (\<forall>l k. fst (nvl_set_null_str (we_nvq W) l k) = 0 \<and> A (snd (nvl_set_null_str (we_nvq W) l k)) = (A l)(k \<mapsto> VT_NULL))"

text \<open>A string that may be NULL as a value.\<close>

definition str_val :: "string option \<Rightarrow> 'n val" where
  "str_val s = (case s of None \<Rightarrow> VT_NULL | Some t \<Rightarrow> VT_STR t)"

lemma sets_step:
  assumes "fst (f l) = 0"
  shows "nvl_sets (f # fs) l = nvl_sets fs (snd (f l))"
  using assms by (cases "f l") simp

lemma set_ops:
  assumes "set_laws W A"
  shows "fst (nvl_set_int (we_nvl W) l k i) = 0" "A (snd (nvl_set_int (we_nvl W) l k i)) = (A l)(k \<mapsto> VT_INT i)"
    "fst (nvl_set_str (we_nvl W) l k s) = 0" "A (snd (nvl_set_str (we_nvl W) l k s)) = (A l)(k \<mapsto> VT_STR s)"
    "fst (nvl_set_array (we_nvl W) l k vs) = 0" "A (snd (nvl_set_array (we_nvl W) l k vs)) = (A l)(k \<mapsto> VT_ARRAY vs)"
    "fst (set_opt_str W k x l) = 0" "A (snd (set_opt_str W k x l)) = (A l)(k \<mapsto> str_val x)"
    "fst (tag_val W ts l) = 0" "A (snd (tag_val W ts l)) = (A l)(''tags'' \<mapsto> VT_ARRAY (map VT_STR ts))"
  using assms by (auto simp: set_laws_def nvl_laws_def set_opt_str_def str_val_def tag_val_def split: option.splits)

lemma one_com_ok:
  assumes "set_laws W A"
  shows "\<exists>l. one_com W c = Inr l \<and> A l ''commbody'' = Some (str_val (com_body c)) \<and>
    A l ''commid'' = Some (VT_INT (ucast (com_id c))) \<and> A l ''commauthor'' = Some (str_val (com_author c))"
proof -
  from assms obtain l0 where l0: "nvl_alloc (we_nvl W) = Some l0" by (auto simp: set_laws_def nvl_laws_def)
  show ?thesis by (simp add: one_com_def l0 sets_step set_ops[OF assms] del: nvl_sets.simps(2))
qed

lemma com_list_ok:
  assumes "set_laws W A"
  shows "\<exists>vs. com_list W cs = Inr vs \<and> length vs = length cs"
proof (induction cs)
  case (Cons c cs)
  with one_com_ok[OF assms, of c] show ?case by auto
qed simp

lemma com_val_ok:
  assumes "set_laws W A"
  shows "fst (com_val W cs l) = 0" "k \<noteq> ''comments'' \<Longrightarrow> A (snd (com_val W cs l)) k = A l k"
  using com_list_ok[OF assms, of cs] assms by (auto simp: com_val_def set_ops[OF assms] set_laws_def)

text \<open>What the templates find in the list of a post.\<close>

definition post_fields :: "('n \<Rightarrow> string \<Rightarrow> 'n val option) \<Rightarrow> 'n post \<Rightarrow> 'n \<Rightarrow> bool" where
  "post_fields A p l \<longleftrightarrow>
     A l ''id'' = Some (VT_INT (ucast (post_id p))) \<and> A l ''time'' = Some (VT_INT (ucast (post_time p))) \<and>
     A l ''title'' = Some (str_val (post_title p)) \<and> A l ''numcom'' = Some (VT_INT (ucast (post_numcom p))) \<and>
     A l ''body'' = Some (str_val (post_body p)) \<and> A l ''tags'' = Some (VT_ARRAY (map VT_STR (post_tags p)))"

lemma post_nvl_ok:
  assumes "set_laws W A"
  shows "\<exists>l. post_nvl W p = Inr l \<and> post_fields A p l"
proof -
  from assms obtain l0 where l0: "nvl_alloc (we_nvl W) = Some l0" by (auto simp: set_laws_def nvl_laws_def)
  show ?thesis
    by (simp add: post_nvl_def l0 sets_step set_ops[OF assms] com_val_ok[OF assms] post_fields_def
        del: nvl_sets.simps(2))
qed

lemma post_fields_refcnt [simp]: "post_fields A (p\<lparr>post_refcnt := n\<rparr>) l = post_fields A p l"
  by (simp add: post_fields_def)

section \<open>Posts that are up to date\<close>

definition fresh :: "'n post_env \<Rightarrow> 'n post \<Rightarrow> bool" where
  "fresh E p \<longleftrightarrow> must_refresh E p = Inr False"

lemma fresh_refcnt [simp]: "fresh E (p\<lparr>post_refcnt := n\<rparr>) = fresh E p"
  by (simp add: fresh_def must_refresh_def)

lemma fresh_refresh: "fresh E p \<Longrightarrow> post_refresh E p = Inr (0, p)"
  by (simp add: fresh_def post_refresh_def)

lemma refresh_at_fresh: "posts s a = Some p \<Longrightarrow> fresh (we_posts W) p \<Longrightarrow> refresh_at W s a = Inr (p, s)"
  by (simp add: refresh_at_def deref_def fresh_refresh fun_upd_idem)

section \<open>Request variables\<close>

text \<open>The variables of a request after an assignment to the innermost scope.\<close>

definition req_env :: "('n \<Rightarrow> string \<Rightarrow> 'n val option) \<Rightarrow> 'n req \<Rightarrow> 'n env_stack" where
  "req_env A r = vars_abs A (req_vars r)"

definition set_var :: "string \<Rightarrow> 'n val \<Rightarrow> 'n env_stack \<Rightarrow> 'n env_stack" where
  "set_var k v es = (hd es)(k \<mapsto> v) # tl es"

lemma lookup_set_var [simp]: "env_lookup (set_var k v es) k' = (if k' = k then Some v else env_lookup ((hd es) # tl es) k')"
  by (simp add: set_var_def)

text \<open>\<open>r'\<close> is \<open>r\<close> with other variables.\<close>

definition with_env :: "('n \<Rightarrow> string \<Rightarrow> 'n val option) \<Rightarrow> 'n req \<Rightarrow> 'n env_stack \<Rightarrow> 'n req \<Rightarrow> bool" where
  "with_env A r es r' \<longleftrightarrow> vars_wf (req_vars r') \<and> req_env A r' = es \<and> r' = r\<lparr>req_vars := req_vars r'\<rparr>"

lemma with_vars_env:
  assumes "f (req_vars r) = Inr w" "vars_wf w" "vars_abs A w = es"
  shows "\<exists>r'. with_vars f r = Inr r' \<and> with_env A r es r'"
  using assms by (auto simp: with_vars_def with_env_def req_env_def)

lemma with_env_trans: "with_env A r es r1 \<Longrightarrow> with_env A r1 es' r2 \<Longrightarrow> with_env A r es' r2"
  unfolding with_env_def by (metis req.unfold_congs(3) req.update_convs(3) req.surjective)

lemma wrap_set_env:
  assumes "vars_wf (req_vars r)" "\<And>l. fst (f l) = 0" "\<And>l. A (snd (f l)) = (A l)(k \<mapsto> v)"
  shows "\<exists>r'. with_vars (wrap_set f) r = Inr r' \<and> with_env A r (set_var k v (req_env A r)) r'"
proof -
  obtain e es where es: "vars_abs A (req_vars r) = e # es" "A (the (scopes (req_vars r) ! nat (cur (req_vars r)))) = e"
    using vars_abs_last[OF assms(1), of A] by blast
  obtain w where "wrap_set f (req_vars r) = Inr w" "vars_wf w"
    "vars_abs A w = A (snd (f (the (scopes (req_vars r) ! nat (cur (req_vars r)))))) # tl (vars_abs A (req_vars r))"
    using wrap_set_abs[OF assms(1), of f A] assms(2) by blast
  then show ?thesis using es assms(3) by (intro with_vars_env) (auto simp: set_var_def req_env_def)
qed

lemma var_env:
  assumes "set_laws W A" "vars_wf (req_vars r)"
  shows "\<exists>r'. var_str W k x r = Inr r' \<and> with_env A r (set_var k (str_val x) (req_env A r)) r'"
    "\<exists>r'. var_int W k i r = Inr r' \<and> with_env A r (set_var k (VT_INT i) (req_env A r)) r'"
    "\<exists>r'. var_array W k vs r = Inr r' \<and> with_env A r (set_var k (VT_ARRAY vs) (req_env A r)) r'"
  unfolding var_str_def var_int_def var_array_def vars_set_int_def vars_set_array_def
  by (rule wrap_set_env[OF assms(2)]; simp add: set_ops[OF assms(1)])+

lemma with_env_wf: "with_env A r es r' \<Longrightarrow> vars_wf (req_vars r') \<and> req_env A r' = es"
  by (simp add: with_env_def)

section \<open>A page of posts\<close>

text \<open>A post that can be shown as it is: it is live, up to date, and the index holds a reference.\<close>

definition showable :: "('n, 't) web_env \<Rightarrow> ('n, 't) pindex \<Rightarrow> nat \<Rightarrow> bool" where
  "showable W s a \<longleftrightarrow> (\<exists>p. posts s a = Some p \<and> fresh (we_posts W) p \<and> 0 < post_refcnt p)"

lemma putref_with_refs:
  assumes "posts s a = Some p" "0 < post_refcnt p"
  shows "post_putref (with_refs s (a # as)) a = Inr (with_refs s as)"
  using assms by (auto simp: post_putref_def with_refs_def deref_def fun_eq_iff intro!: pindex.fold_congs)

lemma load_posts_loop_ok:
  assumes "set_laws W A"
  shows "\<forall>a\<in>set as. showable W s a \<Longrightarrow>
    \<exists>ls mt. load_posts_loop W r (with_refs s as) as vs m = Inr (vs @ map VT_NVL ls, mt, r, s) \<and>
      list_all2 (\<lambda>a l. post_fields A (post_at s a) l) as ls"
proof (induction as arbitrary: vs m)
  case (Cons a as)
  from Cons.prems obtain p where p: "posts s a = Some p" "fresh (we_posts W) p" "0 < post_refcnt p"
    by (auto simp: showable_def)
  let ?p = "p\<lparr>post_refcnt := post_refcnt p + count_list (a # as) a\<rparr>"
  have a: "posts (with_refs s (a # as)) a = Some ?p" using p(1) by (simp add: with_refs_def)
  have "refresh_at W (with_refs s (a # as)) a = Inr (?p, with_refs s (a # as))"
    using refresh_at_fresh[OF a] p(2) by simp
  moreover obtain l where l: "post_nvl W ?p = Inr l" "post_fields A p l"
    using post_nvl_ok[OF assms, of ?p] by auto
  moreover have "store_vars W r ?p None = Inr (Inr l, r)" using l by (simp add: store_vars_def store_title_vars_def)
  moreover note putref_with_refs[OF p(1,3)]
  moreover obtain ls mt where "load_posts_loop W r (with_refs s as) as (vs @ [VT_NVL l]) (max m (uint (post_time p))) =
      Inr ((vs @ [VT_NVL l]) @ map VT_NVL ls, mt, r, s)" "list_all2 (\<lambda>a l. post_fields A (post_at s a) l) as ls"
    using Cons.IH[of "vs @ [VT_NVL l]" "max m (uint (post_time p))"] Cons.prems by auto
  moreover have "post_at s a = p" using p(1) by (simp add: post_at_def)
  ultimately show ?case by (intro exI[of _ "l # ls"] exI[of _ mt]) simp
qed simp

lemma load_posts_ok:
  assumes "set_laws W A" "vars_wf (req_vars r)" "\<forall>a\<in>set as. showable W s a"
  shows "\<exists>ls mt r'. load_posts W r (with_refs s as) as b = Inr (r', s) \<and>
    list_all2 (\<lambda>a l. post_fields A (post_at s a) l) as ls \<and>
    with_env A r (set_var ''moreposts'' (VT_INT (if b then 1 else 0)) (set_var ''lastupdate'' (VT_INT mt)
      (set_var ''posts'' (VT_ARRAY (map VT_NVL ls)) (req_env A r)))) r'"
proof -
  obtain ls mt where l: "load_posts_loop W r (with_refs s as) as [] 0 = Inr (map VT_NVL ls, mt, r, s)"
    "list_all2 (\<lambda>a l. post_fields A (post_at s a) l) as ls"
    using load_posts_loop_ok[OF assms(1,3), of r "[]" 0] by auto
  obtain r1 where r1: "var_array W ''posts'' (map VT_NVL ls) r = Inr r1"
    "with_env A r (set_var ''posts'' (VT_ARRAY (map VT_NVL ls)) (req_env A r)) r1"
    using var_env(3)[OF assms(1,2)] by blast
  obtain r2 where r2: "var_int W ''lastupdate'' (u64_of_int mt) r1 = Inr r2"
    "with_env A r1 (set_var ''lastupdate'' (VT_INT (u64_of_int mt)) (req_env A r1)) r2"
    using var_env(2)[OF assms(1)] with_env_wf[OF r1(2)] by blast
  obtain r3 where r3: "var_int W ''moreposts'' (if b then 1 else 0) r2 = Inr r3"
    "with_env A r2 (set_var ''moreposts'' (VT_INT (if b then 1 else 0)) (req_env A r2)) r3"
    using var_env(2)[OF assms(1)] with_env_wf[OF r2(2)] by blast
  have "we_mem W" using assms(1) by (simp add: set_laws_def)
  with l r1(1) r2(1) r3(1) have "load_posts W r (with_refs s as) as b = Inr (r3, s)" by (simp add: load_posts_def)
  moreover have "with_env A r (set_var ''moreposts'' (VT_INT (if b then 1 else 0)) (set_var ''lastupdate''
      (VT_INT (u64_of_int mt)) (set_var ''posts'' (VT_ARRAY (map VT_NVL ls)) (req_env A r)))) r3"
    using with_env_trans[OF with_env_trans[OF r1(2) r2(2)] r3(2)] with_env_wf[OF r1(2)] with_env_wf[OF r2(2)] by simp
  ultimately show ?thesis using l(2) by blast
qed

end
