(* ===== verification/DemoSite.thy ===== *)
theory DemoSite
  imports PostNvSpec "HOL-Library.Code_Target_Nat"
begin

text \<open>
  A small site on which the properties of the handlers are applied: one post in the index, made from the
  files of the environment of \<^verbatim>\<open>PostSpec\<close>, association lists as name-value lists, and a form a visitor
  may send.
\<close>

definition list_str :: "alist_nvlist \<Rightarrow> string \<Rightarrow> int + string" where
  "list_str l k = (case map_of (nvl_pairs l) k of None \<Rightarrow> Inl (- ENOENT) | Some (VT_STR s) \<Rightarrow> Inr s | Some _ \<Rightarrow> Inl (- 34))"

definition list_int :: "alist_nvlist \<Rightarrow> string \<Rightarrow> int + u64" where
  "list_int l k = (case map_of (nvl_pairs l) k of None \<Rightarrow> Inl (- ENOENT) | Some (VT_INT i) \<Rightarrow> Inr i | Some _ \<Rightarrow> Inl (- 34))"

definition demo_form :: alist_nvlist where
  "demo_form = NVList [(''x'', VT_STR []), (''d'', VT_INT 100000000000), (''v'', VT_INT 3), (''i'', VT_INT 1),
     (''e'', VT_STR ''a@b''), (''a'', VT_STR ''A''), (''c'', VT_STR ''hi''), (''u'', VT_STR [])]"

definition demo_nvq :: "alist_nvlist nvq_ops" where
  "demo_nvq = \<lparr>nvl_set_null_str = (\<lambda>l k. alist_set l k VT_NULL), nvl_lookup_str = list_str, nvl_lookup_int = list_int,
     nvl_exists = (\<lambda>l k. map_of (nvl_pairs l) k \<noteq> None),
     nvl_exists_type = (\<lambda>l k t. if map_option type_of (map_of (nvl_pairs l) k) = Some t then 0 else - ENOENT),
     nvl_convert = (\<lambda>l _ _. (0, l)), qstring_parse = (\<lambda>l s. if s = ''F'' then (0, demo_form) else (- 22, l)),
     SCGI_DOCUMENT_URI = ''DOCUMENT_URI'', SCGI_HTTP_USER_AGENT = ''HTTP_USER_AGENT'', SCGI_REMOTE_ADDR = ''REMOTE_ADDR''\<rparr>"

definition demo_web :: "(alist_nvlist, nat list) web_env" where
  "demo_web = \<lparr>we_posts = demo_posts, we_rb = list_rb, we_nvq = demo_nvq, we_templates = (\<lambda>_. None), we_str2u64 = (\<lambda>_. None),
     we_levels = 1, we_version = ''1'', we_time = 120000000000, we_secret = 6533,
     we_read_file_len = (\<lambda>p. if p = ''./web/wiki.png'' then Inr (''png'', 3) else Inl 2), we_fs = (\<lambda>_. 0), we_nonce = 7\<rparr>"

definition demo_site :: "(alist_nvlist, nat list) pindex" where
  "demo_site = \<lparr>posts = [100 \<mapsto> demo_loaded], globals = [0 \<mapsto> \<lparr>ge_id = 1, ge_post = 100, ge_time = 0, ge_by_tag = []\<rparr>],
     entries = [1 \<mapsto> \<lparr>ie_global = 0, ie_name = None, ie_type = ET_TIME\<rparr>], subs = Map.empty,
     index_global = [0], index_by_time = [1], index_by_tag = [], next_addr = 2, alloc_ok = (\<lambda>_. True)\<rparr>"

definition demo_request :: "(string \<times> alist_nvlist val) list \<Rightarrow> string option \<Rightarrow> string \<Rightarrow> alist_nvlist req" where
  "demo_request query body doc_uri =
    \<lparr>scgi = \<lparr>scgi_headers = NVList [(''DOCUMENT_URI'', VT_STR doc_uri), (''HTTP_USER_AGENT'', VT_STR ''U''), (''REMOTE_ADDR'', VT_STR ''::1'')],
       scgi_query = NVList query, scgi_body = body, resp_status = SCGI_STATUS_OK, resp_headers = NVList [],
       resp_body = None, resp_bodylen = 0\<rparr>,
     req_page = PAGE_INDEX, req_vars = \<lparr>scopes = Some (NVList []) # replicate 9 None, cur = 0\<rparr>, req_fmt = Some ''html'', index_stories = 10\<rparr>"

lemma demo_web_simps [simp]: "we_posts demo_web = demo_posts" "we_rb demo_web = list_rb" "we_nvq demo_web = demo_nvq"
  by (simp_all add: demo_web_def)

lemma map_of_filter_name: "map_of (filter (\<lambda>(n, _). n \<noteq> k) ps) = (map_of ps)(k := None)"
  by (induction ps) auto

lemma demo_set_laws: "set_laws demo_web alist_map"
  using alist_nvl_laws
  by (auto simp: set_laws_def demo_env demo_nvq_def nvl_laws_def alist_set_def alist_map_def alist_nvl_def
      demo_unset_def map_of_filter_name)

lemma demo_site_wf: "index_wf (\<lambda>t. t) demo_site"
  by (simp add: index_wf_def globals_ok_def entries_ok_def subs_ok_def addrs_ok_def demo_site_def demo_loaded_def new_post_def
      entry_global_def)

lemma demo_site_abs: "index_abs (\<lambda>t. t) demo_site None = [((0, 1), 100)]"
  by (simp add: index_abs_def view_def demo_site_def entry_addr_def entry_global_def ekey_def)

lemma demo_site_listing: "spec_listing demo_site [((0, 1), 100)] = [((0, 1), 100)]"
  by (simp add: spec_listing_def post_at_def demo_site_def demo_loaded_def)

lemma demo_fresh: "fresh demo_posts demo_loaded"
proof -
  have np: "\<not> post_preview (new_post 1 False (NVList []))" by (simp add: new_post_def)
  have c: "cache_law (pe_files demo_posts)" using demo_posts_laws by (simp add: post_laws_def)
  have "current demo_posts (post_files demo_loaded)" "pe_iter demo_posts (post_files demo_loaded) \<noteq> []" "\<not> post_preview demo_loaded"
    using refresh_ok[OF demo_posts_laws demo_refresh demo_must] np by simp_all
  then show ?thesis unfolding fresh_def by (intro must_refresh_current[OF c])
qed

lemma demo_showable: "showable demo_web demo_site 100"
  using demo_fresh by (simp add: showable_def demo_site_def demo_loaded_def new_post_def)

lemma demo_request_wf: "vars_wf (req_vars (demo_request q b u))"
  by (auto simp: vars_wf_def demo_request_def VAR_MAX_SCOPES_def)

text \<open>The same site with a printer for the metadata of the comment in the form.\<close>

definition demo_meta :: "alist_nvlist sexpr" where
  "demo_meta = meta_list (Some ''A'') (Some ''a@b'') ''1970-01-01 00:02'' ''::1'' None"

definition comment_sx :: "alist_nvlist sx_ops" where
  "comment_sx = demo_sx\<lparr>sexpr_dump := \<lambda>lv. if lv = demo_meta then Some ''K'' else None,
     sexpr_parse := \<lambda>t. if t = ''K'' then Inr demo_meta else sexpr_parse demo_sx t\<rparr>"

definition comment_web :: "(alist_nvlist, nat list) web_env" where
  "comment_web = demo_web\<lparr>we_posts := demo_posts\<lparr>pe_sx := comment_sx\<rparr>\<rparr>"

text \<open>The loops over the trees run by unfolding.\<close>

declare tree_walk.simps [code] skip_loop.simps [code] take_loop.simps [code] post_remove_all_filenames.simps [code]

end
