(* ===== verification/CommentSpec.thy ===== *)
theory CommentSpec
  imports DemoSite
begin

text \<open>
  Properties of submitting a comment: nothing is written unless every check of the form passes, a comment
  appears under its final name only when both of its files are complete, and it is not shown before
  somebody moderates it.
\<close>

section \<open>The form\<close>

text \<open>The fields the visitor sent, converted; none when the request has no usable body.\<close>

definition form_of :: "('n, 't) web_env \<Rightarrow> 'n req \<Rightarrow> 'n option" where
  "form_of W r =
     (case (scgi_body (scgi r), nvl_alloc (we_nvl W)) of
        (Some body, Some qs0) \<Rightarrow>
          (case qstring_parse (we_nvq W) qs0 body of (ret, qs1) \<Rightarrow>
             if ret \<noteq> 0 then None
             else case nvl_convert (we_nvq W) qs1 comment_convert False of (ret, qs) \<Rightarrow>
               if ret \<noteq> 0 then None else Some qs)
      | _ \<Rightarrow> None)"

definition think_time_ok :: "('n, 't) web_env \<Rightarrow> u64 \<Rightarrow> bool" where
  "think_time_ok W date \<longleftrightarrow>
     1000000000 * cf_comment_min_think (we_cfg W) \<le> we_time W - date \<and>
     we_time W - date \<le> 1000000000 * cf_comment_max_think (we_cfg W)"

definition human :: "('n, 't) web_env \<Rightarrow> 'n \<Rightarrow> bool" where
  "human W qs \<longleftrightarrow>
     nvl_lookup_str (we_nvq W) qs ''x'' = Inr '''' \<and>
     (\<exists>date. nvl_lookup_int (we_nvq W) qs ''d'' = Inr date \<and> think_time_ok W date) \<and>
     nvl_lookup_int (we_nvq W) qs ''v'' = Inr (cf_captcha_a (we_cfg W) + cf_captcha_b (we_cfg W))"

definition filled_in :: "('n, 't) web_env \<Rightarrow> 'n \<Rightarrow> string \<Rightarrow> bool" where
  "filled_in W qs name \<longleftrightarrow> (\<exists>t. nvl_lookup_str (we_nvq W) qs name = Inr t \<and> t \<noteq> [])"

lemma spam_check_human: "spam_check W qs = None \<longleftrightarrow> human W qs"
  by (auto simp: spam_check_def human_def think_time_ok_def Let_def not_less split: sum.splits if_splits)

lemma get_str_required:
  "get_str W qs name (Some e) = Inr x \<Longrightarrow> \<exists>t. x = Some t \<and> nvl_lookup_str (we_nvq W) qs name = Inr t \<and> t \<noteq> []"
  by (auto simp: get_str_def split: sum.splits if_splits)

lemma get_strings_required:
  assumes "get_strings W qs = Inr (email, author, comment, url)"
  shows "filled_in W qs ''e''" "filled_in W qs ''a''" "filled_in W qs ''c''" "\<exists>t. comment = Some t"
proof -
  from assms have g: "get_str W qs ''e'' (Some MISSING_EMAIL) = Inr email" "get_str W qs ''a'' (Some MISSING_NAME) = Inr author"
    "get_str W qs ''c'' (Some MISSING_CONTENT) = Inr comment"
    by (auto simp: get_strings_def rbind_eq_Inr)
  from get_str_required[OF g(1)] get_str_required[OF g(2)] get_str_required[OF g(3)]
  show "filled_in W qs ''e''" "filled_in W qs ''a''" "filled_in W qs ''c''" "\<exists>t. comment = Some t"
    unfolding filled_in_def by blast+
qed

section \<open>The operations on files\<close>

lemma fs_run_cases: "fs_run fs xs = (ok, ys) \<Longrightarrow>
    (ok \<longrightarrow> ys = xs \<and> (\<forall>x\<in>set xs. fs x = 0)) \<and>
    (\<not> ok \<longrightarrow> (\<exists>zs x us. ys = zs @ [x] \<and> xs = zs @ x # us \<and> (\<forall>z\<in>set zs. fs z = 0) \<and> fs x \<noteq> 0))"
proof (induction xs arbitrary: ys)
  case (Cons x xs)
  obtain ok' zs where r: "fs_run fs xs = (ok', zs)" by (cases "fs_run fs xs")
  show ?case
  proof (cases "fs x = 0")
    case True
    with Cons.prems r have e: "ok = ok'" "ys = x # zs" by simp_all
    show ?thesis
    proof (cases ok)
      case True
      with Cons.IH[of zs] r e \<open>fs x = 0\<close> show ?thesis by simp
    next
      case False
      with Cons.IH[of zs] r e obtain as y us where
        "zs = as @ [y]" "xs = as @ y # us" "\<forall>z\<in>set as. fs z = 0" "fs y \<noteq> 0" by auto
      with True e have "ys = (x # as) @ [y] \<and> x # xs = (x # as) @ y # us \<and> (\<forall>z\<in>set (x # as). fs z = 0) \<and> fs y \<noteq> 0" by simp
      with False show ?thesis by blast
    qed
  next
    case False
    with Cons.prems have "\<not> ok" "ys = [] @ [x] \<and> x # xs = [] @ x # xs \<and> (\<forall>z\<in>set []. fs z = 0) \<and> fs x \<noteq> 0" by simp_all
    then show ?thesis by blast
  qed
qed simp

lemma fs_run_prefix: "fs_run fs xs = (ok, ys) \<Longrightarrow> \<exists>k. ys = take k xs"
  using fs_run_cases[of fs xs ok ys] by (cases ok) (auto intro: exI[of _ "length ys"])

text \<open>The operations of a comment at a given place.\<close>

definition staged :: "string \<Rightarrow> string \<Rightarrow> string \<Rightarrow> fs_op list" where
  "staged base txt meta = [FS_mkdir (base @ ''W''), FS_write (base @ ''W/text.txt'') txt,
     FS_write (base @ ''W/meta.lisp'') meta, FS_rename (base @ ''W'') base]"

lemma staged_run:
  assumes "fs_run fs (staged b t m) = (ok, ops)"
  shows "if ok then ops = staged b t m \<and> (\<forall>x\<in>set ops. fs x = 0)
    else (\<forall>a c. FS_rename a c \<in> set ops \<longrightarrow> a = b @ ''W'' \<and> c = b \<and> ops = staged b t m \<and> (\<forall>x\<in>set (butlast ops). fs x = 0) \<and> fs (FS_rename a c) \<noteq> 0)"
  using assms by (auto simp: staged_def split: if_splits prod.splits)

lemma staged_rename: "FS_rename a c \<in> set (staged b t m) \<longleftrightarrow> a = b @ ''W'' \<and> c = b"
  by (simp add: staged_def)

lemma snprintf_short: "length (c_snprintf sz s) < sz - 1 \<Longrightarrow> c_snprintf sz s = s"
  by (auto simp: c_snprintf_def)

lemma comment_ops_staged:
  assumes "length (c_snprintf FILENAME_MAX (base @ ''W'')) < FILENAME_MAX - 1"
    and "length (c_snprintf FILENAME_MAX (c_snprintf FILENAME_MAX (base @ ''W'') @ ''/text.txt'')) < FILENAME_MAX - 1"
    and "length (c_snprintf FILENAME_MAX (c_snprintf FILENAME_MAX (base @ ''W'') @ ''/meta.lisp'')) < FILENAME_MAX - 1"
  shows "comment_ops base txt (Some m) = staged base txt m" "comment_ops base txt None = take 2 (staged base txt m)"
  using snprintf_short[OF assms(1)] snprintf_short[OF assms(2)] snprintf_short[OF assms(3)]
  by (simp_all add: comment_ops_def staged_def Let_def)

text \<open>What a call that touched files did.\<close>

lemma write_out_comment_ops:
  assumes "write_out_comment W r s pid email author url (Some body) = Inr (e, ops, r', s')" "ops \<noteq> [] \<or> e = None"
  obtains (whole) dir date ip m ok where "cf_data_dir (we_cfg W) = Some dir"
      "sexpr_dump (pe_sx (we_posts W)) (meta_list author email date ip url) = Some m"
      "fs_run (we_fs W) (staged (pending_base W dir pid) body m) = (ok, ops)" "e = None \<longleftrightarrow> ok"
    | (part) dir ok where "cf_data_dir (we_cfg W) = Some dir"
      "fs_run (we_fs W) (take 2 (staged (pending_base W dir pid) body [])) = (ok, ops)" "e \<noteq> None"
proof -
  obtain post r1 s1 where g: "get_post W r s pid None False = Inr (post, r1, s1)"
    using assms by (auto simp: write_out_comment_def rbind_eq_Inr)
  with assms obtain l where x: "post = Some (Inr l)"
    by (auto simp: write_out_comment_def split: option.splits sum.splits)
  from assms g x obtain dir where dir: "cf_data_dir (we_cfg W) = Some dir"
    by (auto simp: write_out_comment_def rbind_eq_Inr str_cstr_def split: option.splits)
  let ?base = "pending_base W dir pid"
  define date where "date = strftime ''%Y-%m-%d %H:%M'' (broken_down (uint (we_time W div 1000000000)))"
  from assms g x dir have len: "length (c_snprintf FILENAME_MAX (?base @ ''W'')) < FILENAME_MAX - 1"
    "length (c_snprintf FILENAME_MAX (c_snprintf FILENAME_MAX (?base @ ''W'') @ ''/text.txt'')) < FILENAME_MAX - 1"
    "length (c_snprintf FILENAME_MAX (c_snprintf FILENAME_MAX (?base @ ''W'') @ ''/meta.lisp'')) < FILENAME_MAX - 1"
    unfolding write_out_comment_def Let_def by (simp_all add: rbind_eq_Inr)
  from assms g x dir obtain ip where ip: "nvl_lookup_str (we_nvq W) (scgi_headers (scgi r1)) (SCGI_REMOTE_ADDR (we_nvq W)) = Inr ip"
    by (auto simp: write_out_comment_def Let_def rbind_eq_Inr split: sum.splits)
  define meta where "meta = prep_meta_sexpr (pe_sx (we_posts W)) author email date ip url"
  obtain ok ys where run: "fs_run (we_fs W) (comment_ops ?base body meta) = (ok, ys)"
    by (cases "fs_run (we_fs W) (comment_ops ?base body meta)")
  have r: "ops = ys" "e = (if ok \<and> meta \<noteq> None then None else Some INTERNAL_ERR)"
    using assms(1) g x dir len ip run by (simp_all add: write_out_comment_def Let_def meta_def date_def)
  show thesis
  proof (cases meta)
    case None
    have "fs_run (we_fs W) (take 2 (staged ?base body [])) = (ok, ops)"
      using run r(1) by (simp add: None comment_ops_staged(2)[OF len, of body "[]"])
    moreover have "e \<noteq> None" using r(2) None by simp
    ultimately show thesis by (rule part[OF dir])
  next
    case (Some m)
    have "fs_run (we_fs W) (staged ?base body m) = (ok, ops)"
      using run r(1) by (simp add: Some comment_ops_staged(1)[OF len])
    moreover have "sexpr_dump (pe_sx (we_posts W)) (meta_list author email date ip url) = Some m"
      using meta_def Some by (simp add: prep_meta_sexpr_def)
    moreover have "e = None \<longleftrightarrow> ok" using r(2) Some by simp
    ultimately show thesis by (intro whole[OF dir])
  qed
qed

lemma save_comment_ops:
  assumes "save_comment W r s = Inr (e, ops, r', s')" "ops \<noteq> [] \<or> e = None"
  obtains qs pid email author comment url where
    "nvl_exists_type (we_nvq W) (scgi_headers (scgi r)) (SCGI_HTTP_USER_AGENT (we_nvq W)) TSTR = 0"
    "form_of W r = Some qs" "human W qs" "get_postid W qs = Inr pid" "get_strings W qs = Inr (email, author, comment, url)"
    "write_out_comment W r s pid email author url comment = Inr (e, ops, r', s')"
proof -
  have "\<exists>qs pid email author comment url.
    nvl_exists_type (we_nvq W) (scgi_headers (scgi r)) (SCGI_HTTP_USER_AGENT (we_nvq W)) TSTR = 0 \<and>
    form_of W r = Some qs \<and> human W qs \<and> get_postid W qs = Inr pid \<and> get_strings W qs = Inr (email, author, comment, url) \<and>
    write_out_comment W r s pid email author url comment = Inr (e, ops, r', s')"
    using assms unfolding save_comment_def Let_def form_of_def
    by (auto simp: spam_check_human[symmetric] split: if_splits option.splits sum.splits prod.splits)
  with that show thesis by blast
qed

section \<open>Properties\<close>

text \<open>
  C31. Nothing is written for a request unless it names a user agent, its body parses as a form, the
  hidden field is empty, the time between loading the page and sending the form is within the bounds,
  the sum is right, and email, author and text are filled in; what is then done are the first operations
  of the fixed sequence that stages a comment in the directory of pending comments.
\<close>

theorem comment_checked:
  assumes "save_comment W r s = Inr (e, ops, r', s')" "ops \<noteq> []"
  shows "\<exists>qs pid dir txt meta k.
     nvl_exists_type (we_nvq W) (scgi_headers (scgi r)) (SCGI_HTTP_USER_AGENT (we_nvq W)) TSTR = 0 \<and>
     form_of W r = Some qs \<and> human W qs \<and> (\<forall>name\<in>{''e'', ''a'', ''c''}. filled_in W qs name) \<and>
     cf_data_dir (we_cfg W) = Some dir \<and> ops = take k (staged (pending_base W dir pid) txt meta)"
proof -
  from assms obtain qs pid email author comment url where
    f: "nvl_exists_type (we_nvq W) (scgi_headers (scgi r)) (SCGI_HTTP_USER_AGENT (we_nvq W)) TSTR = 0"
    "form_of W r = Some qs" "human W qs" and g: "get_strings W qs = Inr (email, author, comment, url)"
    and w: "write_out_comment W r s pid email author url comment = Inr (e, ops, r', s')"
    by (elim save_comment_ops) simp_all
  obtain t where "comment = Some t" using get_strings_required(4)[OF g] by blast
  with w have w': "write_out_comment W r s pid email author url (Some t) = Inr (e, ops, r', s')" by simp
  have ne: "ops \<noteq> [] \<or> e = None" using assms(2) by simp
  from w' ne obtain dir m k where d: "cf_data_dir (we_cfg W) = Some dir" "ops = take k (staged (pending_base W dir pid) t m)"
  proof (cases rule: write_out_comment_ops)
    case (whole dir date ip m ok)
    from fs_run_prefix[OF whole(3)] that[OF whole(1)] show thesis by blast
  next
    case (part dir ok)
    from fs_run_prefix[OF part(2)] that[OF part(1)] show thesis unfolding take_take by blast
  qed
  with f get_strings_required[OF g] show ?thesis by blast
qed

text \<open>
  C32. A comment appears under its final name at once or not at all: saving reports success exactly when
  the renaming into place happened, and then the directory renamed had been made and both files in it
  written without error.
\<close>

theorem comment_whole:
  assumes "save_comment W r s = Inr (e, ops, r', s')"
  shows "(e = None \<longleftrightarrow> (\<exists>a b. FS_rename a b \<in> set ops \<and> we_fs W (FS_rename a b) = 0)) \<and>
     (\<forall>a b. FS_rename a b \<in> set ops \<longrightarrow> a = b @ ''W'' \<and> (\<exists>txt meta. ops = staged b txt meta \<and>
        (\<forall>x\<in>set (butlast ops). we_fs W x = 0)))"
proof (cases "ops \<noteq> [] \<or> e = None")
  case False
  then show ?thesis by simp
next
  case True
  with assms obtain qs pid email author comment url where
    g: "get_strings W qs = Inr (email, author, comment, url)"
    and w: "write_out_comment W r s pid email author url comment = Inr (e, ops, r', s')"
    by (elim save_comment_ops) simp_all
  obtain t where "comment = Some t" using get_strings_required(4)[OF g] by blast
  with w have w': "write_out_comment W r s pid email author url (Some t) = Inr (e, ops, r', s')" by simp
  from w' True show ?thesis
  proof (cases rule: write_out_comment_ops)
    case (whole dir date ip m ok)
    note run = staged_run[OF whole(3)]
    show ?thesis
    proof (cases ok)
      case True
      with run whole(4) show ?thesis by (auto simp: staged_rename dest: in_set_butlastD)
    next
      case False
      with run whole(4) show ?thesis by auto
    qed
  next
    case (part dir ok)
    from fs_run_prefix[OF part(2)] obtain k where "ops = take k (take 2 (staged (pending_base W dir pid) t []))" by blast
    then have "set ops \<subseteq> set (take 2 (staged (pending_base W dir pid) t []))" by (simp only: set_take_subset)
    then have "FS_rename a b \<notin> set ops" for a b by (auto simp: staged_def)
    with part show ?thesis by simp
  qed
qed

text \<open>
  What is written and read back is the same value, and a lookup in a list of pairs finds the value of a
  pair with that key, whether keys are strings or symbols.
\<close>

definition sx_print_laws :: "'n sx_ops \<Rightarrow> bool" where
  "sx_print_laws S \<longleftrightarrow>
     (\<forall>lv m. sexpr_dump S lv = Some m \<longrightarrow> sexpr_parse S m = Inr lv) \<and>
     (\<forall>ps k v. alist_val S (cons_of ps) k = Some v \<longrightarrow>
        (\<exists>key. VT_CONS (Some key) (Some v) \<in> set ps \<and> (key = VT_STR k \<or> key = VT_SYM k)))"

lemma meta_not_moderated:
  assumes "sx_print_laws (pe_sx E)" "sexpr_dump (pe_sx E) (meta_list author email date ip url) = Some m"
  shows "\<exists>lv. sexpr_parse (pe_sx E) m = Inr lv \<and> \<not> moderated E lv"
proof -
  have "alist_val (pe_sx E) (meta_list author email date ip url) ''moderated'' \<in> {None, Some (VT_BOOL False)}"
  proof (cases "alist_val (pe_sx E) (meta_list author email date ip url) ''moderated''")
    case (Some v)
    with assms(1) obtain key where "VT_CONS (Some key) (Some v) \<in> set
       [VT_CONS (Some (VT_STR ''author'')) (map_option VT_STR author), VT_CONS (Some (VT_STR ''email'')) (map_option VT_STR email),
        VT_CONS (Some (VT_STR ''time'')) (Some (VT_STR date)), VT_CONS (Some (VT_STR ''ip'')) (Some (VT_STR ip)),
        VT_CONS (Some (VT_STR ''url'')) (map_option VT_STR url), VT_CONS (Some (VT_STR ''moderated'')) (Some (VT_BOOL False))]"
      "key = VT_STR ''moderated'' \<or> key = VT_SYM ''moderated''"
      unfolding sx_print_laws_def meta_list_def by blast
    then have "v = VT_BOOL False" by auto
    with Some show ?thesis by simp
  qed simp
  with assms show ?thesis by (auto simp: sx_print_laws_def moderated_def)
qed

text \<open>
  C33. A comment is held for moderation: whatever the visitor sends, if the metadata that saving a comment
  wrote become the metadata of a comment of a post unchanged, loading the post does not show the comment.
\<close>

theorem comment_held:
  assumes "sx_print_laws (pe_sx E)" "pe_sx (we_posts W) = pe_sx E"
    and "save_comment W r s = Inr (e, ops, r', s')" "FS_write (d @ ''/meta.lisp'') m \<in> set ops"
    and "comment_path E (post_id p) i ''meta.lisp'' = Inr path" "fe_cache_get (pe_files E) path = Inr (m, rv)"
    and "post_add_comment E p i = Inr q"
  shows "post_comments q = post_comments p \<and> post_numcom q = post_numcom p"
proof -
  have ne: "ops \<noteq> [] \<or> e = None" using assms(4) by auto
  with assms(3) obtain qs pid email author comment url where
    g: "get_strings W qs = Inr (email, author, comment, url)"
    and w: "write_out_comment W r s pid email author url comment = Inr (e, ops, r', s')"
    by (elim save_comment_ops) simp_all
  obtain t where "comment = Some t" using get_strings_required(4)[OF g] by blast
  with w have w': "write_out_comment W r s pid email author url (Some t) = Inr (e, ops, r', s')" by simp
  from w' ne have "\<exists>date ip. sexpr_dump (pe_sx E) (meta_list author email date ip url) = Some m"
  proof (cases rule: write_out_comment_ops)
    case (whole dir date ip m' ok)
    from fs_run_prefix[OF whole(3)] assms(4) have "FS_write (d @ ''/meta.lisp'') m \<in> set (staged (pending_base W dir pid) t m')"
      by (metis in_set_takeD)
    then have "m = m'" by (auto simp: staged_def append_eq_append_conv2 append_eq_Cons_conv Cons_eq_append_conv)
    with whole(2) assms(2) show ?thesis by auto
  next
    case (part dir ok)
    from fs_run_prefix[OF part(2)] assms(4) have "FS_write (d @ ''/meta.lisp'') m \<in> set (take 2 (staged (pending_base W dir pid) t []))"
      by (metis in_set_takeD)
    then show ?thesis by (auto simp: staged_def append_eq_append_conv2 append_eq_Cons_conv Cons_eq_append_conv)
  qed
  then obtain lv where lv: "sexpr_parse (pe_sx E) m = Inr lv" "\<not> moderated E lv" using meta_not_moderated[OF assms(1)] by blast
  obtain x p1 where g: "post_get_cached_file (pe_files E) p path = (x, p1)"
    by (cases "post_get_cached_file (pe_files E) p path")
  with assms(5,7) obtain m' where m': "x = Inr m'" by (cases x) (auto simp: post_add_comment_def)
  with g cached_file_Inr assms(6) have "x = Inr m" by fastforce
  with g assms(5,7) lv have "q = p1" by (simp add: post_add_comment_def)
  with get_cached_file_same[OF g] show ?thesis by (auto simp: same_post_def)
qed

lemma cons_find_of: "cons_find (cons_of ps) k = Some v \<Longrightarrow> \<exists>key. VT_CONS (Some key) (Some v) \<in> set ps \<and> (key = VT_STR k \<or> key = VT_SYM k)"
proof (induction ps)
  case (Cons x xs)
  have "cons_find (cons_of xs) k = Some v \<Longrightarrow> ?case" using Cons.IH by auto
  moreover have "\<exists>y w. x = VT_CONS (Some (VT_SYM y)) w \<and> y = k \<and> w = Some v \<or> cons_find (cons_of xs) k = Some v"
  proof (cases x)
    case (VT_CONS a b)
    show ?thesis
    proof (cases a)
      case (Some y)
      with VT_CONS Cons.prems show ?thesis by (cases y) (auto split: if_splits)
    qed (use VT_CONS Cons.prems in simp)
  qed (use Cons.prems in simp_all)
  ultimately show ?case by auto
qed simp

lemma comment_sx_laws: "sx_print_laws comment_sx"
proof -
  have "alist_val comment_sx = cons_find" by (simp add: comment_sx_def demo_sx_simps)
  then show ?thesis by (auto simp: sx_print_laws_def comment_sx_def dest: cons_find_of)
qed

text \<open>Saving the comment of the form succeeds.\<close>

lemma demo_pending: "pending_base comment_web ''./data'' 1 = ''./data/pending-comments/1-00000078.00000000.00007''"
  by code_simp

lemma demo_date: "strftime ''%Y-%m-%d %H:%M'' (broken_down (uint (we_time comment_web div 1000000000))) = ''1970-01-01 00:02''"
  by code_simp

lemma demo_write:
  obtains r' s' where "write_out_comment comment_web (demo_request [] (Some ''F'') ''/'') demo_site 1 (Some ''a@b'') (Some ''A'') None (Some ''hi'') =
     Inr (None, staged ''./data/pending-comments/1-00000078.00000000.00007'' ''hi'' ''K'', r', s')"
proof -
  let ?r = "demo_request [] (Some ''F'') ''/''"
  have "case get_post comment_web ?r demo_site 1 None False of
      Inr (x, r1, _) \<Rightarrow> (case x of Some (Inr _) \<Rightarrow> list_str (scgi_headers (scgi r1)) ''REMOTE_ADDR'' = Inr ''::1'' | _ \<Rightarrow> False)
    | Inl _ \<Rightarrow> False" by code_simp
  then obtain l r1 s1 where g: "get_post comment_web ?r demo_site 1 None False = Inr (Some (Inr l), r1, s1)"
    "list_str (scgi_headers (scgi r1)) ''REMOTE_ADDR'' = Inr ''::1''"
    by (auto split: sum.splits option.splits) (metis sum.exhaust)+
  have w: "cf_data_dir (we_cfg comment_web) = Some ''./data''" "we_nvq comment_web = demo_nvq" "we_fs comment_web = (\<lambda>_. 0)"
    "pe_sx (we_posts comment_web) = comment_sx"
    by (simp_all add: comment_web_def demo_env demo_web_def)
  have q: "nvl_lookup_str demo_nvq = list_str" "SCGI_REMOTE_ADDR demo_nvq = ''REMOTE_ADDR''" by (simp_all add: demo_nvq_def)
  have m: "prep_meta_sexpr comment_sx (Some ''A'') (Some ''a@b'') ''1970-01-01 00:02'' ''::1'' None = Some ''K''"
    by (simp add: prep_meta_sexpr_def comment_sx_def demo_meta_def)
  have "write_out_comment comment_web ?r demo_site 1 (Some ''a@b'') (Some ''A'') None (Some ''hi'') =
     Inr (None, staged ''./data/pending-comments/1-00000078.00000000.00007'' ''hi'' ''K'', r1, s1)"
    unfolding write_out_comment_def g(1) rbind_Inr prod.case option.case sum.case Let_def w str_cstr_simps demo_pending demo_date q g(2) m
    by (simp add: comment_ops_def staged_def c_snprintf_def FILENAME_MAX_def Let_def)
  with that show thesis by blast
qed

lemma comment_saved:
  obtains r' s' where "save_comment comment_web (demo_request [] (Some ''F'') ''/'') demo_site =
     Inr (None, staged ''./data/pending-comments/1-00000078.00000000.00007'' ''hi'' ''K'', r', s')"
proof -
  let ?r = "demo_request [] (Some ''F'') ''/''"
  have s: "spam_check comment_web demo_form = None" "get_postid comment_web demo_form = Inr 1"
    "get_strings comment_web demo_form = Inr (Some ''a@b'', Some ''A'', Some ''hi'', None)" by code_simp+
  have h: "nvl_exists_type (we_nvq comment_web) (scgi_headers (scgi ?r)) (SCGI_HTTP_USER_AGENT (we_nvq comment_web)) TSTR = 0"
    "nvl_exists_type (we_nvq comment_web) (scgi_headers (scgi ?r)) (SCGI_REMOTE_ADDR (we_nvq comment_web)) TSTR = 0"
    "scgi_body (scgi ?r) = Some ''F''" "nvl_alloc (we_nvl comment_web) = Some (NVList [])"
    "qstring_parse (we_nvq comment_web) (NVList []) ''F'' = (0, demo_form)"
    "nvl_convert (we_nvq comment_web) demo_form comment_convert False = (0, demo_form)"
    by (simp_all add: comment_web_def demo_nvq_def demo_request_def demo_env alist_nvl_def)
  obtain r' s' where "write_out_comment comment_web ?r demo_site 1 (Some ''a@b'') (Some ''A'') None (Some ''hi'') =
     Inr (None, staged ''./data/pending-comments/1-00000078.00000000.00007'' ''hi'' ''K'', r', s')" using demo_write by metis
  then have "save_comment comment_web ?r demo_site =
     Inr (None, staged ''./data/pending-comments/1-00000078.00000000.00007'' ''hi'' ''K'', r', s')"
    unfolding save_comment_def Let_def h by (simp add: h s)
  with that show thesis by blast
qed

theorem comment_checked_witness:
  "\<exists>qs. form_of comment_web (demo_request [] (Some ''F'') ''/'') = Some qs \<and> human comment_web qs"
proof -
  from comment_saved obtain r' s' where run: "save_comment comment_web (demo_request [] (Some ''F'') ''/'') demo_site =
     Inr (None, staged ''./data/pending-comments/1-00000078.00000000.00007'' ''hi'' ''K'', r', s')" by metis
  from comment_checked[OF run] show ?thesis by (auto simp: staged_def)
qed

theorem comment_whole_witness:
  "\<exists>e ops r' s'. save_comment comment_web (demo_request [] (Some ''F'') ''/'') demo_site = Inr (e, ops, r', s') \<and>
     (\<exists>b t m. ops = staged b t m) \<and> e = None"
proof -
  from comment_saved obtain r' s' where run: "save_comment comment_web (demo_request [] (Some ''F'') ''/'') demo_site =
     Inr (None, staged ''./data/pending-comments/1-00000078.00000000.00007'' ''hi'' ''K'', r', s')" by metis
  from comment_whole[OF run] obtain a b where "FS_rename a b \<in> set (staged ''./data/pending-comments/1-00000078.00000000.00007'' ''hi'' ''K'')"
    by auto
  with comment_whole[OF run] run show ?thesis by blast
qed

theorem comment_held_witness:
  "\<exists>q. post_add_comment (demo_posts\<lparr>pe_sx := comment_sx, pe_files := (pe_files demo_posts)\<lparr>fe_cache_get := \<lambda>_. Inr (''K'', 1)\<rparr>\<rparr>)
     demo_loaded 3 = Inr q \<and> post_comments q = [demo_comment 1]"
proof -
  let ?E = "demo_posts\<lparr>pe_sx := comment_sx, pe_files := (pe_files demo_posts)\<lparr>fe_cache_get := \<lambda>_. Inr (''K'', 1)\<rparr>\<rparr>"
  have "case post_add_comment ?E demo_loaded 3 of Inr _ \<Rightarrow> True | Inl _ \<Rightarrow> False" by code_simp
  then obtain q where q: "post_add_comment ?E demo_loaded 3 = Inr q" by (auto split: sum.splits)
  have "case comment_path ?E (post_id demo_loaded) 3 ''meta.lisp'' of Inr _ \<Rightarrow> True | Inl _ \<Rightarrow> False" by code_simp
  then obtain path where path: "comment_path ?E (post_id demo_loaded) 3 ''meta.lisp'' = Inr path" by (auto split: sum.splits)
  have "sx_print_laws (pe_sx ?E)" "pe_sx (we_posts comment_web) = pe_sx ?E" "fe_cache_get (pe_files ?E) path = Inr (''K'', 1)"
    using comment_sx_laws by (simp_all add: comment_web_def)
  moreover obtain r' s' where "save_comment comment_web (demo_request [] (Some ''F'') ''/'') demo_site =
     Inr (None, staged ''./data/pending-comments/1-00000078.00000000.00007'' ''hi'' ''K'', r', s')" using comment_saved by metis
  moreover have "FS_write (''./data/pending-comments/1-00000078.00000000.00007W'' @ ''/meta.lisp'') ''K'' \<in>
     set (staged ''./data/pending-comments/1-00000078.00000000.00007'' ''hi'' ''K'')" by (simp add: staged_def)
  ultimately have "post_comments q = post_comments demo_loaded"
    using comment_held[of ?E comment_web] path q by blast
  with q show ?thesis by (simp add: demo_loaded_def)
qed

end
