(* ===== verification/Months.thy ===== *)
theory Months
  imports CTime
begin

text \<open>
  The first second of a month compared with the calendar fields of a time: a time is at or after the
  start of a month exactly when its month, counted from year 0, is that month or a later one.
\<close>

definition month_of :: "int \<Rightarrow> int" where
  "month_of ts = 12 * (tm_year (broken_down ts) + 1900) + tm_mon (broken_down ts) + 1"

definition month_day :: "int \<Rightarrow> int \<Rightarrow> int" where
  "month_day y m = days_before_year y + sum_list (take (nat (m - 1)) (month_days y))"

lemma month_start_day: "1 \<le> m \<Longrightarrow> m \<le> 12 \<Longrightarrow> month_start y m = 86400 * month_day y m"
  by (simp add: month_start_def mktime_def tm_zero_def month_day_def Let_def)

lemma days_before_year_le: "y < z \<Longrightarrow> days_before_year y + year_days y \<le> days_before_year z"
proof (induction z rule: int_gr_induct)
  case base
  then show ?case by (simp add: days_before_year_Suc)
next
  case (step z)
  then show ?case using days_before_year_Suc[of z] year_days_pos(1)[of z] by linarith
qed

lemma sum_take_le: "i \<le> j \<Longrightarrow> sum_list (take i (month_days y)) \<le> sum_list (take j (month_days y))"
proof -
  assume "i \<le> j"
  then have "take j (month_days y) = take i (month_days y) @ take (j - i) (drop i (month_days y))"
    by (metis add_diff_inverse_nat not_le take_add)
  moreover have "0 \<le> sum_list (take (j - i) (drop i (month_days y)))"
    using month_days_pos[of _ y] by (intro sum_list_nonneg) (meson in_set_dropD in_set_takeD less_imp_le)
  ultimately show ?thesis by simp
qed

lemma sum_take_Suc: "i < 12 \<Longrightarrow> sum_list (take (Suc i) (month_days y)) = sum_list (take i (month_days y)) + month_days y ! i"
  by (simp add: take_Suc_conv_app_nth)

lemma month_day_range: "0 \<le> month_day y m - days_before_year y" "month_day y m - days_before_year y \<le> year_days y"
  using sum_take_le[of 0 "nat (m - 1)" y] sum_take_le[of "nat (m - 1)" "max 12 (nat (m - 1))" y]
  by (simp_all add: month_day_def sum_month_days)

lemma month_day_le:
  assumes "1 \<le> m" "m \<le> 12"
  shows "month_day y m \<le> ts div 86400 \<longleftrightarrow> 12 * y + m \<le> month_of ts"
proof -
  obtain Y yd where Y: "find_year 1970 (ts div 86400) = (Y, yd)" by (cases "find_year 1970 (ts div 86400)")
  obtain M md where M: "find_month (month_days Y) yd = (M, md)" by (cases "find_month (month_days Y) yd")
  from find_year_spec[OF Y] have yd: "days_before_year Y + yd = ts div 86400" "0 \<le> yd" "yd < year_days Y"
    by (simp_all add: days_before_1970)
  from find_month_spec[OF M] yd have md: "0 \<le> M" "M < 12" "sum_list (take (nat M) (month_days Y)) + md = yd"
    "0 \<le> md" "md < month_days Y ! nat M" by (simp_all add: sum_month_days)
  have mo: "month_of ts = 12 * Y + M + 1" by (simp add: month_of_def broken_down_fields[OF Y M])
  consider "y < Y" | "Y < y" | "y = Y" by linarith
  then show ?thesis
  proof cases
    case 1
    then have "12 * y + 12 \<le> 12 * Y" by linarith
    with 1 show ?thesis
      using days_before_year_le[OF 1] month_day_range(2)[of y m] yd md(1) assms mo by linarith
  next
    case 2
    then have "12 * Y + 12 \<le> 12 * y" by linarith
    with 2 show ?thesis
      using days_before_year_le[OF 2] month_day_range(1)[of y m] yd md(2) assms mo by linarith
  next
    case 3
    have "sum_list (take (nat (m - 1)) (month_days Y)) \<le> yd \<longleftrightarrow> m - 1 \<le> M"
    proof
      assume "m - 1 \<le> M"
      then have "nat (m - 1) \<le> nat M" by simp
      from sum_take_le[OF this, of Y] md(3,4) show "sum_list (take (nat (m - 1)) (month_days Y)) \<le> yd" by linarith
    next
      assume le: "sum_list (take (nat (m - 1)) (month_days Y)) \<le> yd"
      show "m - 1 \<le> M"
      proof (rule ccontr)
        assume "\<not> m - 1 \<le> M"
        then have "Suc (nat M) \<le> nat (m - 1)" using md(1) by linarith
        from sum_take_le[OF this, of Y] sum_take_Suc[of "nat M" Y] md(1,2,3,5) le show False by (simp add: nat_less_iff)
      qed
    qed
    with 3 yd(1) mo show ?thesis by (simp add: month_day_def) linarith
  qed
qed

text \<open>The boundary of a month on the scale of seconds.\<close>

lemma month_start_le:
  assumes "1 \<le> m" "m \<le> 12"
  shows "month_start y m \<le> ts \<longleftrightarrow> 12 * y + m \<le> month_of ts"
proof -
  have "86400 * k \<le> ts \<longleftrightarrow> k \<le> ts div 86400" for k by linarith
  then show ?thesis unfolding month_start_day[OF assms] month_day_le[OF assms, symmetric] .
qed

lemma month_start_range:
  assumes "1970 \<le> y" "y \<le> 2100" "1 \<le> m" "m \<le> 12"
  shows "0 \<le> month_start y m \<and> month_start y m < 2 ^ 32"
proof -
  have "0 \<le> days_before_year y"
    using days_before_year_le[of 1970 y] year_days_pos(1)[of 1970] assms(1) days_before_1970 by (cases "y = 1970") simp_all
  moreover have "days_before_year y \<le> days_before_year 2100"
    using days_before_year_le[of y 2100] year_days_pos(1)[of y] assms(2) by (cases "y = 2100") simp_all
  moreover have "days_before_year 2100 = 47482" by (simp add: days_before_year_def)
  ultimately show ?thesis
    using month_day_range[of y m] year_days_pos(2)[of y] unfolding month_start_day[OF assms(3,4)] by simp
qed

end
