(* ===== verification/PageSpec.thy ===== *)
theory PageSpec
  imports DemoSite Months
begin

text \<open>
  Properties of the pages that list posts: which posts a page shows, which month an archive page covers,
  and which page numbers the arithmetic of the pages supports.
\<close>

section \<open>Paging\<close>

lemma sint_of_int32: "0 \<le> k \<Longrightarrow> k \<le> INT_MAX \<Longrightarrow> sint (word_of_int k :: u32) = k"
  by (simp add: signed_of_int signed_take_bit_int_eq_self)

lemma skip_of_exact:
  assumes "0 \<le> pg" "0 \<le> n" "pg * n \<le> INT_MAX"
  shows "skip_of pg n = pg * n"
proof -
  have "(word_of_int pg * word_of_int n :: u32) = word_of_int (pg * n)" by simp
  moreover have "sint (word_of_int (pg * n) :: u32) = pg * n" using assms by (intro sint_of_int32) simp_all
  ultimately show ?thesis by (simp only: skip_of_def)
qed

lemma page_number_range: "0 \<le> get_page_number W r \<and> get_page_number W r \<le> INT_MAX"
  by (auto simp: get_page_number_def split: sum.splits)

text \<open>The listing of a page: of the listed posts in order, the filtered rest after the pages before it.\<close>

definition page_of :: "('n, 't) pindex \<Rightarrow> ('n post \<Rightarrow> bool) option \<Rightarrow> int \<Rightarrow> int \<Rightarrow> abs_view \<Rightarrow> abs_view" where
  "page_of s pred pg n v =
     take (nat n) (filter (\<lambda>(_, a). passes pred (post_at s a)) (drop (nat (pg * n)) (spec_listing s v)))"

lemma set_page_of: "set (page_of s pred pg n v) \<subseteq> set v"
  by (auto simp: page_of_def spec_listing_def dest!: in_set_takeD in_set_dropD)

lemma page_of_snd: "map snd (page_of s pred pg n v) =
    take (nat n) (filter (\<lambda>a. passes pred (post_at s a)) (drop (nat (pg * n)) (map snd (spec_listing s v))))"
proof -
  have "filter Q (map snd xs) = map snd (filter (\<lambda>(_, a). Q a) xs)" for Q and xs :: abs_view
    by (induction xs) auto
  then show ?thesis by (simp add: page_of_def drop_map take_map)
qed

text \<open>The page the handlers load, with the variables they set.\<close>

lemma page_posts_shown:
  assumes "rb_laws (we_rb W) T" "index_wf T s" "set_laws W A" "vars_wf (req_vars r)" "ref_blind pred"
    and "pred_option cstring tag" "0 < index_stories r" "index_stories r \<le> INT_MAX" "0 \<le> pg"
    and "pg * index_stories r \<le> INT_MAX" "\<forall>(_, a)\<in>set (index_abs T s tag). showable W s a"
    and "vis = page_of s pred pg (index_stories r) (index_abs T s tag)"
  obtains ls r' where "page_posts W r s tag pred pg = Inr (r', s)"
    "list_all2 (\<lambda>(_, a) l. post_fields A (post_at s a) l) vis ls"
    "env_lookup (req_env A r') ''posts'' = Some (VT_ARRAY (map VT_NVL ls))"
    "env_lookup (req_env A r') ''moreposts'' = Some (VT_INT (if length vis = nat (index_stories r) then 1 else 0))"
    "r' = r\<lparr>req_vars := req_vars r'\<rparr>"
proof -
  let ?n = "index_stories r"
  note vis_def = assms(12)
  have "\<And>t. tag = Some t \<Longrightarrow> cstring t" using assms(6) by simp
  from get_posts_eq[OF assms(1,2,5) this _ assms(10) _ assms(8), where cap = "nat ?n"] have
    g: "index_get_posts (we_rb W) (nat ?n) s tag pred (skip_of pg ?n) ?n = Some (Inr (map snd vis, with_refs s (map snd vis)))"
    using assms(7,9,10) by (simp add: skip_of_exact Let_def listed_posts_abs vis_def page_of_snd)
  have "\<forall>a\<in>set (map snd vis). showable W s a"
    using assms(11) set_page_of[of s pred pg ?n "index_abs T s tag"] by (fastforce simp: vis_def)
  from load_posts_ok[OF assms(3,4) this, of "int (length vis) = ?n"] obtain ls mt r' where
    l: "load_posts W r (with_refs s (map snd vis)) (map snd vis) (int (length vis) = ?n) = Inr (r', s)"
    "list_all2 (\<lambda>a l. post_fields A (post_at s a) l) (map snd vis) ls"
    "with_env A r (set_var ''moreposts'' (VT_INT (if int (length vis) = ?n then 1 else 0)) (set_var ''lastupdate'' (VT_INT mt)
      (set_var ''posts'' (VT_ARRAY (map VT_NVL ls)) (req_env A r)))) r'" by blast
  have "page_posts W r s tag pred pg = Inr (r', s)" using assms(7) l(1) by (simp add: page_posts_def Let_def g)
  moreover have "list_all2 (\<lambda>(_, a) l. post_fields A (post_at s a) l) vis ls"
    using l(2) by (simp add: list.rel_map case_prod_unfold)
  moreover have "env_lookup (req_env A r') ''posts'' = Some (VT_ARRAY (map VT_NVL ls))"
    "env_lookup (req_env A r') ''moreposts'' = Some (VT_INT (if length vis = nat ?n then 1 else 0))" "r' = r\<lparr>req_vars := req_vars r'\<rparr>"
    using l(3) assms(7) unfolding with_env_def by (auto simp: set_var_def nat_eq_iff2)
  ultimately show ?thesis by (rule that)
qed

text \<open>
  C29. A page of posts shows what the abstract index says: on a well-formed index whose posts are up to
  date, the variable \<^verbatim>\<open>posts\<close> becomes the list of name-value lists of the listed posts of the page, newest
  first, with their ids, titles, bodies and tags, \<^verbatim>\<open>moreposts\<close> tells whether the page is full, the rest of
  the request stays as it is, and the index is left as it was, every reference taken given back.
\<close>

theorem page_lists_posts:
  assumes "rb_laws (we_rb W) T" "index_wf T s" "set_laws W A" "vars_wf (req_vars r)" "ref_blind pred"
    and "pred_option cstring tag" "0 < index_stories r" "index_stories r \<le> INT_MAX" "0 \<le> pg"
    and "pg * index_stories r \<le> INT_MAX" "\<forall>(_, a)\<in>set (index_abs T s tag). showable W s a"
  shows "let shown = page_of s pred pg (index_stories r) (index_abs T s tag)
    in \<exists>ls r'. page_posts W r s tag pred pg = Inr (r', s) \<and>
      list_all2 (\<lambda>(_, a) l. post_fields A (post_at s a) l) shown ls \<and>
      env_lookup (req_env A r') ''posts'' = Some (VT_ARRAY (map VT_NVL ls)) \<and>
      env_lookup (req_env A r') ''moreposts'' = Some (VT_INT (if length shown = nat (index_stories r) then 1 else 0)) \<and>
      r' = r\<lparr>req_vars := req_vars r'\<rparr> \<and> newest_first shown"
proof -
  define shown where "shown = page_of s pred pg (index_stories r) (index_abs T s tag)"
  obtain ls r' where p: "page_posts W r s tag pred pg = Inr (r', s)"
    "list_all2 (\<lambda>(_, a) l. post_fields A (post_at s a) l) shown ls"
    "env_lookup (req_env A r') ''posts'' = Some (VT_ARRAY (map VT_NVL ls))"
    "env_lookup (req_env A r') ''moreposts'' = Some (VT_INT (if length shown = nat (index_stories r) then 1 else 0))"
    "r' = r\<lparr>req_vars := req_vars r'\<rparr>"
    using page_posts_shown[OF assms shown_def] by blast
  moreover have "newest_first shown"
    using listing_newest_first[OF index_abs_sorted[OF assms(2), of tag]]
    by (auto simp: newest_first_def shown_def page_of_def intro: sorted_wrt_take sorted_wrt_filter sorted_wrt_drop)
  ultimately show ?thesis unfolding shown_def[symmetric] Let_def by blast
qed

theorem page_lists_posts_witness:
  "\<exists>l r'. page_posts demo_web (demo_request [] None ''/'') demo_site None None 0 = Inr (r', demo_site) \<and>
     env_lookup (req_env alist_map r') ''posts'' = Some (VT_ARRAY [VT_NVL l]) \<and> alist_map l ''id'' = Some (VT_INT 1) \<and>
     alist_map l ''tags'' = Some (VT_ARRAY [VT_STR ''a'', VT_STR ''b''])"
proof -
  let ?r = "demo_request [] None ''/''"
  have n: "index_stories ?r = 10" by (simp add: demo_request_def)
  have b: "ref_blind (None :: (alist_nvlist post \<Rightarrow> bool) option)" by (simp add: ref_blind_def)
  have p: "page_of demo_site None 0 10 [((0, 1), 100)] = [((0, 1), 100)]"
    unfolding page_of_def demo_site_listing by (simp add: passes_def)
  have f: "post_at demo_site 100 = demo_loaded" by (simp add: post_at_def demo_site_def)
  from page_lists_posts[of demo_web "\<lambda>t. t" demo_site alist_map ?r None None 0] show ?thesis
    using list_rb_laws demo_site_wf demo_set_laws demo_request_wf b demo_showable
    by (auto simp: n demo_site_abs p f list_all2_Cons1 post_fields_def demo_loaded_def new_post_def)
qed

section \<open>Which page shows a post\<close>

lemma mem_take_filter:
  "distinct xs \<Longrightarrow> j < length xs \<Longrightarrow> xs ! j \<in> set (take n (filter P xs)) \<longleftrightarrow> P (xs ! j) \<and> length (filter P (take j xs)) < n"
proof (induction xs arbitrary: j n)
  case (Cons x xs)
  show ?case
  proof (cases j)
    case 0
    with Cons.prems show ?thesis by (cases n) (auto dest: in_set_takeD)
  next
    case (Suc i)
    with Cons.prems have i: "i < length xs" "xs ! i \<noteq> x" "distinct xs" by auto
    with Cons.IH[OF i(3,1)] Suc show ?thesis by (cases n) auto
  qed
qed simp

text \<open>The posts before position \<open>j\<close> of a listing, from the start of a page on, that the page selects.\<close>

definition selected_before :: "('n, 't) pindex \<Rightarrow> ('n post \<Rightarrow> bool) option \<Rightarrow> nat \<Rightarrow> nat \<Rightarrow> abs_view \<Rightarrow> nat" where
  "selected_before s pred start j v = length (filter (\<lambda>(_, a). passes pred (post_at s a)) (drop start (take j v)))"

lemma mem_page:
  assumes "distinct L" "j < length L"
  shows "L ! j \<in> set (take n (filter (\<lambda>(_, a). passes pred (post_at s a)) (drop k L))) \<longleftrightarrow>
    passes pred (post_at s (snd (L ! j))) \<and> k \<le> j \<and> selected_before s pred k j L < n"
proof (cases "k \<le> j")
  case True
  let ?P = "\<lambda>(_, a). passes pred (post_at s a)"
  have nth: "drop k L ! (j - k) = L ! j" using True assms(2) by simp
  have "distinct (drop k L)" "j - k < length (drop k L)" using assms True by simp_all
  from mem_take_filter[OF this, of n ?P] have
    "L ! j \<in> set (take n (filter ?P (drop k L))) \<longleftrightarrow> ?P (L ! j) \<and> length (filter ?P (drop k (take j L))) < n"
    unfolding nth drop_take .
  with True show ?thesis unfolding selected_before_def by (simp add: case_prod_unfold)
next
  case False
  have "L ! j \<notin> set (drop k L)"
  proof
    assume "L ! j \<in> set (drop k L)"
    then obtain i where "i < length L - k" "L ! j = L ! (k + i)" by (auto simp: in_set_conv_nth)
    with assms False show False by (simp add: nth_eq_iff_index_eq)
  qed
  with False show ?thesis by (auto dest!: in_set_takeD)
qed

lemma page_div:
  assumes "0 < (n::nat)"
  shows "q * n \<le> j \<and> j - q * n < n \<longleftrightarrow> j div n = q"
proof
  assume "q * n \<le> j \<and> j - q * n < n"
  then show "j div n = q" by (intro div_nat_eqI) (auto simp: algebra_simps)
next
  assume q: "j div n = q"
  have "j - j div n * n = j mod n" by (rule minus_div_mult_eq_mod)
  with q assms show "q * n \<le> j \<and> j - q * n < n" using div_times_less_eq_dividend[of j n] by simp
qed

lemma selected_before_small:
  assumes "j div n = pg" "0 < n"
  shows "selected_before s pred (pg * n) j v < n"
proof -
  have "j < pg * n + n" using assms by (metis add.commute dividend_less_div_times mult.commute)
  moreover have "selected_before s pred (pg * n) j v \<le> j - pg * n"
    unfolding selected_before_def by (rule order.trans[OF length_filter_le]) simp
  ultimately show ?thesis using assms(2) by linarith
qed

lemma selected_before_all: "j \<le> length v \<Longrightarrow> selected_before s None k j v = j - k"
  by (simp add: selected_before_def passes_def case_prod_unfold)

text \<open>The page of a request shows the post with an id.\<close>

definition shows_post :: "('n \<Rightarrow> string \<Rightarrow> 'n val option) \<Rightarrow> 'n req \<Rightarrow> u32 \<Rightarrow> bool" where
  "shows_post A r i \<longleftrightarrow>
     (\<exists>ls l. env_lookup (req_env A r) ''posts'' = Some (VT_ARRAY (map VT_NVL ls)) \<and> l \<in> set ls \<and> A l ''id'' = Some (VT_INT (ucast i)))"

lemma ucast_id: "(ucast (i :: u32) :: u64) = ucast k \<longleftrightarrow> i = k"
proof -
  have "uint (ucast j :: u64) = uint j" for j :: u32 by (simp add: uint_up_ucast is_up)
  then show ?thesis by (metis word_uint_eq_iff)
qed

lemma shows_post_iff:
  assumes "env_lookup (req_env A r) ''posts'' = Some (VT_ARRAY (map VT_NVL ls))"
    and "list_all2 (\<lambda>(_, a) l. post_fields A (post_at s a) l) vis ls"
  shows "shows_post A r i \<longleftrightarrow> i \<in> (\<lambda>(_, a). post_id (post_at s a)) ` set vis"
proof -
  have "(\<exists>l\<in>set ls. A l ''id'' = Some (VT_INT (ucast i))) \<longleftrightarrow> i \<in> (\<lambda>(_, a). post_id (post_at s a)) ` set vis"
    using assms(2) by induction (auto simp: post_fields_def ucast_id)
  moreover have "inj (VT_NVL :: 'a \<Rightarrow> 'a val)" by (simp add: inj_def)
  ultimately show ?thesis using assms(1) by (auto simp: shows_post_def inj_map_eq_map)
qed

text \<open>
  C16. Which page shows a post. On a page of the index, of a tag or of an archive the listed post at a
  position of the listing is shown exactly when the page selects it, its position is not before the start of
  the page (counted in listed posts, selected or not), and fewer posts than a page holds are selected from
  there up to it. So no selected post is missed: it is on the page of its position. Without a predicate that
  is the only page that shows it; with one, as in the archives, earlier pages may show it as well. The
  offset of the page has to fit an \<^verbatim>\<open>int\<close>, and the posts must be up to date, since showing one that is not
  reads its files again.
\<close>

theorem page_of_post:
  assumes "rb_laws (we_rb W) T" "index_wf T s" "set_laws W A" "vars_wf (req_vars r)" "ref_blind pred"
    and "pred_option cstring tag" "0 < index_stories r" "index_stories r \<le> INT_MAX" "0 \<le> pg"
    and "pg * index_stories r \<le> INT_MAX" "\<forall>(_, a)\<in>set (index_abs T s tag). showable W s a"
  shows "let n = nat (index_stories r); L = spec_listing s (index_abs T s tag)
    in \<exists>r'. page_posts W r s tag pred pg = Inr (r', s) \<and>
      (\<forall>j<length L.
        (shows_post A r' (post_id (post_at s (snd (L ! j)))) \<longleftrightarrow>
           passes pred (post_at s (snd (L ! j))) \<and> nat pg * n \<le> j \<and> selected_before s pred (nat pg * n) j L < n) \<and>
        (j div n = nat pg \<and> passes pred (post_at s (snd (L ! j))) \<longrightarrow> shows_post A r' (post_id (post_at s (snd (L ! j))))) \<and>
        (pred = None \<longrightarrow> (shows_post A r' (post_id (post_at s (snd (L ! j)))) \<longleftrightarrow> j div n = nat pg)))"
proof -
  define n L where "n = nat (index_stories r)" and "L = spec_listing s (index_abs T s tag)"
  define vis where "vis = page_of s pred pg (index_stories r) (index_abs T s tag)"
  obtain ls r' where p: "page_posts W r s tag pred pg = Inr (r', s)"
    "list_all2 (\<lambda>(_, a) l. post_fields A (post_at s a) l) vis ls"
    "env_lookup (req_env A r') ''posts'' = Some (VT_ARRAY (map VT_NVL ls))"
    using page_posts_shown[OF assms vis_def] by blast
  have n: "0 < n" using assms(7) by (simp add: n_def)
  have "nat (pg * index_stories r) = nat pg * n" using assms(9) by (simp add: n_def nat_mult_distrib)
  then have vis: "vis = take n (filter (\<lambda>(_, a). passes pred (post_at s a)) (drop (nat pg * n) L))"
    by (simp add: vis_def page_of_def n_def L_def)
  let ?id = "\<lambda>(_, a). post_id (post_at s a)"
  have "distinct (map ?id (rev (index_abs T s tag)))" using index_abs_ids[OF assms(2), of tag] by (metis distinct_rev rev_map)
  then have ids: "distinct (map ?id L)" unfolding L_def spec_listing_def by (rule distinct_map_filter)
  have sub: "set vis \<subseteq> set L" unfolding vis by (auto dest!: in_set_takeD in_set_dropD)
  have iff: "shows_post A r' (post_id (post_at s (snd (L ! j)))) \<longleftrightarrow>
      passes pred (post_at s (snd (L ! j))) \<and> nat pg * n \<le> j \<and> selected_before s pred (nat pg * n) j L < n"
    if j: "j < length L" for j
  proof -
    have "?id (L ! j) \<in> ?id ` set vis \<longleftrightarrow> L ! j \<in> set vis"
      using ids sub j by (intro inj_on_image_mem_iff[of ?id "set L"]) (auto simp: distinct_map)
    then have "shows_post A r' (post_id (post_at s (snd (L ! j)))) \<longleftrightarrow> L ! j \<in> set vis"
      by (simp add: shows_post_iff[OF p(3,2)] case_prod_unfold)
    then show ?thesis unfolding vis using mem_page[OF _ j] ids by (simp add: distinct_map)
  qed
  have "j div n = nat pg \<and> passes pred (post_at s (snd (L ! j))) \<longrightarrow> shows_post A r' (post_id (post_at s (snd (L ! j))))"
    if j: "j < length L" for j
    unfolding iff[OF j] using selected_before_small[OF _ n] by (metis div_times_less_eq_dividend)
  moreover have "shows_post A r' (post_id (post_at s (snd (L ! j)))) \<longleftrightarrow> j div n = nat pg"
    if j: "j < length L" and "pred = None" for j
  proof -
    have "nat pg * n \<le> j \<and> j - nat pg * n < n \<longleftrightarrow> j div n = nat pg"
      by (rule page_div[OF n])
    with that show ?thesis unfolding iff[OF j] by (simp add: selected_before_all passes_def)
  qed
  ultimately show ?thesis using p(1) iff unfolding Let_def n_def[symmetric] L_def[symmetric] by blast
qed

theorem page_of_post_witness:
  "\<exists>r'. page_posts demo_web (demo_request [] None ''/'') demo_site None None 0 = Inr (r', demo_site) \<and> shows_post alist_map r' 1"
proof -
  let ?r = "demo_request [] None ''/''"
  have n: "index_stories ?r = 10" by (simp add: demo_request_def)
  have b: "ref_blind (None :: (alist_nvlist post \<Rightarrow> bool) option)" by (simp add: ref_blind_def)
  have f: "post_at demo_site 100 = demo_loaded" by (simp add: post_at_def demo_site_def)
  from page_of_post[of demo_web "\<lambda>t. t" demo_site alist_map ?r None None 0] show ?thesis
    using list_rb_laws demo_site_wf demo_set_laws demo_request_wf b demo_showable
    by (auto simp: n demo_site_abs demo_site_listing f demo_loaded_def new_post_def)
qed

section \<open>Archive pages\<close>

lemma archive_args_eq:
  assumes "1 \<le> m" "m \<le> 12"
  shows "archive_args (100 * y + m) =
    (word_of_int (month_start y m), word_of_int (if m = 12 then month_start (y + 1) 2 else month_start y (m + 1)))"
proof -
  have "(100 * y + m) div 100 = y" "(100 * y + m) mod 100 = m" using assms by simp_all
  moreover have "12 \<le> m \<longleftrightarrow> m = 12" using assms by linarith
  ultimately show ?thesis by (cases "m = 12") (simp_all add: archive_args_def month_start_def tm_zero_def Let_def)
qed

lemma archive_filter_months:
  assumes "1970 \<le> y" "y < 2100" "1 \<le> m" "m \<le> 12"
  shows "archive_filter (archive_args (100 * y + m)) p \<longleftrightarrow>
    12 * y + m \<le> month_of (uint (post_time p)) \<and> month_of (uint (post_time p)) < 12 * y + m + (if m = 12 then 2 else 1)"
proof -
  define e where "e = (if m = 12 then month_start (y + 1) 2 else month_start y (m + 1))"
  have a: "0 \<le> month_start y m" "month_start y m < 2 ^ 32" using month_start_range[of y m] assms by simp_all
  have b: "0 \<le> e" "e < 2 ^ 32"
    using month_start_range[of "y + 1" 2] month_start_range[of y "m + 1"] assms by (simp_all add: e_def)
  have u: "uint (word_of_int k :: u32) = k" if "0 \<le> k" "k < 2 ^ 32" for k
    using that by (simp add: unsigned_of_int take_bit_int_eq_self)
  have e: "e \<le> t \<longleftrightarrow> 12 * y + m + (if m = 12 then 2 else 1) \<le> month_of t" for t
    using month_start_le[of 2 "y + 1" t] month_start_le[of "m + 1" y t] assms by (cases "m = 12") (simp_all add: e_def add.assoc)
  have "archive_filter (archive_args (100 * y + m)) p \<longleftrightarrow> month_start y m \<le> uint (post_time p) \<and> \<not> e \<le> uint (post_time p)"
    unfolding archive_args_eq[OF assms(3,4)] e_def[symmetric]
    by (simp add: archive_filter_def word_le_def word_less_def u[OF a] u[OF b] not_le)
  then show ?thesis unfolding e month_start_le[OF assms(3,4)] by auto
qed

lemma get_arch_id_valid:
  "\<exists>y m. get_arch_id W r = 100 * y + m \<and> 1970 \<le> y \<and> y < 2100 \<and> 1 \<le> m \<and> m \<le> 12"
proof (cases "\<exists>w. nvl_lookup_int (we_nvq W) (scgi_query (scgi r)) ''m'' = Inr w \<and> valid_arch_id w")
  case True
  then obtain w where w: "nvl_lookup_int (we_nvq W) (scgi_query (scgi r)) ''m'' = Inr w" "valid_arch_id w" by blast
  define i where "i = uint w"
  from w(2) have v: "1 \<le> i mod 100" "i mod 100 \<le> 12" "1970 \<le> i div 100" "i div 100 < 2100"
    by (auto simp: valid_arch_id_def Let_def word_le_def word_less_def uint_div uint_mod i_def)
  then have "i < 210000" "0 \<le> i" by simp_all
  then have "take_bit 32 i = i" "signed_take_bit 31 i = i"
    by (simp_all add: take_bit_int_eq_self signed_take_bit_int_eq_self)
  then have "sint32 w = i" by (simp add: sint32_def i_def sint_uint unsigned_ucast_eq)
  with w have "get_arch_id W r = 100 * (i div 100) + i mod 100" by (simp add: get_arch_id_def)
  with v show ?thesis by blast
next
  case False
  then have "get_arch_id W r = 100 * 1970 + 1" by (auto simp: get_arch_id_def split: sum.splits)
  then show ?thesis by (intro exI[of _ 1970] exI[of _ 1]) simp
qed

text \<open>
  C36. An archive page covers the month it is asked for, whatever the query says, but December also covers
  the January after it: the code sets the end of December to the second month of the next year.
\<close>

theorem archive_month:
  "\<exists>y m. get_arch_id W r = 100 * y + m \<and> 1970 \<le> y \<and> y < 2100 \<and> 1 \<le> m \<and> m \<le> 12 \<and>
     (\<forall>p. archive_filter (archive_args (get_arch_id W r)) p \<longleftrightarrow>
        month_of (uint (post_time p)) = 12 * y + m \<or> m = 12 \<and> month_of (uint (post_time p)) = 12 * (y + 1) + 1)"
proof -
  obtain y m where a: "get_arch_id W r = 100 * y + m" and b: "1970 \<le> y" "y < 2100" "1 \<le> m" "m \<le> 12"
    using get_arch_id_valid by blast
  have "archive_filter (archive_args (100 * y + m)) p \<longleftrightarrow>
      month_of (uint (post_time p)) = 12 * y + m \<or> m = 12 \<and> month_of (uint (post_time p)) = 12 * (y + 1) + 1" for p :: "'c post"
    unfolding archive_filter_months[OF b] by auto
  with a b show ?thesis by auto
qed

section \<open>Page numbers\<close>

text \<open>
  A page number from the query is never negative and never larger than an \<^verbatim>\<open>int\<close>; as long as the
  number of entries before the page fits an \<^verbatim>\<open>int\<close> the page starts there, but the product is taken modulo
  \<open>2 ^ 32\<close>: with ten posts to a page, page 429496730 starts at the fifth post.
\<close>

theorem page_numbers_wrap:
  assumes "0 \<le> n" "get_page_number W r * n \<le> INT_MAX"
  shows "0 \<le> get_page_number W r \<and> get_page_number W r \<le> INT_MAX \<and>
    skip_of (get_page_number W r) n = get_page_number W r * n \<and> skip_of 429496730 10 = 4"
proof -
  have "skip_of 429496730 10 = 4" by code_simp
  with assms page_number_range[of W r] show ?thesis by (simp add: skip_of_exact)
qed

theorem page_numbers_wrap_witness:
  "get_page_number demo_web (demo_request [(''paged'', VT_INT 3)] None ''/'') = 3 \<and> skip_of 3 10 = 30"
proof -
  let ?r = "demo_request [(''paged'', VT_INT 3)] None ''/''"
  have "get_page_number demo_web ?r = 3" by (simp add: get_page_number_def demo_request_def demo_nvq_def list_int_def)
  with page_numbers_wrap[of 10 demo_web ?r] show ?thesis by simp
qed

text \<open>
  C37. The largest page number the query may name is accepted and then overflows: the number of the page
  before it is \<^verbatim>\<open>page + 1\<close>, computed in an \<^verbatim>\<open>int\<close>. Every smaller page number is stored.
\<close>

theorem last_page_overflows:
  assumes "set_laws W A" "vars_wf (req_vars r)"
  shows "if get_page_number W r = INT_MAX then blahg_index W r s (get_page_number W r) = Inl IntOverflow
    else \<exists>r'. store_pages W (get_page_number W r) r = Inr r' \<and>
      env_lookup (req_env A r') ''prevpage'' = Some (VT_INT (u64_of_int (get_page_number W r + 1))) \<and>
      env_lookup (req_env A r') ''curpage'' = Some (VT_INT (u64_of_int (get_page_number W r)))"
proof (cases "get_page_number W r = INT_MAX")
  case True
  obtain r1 where r1: "var_str W ''title'' (Some ''Blahg'') r = Inr r1" "vars_wf (req_vars r1)"
    using var_env(1)[OF assms] by (meson with_env_wf)
  obtain r2 where r2: "index_store_title W ''Blahg'' False r = Inr r2"
    using var_env(1)[OF assms(1) r1(2)] r1(1) by (auto simp: index_store_title_def Let_def)
  have "store_pages W INT_MAX r2 = Inl IntOverflow" by (simp add: store_pages_def int_add_def)
  with True r2 show ?thesis by (simp add: blahg_index_def)
next
  case False
  let ?p = "get_page_number W r"
  have p: "0 \<le> ?p" "?p + 1 \<le> INT_MAX" using page_number_range[of W r] False by linarith+
  then have i: "int_add ?p 1 = Inr (?p + 1)" "int_add ?p (-1) = Inr (?p - 1)" by (simp_all add: int_add_def)
  obtain r1 where r1: "var_int W ''prevpage'' (u64_of_int (?p + 1)) r = Inr r1"
    "with_env A r (set_var ''prevpage'' (VT_INT (u64_of_int (?p + 1))) (req_env A r)) r1"
    using var_env(2)[OF assms] by blast
  obtain r2 where r2: "var_int W ''curpage'' (u64_of_int ?p) r1 = Inr r2"
    "with_env A r1 (set_var ''curpage'' (VT_INT (u64_of_int ?p)) (req_env A r1)) r2"
    using var_env(2)[OF assms(1)] with_env_wf[OF r1(2)] by blast
  obtain r3 where r3: "var_int W ''nextpage'' (u64_of_int (?p - 1)) r2 = Inr r3"
    "with_env A r2 (set_var ''nextpage'' (VT_INT (u64_of_int (?p - 1))) (req_env A r2)) r3"
    using var_env(2)[OF assms(1)] with_env_wf[OF r2(2)] by blast
  have "store_pages W ?p r = Inr r3" using i r1(1) r2(1) r3(1) by (simp add: store_pages_def)
  with False with_env_wf[OF r3(2)] with_env_wf[OF r2(2)] with_env_wf[OF r1(2)] show ?thesis
    by (auto simp: set_var_def)
qed

theorem last_page_overflows_witness:
  "blahg_index demo_web (demo_request [(''paged'', VT_INT 2147483647)] None ''/'') demo_site 2147483647 = Inl IntOverflow"
proof -
  let ?r = "demo_request [(''paged'', VT_INT 2147483647)] None ''/''"
  have "get_page_number demo_web ?r = 2147483647" by (simp add: get_page_number_def demo_request_def demo_nvq_def list_int_def)
  with last_page_overflows[OF demo_set_laws demo_request_wf, of "[(''paged'', VT_INT 2147483647)]" None "''/''" demo_site]
  show ?thesis by simp
qed

end
