(* ===== verification/HandlerSpec.thy ===== *)
theory HandlerSpec
  imports DemoSite
begin

text \<open>
  Properties of the whole dispatcher: which files a request can make the program read, what happens to
  requests it does not serve, and that previews leave the index alone.
\<close>

section \<open>Everything but the static handler is blind to the file reader\<close>

lemma reader_fields:
  fixes W :: "('n, 't) web_env" and f :: "string \<Rightarrow> int + string \<times> u64"
  shows "we_posts (W\<lparr>we_read_file_len := f\<rparr>) = we_posts W"
    "we_rb (W\<lparr>we_read_file_len := f\<rparr>) = we_rb W"
    "we_nvq (W\<lparr>we_read_file_len := f\<rparr>) = we_nvq W"
    "we_templates (W\<lparr>we_read_file_len := f\<rparr>) = we_templates W"
    "we_str2u64 (W\<lparr>we_read_file_len := f\<rparr>) = we_str2u64 W"
    "we_levels (W\<lparr>we_read_file_len := f\<rparr>) = we_levels W"
    "we_version (W\<lparr>we_read_file_len := f\<rparr>) = we_version W"
    "we_time (W\<lparr>we_read_file_len := f\<rparr>) = we_time W"
    "we_secret (W\<lparr>we_read_file_len := f\<rparr>) = we_secret W"
    "we_fs (W\<lparr>we_read_file_len := f\<rparr>) = we_fs W"
    "we_nonce (W\<lparr>we_read_file_len := f\<rparr>) = we_nonce W"
  by simp_all

lemma reader_opt:
  fixes W :: "('n, 't) web_env" and f :: "string \<Rightarrow> int + string \<times> u64"
  shows "set_opt_str (W\<lparr>we_read_file_len := f\<rparr>) = set_opt_str W"
  unfolding set_opt_str_def[abs_def] reader_fields by (rule refl)+

lemma reader_vars:
  fixes W :: "('n, 't) web_env" and f :: "string \<Rightarrow> int + string \<times> u64"
  shows "var_str (W\<lparr>we_read_file_len := f\<rparr>) = var_str W"
    "var_int (W\<lparr>we_read_file_len := f\<rparr>) = var_int W"
    "var_array (W\<lparr>we_read_file_len := f\<rparr>) = var_array W"
    "push_scope (W\<lparr>we_read_file_len := f\<rparr>) = push_scope W"
    "req_head (W\<lparr>we_read_file_len := f\<rparr>) = req_head W"
    "web_tmpl (W\<lparr>we_read_file_len := f\<rparr>) = web_tmpl W"
    "tag_val (W\<lparr>we_read_file_len := f\<rparr>) = tag_val W"
    "one_com (W\<lparr>we_read_file_len := f\<rparr>) = one_com W"
    "refresh_at (W\<lparr>we_read_file_len := f\<rparr>) = refresh_at W"
    "tagcloud_init (W\<lparr>we_read_file_len := f\<rparr>) = tagcloud_init W"
    "get_postid (W\<lparr>we_read_file_len := f\<rparr>) = get_postid W"
    "spam_check (W\<lparr>we_read_file_len := f\<rparr>) = spam_check W"
    "get_str (W\<lparr>we_read_file_len := f\<rparr>) = get_str W"
    "pending_base (W\<lparr>we_read_file_len := f\<rparr>) = pending_base W"
    "get_arch_id (W\<lparr>we_read_file_len := f\<rparr>) = get_arch_id W"
    "is_preview (W\<lparr>we_read_file_len := f\<rparr>) = is_preview W"
    "query_page (W\<lparr>we_read_file_len := f\<rparr>) = query_page W"
    "feed_format (W\<lparr>we_read_file_len := f\<rparr>) = feed_format W"
    "get_page_number (W\<lparr>we_read_file_len := f\<rparr>) = get_page_number W"
  unfolding var_str_def[abs_def] var_int_def[abs_def] var_array_def[abs_def] push_scope_def[abs_def] req_head_def[abs_def] web_tmpl_def[abs_def] tag_val_def[abs_def] one_com_def[abs_def] refresh_at_def[abs_def] tagcloud_init_def[abs_def] get_postid_def[abs_def] spam_check_def[abs_def] get_str_def[abs_def] pending_base_def[abs_def] get_arch_id_def[abs_def] is_preview_def[abs_def] query_page_def[abs_def] feed_format_def[abs_def] get_page_number_def[abs_def] reader_fields reader_opt by (rule refl)+

lemma reader_steps:
  fixes W :: "('n, 't) web_env" and f :: "string \<Rightarrow> int + string \<times> u64"
  shows "respond (W\<lparr>we_read_file_len := f\<rparr>) = respond W"
    "store_title_vars (W\<lparr>we_read_file_len := f\<rparr>) = store_title_vars W"
    "get_strings (W\<lparr>we_read_file_len := f\<rparr>) = get_strings W"
    "index_store_title (W\<lparr>we_read_file_len := f\<rparr>) = index_store_title W"
    "store_pages (W\<lparr>we_read_file_len := f\<rparr>) = store_pages W"
    "tag_store_title (W\<lparr>we_read_file_len := f\<rparr>) = tag_store_title W"
    "R301 (W\<lparr>we_read_file_len := f\<rparr>) = R301 W"
    "select_page (W\<lparr>we_read_file_len := f\<rparr>) = select_page W"
    "switch_content_type (W\<lparr>we_read_file_len := f\<rparr>) = switch_content_type W"
    "blahg_admin (W\<lparr>we_read_file_len := f\<rparr>) = blahg_admin W"
    "tagcloud_step (W\<lparr>we_read_file_len := f\<rparr>) = tagcloud_step W"
  unfolding respond_def[abs_def] store_title_vars_def[abs_def] get_strings_def[abs_def] index_store_title_def[abs_def] store_pages_def[abs_def] tag_store_title_def[abs_def] R301_def[abs_def] select_page_def[abs_def] switch_content_type_def[abs_def] blahg_admin_def[abs_def] tagcloud_step_def[abs_def] reader_fields reader_opt reader_vars by (rule refl)+

lemma reader_com_list:
  fixes W :: "('n, 't) web_env" and f :: "string \<Rightarrow> int + string \<times> u64"
  shows "com_list (W\<lparr>we_read_file_len := f\<rparr>) = com_list W"
proof
  show "com_list (W\<lparr>we_read_file_len := f\<rparr>) cs = com_list W cs" for cs
    by (induction cs) (simp_all add: reader_vars)
qed

lemma reader_com_val:
  fixes W :: "('n, 't) web_env" and f :: "string \<Rightarrow> int + string \<times> u64"
  shows "com_val (W\<lparr>we_read_file_len := f\<rparr>) = com_val W"
    "sidebar (W\<lparr>we_read_file_len := f\<rparr>) = sidebar W"
  unfolding com_val_def[abs_def] sidebar_def[abs_def] reader_fields reader_opt reader_vars reader_steps reader_com_list by (rule refl)+

lemma reader_post_nvl:
  fixes W :: "('n, 't) web_env" and f :: "string \<Rightarrow> int + string \<times> u64"
  shows "post_nvl (W\<lparr>we_read_file_len := f\<rparr>) = post_nvl W"
    "R404 (W\<lparr>we_read_file_len := f\<rparr>) = R404 W"
  unfolding post_nvl_def[abs_def] R404_def[abs_def] reader_fields reader_opt reader_vars reader_steps reader_com_list reader_com_val by (rule refl)+

lemma reader_store_vars:
  fixes W :: "('n, 't) web_env" and f :: "string \<Rightarrow> int + string \<times> u64"
  shows "store_vars (W\<lparr>we_read_file_len := f\<rparr>) = store_vars W"
  unfolding store_vars_def[abs_def] reader_fields reader_opt reader_vars reader_steps reader_com_list reader_com_val reader_post_nvl by (rule refl)+

lemma reader_get_post:
  fixes W :: "('n, 't) web_env" and f :: "string \<Rightarrow> int + string \<times> u64"
  shows "get_post (W\<lparr>we_read_file_len := f\<rparr>) = get_post W"
  unfolding get_post_def[abs_def] reader_fields reader_opt reader_vars reader_steps reader_com_list reader_com_val reader_post_nvl reader_store_vars by (rule refl)+

lemma reader_load_loop:
  fixes W :: "('n, 't) web_env" and f :: "string \<Rightarrow> int + string \<times> u64"
  shows "load_posts_loop (W\<lparr>we_read_file_len := f\<rparr>) = load_posts_loop W"
proof -
  have "load_posts_loop (W\<lparr>we_read_file_len := f\<rparr>) r s as vs m = load_posts_loop W r s as vs m" for r s as vs m
  proof (induction as arbitrary: r s vs m)
    case (Cons a as)
    show ?case unfolding load_posts_loop.simps reader_vars reader_store_vars Cons.IH by (rule refl)
  qed simp
  then show ?thesis by (simp add: fun_eq_iff)
qed

lemma reader_load_posts:
  fixes W :: "('n, 't) web_env" and f :: "string \<Rightarrow> int + string \<times> u64"
  shows "load_posts (W\<lparr>we_read_file_len := f\<rparr>) = load_posts W"
    "write_out_comment (W\<lparr>we_read_file_len := f\<rparr>) = write_out_comment W"
    "story_load_post (W\<lparr>we_read_file_len := f\<rparr>) = story_load_post W"
  unfolding load_posts_def[abs_def] write_out_comment_def[abs_def] story_load_post_def[abs_def] reader_fields reader_opt reader_vars reader_steps reader_com_list reader_com_val reader_post_nvl reader_store_vars reader_get_post reader_load_loop by (rule refl)+

lemma reader_pages:
  fixes W :: "('n, 't) web_env" and f :: "string \<Rightarrow> int + string \<times> u64"
  shows "page_posts (W\<lparr>we_read_file_len := f\<rparr>) = page_posts W"
    "save_comment (W\<lparr>we_read_file_len := f\<rparr>) = save_comment W"
    "blahg_category (W\<lparr>we_read_file_len := f\<rparr>) = blahg_category W"
    "blahg_story (W\<lparr>we_read_file_len := f\<rparr>) = blahg_story W"
  unfolding page_posts_def[abs_def] save_comment_def[abs_def] blahg_category_def[abs_def] blahg_story_def[abs_def] reader_fields reader_opt reader_vars reader_steps reader_com_list reader_com_val reader_post_nvl reader_store_vars reader_get_post reader_load_loop reader_load_posts by (rule refl)+

lemma reader_listings:
  fixes W :: "('n, 't) web_env" and f :: "string \<Rightarrow> int + string \<times> u64"
  shows "index_load_posts (W\<lparr>we_read_file_len := f\<rparr>) = index_load_posts W"
    "blahg_tag (W\<lparr>we_read_file_len := f\<rparr>) = blahg_tag W"
    "blahg_comment (W\<lparr>we_read_file_len := f\<rparr>) = blahg_comment W"
  unfolding index_load_posts_def[abs_def] blahg_tag_def[abs_def] blahg_comment_def[abs_def] reader_fields reader_opt reader_vars reader_steps reader_com_list reader_com_val reader_post_nvl reader_store_vars reader_get_post reader_load_loop reader_load_posts reader_pages by (rule refl)+

lemma reader_index:
  fixes W :: "('n, 't) web_env" and f :: "string \<Rightarrow> int + string \<times> u64"
  shows "blahg_index (W\<lparr>we_read_file_len := f\<rparr>) = blahg_index W"
    "blahg_archive (W\<lparr>we_read_file_len := f\<rparr>) = blahg_archive W"
  unfolding blahg_index_def[abs_def] blahg_archive_def[abs_def] reader_fields reader_opt reader_vars reader_steps reader_com_list reader_com_val reader_post_nvl reader_store_vars reader_get_post reader_load_loop reader_load_posts reader_pages reader_listings by (rule refl)+

lemmas reader = reader_fields reader_opt reader_vars reader_steps reader_com_list reader_com_val reader_post_nvl reader_store_vars
  reader_get_post reader_load_loop reader_load_posts reader_pages reader_listings reader_index

lemma req_head_headers: "req_head W r n v = Inr r' \<Longrightarrow> scgi_headers (scgi r') = scgi_headers (scgi r) \<and> req_page r' = req_page r"
  by (auto simp: req_head_def Let_def split: prod.splits if_splits)

lemma switch_headers: "switch_content_type W r = Inr (b, r') \<Longrightarrow> scgi_headers (scgi r') = scgi_headers (scgi r) \<and> req_page r' = req_page r"
  by (auto simp: switch_content_type_def rbind_eq_Inr dest!: req_head_headers split: option.splits if_splits)

text \<open>The static handler runs only for a whitelisted path.\<close>

lemma static_selected:
  assumes "select_page W r = Inr (True, r1)" "req_page r1 = PAGE_STATIC"
  shows "\<exists>u\<in>set static_paths. nvl_lookup_str (we_nvq W) (scgi_headers (scgi r1)) (SCGI_DOCUMENT_URI (we_nvq W)) = Inr u"
proof -
  have "query_page W q \<noteq> PAGE_STATIC" for q by (simp add: query_page_def Let_def)
  with assms show ?thesis
    by (auto simp: select_page_def with_query_def Let_def get_uri_type_eq split: sum.splits uri_type.splits if_splits)
qed

lemma static_path_slash: "u \<in> set static_paths \<Longrightarrow> CHR ''/'' # tl u = u"
  by (auto simp: static_paths_def)

lemma blahg_static_reader:
  assumes "nvl_lookup_str (we_nvq W) (scgi_headers (scgi r)) (SCGI_DOCUMENT_URI (we_nvq W)) = Inr u" "u \<in> set static_paths"
    and "\<forall>dir. cf_web_dir (we_cfg W) = Some dir \<longrightarrow> f (c_snprintf FILENAME_MAX (dir @ u)) = g (c_snprintf FILENAME_MAX (dir @ u))"
  shows "blahg_static (W\<lparr>we_read_file_len := f\<rparr>) r s = blahg_static (W\<lparr>we_read_file_len := g\<rparr>) r s"
proof (cases "cf_web_dir (we_cfg W)")
  case None
  then show ?thesis using assms(1) by (simp add: blahg_static_def split: option.split)
next
  case (Some dir)
  with assms(3) have "f (c_snprintf FILENAME_MAX (dir @ CHR ''/'' # tl u)) = g (c_snprintf FILENAME_MAX (dir @ CHR ''/'' # tl u))"
    unfolding static_path_slash[OF assms(2)] by simp
  then show ?thesis unfolding blahg_static_def reader assms(1) by (simp add: Some split: option.split)
qed

section \<open>Properties\<close>

text \<open>
  C30. No request makes the program read a file outside the whitelist: the result of serving a request, page
  and side effects, depends on the files of the web directory only through those at the four whitelisted
  paths below it.
\<close>

theorem static_files_only:
  assumes "\<forall>dir. cf_web_dir (we_cfg W) = Some dir \<longrightarrow>
     (\<forall>u\<in>set static_paths. f (c_snprintf FILENAME_MAX (dir @ u)) = g (c_snprintf FILENAME_MAX (dir @ u)))"
  shows "req_dispatch (W\<lparr>we_read_file_len := f\<rparr>) r s = req_dispatch (W\<lparr>we_read_file_len := g\<rparr>) r s"
proof (cases "\<exists>r1 r2. select_page W r = Inr (True, r1) \<and> switch_content_type W r1 = Inr (True, r2) \<and> req_page r2 = PAGE_STATIC")
  case True
  then obtain r1 r2 where r: "select_page W r = Inr (True, r1)" "switch_content_type W r1 = Inr (True, r2)" "req_page r2 = PAGE_STATIC"
    by blast
  note h = switch_headers[OF r(2)]
  obtain u where u: "u \<in> set static_paths"
    "nvl_lookup_str (we_nvq W) (scgi_headers (scgi r2)) (SCGI_DOCUMENT_URI (we_nvq W)) = Inr u"
    using static_selected[OF r(1)] h r(3) by auto
  from blahg_static_reader[OF u(2,1), of f g s] assms u(1) r show ?thesis
    by (simp add: req_dispatch_def reader)
next
  case False
  then show ?thesis
    unfolding req_dispatch_def reader
    by (auto simp: rbind_def split: sum.splits prod.splits page.splits)
qed

theorem static_files_only_witness:
  "req_dispatch demo_web (demo_request [] None ''/wiki.png'') demo_site =
   req_dispatch (demo_web\<lparr>we_read_file_len := \<lambda>p. if p = ''/etc/passwd'' then Inr (''secret'', 6) else we_read_file_len demo_web p\<rparr>)
     (demo_request [] None ''/wiki.png'') demo_site"
proof -
  let ?f = "we_read_file_len demo_web"
  let ?g = "\<lambda>p. if p = ''/etc/passwd'' then Inr (''secret'', 6) else ?f p"
  have same: "demo_web\<lparr>we_read_file_len := ?f\<rparr> = demo_web" by simp
  have "cf_web_dir (we_cfg demo_web) = Some ''./web''"
    by (simp add: demo_posts_def config_fill_def config_load_str_def demo_sx_def cons_sx_def DEFAULT_WEB_DIR_def)
  then have "\<forall>dir. cf_web_dir (we_cfg demo_web) = Some dir \<longrightarrow>
     (\<forall>u\<in>set static_paths. ?f (c_snprintf FILENAME_MAX (dir @ u)) = ?g (c_snprintf FILENAME_MAX (dir @ u)))"
    by (simp add: static_paths_def c_snprintf_def FILENAME_MAX_def)
  from static_files_only[OF this, of "demo_request [] None ''/wiki.png''" demo_site] show ?thesis unfolding same .
qed

section \<open>Errors\<close>

lemma respond_keeps:
  assumes "vars_wf (req_vars r)" "respond W tmpl r = Inr r'"
  shows "\<exists>b v. r' = set_body b (r\<lparr>req_vars := v\<rparr>) \<and> vars_wf v"
proof -
  from assms(2) obtain dir out r1 where r1: "render (we_levels W) (web_tmpl W dir) r tmpl = Inr (out, r1)" "r' = set_body out r1"
    by (auto simp: respond_def rbind_eq_Inr)
  from nested.page_keeps[OF assms(1) r1(1)[unfolded render_def]] have "vars_wf (req_vars r1)" "r1 = r\<lparr>req_vars := req_vars r1\<rparr>"
    by (simp_all add: same_req_def)
  then show ?thesis using r1(2) by metis
qed

lemma with_vars_keeps: "with_vars f r = Inr r' \<Longrightarrow> \<exists>v. r' = r\<lparr>req_vars := v\<rparr> \<and> f (req_vars r) = Inr v"
  by (auto simp: with_vars_def rbind_eq_Inr)

lemma push_scope_keeps: "vars_wf (req_vars r) \<Longrightarrow> push_scope W r = Inr r' \<Longrightarrow> \<exists>v. r' = r\<lparr>req_vars := v\<rparr> \<and> vars_wf v"
  unfolding push_scope_def by (drule with_vars_keeps) (auto dest: push_wf)

lemma sidebar_keeps: "vars_wf (req_vars r) \<Longrightarrow> sidebar W s r = Inr r' \<Longrightarrow> \<exists>v. r' = r\<lparr>req_vars := v\<rparr> \<and> vars_wf v"
proof -
  assume wf: "vars_wf (req_vars r)" and "sidebar W s r = Inr r'"
  then obtain cloud where "var_array W ''tagcloud'' cloud r = Inr r'" by (auto simp: sidebar_def rbind_eq_Inr)
  from with_vars_keeps[OF this[unfolded var_array_def vars_set_array_def]] wrap_set_wf[OF wf] show ?thesis by blast
qed

lemma req_head_keeps:
  "req_head W r n v = Inr r' \<Longrightarrow> \<exists>l. r' = r\<lparr>scgi := (scgi r)\<lparr>resp_headers := l\<rparr>\<rparr> \<and> nvl_set_str (we_nvl W) (resp_headers (scgi r)) n v = (0, l)"
  by (auto simp: req_head_def Let_def split: prod.splits if_splits)

lemma R404_result:
  assumes "vars_wf (req_vars r)" "R404 W tmpl r s = Inr (r', s')"
  shows "s' = s \<and> resp_status (scgi r') = SCGI_STATUS_NOTFOUND \<and> req_fmt r' = Some ''html'' \<and> req_page r' = req_page r \<and>
     nvl_set_str (we_nvl W) (resp_headers (scgi r)) ''Content-Type'' ''text/html'' = (0, resp_headers (scgi r'))"
proof -
  from assms(2) obtain r1 r2 r3 where r: "req_head W r ''Content-Type'' ''text/html'' = Inr r1"
    "push_scope W (set_status SCGI_STATUS_NOTFOUND r1) = Inr r2" "sidebar W s r2 = Inr r3"
    "\<exists>t. respond W t r3 = Inr r'" "s' = s"
    by (auto simp: R404_def Let_def rbind_eq_Inr)
  from req_head_keeps[OF r(1)] obtain l where l: "r1 = r\<lparr>scgi := (scgi r)\<lparr>resp_headers := l\<rparr>\<rparr>"
    "nvl_set_str (we_nvl W) (resp_headers (scgi r)) ''Content-Type'' ''text/html'' = (0, l)" by blast
  have "vars_wf (req_vars (set_status SCGI_STATUS_NOTFOUND r1))" using assms(1) l by (simp add: set_status_def)
  from push_scope_keeps[OF this r(2)] obtain v where v: "r2 = set_status SCGI_STATUS_NOTFOUND r1\<lparr>req_vars := v\<rparr>" "vars_wf v" by blast
  from sidebar_keeps[OF _ r(3)] v obtain v' where v': "r3 = r2\<lparr>req_vars := v'\<rparr>" "vars_wf v'" by auto
  have "vars_wf (req_vars r3)" using v' by simp
  with r(4) obtain b v'' where "r' = set_body b (r3\<lparr>req_vars := v''\<rparr>)" using respond_keeps by blast
  with r(5) v v' l show ?thesis by (simp add: set_status_def set_body_def)
qed

text \<open>
  C35. A request the program does not serve is answered with the page for it and changes nothing: for a path
  that is not whitelisted, an unknown feed format, or a feed of a page that only exists in HTML, the status is
  404, the type of the response is HTML, the index is as before and no file is written.
\<close>

theorem refused_is_404:
  assumes "vars_wf (req_vars r)" "req_dispatch W r s = Inr (ops, r', s')" "select_page W r = Inr (ok, r1)"
    and "\<not> ok \<or> feed_format W (nvl_lookup_str (we_nvq W) (scgi_query (scgi r1)) ''feed'') = None \<or>
       html_only (req_page r1) \<and> (\<forall>ct n. feed_format W (nvl_lookup_str (we_nvq W) (scgi_query (scgi r1)) ''feed'') \<noteq> Some (''html'', ct, n))"
  shows "ops = [] \<and> s' = s \<and> resp_status (scgi r') = SCGI_STATUS_NOTFOUND \<and> req_fmt r' = Some ''html'' \<and>
     nvl_set_str (we_nvl W) (resp_headers (scgi r)) ''Content-Type'' ''text/html'' = (0, resp_headers (scgi r'))"
proof -
  have sel: "req_vars r1 = req_vars r" "resp_headers (scgi r1) = resp_headers (scgi r)"
    using assms(3) by (auto simp: select_page_def with_query_def Let_def split: sum.splits uri_type.splits)
  have wf: "vars_wf (req_vars r1)" using assms(1) sel by simp
  have "\<exists>t. no_ops (R404 W t r1 s) = Inr (ops, r', s')"
  proof (cases ok)
    case False
    with assms(2,3) show ?thesis by (auto simp: req_dispatch_def)
  next
    case True
    with assms(4) have "switch_content_type W r1 = Inr (False, r1)"
      by (auto simp: switch_content_type_def split: option.split)
    with True assms(2,3) show ?thesis by (auto simp: req_dispatch_def)
  qed
  then obtain t where t: "R404 W t r1 s = Inr (r', s')" "ops = []" by (auto simp: no_ops_def rbind_eq_Inr)
  from R404_result[OF wf t(1)] t(2) sel show ?thesis by simp
qed

theorem refused_is_404_witness:
  "\<exists>r'. req_dispatch demo_web (demo_request [] None ''/x'') demo_site = Inr ([], r', demo_site) \<and>
     resp_status (scgi r') = SCGI_STATUS_NOTFOUND"
proof -
  let ?r = "demo_request [] None ''/x''"
  have "case req_dispatch demo_web ?r demo_site of Inr _ \<Rightarrow> True | Inl _ \<Rightarrow> False" by code_simp
  then obtain ops r' s' where run: "req_dispatch demo_web ?r demo_site = Inr (ops, r', s')" by (auto split: sum.splits)
  have "case select_page demo_web ?r of Inr (ok, _) \<Rightarrow> \<not> ok | Inl _ \<Rightarrow> False" by code_simp
  then obtain r1 where "select_page demo_web ?r = Inr (False, r1)" by (auto split: sum.splits)
  from refused_is_404[OF demo_request_wf run this] run show ?thesis by simp
qed

section \<open>Previews\<close>

lemma preview_post:
  assumes L: "post_laws E" and run: "post_refresh E p = Inr (0, q)"
    and p: "post_preview p" "tags_ok (post_tags p)" "comments_ok E p" "post_refcnt p = 1"
  shows "post_preview q \<and> tags_ok (post_tags q) \<and> comments_ok E q \<and> post_refcnt q = 1"
  using refresh_ok[OF L run _ conjI[OF p(2,3)]] p(1,4) by (simp add: must_refresh_def)

lemma get_post_preview:
  assumes "post_laws (we_posts W)" "allocs s" "posts s (next_addr s) = None" "get_post W r s i tv True = Inr (x, r', s')"
  shows "s' = s\<lparr>next_addr := Suc (next_addr s)\<rparr>"
proof -
  let ?n = "next_addr s" and ?E = "we_posts W"
  have al: "mem_cache_alloc s = (Some ?n, s\<lparr>next_addr := Suc ?n\<rparr>)" by (rule mem_cache_alloc_next[OF assms(2)])
  have undo: "(posts s)(?n := y, ?n := None) = posts s" for y using assms(3) by auto
  obtain z s1 where ld: "load_post_fresh ?E (we_rb W) s i True = Inr (z, s1)"
    using assms(4) by (auto simp: get_post_def load_post_def rbind_eq_Inr)
  show ?thesis
  proof (cases z)
    case None
    with ld al undo assms(3) have "s1 = s\<lparr>next_addr := Suc ?n\<rparr>"
      by (auto simp: load_post_fresh_def rbind_eq_Inr post_destroy_def Let_def fun_upd_idem split: option.splits if_splits)
    with None ld assms(4) show ?thesis by (simp add: get_post_def load_post_def)
  next
    case (Some a)
    obtain files where files: "nvl_alloc (fe_nvl (pe_files ?E)) = Some files"
      using ld al Some by (auto simp: load_post_fresh_def split: option.splits)
    let ?p = "new_post (word_of_int i) True files"
    obtain q where q: "post_refresh ?E ?p = Inr (0, q)" "a = ?n" "s1 = s\<lparr>next_addr := Suc ?n, posts := (posts s)(?n \<mapsto> q)\<rparr>"
      using ld al Some files by (auto simp: load_post_fresh_def rbind_eq_Inr Let_def split: if_splits)
    have "post_preview q \<and> tags_ok (post_tags q) \<and> comments_ok ?E q \<and> post_refcnt q = 1"
      by (rule preview_post[OF assms(1) q(1)]) (simp_all add: new_post_def tags_ok_def comments_ok_def)
    note q1 = this
    from assms(4) ld Some obtain p2 s2 out where
      p2: "refresh_at W s1 a = Inr (p2, s2)" "post_putref s2 a = Inr s'" by (auto simp: get_post_def load_post_def rbind_eq_Inr)
    then have p2': "post_refresh ?E q = Inr (0, p2)" "s2 = s1\<lparr>posts := (posts s1)(a \<mapsto> p2)\<rparr>"
      by (auto simp: refresh_at_def deref_def q rbind_eq_Inr)
    from preview_post[OF assms(1) p2'(1)] q1 have "post_refcnt p2 = 1" by simp
    with p2(2) show ?thesis using assms(3) by (auto simp: p2'(2) q post_putref_def deref_def fun_upd_idem)
  qed
qed

lemma story_gets_post:
  assumes "story_load_post W r s i pv = Inr (found, r', s')"
  shows "\<exists>x r1. get_post W r s i (Some ''title'') pv = Inr (x, r1, s')"
proof -
  from assms obtain x r1 s1 where g: "get_post W r s i (Some ''title'') pv = Inr (x, r1, s1)"
    by (auto simp: story_load_post_def rbind_eq_Inr)
  have "s1 = s'"
  proof (cases x)
    case None
    with assms g show ?thesis by (auto simp: story_load_post_def rbind_eq_Inr)
  next
    case (Some y)
    with assms g show ?thesis by (cases y) (auto simp: story_load_post_def rbind_eq_Inr split: if_splits)
  qed
  with g show ?thesis by blast
qed

text \<open>
  C34. A preview leaves no trace: showing a post that is not published yet, with the secret, never puts it in
  the index, and every post loaded for it is freed again, whether the preview succeeds or not.
\<close>

theorem preview_leaves_no_trace:
  assumes "post_laws (we_posts W)" "allocs s" "posts s (next_addr s) = None" "vars_wf (req_vars r)"
    and "is_preview W r" "blahg_story W r s = Inr (r', s')"
  shows "s' = s \<or> s' = s\<lparr>next_addr := Suc (next_addr s)\<rparr>"
proof -
  consider "R404 W None r s = Inr (r', s')" | i r1 r2 found r3 s3 where
    "sidebar W s r = Inr r1" "push_scope W r1 = Inr r2"
    "story_load_post W r2 s i (is_preview W r2) = Inr (found, r3, s3)"
    "(if \<not> found then R404 W None r3 s3 else rbind (respond W ''{storyview}'' r3) (\<lambda>r. Inr (r, s3))) = Inr (r', s')"
    using assms(6) by (auto simp: blahg_story_def rbind_eq_Inr split: sum.splits if_splits)
  then show ?thesis
  proof cases
    case 1
    then have "s' = s" by (auto simp: R404_def Let_def rbind_eq_Inr)
    then show ?thesis ..
  next
    case 2
    from sidebar_keeps[OF assms(4) 2(1)] obtain v where v: "r1 = r\<lparr>req_vars := v\<rparr>" "vars_wf v" by blast
    from push_scope_keeps[OF _ 2(2)] v obtain w where w: "r2 = r1\<lparr>req_vars := w\<rparr>" by auto
    have "is_preview W r2" using assms(5) by (simp add: is_preview_def v w)
    with 2(3) obtain x r4 where "get_post W r2 s i (Some ''title'') True = Inr (x, r4, s3)"
      using story_gets_post by fastforce
    from get_post_preview[OF assms(1-3) this] have "s3 = s\<lparr>next_addr := Suc (next_addr s)\<rparr>" .
    moreover have "s' = s3" using 2(4) by (auto simp: R404_def Let_def rbind_eq_Inr split: if_splits)
    ultimately show ?thesis by simp
  qed
qed

theorem preview_leaves_no_trace_witness:
  "\<exists>r'. blahg_story demo_web (demo_request [(''p'', VT_INT 1), (''preview'', VT_INT 6533)] None ''/'') demo_site =
     Inr (r', demo_site\<lparr>next_addr := 3\<rparr>)"
proof -
  let ?r = "demo_request [(''p'', VT_INT 1), (''preview'', VT_INT 6533)] None ''/''"
  have "case blahg_story demo_web ?r demo_site of Inr (_, s) \<Rightarrow> next_addr s = 3 | Inl _ \<Rightarrow> False" by code_simp
  then obtain r' s' where run: "blahg_story demo_web ?r demo_site = Inr (r', s')" "next_addr s' = 3" by (auto split: sum.splits)
  have "is_preview demo_web ?r" by code_simp
  moreover have "allocs demo_site" "posts demo_site (next_addr demo_site) = None" "next_addr demo_site = 2"
    by (simp_all add: allocs_def demo_site_def)
  ultimately show ?thesis
    using preview_leaves_no_trace[of demo_web demo_site ?r r' s'] demo_posts_laws demo_request_wf run by auto
qed

end
