(* ===== verification/SiteIndex.thy ===== *)
theory SiteIndex
  imports PostNvSpec
begin

text \<open>
  What the program as a whole keeps of the index: it is well-formed, nothing is live that its trees do not
  lead to, and every live post is in it, with one reference for the index and one for each reference a
  handler holds. Every operation the handlers and the start of the program use keeps this; freeing all
  posts at the end then frees every structure exactly once.
\<close>

section \<open>The invariant\<close>

text \<open>The references held, with multiplicity.\<close>

definition owned :: "('t \<Rightarrow> nat list) \<Rightarrow> ('n, 't) pindex \<Rightarrow> nat list \<Rightarrow> bool" where
  "owned T s hs \<longleftrightarrow>
     (\<forall>a p. posts s a = Some p \<longrightarrow>
        a \<in> snd ` set (index_abs T s None) \<and> post_refcnt p = Suc (count_list hs a) \<and> \<not> post_preview p) \<and>
     set hs \<subseteq> dom (posts s) \<and> (\<forall>a \<ge> next_addr s. posts s a = None)"

definition site_ok :: "('t \<Rightarrow> nat list) \<Rightarrow> ('n, 't) pindex \<Rightarrow> nat list \<Rightarrow> bool" where
  "site_ok T s hs \<longleftrightarrow> index_wf T s \<and> allocs s \<and> tight T s \<and> owned T s hs"

lemma site_okD:
  assumes "site_ok T s hs"
  shows "index_wf T s" "allocs s" "tight T s" "owned T s hs" "posts s (next_addr s) = None"
  using assms by (simp_all add: site_ok_def owned_def)

lemma site_ok_post:
  assumes "site_ok T s hs" "posts s a = Some p"
  shows "post_refcnt p = Suc (count_list hs a)" "\<not> post_preview p"
  using assms by (auto simp: site_ok_def owned_def)

lemma site_ok_held: "site_ok T s hs \<Longrightarrow> a \<in> set hs \<Longrightarrow> \<exists>p. posts s a = Some p"
  by (auto simp: site_ok_def owned_def)

text \<open>Two states that differ in the posts only, or in the next free address.\<close>

definition same_trees :: "('n, 't) pindex \<Rightarrow> ('n, 't) pindex \<Rightarrow> bool" where
  "same_trees s s' \<longleftrightarrow> globals s' = globals s \<and> entries s' = entries s \<and> subs s' = subs s \<and>
     index_global s' = index_global s \<and> index_by_time s' = index_by_time s \<and> index_by_tag s' = index_by_tag s \<and>
     alloc_ok s' = alloc_ok s \<and> next_addr s \<le> next_addr s'"

lemma same_trees_abs: "same_trees s s' \<Longrightarrow> index_abs T s' tag = index_abs T s tag"
  by (simp add: same_trees_def index_abs_def tag_view_def tag_tree_def view_def ekey_def entry_global_def entry_addr_def
      skey_def[abs_def] split: option.split)

lemma same_trees_tight: "same_trees s s' \<Longrightarrow> tight T s' = tight T s"
  by (simp add: same_trees_def tight_def tag_entries_def)

lemma same_trees_wf:
  assumes "index_wf T s" "same_trees s s'"
    and "\<And>a p. posts s a = Some p \<Longrightarrow> \<exists>q. posts s' a = Some q \<and> post_id q = post_id p"
  shows "index_wf T s'"
proof -
  note d = index_wfD[OF assms(1)]
  have k: "keeps s s'" using assms(2,3) by (simp add: keeps_def same_trees_def)
  have same: "globals s' = globals s" "entries s' = entries s" "subs s' = subs s" "next_addr s \<le> next_addr s'"
    "index_global s' = index_global s" "index_by_time s' = index_by_time s" "index_by_tag s' = index_by_tag s"
    using assms(2) by (simp_all add: same_trees_def)
  have "globals_ok s' (T (index_global s'))" using globals_ok_keeps[OF d(1) k] by (simp add: same)
  moreover have "entries_ok s' (T (index_global s')) ET_TIME (T (index_by_time s'))"
    using entries_ok_keeps[OF d(1,2) k] by (simp add: same)
  moreover have "entry_global s' ` set (T (index_by_time s')) = set (T (index_global s'))"
    using d(3) by (simp add: same entry_global_def[abs_def])
  moreover have "subs_ok T s' (T (index_global s')) (T (index_by_tag s'))"
    using subs_ok_keeps[OF d(1,4) k] by (simp add: same)
  moreover have "addrs_ok s'" using d(5) same(4) unfolding addrs_ok_def same(1-3) by (meson le_trans)
  ultimately show ?thesis by (simp add: index_wf_def)
qed

lemma site_ok_change:
  assumes "site_ok T s hs" "same_trees s s'" "set hs' \<subseteq> dom (posts s)"
    and "\<And>a p. posts s a = Some p \<Longrightarrow>
      \<exists>q. posts s' a = Some q \<and> post_id q = post_id p \<and> post_refcnt q = Suc (count_list hs' a) \<and> \<not> post_preview q"
    and "\<And>a. posts s a = None \<Longrightarrow> posts s' a = None"
  shows "site_ok T s' hs'"
proof -
  note d = site_okD[OF assms(1)]
  have "index_wf T s'" using assms(4) by (intro same_trees_wf[OF d(1) assms(2)]) blast
  moreover have "allocs s'" using d(2) assms(2) by (simp add: allocs_def same_trees_def)
  moreover have "tight T s'" using d(3) same_trees_tight[OF assms(2)] by simp
  moreover have "owned T s' hs'"
    unfolding owned_def same_trees_abs[OF assms(2)]
  proof (intro conjI allI impI)
    fix a q assume q: "posts s' a = Some q"
    with assms(5) obtain p where p: "posts s a = Some p" by (cases "posts s a") auto
    with d(4) q assms(4)[OF p] show "a \<in> snd ` set (index_abs T s None)" "post_refcnt q = Suc (count_list hs' a)" "\<not> post_preview q"
      by (auto simp: owned_def)
  next
    show "set hs' \<subseteq> dom (posts s')" using assms(3,4) by (fastforce simp: dom_def)
  next
    fix a assume "next_addr s' \<le> a"
    then show "posts s' a = None" using d(4) assms(2,5) by (simp add: owned_def same_trees_def)
  qed
  ultimately show ?thesis by (simp add: site_ok_def)
qed

section \<open>References\<close>

lemma site_ok_getref:
  assumes "site_ok T s hs" "posts s a = Some p"
  shows "site_ok T (s\<lparr>posts := (posts s)(a \<mapsto> p\<lparr>post_refcnt := post_refcnt p + 1\<rparr>)\<rparr>) (a # hs)"
proof (rule site_ok_change[OF assms(1)])
  show "set (a # hs) \<subseteq> dom (posts s)" using assms site_okD(4)[OF assms(1)] by (auto simp: owned_def)
qed (use site_ok_post[OF assms(1)] assms(2) in \<open>auto simp: same_trees_def\<close>)

lemma site_ok_putref:
  assumes "site_ok T s (a # hs)" "post_putref s a = Inr s'"
  shows "site_ok T s' hs"
proof -
  obtain p where p: "posts s a = Some p" using site_ok_held[OF assms(1)] by auto
  have s': "s' = s\<lparr>posts := (posts s)(a \<mapsto> p\<lparr>post_refcnt := post_refcnt p - 1\<rparr>)\<rparr>"
    using assms(2) p site_ok_post(1)[OF assms(1) p] by (simp add: post_putref_def deref_def)
  show ?thesis
    unfolding s'
  proof (rule site_ok_change[OF assms(1)])
    show "set hs \<subseteq> dom (posts s)" using site_okD(4)[OF assms(1)] by (auto simp: owned_def)
  qed (use site_ok_post[OF assms(1)] p in \<open>auto simp: same_trees_def\<close>)
qed

lemma site_ok_lookup:
  assumes "rb_laws R T" "site_ok T s hs" "index_lookup_post R s i = Inr (r, s')"
  shows "case r of None \<Rightarrow> s' = s \<and> i \<notin> ids T s | Some a \<Rightarrow> site_ok T s' (a # hs)"
proof (cases "i \<in> ids T s")
  case True
  with index_lookup_eq[OF assms(1) site_okD(1)[OF assms(2)], of i] assms(3) obtain a p where
    "posts s a = Some p" "r = Some a" "s' = s\<lparr>posts := (posts s)(a \<mapsto> p\<lparr>post_refcnt := post_refcnt p + 1\<rparr>)\<rparr>" by auto
  with site_ok_getref[OF assms(2)] show ?thesis by simp
next
  case False
  with index_lookup_eq[OF assms(1) site_okD(1)[OF assms(2)], of i] assms(3) show ?thesis by simp
qed

section \<open>Listings\<close>

lemma take_loop_refs:
  "take_loop R tree pred cap s c0 n ret = Some r \<Longrightarrow>
   \<forall>hs ps s'. site_ok T s hs \<longrightarrow> r = Inr (ps, s') \<longrightarrow> (\<exists>qs. ps = ret @ qs \<and> site_ok T s' (rev qs @ hs))"
proof (induction R tree pred cap s c0 n ret r rule: take_loop.raw_induct[rotated, consumes 1, case_names 1])
  case (1 loop R tree pred cap s c0 n ret r)
  note IH = 1(1) and run = 1(2)
  show ?case
  proof (intro allI impI)
    fix hs ps s' assume ok: "site_ok T s hs" and r: "r = Inr (ps, s')"
    show "\<exists>qs. ps = ret @ qs \<and> site_ok T s' (rev qs @ hs)"
    proof (cases "c0 = None \<or> n = 0")
      case True
      with run r ok show ?thesis by (auto split: option.splits)
    next
      case False
      then obtain c where c: "c0 = Some c" "n \<noteq> 0" by auto
      with run r obtain a p where e: "entry_post s c = Inr (a, p)" by (auto split: sum.splits)
      show ?thesis
      proof (cases "\<not> post_listed p \<or> (case pred of None \<Rightarrow> False | Some f \<Rightarrow> \<not> f p)")
        case True
        with c run e have "loop R tree pred cap s (rb_prev R tree c) n ret = Some r" by (auto split: if_splits)
        from IH[OF this] ok r show ?thesis by blast
      next
        case take: False
        with c run e r obtain s1 n' where
          s1: "post_getref s a = Inr s1" "loop R tree pred cap s1 (rb_prev R tree c) n' (ret @ [a]) = Some r"
          by (auto split: sum.splits if_splits)
        from s1(1) obtain q where q: "posts s a = Some q" "s1 = s\<lparr>posts := (posts s)(a \<mapsto> q\<lparr>post_refcnt := post_refcnt q + 1\<rparr>)\<rparr>"
          by (auto simp: post_getref_def deref_def split: option.splits)
        from site_ok_getref[OF ok q(1)] q(2) have "site_ok T s1 (a # hs)" by simp
        with IH[OF s1(2)] r obtain qs where "ps = (ret @ [a]) @ qs" "site_ok T s' (rev qs @ a # hs)" by blast
        then show ?thesis by (intro exI[of _ "a # qs"]) simp
      qed
    qed
  qed
qed

lemma site_ok_perm: "site_ok T s hs \<Longrightarrow> mset hs = mset hs' \<Longrightarrow> site_ok T s hs'"
  by (simp add: site_ok_def owned_def count_mset[symmetric]) (metis set_mset_mset)

lemma site_ok_listing:
  assumes "site_ok T s []" "index_get_posts R cap s tag pred k n = Some (Inr (ps, s'))"
  shows "site_ok T s' ps"
proof -
  have "ps = [] \<and> s' = s \<or> (\<exists>tree c0. take_loop R tree pred cap s c0 n [] = Some (Inr (ps, s')))"
    using assms(2) by (auto simp: index_get_posts_def split: option.splits sum.splits)
  then show ?thesis
  proof (elim disjE exE)
    fix tree c0 assume "take_loop R tree pred cap s c0 n [] = Some (Inr (ps, s'))"
    from take_loop_refs[OF this] assms(1) have "site_ok T s' (rev ps)" by fastforce
    then show ?thesis by (rule site_ok_perm) simp
  qed (use assms(1) in simp)
qed

section \<open>Refreshing and loading\<close>

lemma refresh_same:
  assumes "post_laws E" "post_refresh E p = Inr (0, q)" "\<not> post_preview p"
  shows "post_id q = post_id p \<and> post_refcnt q = post_refcnt p \<and> \<not> post_preview q"
proof (cases "must_refresh E p = Inr True")
  case True
  from refresh_ok[OF assms(1,2) this] assms(3) show ?thesis by simp
next
  case False
  with assms(2) have "q = p" by (auto simp: post_refresh_def rbind_eq_Inr split: if_splits)
  with assms(3) show ?thesis by simp
qed

lemma site_ok_refresh:
  assumes "post_laws (we_posts W)" "site_ok T s hs" "refresh_at W s a = Inr (p, s')"
  shows "site_ok T s' hs"
proof -
  from assms(3) obtain p0 where p0: "posts s a = Some p0" "post_refresh (we_posts W) p0 = Inr (0, p)"
    "s' = s\<lparr>posts := (posts s)(a \<mapsto> p)\<rparr>"
    by (auto simp: refresh_at_def deref_def rbind_eq_Inr split: option.splits)
  note q = refresh_same[OF assms(1) p0(2) site_ok_post(2)[OF assms(2) p0(1)]]
  show ?thesis
    unfolding p0(3)
  proof (rule site_ok_change[OF assms(2)])
    show "set hs \<subseteq> dom (posts s)" using site_okD(4)[OF assms(2)] by (simp add: owned_def)
  qed (use site_ok_post[OF assms(2)] p0(1) q in \<open>auto simp: same_trees_def\<close>)
qed

lemma site_ok_addr:
  assumes "site_ok T s hs"
  shows "site_ok T (s\<lparr>next_addr := Suc (next_addr s)\<rparr>) hs"
proof (rule site_ok_change[OF assms])
  show "set hs \<subseteq> dom (posts s)" using site_okD(4)[OF assms] by (simp add: owned_def)
qed (use site_ok_post[OF assms] in \<open>auto simp: same_trees_def\<close>)

lemma snd_view_insert:
  assumes "k \<notin> fst ` set l"
  shows "snd ` set (view_insert k a l) = insert a (snd ` set l)"
proof -
  have "set (filter (\<lambda>(j, _). j < k) l) \<union> set (filter (\<lambda>(j, _). k < j) l) = set l"
    using assms by (force simp: not_less)
  then show ?thesis by (auto simp: view_insert_def image_Un[symmetric] simp del: set_filter)
qed

lemma site_ok_insert:
  assumes "rb_laws R T" "site_ok T s hs" "s2 = s\<lparr>next_addr := Suc (next_addr s), posts := (posts s)(next_addr s \<mapsto> q)\<rparr>"
    and "index_wf T s2" "allocs s2" "insertable T s2 q" "post_refcnt q = 1" "\<not> post_preview q"
    and "index_insert_post R s2 (next_addr s) = Inr (0, s')"
  shows "site_ok T s' (next_addr s # hs)"
proof -
  let ?n = "next_addr s"
  note d = site_okD[OF assms(2)]
  have p2: "posts s2 ?n = Some q" by (simp add: assms(3))
  have free: "posts s ?n = None" "?n \<notin> set hs" using d(4,5) by (auto simp: owned_def)
  have trees: "same_trees s s2" by (simp add: same_trees_def assms(3))
  obtain s3 where s3: "index_insert_post R s2 ?n = Inr (0, s3)" "index_wf T s3"
    "posts s3 = (posts s2)(?n \<mapsto> q\<lparr>post_refcnt := post_refcnt q + 1\<rparr>)"
    "view s3 (T (index_by_time s3)) = view_insert (post_time q, post_id q) ?n (view s2 (T (index_by_time s2)))"
    "tight T s2 \<Longrightarrow> tight T s3" "alloc_ok s3 = alloc_ok s2" "next_addr s2 \<le> next_addr s3"
    using index_insert_new[OF assms(1,4,5) p2 assms(6)] by metis
  have s': "s' = s3" using s3(1) assms(9) by simp
  note d2 = index_wfD[OF assms(4)]
  have "(post_time q, post_id q) \<notin> ekey s2 ` set (T (index_by_time s2))"
    using new_key_entries[OF d2(1,2)] assms(6) by (simp add: insertable_def ids_def)
  then have new: "(post_time q, post_id q) \<notin> fst ` set (view s2 (T (index_by_time s2)))" by (simp add: view_def image_image)
  have abs: "snd ` set (index_abs T s3 None) = insert ?n (snd ` set (index_abs T s None))"
    using same_trees_abs[OF trees, of T None] new s3(4) by (simp add: index_abs_def snd_view_insert)
  have posts3: "posts s3 = (posts s)(?n \<mapsto> q\<lparr>post_refcnt := 2\<rparr>)" by (simp add: s3(3) assms(3,7) numeral_2_eq_2)
  have "owned T s3 (?n # hs)"
    unfolding owned_def abs posts3
  proof (intro conjI allI impI)
    fix a p assume p: "((posts s)(?n \<mapsto> q\<lparr>post_refcnt := 2\<rparr>)) a = Some p"
    show "a \<in> insert ?n (snd ` set (index_abs T s None))" "post_refcnt p = Suc (count_list (?n # hs) a)" "\<not> post_preview p"
      using p d(4) assms(8) free(2) by (auto simp: owned_def count_list_0_iff split: if_splits)
  next
    show "set (?n # hs) \<subseteq> dom ((posts s)(?n \<mapsto> q\<lparr>post_refcnt := 2\<rparr>))" using d(4) by (auto simp: owned_def)
  next
    fix a assume "next_addr s3 \<le> a"
    with s3(7) have "?n < a" by (simp add: assms(3))
    with d(4) show "((posts s)(?n \<mapsto> q\<lparr>post_refcnt := 2\<rparr>)) a = None" by (simp add: owned_def)
  qed
  moreover have "allocs s3" using assms(5) s3(6,7) unfolding allocs_def by (metis le_trans)
  moreover have "tight T s3" using s3(5) d(3) same_trees_tight[OF trees] by simp
  ultimately show ?thesis using s3(2) by (simp add: s' site_ok_def)
qed

lemma site_ok_load:
  assumes "post_laws E" "rb_laws R T" "site_ok T s hs" "load_post E R s i False = Inr (r, s')"
  shows "case r of None \<Rightarrow> site_ok T s' hs | Some a \<Rightarrow> site_ok T s' (a # hs)"
proof (cases "word_of_int i \<in> ids T s")
  case True
  obtain r1 s1 where lk: "index_lookup_post R s (word_of_int i) = Inr (r1, s1)"
    using assms(4) by (auto simp: load_post_def rbind_eq_Inr)
  from site_ok_lookup[OF assms(2,3) this] True obtain a where a: "r1 = Some a" "site_ok T s1 (a # hs)"
    by (cases r1) auto
  with lk assms(4) have "r = Some a" "s' = s1" by (simp_all add: load_post_def)
  with a(2) show ?thesis by simp
next
  case False
  note d = site_okD[OF assms(3)]
  from assms(1,2) d(1,2,5) False assms(4) show ?thesis
  proof (cases rule: load_post_new)
    case failed
    then show ?thesis using site_ok_addr[OF assms(3)] by simp
  next
    case (inserted q s2)
    from site_ok_insert[OF assms(2,3) inserted(2,3,4,6,9,10,7)] inserted(1) show ?thesis by simp
  qed
qed

text \<open>A preview gives back the state but for the address it used.\<close>

lemma site_ok_get_post:
  assumes "post_laws (we_posts W)" "rb_laws (we_rb W) T" "site_ok T s hs" "get_post W r s i tv preview = Inr (x, r', s')"
    and preview: "preview \<Longrightarrow> s' = s\<lparr>next_addr := Suc (next_addr s)\<rparr>"
  shows "site_ok T s' hs"
proof (cases preview)
  case True
  with preview site_ok_addr[OF assms(3)] show ?thesis by simp
next
  case False
  obtain y s1 where ld: "load_post (we_posts W) (we_rb W) s i False = Inr (y, s1)"
    using assms(4) False by (auto simp: get_post_def rbind_eq_Inr)
  note ok = site_ok_load[OF assms(1-3) ld]
  show ?thesis
  proof (cases y)
    case None
    with ok ld assms(4) False show ?thesis by (simp add: get_post_def)
  next
    case (Some a)
    with assms(4) ld False obtain p s2 where "refresh_at W s1 a = Inr (p, s2)" "post_putref s2 a = Inr s'"
      by (auto simp: get_post_def rbind_eq_Inr)
    with ok Some show ?thesis using site_ok_refresh[OF assms(1)] site_ok_putref by fastforce
  qed
qed

lemma site_ok_load_posts:
  assumes "post_laws (we_posts W)"
  shows "site_ok T s (as @ hs) \<Longrightarrow> load_posts_loop W r s as vs mt = Inr (vs', mt', r', s') \<Longrightarrow> site_ok T s' hs"
proof (induction as arbitrary: s vs mt r)
  case (Cons a as)
  from Cons.prems(2) obtain p s1 where s1: "refresh_at W s a = Inr (p, s1)" by (auto simp: rbind_eq_Inr)
  with Cons.prems(2) obtain out r1 where out: "store_vars W r p None = Inr (out, r1)" by (auto simp: rbind_eq_Inr)
  with Cons.prems(2) s1 obtain s2 where s2: "post_putref s1 a = Inr s2" by (auto simp: rbind_eq_Inr)
  from site_ok_refresh[OF assms Cons.prems(1) s1] have "site_ok T s1 (a # as @ hs)" by simp
  note ok = site_ok_putref[OF this s2]
  from Cons.prems(2) s1 out s2 show ?case by (cases out) (auto intro: Cons.IH[OF ok])
qed simp

section \<open>The start of the program\<close>

lemma site_ok_init:
  assumes "rb_laws R T" "init_post_index R c1 c2 c3 Map.empty alloc = Inr s" "\<forall>n. alloc n"
  shows "site_ok T s []"
proof -
  from assms(2) have s: "s = \<lparr>posts = Map.empty, globals = \<lambda>_. None, entries = \<lambda>_. None, subs = \<lambda>_. None,
      index_global = rb_create R, index_by_time = rb_create R, index_by_tag = rb_create R, next_addr = 0, alloc_ok = alloc\<rparr>"
    by (simp add: init_post_index_def rbind_eq_Inr)
  show ?thesis
    using assms(3) rb_basic(1)[OF assms(1)]
    by (simp add: s site_ok_def index_wf_def globals_ok_def entries_ok_def subs_ok_def addrs_ok_def allocs_def tight_def owned_def)
qed

lemma site_ok_load_entries:
  assumes "post_laws E" "rb_laws R T"
  shows "site_ok T s [] \<Longrightarrow> load_entries E R num isdir dir des s = Inr s' \<Longrightarrow> site_ok T s' []"
proof (induction des arbitrary: s)
  case (Cons de des)
  show ?case
  proof (cases "\<exists>i s1. tq_load_post E R s i = Inr s1 \<and> load_entries E R num isdir dir des s1 = Inr s'")
    case True
    then obtain i s1 where s1: "tq_load_post E R s i = Inr s1" "load_entries E R num isdir dir des s1 = Inr s'" by blast
    from s1(1) obtain r s0 where ld: "load_post E R s i False = Inr (r, s0)" "putref_opt s0 r = Inr s1"
      by (auto simp: tq_load_post_def rbind_eq_Inr)
    from site_ok_load[OF assms Cons.prems(1) ld(1)] ld(2) have "site_ok T s1 []"
      using site_ok_putref by (cases r) (auto simp: putref_opt_def)
    from Cons.IH[OF this s1(2)] show ?thesis .
  next
    case False
    with Cons.prems(2) have "load_entries E R num isdir dir des s = Inr s'"
      by (auto simp: rbind_eq_Inr split: if_splits option.splits sum.splits bool.splits)
    from Cons.IH[OF Cons.prems(1) this] show ?thesis .
  qed
qed simp

lemma site_ok_load_all:
  assumes "post_laws E" "rb_laws R T" "site_ok T s []" "load_all_posts E R num isdir opendir tq_err s = Inr (ret, s')"
  shows "site_ok T s' []"
proof -
  obtain dir where dir: "str_cstr (cf_data_dir (fe_cfg (pe_files E))) = Inr dir"
    using assms(4) by (auto simp: load_all_posts_def rbind_eq_Inr)
  have "s' = s \<or> (\<exists>des. load_entries E R num isdir dir des s = Inr s')"
    using assms(4) dir
    by (cases "opendir (c_snprintf FILENAME_MAX (dir @ ''/posts''))"; cases tq_err) (auto simp: load_all_posts_def rbind_eq_Inr)
  with assms(3) site_ok_load_entries[OF assms(1,2)] show ?thesis by blast
qed

end
