(* ===== verification/Daemon.thy ===== *)
theory Daemon
  imports Handlers
begin

text \<open>
  The daemon (\<^verbatim>\<open>daemon.c\<close>): dropping privileges, starting the subsystems, serving requests, freeing
  everything; the log of the requests (\<^verbatim>\<open>req.c\<close>) and the messages to the system log (\<^verbatim>\<open>error.c\<close>). A
  request is a connection of the library that goes through three callbacks: it is initialised, processed
  and deinitialised. The callbacks of different connections interleave.
\<close>

section \<open>Messages\<close>

text \<open>The number of the request a thread works on, in front of its messages; 0 is none.\<close>

definition get_session :: "u32 \<Rightarrow> string" where
  "get_session session_id =
     (if session_id = 0 then '''' else c_snprintf 64 ('' {'' @ dec_of_nat (unat session_id) @ ''}''))"

definition LOG_LOCAL0 :: u32 where
  "LOG_LOCAL0 = 128"

text \<open>What is handed to \<^verbatim>\<open>syslog\<close>, if anything; \<open>expanded\<close> is the format with its arguments.\<close>

definition mylog :: "bool \<Rightarrow> u32 \<Rightarrow> string \<Rightarrow> (u32 \<times> string) option" where
  "mylog disable_syslog level expanded =
     (if disable_syslog then None else Some (or LOG_LOCAL0 level, c_snprintf 512 expanded))"

section \<open>The log of requests\<close>

text \<open>
  The parts of a connection only the log uses, and the library functions only the log uses. The numbers of
  \<^verbatim>\<open>enum scgi_status\<close> belong to the library.
\<close>

record conn =
  conn_id :: u32
  conn_fd :: int
  selected_time :: u64
  accepted_time :: u64
  dequeued_time :: u64
  read_header_time :: u64
  read_body_time :: u64
  compute_time :: u64
  write_header_time :: u64
  write_body_time :: u64

record 'n log_env =
  nvl_set_nvl :: "'n \<Rightarrow> string \<Rightarrow> 'n \<Rightarrow> int \<times> 'n"
  nvl_set_null :: "'n \<Rightarrow> string \<Rightarrow> int \<times> 'n"
  nvl_pack_cbor :: "'n \<Rightarrow> int + string"
  status_number :: "scgi_status \<Rightarrow> u64"
  xgethostname :: string
  getpid :: u64
  xthr_self :: u64
  jeffpc_version :: string

text \<open>Assignments whose results are not looked at.\<close>

fun nvl_puts :: "('n \<Rightarrow> int \<times> 'n) list \<Rightarrow> 'n \<Rightarrow> 'n" where
  "nvl_puts [] l = l"
| "nvl_puts (f # fs) l = nvl_puts fs (snd (f l))"

definition nvl_set_time :: "('n, 't) web_env \<Rightarrow> 'n log_env \<Rightarrow> string \<Rightarrow> u64 \<Rightarrow> 'n \<Rightarrow> int \<times> 'n" where
  "nvl_set_time W L name ts l = (if ts \<noteq> 0 then nvl_set_int (we_nvl W) l name ts else nvl_set_null L l name)"

definition log_version :: "('n, 't) web_env \<Rightarrow> 'n log_env \<Rightarrow> 'n \<Rightarrow> 'n" where
  "log_version W L =
     nvl_puts [\<lambda>l. nvl_set_str (we_nvl W) l ''blahgd'' (we_version W),
               \<lambda>l. nvl_set_str (we_nvl W) l ''libjeffpc'' (jeffpc_version L)]"

definition log_req :: "('n, 't) web_env \<Rightarrow> 'n log_env \<Rightarrow> conn \<Rightarrow> 'n req \<Rightarrow> string \<Rightarrow> 'n \<Rightarrow> 'n" where
  "log_req W L c r body =
     nvl_puts [\<lambda>l. nvl_set_int (we_nvl W) l ''id'' (ucast (conn_id c)),
               \<lambda>l. nvl_set_nvl L l ''headers'' (scgi_headers (scgi r)),
               \<lambda>l. nvl_set_nvl L l ''query'' (scgi_query (scgi r)),
               \<lambda>l. nvl_set_str (we_nvl W) l ''body'' body,
               \<lambda>l. case req_fmt r of Some f \<Rightarrow> nvl_set_str (we_nvl W) l ''fmt'' f | None \<Rightarrow> nvl_set_null L l ''fmt'',
               \<lambda>l. nvl_set_int (we_nvl W) l ''file-descriptor'' (u64_of_int (conn_fd c)),
               \<lambda>l. nvl_set_int (we_nvl W) l ''thread-id'' (xthr_self L)]"

definition log_response :: "('n, 't) web_env \<Rightarrow> 'n log_env \<Rightarrow> 'n req \<Rightarrow> 'n \<Rightarrow> 'n" where
  "log_response W L r =
     nvl_puts [\<lambda>l. nvl_set_int (we_nvl W) l ''status'' (status_number L (resp_status (scgi r))),
               \<lambda>l. nvl_set_nvl L l ''headers'' (resp_headers (scgi r)),
               \<lambda>l. nvl_set_int (we_nvl W) l ''body-length'' (resp_bodylen (scgi r))]"

definition log_stats :: "('n, 't) web_env \<Rightarrow> 'n log_env \<Rightarrow> conn \<Rightarrow> 'n \<Rightarrow> 'n" where
  "log_stats W L c =
     nvl_puts [nvl_set_time W L ''conn-selected'' (selected_time c),
               nvl_set_time W L ''conn-accepted'' (accepted_time c),
               nvl_set_time W L ''conn-dequeued'' (dequeued_time c),
               nvl_set_time W L ''scgi-read-header'' (read_header_time c),
               nvl_set_time W L ''scgi-read-body'' (read_body_time c),
               nvl_set_time W L ''scgi-compute'' (compute_time c),
               nvl_set_time W L ''scgi-write-header'' (write_header_time c),
               nvl_set_time W L ''scgi-write-body'' (write_body_time c)]"

definition log_options :: "('n, 't) web_env \<Rightarrow> 'n req \<Rightarrow> 'n \<Rightarrow> 'n" where
  "log_options W r =
     nvl_puts [\<lambda>l. nvl_set_int (we_nvl W) l ''index-stories'' (u64_of_int (index_stories r))]"

definition log_entry :: "('n, 't) web_env \<Rightarrow> 'n log_env \<Rightarrow> conn \<Rightarrow> 'n req \<Rightarrow> string \<Rightarrow> 'n \<Rightarrow> 'n" where
  "log_entry W L c r body new =
     nvl_puts [\<lambda>l. nvl_set_int (we_nvl W) l ''time-stamp'' (we_time W),
               \<lambda>l. nvl_set_int (we_nvl W) l ''pid'' (getpid L),
               \<lambda>l. nvl_set_str (we_nvl W) l ''hostname'' (xgethostname L),
               \<lambda>l. nvl_set_nvl L l ''version'' (log_version W L new),
               \<lambda>l. nvl_set_nvl L l ''request'' (log_req W L c r body new),
               \<lambda>l. nvl_set_nvl L l ''response'' (log_response W L r new),
               \<lambda>l. nvl_set_nvl L l ''stats'' (log_stats W L c new),
               \<lambda>l. nvl_set_nvl L l ''options'' (log_options W r new)] new"

definition log_path :: "string \<Rightarrow> u64 \<Rightarrow> conn \<Rightarrow> string" where
  "log_path dir now c =
     c_snprintf FILENAME_MAX (dir @ ''/requests/'' @ dec_of_nat (unat (now div 1000000000)) @ ''.'' @
       zero_pad 9 (unat (now mod 1000000000)) @ ''-'' @ zero_pad 11 (unat (conn_id c)))"

text \<open>The operations on files performed; every failure is only noted in the system log.\<close>

definition log_request :: "('n, 't) web_env \<Rightarrow> 'n log_env \<Rightarrow> conn \<Rightarrow> 'n req \<Rightarrow> fs_op list res" where
  "log_request W L c r =
     rbind (str_cstr (cf_data_dir (we_cfg W))) (\<lambda>dir.
       case nvl_alloc (we_nvl W) of
         None \<Rightarrow> Inr []
       | Some new \<Rightarrow>
           rbind (str_cstr (scgi_body (scgi r))) (\<lambda>body.
             case nvl_pack_cbor L (log_entry W L c r body new) of
               Inl _ \<Rightarrow> Inr []
             | Inr packed \<Rightarrow> Inr [FS_write (log_path dir (we_time W) c) packed]))"

text \<open>The structure is freed afterwards; what is left of it are the variables.\<close>

definition req_destroy :: "('n, 't) web_env \<Rightarrow> 'n log_env \<Rightarrow> conn \<Rightarrow> 'n req \<Rightarrow> (fs_op list \<times> 'n vars) res" where
  "req_destroy W L c r =
     rbind (log_request W L c r) (\<lambda>ops.
     rbind (vars_destroy (req_vars r)) (\<lambda>v. Inr (ops, v)))"

section \<open>The callbacks\<close>

text \<open>\<open>mem\<close> tells whether \<^verbatim>\<open>malloc\<close> finds memory.\<close>

definition init_request :: "bool \<Rightarrow> ('n, 't) web_env \<Rightarrow> 'n scgi \<Rightarrow> (int \<times> 'n req option) res" where
  "init_request mem W c =
     (if \<not> mem then Inr (- ENOMEM, None) else rbind (req_init W c) (\<lambda>r. Inr (0, Some r)))"

definition deinit_request :: "('n, 't) web_env \<Rightarrow> 'n log_env \<Rightarrow> conn \<Rightarrow> 'n req \<Rightarrow> fs_op list res" where
  "deinit_request W L c r = rbind (req_destroy W L c r) (\<lambda>(ops, _). Inr ops)"

definition process_request ::
  "('n, 't) web_env \<Rightarrow> conn \<Rightarrow> 'n req \<Rightarrow> ('n, 't) pindex \<Rightarrow> (fs_op list \<times> 'n req \<times> ('n, 't) pindex) res" where
  "process_request W c r s =
     rbind (req_dispatch W r s) (\<lambda>(ops, r1, s1).
     rbind (req_output W (read_body_time c) r1) (\<lambda>r2. Inr (ops, r2, s1)))"

section \<open>Privileges\<close>

datatype priv_ptype = PRIV_PERMITTED | PRIV_LIMIT | PRIV_INHERITABLE

text \<open>The system calls give 0 or the error number they leave.\<close>

record priv_ops =
  priv_allocset :: int
  priv_addset :: "string \<Rightarrow> int"
  setppriv :: "priv_ptype \<Rightarrow> string list \<Rightarrow> int"

definition privs :: "string list" where
  "privs = [''file_read'', ''file_write'', ''net_access'']"

definition privsets :: "priv_ptype list" where
  "privsets = [PRIV_PERMITTED, PRIV_LIMIT, PRIV_INHERITABLE]"

fun add_privs :: "priv_ops \<Rightarrow> string list \<Rightarrow> string list \<Rightarrow> int \<times> string list" where
  "add_privs P [] wanted = (0, wanted)"
| "add_privs P (p # ps) wanted =
     (if priv_addset P p \<noteq> 0 then (- priv_addset P p, wanted) else add_privs P ps (wanted @ [p]))"

text \<open>The result is the error and the sets that were replaced.\<close>

fun set_privs :: "priv_ops \<Rightarrow> string list \<Rightarrow> priv_ptype list \<Rightarrow> int \<times> priv_ptype list" where
  "set_privs P wanted [] = (0, [])"
| "set_privs P wanted (t # ts) =
     (if setppriv P t wanted \<noteq> 0 then (- setppriv P t wanted, [])
      else let (ret, done) = set_privs P wanted ts in (ret, t # done))"

text \<open>A system without privileges has no such calls, and the program goes on with all it has.\<close>

definition drop_privs :: "priv_ops option \<Rightarrow> int \<times> (priv_ptype list \<times> string list) option" where
  "drop_privs have_priv =
     (case have_priv of
        None \<Rightarrow> (0, None)
      | Some P \<Rightarrow>
          if priv_allocset P \<noteq> 0 then (- priv_allocset P, None)
          else (case add_privs P privs [] of
            (ret, wanted) \<Rightarrow>
              if ret \<noteq> 0 then (ret, None)
              else (case set_privs P wanted privsets of (ret, done) \<Rightarrow> (ret, Some (done, wanted)))))"

section \<open>The program\<close>

text \<open>
  \<^verbatim>\<open>d_caches\<close> tells which of the four memory caches outside the index can be made, \<^verbatim>\<open>d_svc\<close> is the service of
  the library, which runs the callbacks until it is told to stop: the error number it gives and the index
  after all requests.
\<close>

record ('n, 't) daemon_env =
  d_web :: "('n, 't) web_env"
  d_priv :: "priv_ops option"
  d_file_cache_init :: int
  d_caches :: "nat \<Rightarrow> bool"
  d_alloc :: "nat \<Rightarrow> bool"
  d_str2u32 :: "string \<Rightarrow> u32 option"
  d_isdir :: "string \<Rightarrow> int + bool"
  d_opendir :: "string \<Rightarrow> int + string list"
  d_tq_err :: "int option"
  d_svc :: "('n, 't) pindex \<Rightarrow> (int \<times> ('n, 't) pindex) res"

definition init_pipe_subsys :: "bool \<Rightarrow> bool \<Rightarrow> unit res" where
  "init_pipe_subsys pipestage_cache pipeline_cache =
     rbind (assert_that pipestage_cache) (\<lambda>_. assert_that pipeline_cache)"

definition init_post_subsys :: "'t rb_ops \<Rightarrow> (nat \<Rightarrow> bool) \<Rightarrow> (nat \<Rightarrow> bool) \<Rightarrow> ('n, 't) pindex res" where
  "init_post_subsys R caches alloc =
     rbind (assert_that (caches 2)) (\<lambda>_.
     rbind (assert_that (caches 3)) (\<lambda>_.
       init_post_index R (caches 4) (caches 5) (caches 6) Map.empty alloc))"

definition main_blahgd :: "('n, 't) daemon_env \<Rightarrow> (int \<times> ('n, 't) pindex option) res" where
  "main_blahgd D =
     (case drop_privs (d_priv D) of
        (ret, _) \<Rightarrow>
          if ret \<noteq> 0 then Inr (ret, None)
          else
            rbind (assert_that (d_file_cache_init D = 0)) (\<lambda>_.
            rbind (init_pipe_subsys (d_caches D 0) (d_caches D 1)) (\<lambda>_.
            rbind (init_post_subsys (we_rb (d_web D)) (d_caches D) (d_alloc D)) (\<lambda>s0.
            rbind (load_all_posts (we_posts (d_web D)) (we_rb (d_web D)) (d_str2u32 D) (d_isdir D) (d_opendir D)
                     (d_tq_err D) s0) (\<lambda>(ret, s1).
              if ret \<noteq> 0 then Inr (ret, Some s1)
              else rbind (d_svc D s1) (\<lambda>(ret, s2).
                if ret \<noteq> 0 then Inr (ret, Some s2)
                else rbind (free_all_posts (we_rb (d_web D)) s2) (\<lambda>s3. Inr (0, Some s3))))))))"

text \<open>\<open>putenv\<close> is the result of setting the time zone; \<open>D\<close> gives the environment for a configuration.\<close>

definition main_daemon ::
  "int \<Rightarrow> 'n sx_ops \<Rightarrow> (string \<Rightarrow> int + string) \<Rightarrow> u64 \<times> u64 \<Rightarrow> string list \<Rightarrow> ('n config \<Rightarrow> ('n, 't) daemon_env) \<Rightarrow> int res" where
  "main_daemon putenv S read_file rnd argv D =
     rbind (assert_that (putenv = 0)) (\<lambda>_.
       case config_load S read_file rnd (if 2 \<le> length argv then Some (argv ! 1) else None) of
         Inl e \<Rightarrow> Inr e
       | Inr cfg \<Rightarrow> rbind (main_blahgd (D cfg)) (\<lambda>(ret, _). Inr ret))"

section \<open>Serving\<close>

text \<open>A connection the library has, with its request once it is initialised.\<close>

datatype 'n session = Accepted conn "'n req" | Answered conn "'n req"

record ('n, 't) site =
  site_index :: "('n, 't) pindex"
  site_conns :: "nat \<Rightarrow> 'n session option"
  site_files :: "fs_op list"

text \<open>
  One callback of one connection, in an environment of that moment: the clock, the files, the cache and the
  requests are those of \<open>W\<close>, any environment \<open>env\<close> allows.
\<close>

inductive site_step :: "(('n, 't) web_env \<Rightarrow> bool) \<Rightarrow> ('n, 't) site \<Rightarrow> ('n, 't) site \<Rightarrow> bool" for env where
  accept: "env W \<Longrightarrow> site_conns \<sigma> i = None \<Longrightarrow> init_request mem W x = Inr (0, Some r) \<Longrightarrow>
     site_step env \<sigma> (\<sigma>\<lparr>site_conns := (site_conns \<sigma>)(i \<mapsto> Accepted c r)\<rparr>)"
| refuse: "env W \<Longrightarrow> site_conns \<sigma> i = None \<Longrightarrow> init_request mem W x = Inr (ret, None) \<Longrightarrow> site_step env \<sigma> \<sigma>"
| process: "env W \<Longrightarrow> site_conns \<sigma> i = Some (Accepted c r) \<Longrightarrow>
     process_request W c r (site_index \<sigma>) = Inr (ops, r', s') \<Longrightarrow>
     site_step env \<sigma> \<lparr>site_index = s', site_conns = (site_conns \<sigma>)(i \<mapsto> Answered c r'), site_files = site_files \<sigma> @ ops\<rparr>"
| finish: "env W \<Longrightarrow> site_conns \<sigma> i = Some (Answered c r) \<Longrightarrow> deinit_request W L c r = Inr ops \<Longrightarrow>
     site_step env \<sigma> (\<sigma>\<lparr>site_conns := (site_conns \<sigma>)(i := None), site_files := site_files \<sigma> @ ops\<rparr>)"

inductive_cases site_stepE: "site_step env \<sigma> \<sigma>'"

definition site_start :: "('n, 't) pindex \<Rightarrow> ('n, 't) site" where
  "site_start s = \<lparr>site_index = s, site_conns = Map.empty, site_files = []\<rparr>"

text \<open>The states the service can reach from an index.\<close>

definition site_reach :: "(('n, 't) web_env \<Rightarrow> bool) \<Rightarrow> ('n, 't) pindex \<Rightarrow> ('n, 't) site \<Rightarrow> bool" where
  "site_reach env s \<sigma> \<longleftrightarrow> (site_step env)\<^sup>*\<^sup>* (site_start s) \<sigma>"

end
