(* ===== verification/Shutdown.thy ===== *)
theory Shutdown
  imports SiteIndex
begin

text \<open>
  The end of the program: freeing all posts from a state that keeps the invariant of \<^verbatim>\<open>SiteIndex\<close> frees
  every post, entry and subindex exactly once and uses none of them afterwards.
\<close>

section \<open>Freeing the trees\<close>

text \<open>Global entries that lead to the same posts.\<close>

definition same_posts :: "(nat \<Rightarrow> post_global_index_entry option) \<Rightarrow> (nat \<Rightarrow> post_global_index_entry option) \<Rightarrow> bool" where
  "same_posts m m' \<longleftrightarrow> (\<forall>a. map_option ge_post (m' a) = map_option ge_post (m a))"

lemma same_posts_refl: "same_posts m m"
  by (simp add: same_posts_def)

lemma same_posts_trans: "same_posts m n \<Longrightarrow> same_posts n k \<Longrightarrow> same_posts m k"
  by (simp add: same_posts_def)

lemma same_posts_live: "same_posts m m' \<Longrightarrow> m a = Some x \<Longrightarrow> \<exists>y. m' a = Some y \<and> ge_post y = ge_post x"
  unfolding same_posts_def by (metis map_option_eq_Some)

text \<open>The structures that freeing entries leaves alone.\<close>

definition entries_freed :: "nat set \<Rightarrow> ('n, 't) pindex \<Rightarrow> ('n, 't) pindex \<Rightarrow> bool" where
  "entries_freed X s s' \<longleftrightarrow> entries s' = entries s |` (- X) \<and> same_posts (globals s) (globals s') \<and> posts s' = posts s \<and>
     index_global s' = index_global s \<and> index_by_time s' = index_by_time s \<and> index_by_tag s' = index_by_tag s"

lemma free_index_ok:
  "distinct es \<Longrightarrow> (\<forall>e\<in>set es. \<exists>ie. entries s e = Some ie \<and> globals s (ie_global ie) \<noteq> None) \<Longrightarrow>
   \<exists>s'. free_index s es = Inr s' \<and> entries_freed (set es) s s' \<and> subs s' = subs s"
proof (induction es arbitrary: s)
  case Nil
  then show ?case by (simp add: entries_freed_def same_posts_refl restrict_map_def)
next
  case (Cons e es)
  from Cons.prems(2) obtain ie g where e: "entries s e = Some ie" "globals s (ie_global ie) = Some g" by auto
  define s1 where "s1 = (case ie_type ie of
      ET_TAG \<Rightarrow> s\<lparr>globals := (globals s)(ie_global ie \<mapsto> g\<lparr>ge_by_tag := remove1 e (ge_by_tag g)\<rparr>)\<rparr> | ET_TIME \<Rightarrow> s)"
  define s2 where "s2 = s1\<lparr>entries := (entries s1)(e := None)\<rparr>"
  have s2: "entries s2 = (entries s)(e := None)" "same_posts (globals s) (globals s2)" "posts s2 = posts s" "subs s2 = subs s"
    "index_global s2 = index_global s" "index_by_time s2 = index_by_time s" "index_by_tag s2 = index_by_tag s"
    using e(2) by (auto simp: s2_def s1_def same_posts_def split: entry_type.split)
  have run: "free_index s (e # es) = free_index s2 es"
    using e by (auto simp: s2_def s1_def deref_def split: entry_type.split)
  have "\<forall>f\<in>set es. \<exists>ie. entries s2 f = Some ie \<and> globals s2 (ie_global ie) \<noteq> None"
  proof
    fix f assume f: "f \<in> set es"
    with Cons.prems(2) obtain ie' g' where "entries s f = Some ie'" "globals s (ie_global ie') = Some g'" by fastforce
    moreover have "f \<noteq> e" using f Cons.prems(1) by auto
    ultimately show "\<exists>ie. entries s2 f = Some ie \<and> globals s2 (ie_global ie) \<noteq> None"
      using same_posts_live[OF s2(2)] by (fastforce simp: s2(1))
  qed
  with Cons.IH[of s2] Cons.prems(1) obtain s' where s': "free_index s2 es = Inr s'" "entries_freed (set es) s2 s'" "subs s' = subs s2"
    by auto
  have "entries s' = entries s |` (- set (e # es))"
    using s'(2) by (auto simp: entries_freed_def s2(1) restrict_map_def fun_eq_iff)
  with s' s2 run show ?case using same_posts_trans by (auto simp: entries_freed_def)
qed

lemma rb_nodes_all: "rb_laws R T \<Longrightarrow> set (rb_nodes R t) = set (T t) \<and> (distinct (T t) \<longrightarrow> distinct (rb_nodes R t))"
  unfolding rb_laws_def rb_walk_law_def by (metis card_distinct distinct_card)

definition tags_live :: "('t \<Rightarrow> nat list) \<Rightarrow> ('n, 't) pindex \<Rightarrow> nat list \<Rightarrow> bool" where
  "tags_live T s bs \<longleftrightarrow>
     (\<forall>b\<in>set bs. \<exists>x. subs s b = Some x \<and> distinct (T (si_tree x)) \<and>
        (\<forall>e\<in>tag_entries T s b. \<exists>ie. entries s e = Some ie \<and> globals s (ie_global ie) \<noteq> None)) \<and>
     (\<forall>b\<in>set bs. \<forall>c\<in>set bs. b \<noteq> c \<longrightarrow> tag_entries T s b \<inter> tag_entries T s c = {})"

lemma free_tag_index_ok:
  assumes R: "rb_laws R T"
  shows "distinct bs \<Longrightarrow> tags_live T s bs \<Longrightarrow>
    \<exists>s'. free_tag_index R s bs = Inr s' \<and> entries_freed (\<Union>b\<in>set bs. tag_entries T s b) s s' \<and> subs s' = subs s |` (- set bs)"
proof (induction bs arbitrary: s)
  case Nil
  then show ?case by (simp add: entries_freed_def same_posts_refl restrict_map_def)
next
  case (Cons b bs)
  from Cons.prems(2) obtain x where x: "subs s b = Some x" "distinct (T (si_tree x))"
    "\<forall>e\<in>set (T (si_tree x)). \<exists>ie. entries s e = Some ie \<and> globals s (ie_global ie) \<noteq> None"
    by (auto simp: tags_live_def tag_entries_def)
  have xs: "tag_entries T s b = set (T (si_tree x))" by (simp add: tag_entries_def x(1))
  from free_index_ok[of "rb_nodes R (si_tree x)" s] rb_nodes_all[OF R, of "si_tree x"] x(2,3) obtain s1 where
    s1: "free_index s (rb_nodes R (si_tree x)) = Inr s1" "entries_freed (set (T (si_tree x))) s s1" "subs s1 = subs s" by auto
  define s2 where "s2 = s1\<lparr>subs := (subs s1)(b := None)\<rparr>"
  have s2: "entries_freed (tag_entries T s b) s s2" "subs s2 = (subs s)(b := None)"
    using s1(2,3) by (simp_all add: s2_def entries_freed_def xs)
  have te: "tag_entries T s2 c = tag_entries T s c" if "c \<in> set bs" for c
    using Cons.prems(1) that by (auto simp: tag_entries_def s2(2))
  have "tags_live T s2 bs"
    unfolding tags_live_def
  proof (intro conjI ballI impI)
    fix c assume c: "c \<in> set bs"
    with Cons.prems have cb: "c \<noteq> b" "tag_entries T s b \<inter> tag_entries T s c = {}" by (auto simp: tags_live_def)
    from Cons.prems(2) c obtain y where y: "subs s c = Some y" "distinct (T (si_tree y))"
      "\<forall>e\<in>tag_entries T s c. \<exists>ie. entries s e = Some ie \<and> globals s (ie_global ie) \<noteq> None" by (auto simp: tags_live_def)
    have "\<exists>ie. entries s2 e = Some ie \<and> globals s2 (ie_global ie) \<noteq> None" if "e \<in> tag_entries T s c" for e
    proof -
      from y(3) that obtain ie g where "entries s e = Some ie" "globals s (ie_global ie) = Some g" by blast
      moreover from this(2) s2(1) have "globals s2 (ie_global ie) \<noteq> None"
        using same_posts_live unfolding entries_freed_def by fastforce
      ultimately show ?thesis using s2(1) cb(2) that by (auto simp: entries_freed_def restrict_map_def)
    qed
    with y cb(1) show "\<exists>x. subs s2 c = Some x \<and> distinct (T (si_tree x)) \<and>
        (\<forall>e\<in>tag_entries T s2 c. \<exists>ie. entries s2 e = Some ie \<and> globals s2 (ie_global ie) \<noteq> None)"
      by (simp add: te[OF c] s2(2))
  next
    fix c d assume "c \<in> set bs" "d \<in> set bs" "c \<noteq> d"
    then show "tag_entries T s2 c \<inter> tag_entries T s2 d = {}" using Cons.prems(2) by (simp add: te tags_live_def)
  qed
  with Cons.IH[of s2] Cons.prems(1) obtain s' where s': "free_tag_index R s2 bs = Inr s'"
    "entries_freed (\<Union>c\<in>set bs. tag_entries T s2 c) s2 s'" "subs s' = subs s2 |` (- set bs)" by auto
  have "free_tag_index R s (b # bs) = Inr s'" using x(1) s1(1) s'(1) by (simp add: deref_def s2_def)
  moreover have "entries_freed (\<Union>c\<in>set (b # bs). tag_entries T s c) s s'"
    using s'(2) s2(1) te same_posts_trans by (auto simp: entries_freed_def restrict_map_def fun_eq_iff)
  moreover have "subs s' = subs s |` (- set (b # bs))" by (auto simp: s'(3) s2(2) restrict_map_def fun_eq_iff)
  ultimately show ?case by blast
qed

lemma free_global_index_ok:
  "distinct gs \<Longrightarrow> inj_on (\<lambda>g. ge_post (the (globals s g))) (set gs) \<Longrightarrow>
   (\<forall>g\<in>set gs. \<exists>x p. globals s g = Some x \<and> posts s (ge_post x) = Some p \<and> post_refcnt p = 1) \<Longrightarrow>
   \<exists>s'. free_global_index s gs = Inr s' \<and> globals s' = globals s |` (- set gs) \<and>
     posts s' = posts s |` (- (\<lambda>g. ge_post (the (globals s g))) ` set gs) \<and> entries s' = entries s \<and> subs s' = subs s \<and>
     index_by_time s' = index_by_time s \<and> index_by_tag s' = index_by_tag s"
proof (induction gs arbitrary: s)
  case (Cons g gs)
  from Cons.prems(3) obtain x p where x: "globals s g = Some x" "posts s (ge_post x) = Some p" "post_refcnt p = 1" by auto
  define s2 where "s2 = s\<lparr>posts := (posts s)(ge_post x := None), globals := (globals s)(g := None)\<rparr>"
  have run: "free_global_index s (g # gs) = free_global_index s2 gs"
    using x by (simp add: deref_def post_putref_def s2_def)
  have other: "globals s2 h = globals s h" "ge_post (the (globals s h)) \<noteq> ge_post x" if "h \<in> set gs" for h
    using Cons.prems(1,2) that x(1) by (auto simp: s2_def) (metis imageI)
  have im: "(\<lambda>h. ge_post (the (globals s2 h))) ` set gs = (\<lambda>h. ge_post (the (globals s h))) ` set gs"
    using other(1) by simp
  have "inj_on (\<lambda>h. ge_post (the (globals s2 h))) (set gs)"
    using Cons.prems(2) other(1) by (simp add: inj_on_def)
  moreover have "\<forall>h\<in>set gs. \<exists>x p. globals s2 h = Some x \<and> posts s2 (ge_post x) = Some p \<and> post_refcnt p = 1"
    using Cons.prems(3) other by (fastforce simp: s2_def)
  ultimately obtain s' where "free_global_index s2 gs = Inr s'" "globals s' = globals s2 |` (- set gs)"
     "posts s' = posts s2 |` (- (\<lambda>g. ge_post (the (globals s2 g))) ` set gs)" "entries s' = entries s2" "subs s' = subs s2"
     "index_by_time s' = index_by_time s2" "index_by_tag s' = index_by_tag s2"
    using Cons.IH[of s2] Cons.prems(1) by auto
  with x(1) run im show ?case by (auto simp: s2_def restrict_map_def fun_eq_iff)
qed (simp add: restrict_map_def)

section \<open>What the invariant says of the trees\<close>

lemma site_ok_trees:
  assumes "site_ok T s hs"
  shows "distinct (T (index_global s))" "distinct (T (index_by_time s))" "distinct (T (index_by_tag s))"
    "dom (globals s) = set (T (index_global s))" "dom (subs s) = set (T (index_by_tag s))"
    "dom (entries s) = set (T (index_by_time s)) \<union> (\<Union>b\<in>set (T (index_by_tag s)). tag_entries T s b)"
proof -
  note w = index_wfD[OF site_okD(1)[OF assms]]
  show "distinct (T (index_global s))" "distinct (T (index_by_time s))" "distinct (T (index_by_tag s))"
    using w(1,2,4) distinct_ordered unfolding globals_ok_def entries_ok_def subs_ok_def by blast+
  show "dom (globals s) = set (T (index_global s))" "dom (subs s) = set (T (index_by_tag s))"
    "dom (entries s) = set (T (index_by_time s)) \<union> (\<Union>b\<in>set (T (index_by_tag s)). tag_entries T s b)"
    using site_okD(3)[OF assms] by (simp_all add: tight_def)
qed

lemma entries_live:
  assumes "site_ok T s hs" "entries_ok s (T (index_global s)) ty es" "e \<in> set es"
  shows "\<exists>ie g. entries s e = Some ie \<and> ie_type ie = ty \<and> globals s (ie_global ie) = Some g"
  using entries_ok_live[OF index_wfD(1)[OF site_okD(1)[OF assms(1)]] assms(2,3)] by metis

lemma site_ok_tags:
  assumes "site_ok T s hs" "set bs = set (T (index_by_tag s))"
  shows "tags_live T s bs"
  unfolding tags_live_def assms(2)
proof (intro conjI ballI)
  fix b assume "b \<in> set (T (index_by_tag s))"
  with index_wfD(4)[OF site_okD(1)[OF assms(1)]] obtain x where
    "subs s b = Some x" "entries_ok s (T (index_global s)) ET_TAG (T (si_tree x))" by (auto simp: subs_ok_def)
  with entries_live[OF assms(1) this(2)] show "\<exists>x. subs s b = Some x \<and> distinct (T (si_tree x)) \<and>
      (\<forall>e\<in>tag_entries T s b. \<exists>ie. entries s e = Some ie \<and> globals s (ie_global ie) \<noteq> None)"
    by (fastforce simp: tag_entries_def entries_ok_def distinct_ordered)
qed (use site_okD(3)[OF assms(1)] in \<open>auto simp: tight_def\<close>)

lemma time_entries:
  assumes "site_ok T s hs" "e \<in> set (T (index_by_time s))"
  shows "e \<notin> (\<Union>b\<in>set (T (index_by_tag s)). tag_entries T s b)"
    "\<exists>ie g. entries s e = Some ie \<and> globals s (ie_global ie) = Some g"
proof -
  note w = index_wfD[OF site_okD(1)[OF assms(1)]]
  from entries_live[OF assms(1) w(2) assms(2)] obtain ie g where
    ie: "entries s e = Some ie" "ie_type ie = ET_TIME" "globals s (ie_global ie) = Some g" by blast
  then show "\<exists>ie g. entries s e = Some ie \<and> globals s (ie_global ie) = Some g" by blast
  show "e \<notin> (\<Union>b\<in>set (T (index_by_tag s)). tag_entries T s b)"
  proof
    assume "e \<in> (\<Union>b\<in>set (T (index_by_tag s)). tag_entries T s b)"
    then obtain b where b: "b \<in> set (T (index_by_tag s))" "e \<in> tag_entries T s b" by blast
    with w(4) obtain x where "subs s b = Some x" "entries_ok s (T (index_global s)) ET_TAG (T (si_tree x))"
      by (auto simp: subs_ok_def)
    with entries_live[OF assms(1) this(2), of e] b(2) ie show False by (auto simp: tag_entries_def)
  qed
qed

abbreviation global_post :: "('n, 't) pindex \<Rightarrow> nat \<Rightarrow> nat" where
  "global_post s g \<equiv> ge_post (the (globals s g))"

lemma global_posts:
  assumes "site_ok T s []"
  shows "inj_on (global_post s) (set (T (index_global s)))"
    "\<forall>g\<in>set (T (index_global s)). \<exists>p. posts s (global_post s g) = Some p \<and> post_refcnt p = 1"
    "dom (posts s) \<subseteq> global_post s ` set (T (index_global s))"
proof -
  note w = index_wfD[OF site_okD(1)[OF assms]]
  have key: "gkey s g = post_id (the (posts s (global_post s g)))" if "g \<in> set (T (index_global s))" for g
    using w(1) that by (fastforce simp: globals_ok_def gkey_def)
  show "inj_on (global_post s) (set (T (index_global s)))"
  proof (rule inj_onI)
    fix g h assume gh: "g \<in> set (T (index_global s))" "h \<in> set (T (index_global s))" "global_post s g = global_post s h"
    then have "gkey s g = gkey s h" by (simp add: key)
    with w(1) gh(1,2) show "g = h" by (auto simp: globals_ok_def intro: ordered_inj)
  qed
  show "\<forall>g\<in>set (T (index_global s)). \<exists>p. posts s (global_post s g) = Some p \<and> post_refcnt p = 1"
    using w(1) site_ok_post(1)[OF assms] by (fastforce simp: globals_ok_def)
  show "dom (posts s) \<subseteq> global_post s ` set (T (index_global s))"
  proof
    fix a assume "a \<in> dom (posts s)"
    with site_okD(4)[OF assms] have "a \<in> snd ` set (index_abs T s None)" by (auto simp: owned_def)
    then obtain e where "e \<in> set (T (index_by_time s))" "a = entry_addr s e" by (auto simp: index_abs_def view_def)
    with w(3) show "a \<in> global_post s ` set (T (index_global s))" by (force simp: entry_addr_def)
  qed
qed

section \<open>Freeing all posts\<close>

lemma free_entries_ok:
  assumes R: "rb_laws R T" and ok: "site_ok T s []"
  obtains s1 s2 where "free_tag_index R s (rb_nodes R (index_by_tag s)) = Inr s1"
    "free_index (s1\<lparr>index_by_tag := rb_create R\<rparr>) (rb_nodes R (index_by_time s)) = Inr s2"
    "same_posts (globals s) (globals s2)" "posts s2 = posts s" "entries s2 = Map.empty" "subs s2 = Map.empty"
    "index_by_tag s2 = rb_create R"
proof -
  let ?tags = "\<Union>b\<in>set (T (index_by_tag s)). tag_entries T s b"
  note t = site_ok_trees[OF ok] and nodes = rb_nodes_all[OF R]
  from free_tag_index_ok[OF R, of "rb_nodes R (index_by_tag s)" s] site_ok_tags[OF ok] nodes[of "index_by_tag s"] t(3)
  obtain s1 where s1: "free_tag_index R s (rb_nodes R (index_by_tag s)) = Inr s1" "entries_freed ?tags s s1"
    "subs s1 = subs s |` (- set (T (index_by_tag s)))" by auto
  define s1' where "s1' = s1\<lparr>index_by_tag := rb_create R\<rparr>"
  have "\<forall>e\<in>set (T (index_by_time s)). \<exists>ie. entries s1' e = Some ie \<and> globals s1' (ie_global ie) \<noteq> None"
  proof
    fix e assume e: "e \<in> set (T (index_by_time s))"
    from time_entries(2)[OF ok e] obtain ie g where "entries s e = Some ie" "globals s (ie_global ie) = Some g" by blast
    with time_entries(1)[OF ok e] s1(2) same_posts_live
    show "\<exists>ie. entries s1' e = Some ie \<and> globals s1' (ie_global ie) \<noteq> None" unfolding s1'_def entries_freed_def by fastforce
  qed
  with free_index_ok[of "rb_nodes R (index_by_time s)" s1'] nodes[of "index_by_time s"] t(2) obtain s2 where
    s2: "free_index s1' (rb_nodes R (index_by_time s)) = Inr s2" "entries_freed (set (T (index_by_time s))) s1' s2"
    "subs s2 = subs s1'" by auto
  from s1(1) s2(1)[unfolded s1'_def] show ?thesis
  proof (rule that)
    show "same_posts (globals s) (globals s2)" "posts s2 = posts s" "index_by_tag s2 = rb_create R"
      using s1(2) s2(2) same_posts_trans by (auto simp: entries_freed_def s1'_def)
    show "entries s2 = Map.empty" "subs s2 = Map.empty"
      using s1(2,3) s2(2,3) t(5,6) by (auto simp: s1'_def entries_freed_def restrict_map_def fun_eq_iff dom_def)
  qed
qed

lemma free_all_posts_ok:
  assumes R: "rb_laws R T" and ok: "site_ok T s []"
  shows "\<exists>s'. free_all_posts R s = Inr s' \<and> posts s' = Map.empty \<and> globals s' = Map.empty \<and>
    entries s' = Map.empty \<and> subs s' = Map.empty \<and>
    T (index_global s') = [] \<and> T (index_by_time s') = [] \<and> T (index_by_tag s') = []"
proof -
  let ?as = "T (index_global s)"
  obtain s1 s2 where s2: "free_tag_index R s (rb_nodes R (index_by_tag s)) = Inr s1"
    "free_index (s1\<lparr>index_by_tag := rb_create R\<rparr>) (rb_nodes R (index_by_time s)) = Inr s2"
    "same_posts (globals s) (globals s2)" "posts s2 = posts s" "entries s2 = Map.empty" "subs s2 = Map.empty"
    "index_by_tag s2 = rb_create R" using free_entries_ok[OF R ok] by metis
  define s2' where "s2' = s2\<lparr>index_by_time := rb_create R\<rparr>"
  have live: "\<exists>x. globals s2' g = Some x \<and> ge_post x = global_post s g" if "g \<in> set ?as" for g
  proof -
    from site_ok_trees(4)[OF ok] that obtain x where "globals s g = Some x" by blast
    with same_posts_live[OF s2(3) this] show ?thesis by (simp add: s2'_def)
  qed
  then have gp: "global_post s2' g = global_post s g" if "g \<in> set ?as" for g using that by fastforce
  have inj: "inj_on (global_post s2') (set ?as)"
    using global_posts(1)[OF ok] gp by (simp add: inj_on_def)
  have "\<forall>g\<in>set ?as. \<exists>x p. globals s2' g = Some x \<and> posts s2' (ge_post x) = Some p \<and> post_refcnt p = 1"
    using live global_posts(2)[OF ok] s2(4) by (fastforce simp: s2'_def)
  with free_global_index_ok[of "rb_nodes R (index_global s)" s2'] rb_nodes_all[OF R, of "index_global s"]
    site_ok_trees(1)[OF ok] inj obtain s3 where
    s3: "free_global_index s2' (rb_nodes R (index_global s)) = Inr s3" "globals s3 = globals s2' |` (- set ?as)"
    "posts s3 = posts s2' |` (- global_post s2' ` set ?as)" "entries s3 = entries s2'" "subs s3 = subs s2'"
    "index_by_time s3 = index_by_time s2'" "index_by_tag s3 = index_by_tag s2'" by auto
  have "globals s2 g = None" if "g \<notin> set ?as" for g
  proof -
    from site_ok_trees(4)[OF ok] that have "globals s g = None" by blast
    with s2(3) show ?thesis by (metis same_posts_def option.map_disc_iff)
  qed
  then have "globals s3 = Map.empty" by (auto simp: s3(2) s2'_def restrict_map_def fun_eq_iff)
  moreover have "global_post s2' ` set ?as = global_post s ` set ?as" using gp by simp
  then have "posts s3 = Map.empty"
    using global_posts(3)[OF ok] by (auto simp: s3(3) s2'_def s2(4) restrict_map_def fun_eq_iff)
  moreover have "free_all_posts R s = Inr (s3\<lparr>index_global := rb_create R\<rparr>)"
    using s2(1,2) s3(1) by (simp add: free_all_posts_def s2'_def)
  ultimately show ?thesis using s2(5-7) s3(4-7) rb_basic(1)[OF R] by (simp add: s2'_def)
qed

end
