(* ===== verification/SiteSpec.thy ===== *)
theory SiteSpec
  imports Daemon Shutdown HandlerSpec
begin

text \<open>
  The program as a whole: whatever the requests are, in whatever order their callbacks run and however files,
  cache and clock change between them, the index keeps its invariant and every handler gives back the
  references it takes; at the end everything is freed.
\<close>

section \<open>Handlers\<close>

text \<open>A computation that ends in a state of the index, found by \<open>f\<close>, in which no reference is held.\<close>

definition settles :: "('t \<Rightarrow> nat list) \<Rightarrow> ('a \<Rightarrow> ('n, 't) pindex) \<Rightarrow> 'a res \<Rightarrow> bool" where
  "settles T f m \<longleftrightarrow> (\<forall>x. m = Inr x \<longrightarrow> site_ok T (f x) [])"

named_theorems settle

lemma settles_Inl [settle]: "settles T f (Inl e)"
  by (simp add: settles_def)

lemma settles_Inr [settle]: "site_ok T (f x) [] \<Longrightarrow> settles T f (Inr x)"
  by (simp add: settles_def)

lemma settles_rbind: "(\<And>x. m = Inr x \<Longrightarrow> settles T f (g x)) \<Longrightarrow> settles T f (rbind m g)"
  by (auto simp: settles_def rbind_eq_Inr)

lemma settles_then: "settles T h m \<Longrightarrow> (\<And>x. site_ok T (h x) [] \<Longrightarrow> settles T f (g x)) \<Longrightarrow> settles T f (rbind m g)"
  by (auto simp: settles_def rbind_eq_Inr)

lemma settles_if [settle]: "(b \<Longrightarrow> settles T f m) \<Longrightarrow> (\<not> b \<Longrightarrow> settles T f n) \<Longrightarrow> settles T f (if b then m else n)"
  by simp

lemma settles_sum [settle]: "(\<And>e. settles T f (g e)) \<Longrightarrow> (\<And>x. settles T f (h x)) \<Longrightarrow> settles T f (case_sum g h m)"
  by (cases m) simp_all

lemma settles_option [settle]: "settles T f m \<Longrightarrow> (\<And>x. settles T f (h x)) \<Longrightarrow> settles T f (case_option m h y)"
  by (cases y) simp_all

text \<open>The environments of the requests: the library functions keep their laws.\<close>

definition site_env :: "'t rb_ops \<Rightarrow> ('n, 't) web_env \<Rightarrow> bool" where
  "site_env R W \<longleftrightarrow> we_rb W = R \<and> post_laws (we_posts W)"

lemma R404_settles: "site_ok T s [] \<Longrightarrow> settles T snd (R404 W t r s)"
  unfolding R404_def Let_def by (intro settles_rbind settle) simp

lemma R301_settles: "site_ok T s [] \<Longrightarrow> settles T snd (R301 W u r s)"
  unfolding R301_def by (intro settles_rbind settle) simp

lemma load_posts_settles:
  assumes "post_laws (we_posts W)" "site_ok T s as"
  shows "settles T snd (load_posts W r s as m)"
  unfolding load_posts_def
proof (intro settles_rbind)
  fix u x assume "load_posts_loop W r s as [] 0 = Inr x"
  with site_ok_load_posts[OF assms(1), of T s as "[]"] assms(2) have "site_ok T (snd (snd (snd x))) []" by (cases x) auto
  then show "settles T snd (case x of (nvposts, maxtime, r1, s1) \<Rightarrow>
      rbind (var_array W ''posts'' nvposts r1) (\<lambda>r2.
      rbind (var_int W ''lastupdate'' (u64_of_int maxtime) r2) (\<lambda>r3.
      rbind (var_int W ''moreposts'' (if m then 1 else 0) r3) (\<lambda>r4. Inr (r4, s1)))))"
    by (cases x) (auto intro!: settles_rbind settle)
qed

lemma page_posts_settles:
  assumes "site_env R W" "site_ok T s []"
  shows "settles T snd (page_posts W r s tag pred pg)"
proof -
  have "settles T snd (load_posts W r s1 ps m)"
    if "returns (index_get_posts (we_rb W) cap s tag pred k n) = Inr (ps, s1)" for cap k n ps s1 m
  proof (rule load_posts_settles)
    show "post_laws (we_posts W)" using assms(1) by (simp add: site_env_def)
    from that have "index_get_posts (we_rb W) cap s tag pred k n = Some (Inr (ps, s1))"
      by (auto simp: returns_def split: option.splits)
    with assms(2) show "site_ok T s1 ps" by (rule site_ok_listing)
  qed
  then show ?thesis unfolding page_posts_def Let_def by (intro settle settles_rbind) (auto split: prod.split)
qed

lemma get_post_settles:
  assumes "site_env R W" "rb_laws R T" "site_ok T s []"
  shows "settles T (\<lambda>(_, _, s'). s') (get_post W r s i tv preview)"
  unfolding settles_def
proof (intro allI impI)
  fix x assume x: "get_post W r s i tv preview = Inr x"
  obtain y r' s' where y: "x = (y, r', s')" by (cases x)
  have l: "post_laws (we_posts W)" "rb_laws (we_rb W) T" using assms(1,2) by (simp_all add: site_env_def)
  note d = site_okD[OF assms(3)]
  have g: "get_post W r s i tv preview = Inr (y, r', s')" using x y by simp
  have "site_ok T s' []"
  proof (rule site_ok_get_post[OF l assms(3) g])
    assume preview
    with g have "get_post W r s i tv True = Inr (y, r', s')" by simp
    then show "s' = s\<lparr>next_addr := Suc (next_addr s)\<rparr>" by (rule get_post_preview[OF l(1) d(2,5)])
  qed
  then show "site_ok T (case x of (_, _, s') \<Rightarrow> s') []" by (simp add: y)
qed

lemma pages_settle:
  assumes "site_env R W" "rb_laws R T" "site_ok T s []"
  shows "settles T snd (blahg_index W r s pg)" "settles T snd (blahg_archive W r s pg)" "settles T snd (blahg_tag W r s pg)"
    "settles T snd (blahg_category W r s)" "settles T snd (blahg_static W r s)" "settles T snd (blahg_admin W r s)"
proof -
  note page = page_posts_settles[OF assms(1,3)] and err = R404_settles[OF assms(3)] R301_settles[OF assms(3)]
  have fin: "settles T snd (rbind (respond W t r1) (\<lambda>r2. Inr (r2, s1)))" if "site_ok T s1 []" for t r1 s1
    by (intro settles_rbind settle) (simp add: that)
  have posts: "settles T snd (rbind (page_posts W r1 s tag pred pg) (\<lambda>(r2, s1). rbind (respond W t r2) (\<lambda>r3. Inr (r3, s1))))"
    for r1 tag pred t
    by (rule settles_then[OF page]) (auto intro: fin split: prod.split)
  show "settles T snd (blahg_index W r s pg)"
    unfolding blahg_index_def index_load_posts_def by (intro settles_rbind posts)
  show "settles T snd (blahg_archive W r s pg)"
    unfolding blahg_archive_def index_load_posts_def Let_def by (intro settles_rbind settle posts)
  show "settles T snd (blahg_tag W r s pg)"
    unfolding blahg_tag_def by (intro settles_rbind settle posts err)
  show "settles T snd (blahg_category W r s)"
    unfolding blahg_category_def by (intro settle err)
  show "settles T snd (blahg_static W r s)"
    unfolding blahg_static_def using assms(3) err by (auto intro!: settles_rbind settle split: prod.split)
  show "settles T snd (blahg_admin W r s)"
    unfolding blahg_admin_def using assms(3) by (auto intro!: settles_rbind settle)
qed

lemma story_settles:
  assumes "site_env R W" "rb_laws R T" "site_ok T s []"
  shows "settles T snd (blahg_story W r s)"
proof -
  have story: "settles T (\<lambda>(_, _, s'). s') (story_load_post W r1 s i preview)" for r1 i preview
    unfolding settles_def
  proof (intro allI impI)
    fix x assume x: "story_load_post W r1 s i preview = Inr x"
    obtain found r2 s2 where x': "x = (found, r2, s2)" by (cases x)
    with story_gets_post x obtain y r3 where "get_post W r1 s i (Some ''title'') preview = Inr (y, r3, s2)" by blast
    with get_post_settles[OF assms, of r1 i "Some ''title''" preview] show "site_ok T (case x of (_, _, s') \<Rightarrow> s') []"
      by (auto simp: settles_def x')
  qed
  show ?thesis
    unfolding blahg_story_def
    by (intro settle settles_rbind R404_settles[OF assms(3)] settles_then[OF story])
      (auto intro!: settle settles_rbind R404_settles split: prod.split)
qed

lemma comment_settles:
  assumes "site_env R W" "rb_laws R T" "site_ok T s []"
  shows "settles T (\<lambda>(_, _, s'). s') (blahg_comment W r s)"
proof -
  have "settles T (\<lambda>(_, _, _, s'). s') (write_out_comment W r1 s i email author url cm)" for r1 i email author url cm
    unfolding write_out_comment_def
    by (rule settles_then[OF get_post_settles[OF assms]])
      (auto simp: Let_def intro!: settle settles_rbind split: prod.split option.split sum.split)
  then have save: "settles T (\<lambda>(_, _, _, s'). s') (save_comment W r1 s)" for r1
    unfolding save_comment_def using assms(3)
    by (auto simp: Let_def intro!: settle split: prod.split option.split sum.split)
  show ?thesis
    unfolding blahg_comment_def
    by (rule settles_rbind, rule settles_rbind, rule settles_rbind, rule settles_then[OF save])
      (auto intro!: settle settles_rbind)
qed

lemma no_ops_settles: "settles T snd m \<Longrightarrow> settles T (\<lambda>(_, _, s'). s') (no_ops m)"
  unfolding no_ops_def by (rule settles_then) (auto intro: settle)

lemma dispatch_settles:
  assumes "site_env R W" "rb_laws R T" "site_ok T s []"
  shows "settles T (\<lambda>(_, _, s'). s') (req_dispatch W r s)"
proof -
  note page = pages_settle[OF assms] story_settles[OF assms] R404_settles[OF assms(3)]
  have handler: "settles T (\<lambda>(_, _, s'). s') (case req_page r2 of
           PAGE_STATIC \<Rightarrow> no_ops (blahg_static W r2 s)
         | PAGE_ARCHIVE \<Rightarrow> no_ops (blahg_archive W r2 s (get_page_number W r2))
         | PAGE_CATEGORY \<Rightarrow> no_ops (blahg_category W r2 s)
         | PAGE_TAG \<Rightarrow> no_ops (blahg_tag W r2 s (get_page_number W r2))
         | PAGE_COMMENT \<Rightarrow> blahg_comment W r2 s
         | PAGE_INDEX \<Rightarrow> no_ops (blahg_index W r2 s (get_page_number W r2))
         | PAGE_STORY \<Rightarrow> no_ops (blahg_story W r2 s)
         | PAGE_ADMIN \<Rightarrow> no_ops (blahg_admin W r2 s))" for r2
    by (cases "req_page r2") (simp_all add: no_ops_settles page comment_settles[OF assms])
  show ?thesis
    unfolding req_dispatch_def
    by (rule settles_rbind) (auto intro!: settle settles_rbind no_ops_settles page handler)
qed

lemma process_settles:
  assumes "site_env R W" "rb_laws R T" "site_ok T s []"
  shows "settles T (\<lambda>(_, _, s'). s') (process_request W c r s)"
  unfolding process_request_def
  by (rule settles_then[OF dispatch_settles[OF assms]]) (auto intro!: settle settles_rbind)

section \<open>Reachable states\<close>

lemma site_step_ok:
  assumes "site_step (site_env R) \<sigma> \<sigma>'" "rb_laws R T" "site_ok T (site_index \<sigma>) []"
  shows "site_ok T (site_index \<sigma>') []"
  using assms(1)
proof cases
  case (process W i c r ops r' s')
  with process_settles[OF process(2) assms(2,3), of c r] show ?thesis by (simp add: settles_def)
qed (use assms(3) in simp_all)

lemma site_reach_ok:
  assumes "rb_laws R T" "site_ok T s []" "site_reach (site_env R) s \<sigma>"
  shows "site_ok T (site_index \<sigma>) []"
proof -
  have "(site_step (site_env R))\<^sup>*\<^sup>* (site_start s) \<sigma>" using assms(3) by (simp add: site_reach_def)
  then show ?thesis
  proof (induction rule: rtranclp_induct)
    case base
    with assms(2) show ?case by (simp add: site_start_def)
  next
    case (step y z)
    from site_step_ok[OF step(2) assms(1) step.IH] show ?case .
  qed
qed


text \<open>A live post is the one its id leads to.\<close>

lemma live_post_found:
  assumes "rb_laws R T" "site_ok T s []" "posts s a = Some p"
  shows "\<exists>s'. index_lookup_post R s (post_id p) = Inr (Some a, s')"
proof -
  note w = index_wfD[OF site_okD(1)[OF assms(2)]]
  have at: "\<exists>g\<in>set (T (index_global s)). b = global_post s g \<and> gkey s g = post_id q" if "posts s b = Some q" for b q
  proof -
    from global_posts(3)[OF assms(2)] that obtain g where g: "g \<in> set (T (index_global s))" "b = global_post s g" by blast
    with w(1) that show ?thesis by (fastforce simp: globals_ok_def gkey_def)
  qed
  from at[OF assms(3)] obtain g where g: "g \<in> set (T (index_global s))" "a = global_post s g" "gkey s g = post_id p" by blast
  then have "post_id p \<in> ids T s" unfolding ids_def by (metis imageI)
  with index_lookup_eq[OF assms(1) site_okD(1)[OF assms(2)], of "post_id p"] obtain b q s' where
    b: "posts s b = Some q" "post_id q = post_id p" "index_lookup_post R s (post_id p) = Inr (Some b, s')" by auto
  from at[OF b(1)] b(2) g(3) obtain h where h: "h \<in> set (T (index_global s))" "b = global_post s h" "gkey s h = gkey s g" by auto
  have "ordered (gkey s) (T (index_global s))" using w(1) by (simp add: globals_ok_def)
  from ordered_inj[OF this h(1) g(1) h(3)] h(2) g(2) b(3) show ?thesis by blast
qed

lemma start_ok:
  assumes "rb_laws R T" "\<forall>n. alloc n" "init_post_subsys R caches alloc = Inr s0"
    and "post_laws E" "load_all_posts E R num isdir opendir tq_err s0 = Inr (ret, s1)"
  shows "site_ok T s1 []"
proof -
  from assms(3) have "init_post_index R (caches 4) (caches 5) (caches 6) Map.empty alloc = Inr s0"
    by (auto simp: init_post_subsys_def rbind_eq_Inr)
  from site_ok_load_all[OF assms(4,1) site_ok_init[OF assms(1) this assms(2)] assms(5)] show ?thesis .
qed

section \<open>A small service\<close>

definition demo_scgi :: "alist_nvlist scgi" where
  "demo_scgi = \<lparr>scgi_headers = NVList [(''DOCUMENT_URI'', VT_STR ''/''), (''HTTP_USER_AGENT'', VT_STR ''U''), (''REMOTE_ADDR'', VT_STR ''::1'')],
     scgi_query = NVList [(''p'', VT_INT 1)], scgi_body = Some '''', resp_status = SCGI_STATUS_OK, resp_headers = NVList [],
     resp_body = None, resp_bodylen = 0\<rparr>"

definition demo_conn :: conn where
  "demo_conn = \<lparr>conn_id = 1, conn_fd = 5, selected_time = 0, accepted_time = 1, dequeued_time = 2, read_header_time = 3,
     read_body_time = 4, compute_time = 0, write_header_time = 0, write_body_time = 0\<rparr>"

text \<open>A service that answers one request for post 1 and stops.\<close>

definition demo_svc :: "(alist_nvlist, nat list) pindex \<Rightarrow> (int \<times> (alist_nvlist, nat list) pindex) res" where
  "demo_svc s = rbind (init_request True demo_web demo_scgi) (\<lambda>(_, r).
     case r of None \<Rightarrow> Inr (- 1, s)
     | Some r \<Rightarrow> rbind (process_request demo_web demo_conn r s) (\<lambda>(_, _, s'). Inr (0, s')))"

definition demo_daemon :: "(alist_nvlist, nat list) daemon_env" where
  "demo_daemon = \<lparr>d_web = demo_web, d_priv = None, d_file_cache_init = 0, d_caches = \<lambda>_. True, d_alloc = \<lambda>_. True,
     d_str2u32 = \<lambda>_. None, d_isdir = \<lambda>_. Inl 2, d_opendir = \<lambda>_. Inr [''.'', ''..''], d_tq_err = None, d_svc = demo_svc\<rparr>"

lemma demo_svc_runs: "case demo_svc empty_index of Inl _ \<Rightarrow> False | Inr (ret, s) \<Rightarrow> ret = 0 \<and> posts s 0 \<noteq> None"
  by code_simp

lemma demo_site_env: "site_env list_rb demo_web"
  using demo_posts_laws by (simp add: site_env_def)

text \<open>What the library's service does: it runs callbacks.\<close>

definition svc_law :: "(('n, 't) web_env \<Rightarrow> bool) \<Rightarrow> (('n, 't) pindex \<Rightarrow> (int \<times> ('n, 't) pindex) res) \<Rightarrow> bool" where
  "svc_law env svc \<longleftrightarrow> (\<forall>s ret s'. svc s = Inr (ret, s') \<longrightarrow> (\<exists>\<sigma>. site_reach env s \<sigma> \<and> site_index \<sigma> = s'))"

lemma demo_svc_law: "svc_law (site_env list_rb) demo_svc"
  unfolding svc_law_def
proof (intro allI impI)
  fix s ret s' assume run: "demo_svc s = Inr (ret, s')"
  then obtain ret0 r where i: "init_request True demo_web demo_scgi = Inr (ret0, r)"
    by (auto simp: demo_svc_def rbind_eq_Inr)
  show "\<exists>\<sigma>. site_reach (site_env list_rb) s \<sigma> \<and> site_index \<sigma> = s'"
  proof (cases r)
    case None
    with run i have "s' = s" by (simp add: demo_svc_def)
    then show ?thesis by (intro exI[of _ "site_start s"]) (simp add: site_reach_def site_start_def)
  next
    case (Some r1)
    with i have i': "init_request True demo_web demo_scgi = Inr (0, Some r1)"
      by (auto simp: init_request_def rbind_eq_Inr)
    from run i Some obtain ops r2 where p: "process_request demo_web demo_conn r1 s = Inr (ops, r2, s')"
      by (auto simp: demo_svc_def rbind_eq_Inr)
    define \<sigma>1 where "\<sigma>1 = (site_start s)\<lparr>site_conns := (site_conns (site_start s))(0 \<mapsto> Accepted demo_conn r1)\<rparr>"
    have "site_step (site_env list_rb) (site_start s) \<sigma>1"
      unfolding \<sigma>1_def by (rule site_step.accept[where env = "site_env list_rb", OF _ _ i']) (simp_all add: site_start_def demo_site_env)
    moreover have "site_step (site_env list_rb) \<sigma>1
        \<lparr>site_index = s', site_conns = (site_conns \<sigma>1)(0 \<mapsto> Answered demo_conn r2), site_files = site_files \<sigma>1 @ ops\<rparr>"
      by (rule site_step.process[where env = "site_env list_rb" and W = demo_web and c = demo_conn and r = r1])
        (use p demo_site_env in \<open>simp_all add: \<sigma>1_def site_start_def\<close>)
    ultimately show ?thesis
      unfolding site_reach_def by (meson converse_rtranclp_into_rtranclp r_into_rtranclp site.select_convs(1))
  qed
qed

lemma demo_start: "init_post_subsys list_rb (\<lambda>_. True) (\<lambda>_. True) = Inr (empty_index :: (alist_nvlist, nat list) pindex)"
  "load_all_posts demo_posts list_rb (\<lambda>_. None) (\<lambda>_. Inl 2) (\<lambda>_. Inr [''.'', ''..'']) None empty_index = Inr (0, empty_index)"
  by (simp_all add: init_post_subsys_def init_post_index_def assert_that_def empty_index_def list_rb_def load_all_posts_def
      demo_env config_fill_def config_load_str_def str_cstr_def)

section \<open>Properties\<close>

text \<open>
  C1. In every state the service reaches, after all posts were loaded and through any interleaving of requests,
  whatever the files, the clock and the requests are, the index is well-formed, a look-up of the id of a
  post in memory finds that post, and between two callbacks each post in memory is referenced exactly once,
  by the index: no handler keeps a reference, gives one back twice or leaves a preview behind.
\<close>

theorem site_invariant:
  assumes "rb_laws R T" "\<forall>n. alloc n" "init_post_subsys R caches alloc = Inr s0"
    and "post_laws E" "load_all_posts E R num isdir opendir tq_err s0 = Inr (ret, s1)"
    and "site_reach (site_env R) s1 \<sigma>"
  shows "index_wf T (site_index \<sigma>) \<and>
    (\<forall>a p. posts (site_index \<sigma>) a = Some p \<longrightarrow>
       post_refcnt p = 1 \<and> \<not> post_preview p \<and> (\<exists>s'. index_lookup_post R (site_index \<sigma>) (post_id p) = Inr (Some a, s')))"
proof -
  have ok: "site_ok T (site_index \<sigma>) []"
    by (rule site_reach_ok[OF assms(1) start_ok[OF assms(1-5)] assms(6)])
  then show ?thesis using site_okD(1)[OF ok] site_ok_post[OF ok] live_post_found[OF assms(1) ok] by simp
qed

theorem site_invariant_witness:
  "\<exists>\<sigma> p. site_reach (site_env list_rb) (empty_index :: (alist_nvlist, nat list) pindex) \<sigma> \<and>
     index_wf (\<lambda>t. t) (site_index \<sigma>) \<and> posts (site_index \<sigma>) 0 = Some p \<and> post_refcnt p = 1"
proof -
  from demo_svc_runs obtain s where s: "demo_svc empty_index = Inr (0, s)" "posts s 0 \<noteq> None"
    by (auto split: sum.splits)
  with demo_svc_law obtain \<sigma> where r: "site_reach (site_env list_rb) empty_index \<sigma>" "site_index \<sigma> = s"
    unfolding svc_law_def by blast
  from site_invariant[OF list_rb_laws _ demo_start(1) demo_posts_laws demo_start(2) r(1)] r s(2) show ?thesis by auto
qed

text \<open>
  C2. When the service ends without an error, the program ends with status 0 and has freed everything: no
  post, entry, subindex or tree node is left, and on the way nothing is used or freed after it was freed.
\<close>

theorem shutdown_frees_all:
  assumes "rb_laws (we_rb (d_web D)) T" "post_laws (we_posts (d_web D))" "\<forall>n. d_alloc D n"
    and "svc_law (site_env (we_rb (d_web D))) (d_svc D)"
    and "fst (drop_privs (d_priv D)) = 0" "d_file_cache_init D = 0" "d_caches D 0" "d_caches D 1"
    and "init_post_subsys (we_rb (d_web D)) (d_caches D) (d_alloc D) = Inr s0"
    and "load_all_posts (we_posts (d_web D)) (we_rb (d_web D)) (d_str2u32 D) (d_isdir D) (d_opendir D) (d_tq_err D) s0 = Inr (0, s1)"
    and "d_svc D s1 = Inr (0, s2)"
  shows "\<exists>s. main_blahgd D = Inr (0, Some s) \<and> posts s = Map.empty \<and> globals s = Map.empty \<and> entries s = Map.empty \<and>
    subs s = Map.empty \<and> T (index_global s) = [] \<and> T (index_by_time s) = [] \<and> T (index_by_tag s) = []"
proof -
  from assms(4,11) obtain \<sigma> where "site_reach (site_env (we_rb (d_web D))) s1 \<sigma>" "site_index \<sigma> = s2"
    unfolding svc_law_def by blast
  with site_reach_ok[OF assms(1) start_ok[OF assms(1,3,9,2,10)]] have "site_ok T s2 []" by blast
  from free_all_posts_ok[OF assms(1) this] show ?thesis
    using assms(5-11) by (cases "drop_privs (d_priv D)") (auto simp: main_blahgd_def init_pipe_subsys_def assert_that_def)
qed

theorem shutdown_frees_all_witness:
  "\<exists>s. main_blahgd demo_daemon = Inr (0, Some s) \<and> posts s = Map.empty \<and> globals s = Map.empty"
proof -
  from demo_svc_runs obtain s where s: "demo_svc empty_index = Inr (0, s)" by (auto split: sum.splits)
  have "d_priv demo_daemon = None" by (simp add: demo_daemon_def)
  then have "fst (drop_privs (d_priv demo_daemon)) = 0" by (simp add: drop_privs_def)
  with shutdown_frees_all[of demo_daemon "\<lambda>t. t" empty_index empty_index s] list_rb_laws demo_posts_laws demo_svc_law demo_start s
  show ?thesis by (auto simp: demo_daemon_def)
qed

end
