(* ===== verification/DaemonSpec.thy ===== *)
theory DaemonSpec
  imports SiteSpec
begin

text \<open>
  The log of requests: what an entry says and that no two requests share a file. Privileges: when dropping
  them succeeds, every set of the process holds exactly the three privileges the program needs.
\<close>

section \<open>Names of log files\<close>

lemma zero_pad_val: "nat_of_dec (zero_pad w n) = n"
proof -
  have z: "digit_val (CHR ''0'') = 0" by (simp add: digit_val_def)
  have "foldl (\<lambda>n c. 10 * n + digit_val c) 0 (replicate k CHR ''0'') = 0" for k
    by (induction k) (simp_all add: z)
  then have "nat_of_dec (replicate k CHR ''0'' @ s) = nat_of_dec s" for k s by (simp add: nat_of_dec_def)
  then show ?thesis by (simp add: zero_pad_def nat_of_dec_of_nat)
qed

lemma zero_pad_length: "n < 10 ^ w \<Longrightarrow> 0 < w \<Longrightarrow> length (zero_pad w n) = w"
  using length_dec_of_nat[of n w] by (simp add: zero_pad_def)

text \<open>A number in front of a point.\<close>

lemma dec_point: "dec_of_nat m @ CHR ''.'' # s = dec_of_nat n @ CHR ''.'' # t \<Longrightarrow> m = n \<and> s = t"
proof -
  assume eq: "dec_of_nat m @ CHR ''.'' # s = dec_of_nat n @ CHR ''.'' # t"
  have tw: "takeWhile is_digit (dec_of_nat k @ CHR ''.'' # u) = dec_of_nat k" for k u
    using dec_of_nat_digits[of k] by (simp add: takeWhile_append is_digit_def)
  from eq tw[of m s] tw[of n t] have "dec_of_nat m = dec_of_nat n" by simp
  with eq show ?thesis using dec_of_nat_inj by simp
qed

definition log_name :: "u64 \<Rightarrow> conn \<Rightarrow> string" where
  "log_name now c = dec_of_nat (unat (now div 1000000000)) @ CHR ''.'' # zero_pad 9 (unat (now mod 1000000000)) @
     CHR ''-'' # zero_pad 11 (unat (conn_id c))"

lemma log_name_inj:
  assumes "log_name now c = log_name now' c'"
  shows "now = now' \<and> conn_id c = conn_id c'"
proof -
  have small: "unat (t mod 1000000000) < 10 ^ 9" for t :: u64
    by (simp add: unat_mod_distrib)
  have len: "length (zero_pad 9 (unat (t mod 1000000000))) = 9" for t :: u64
    using small[of t] by (intro zero_pad_length) simp_all
  from dec_point[OF assms[unfolded log_name_def]] have
    d: "unat (now div 1000000000) = unat (now' div 1000000000)" and
    r: "zero_pad 9 (unat (now mod 1000000000)) @ CHR ''-'' # zero_pad 11 (unat (conn_id c)) =
        zero_pad 9 (unat (now' mod 1000000000)) @ CHR ''-'' # zero_pad 11 (unat (conn_id c'))" by simp_all
  from r len have z: "zero_pad 9 (unat (now mod 1000000000)) = zero_pad 9 (unat (now' mod 1000000000))"
    "zero_pad 11 (unat (conn_id c)) = zero_pad 11 (unat (conn_id c'))" by (simp_all add: append_eq_append_conv)
  from z zero_pad_val have "unat (now mod 1000000000) = unat (now' mod 1000000000)" "unat (conn_id c) = unat (conn_id c')"
    by metis+
  then have "now mod 1000000000 = now' mod 1000000000" "conn_id c = conn_id c'" by (blast intro: unsigned_word_eqI)+
  moreover from d have "now div 1000000000 = now' div 1000000000" by (rule unsigned_word_eqI)
  ultimately show ?thesis by (metis div_mult_mod_eq)
qed

lemma log_name_length: "length (log_name now c) \<le> 42"
proof -
  have "unat (now div 1000000000) < 10 ^ 20" by (rule less_trans[OF unsigned_less]) simp
  moreover have "unat (now mod 1000000000) < 10 ^ 9" by (simp add: unat_mod_distrib)
  moreover have "unat (conn_id c) < 10 ^ 11" by (rule less_trans[OF unsigned_less]) simp
  ultimately show ?thesis
    using length_dec_of_nat[of "unat (now div 1000000000)" 20] by (simp add: log_name_def zero_pad_length)
qed

lemma log_path_inj:
  assumes "length dir \<le> 4000"
  shows "log_path dir now c = log_path dir now' c' \<longleftrightarrow> now = now' \<and> conn_id c = conn_id c'"
proof
  have path: "log_path dir t x = dir @ ''/requests/'' @ log_name t x" for t x
    using assms log_name_length[of t x] by (simp add: log_path_def log_name_def c_snprintf_def FILENAME_MAX_def)
  assume "log_path dir now c = log_path dir now' c'"
  then have "log_name now c = log_name now' c'" by (simp add: path)
  then show "now = now' \<and> conn_id c = conn_id c'" by (rule log_name_inj)
qed (simp add: log_path_def)

section \<open>Entries\<close>

text \<open>Lists and nothing as values of a list.\<close>

definition log_laws :: "'n log_env \<Rightarrow> ('n \<Rightarrow> string \<Rightarrow> 'n val option) \<Rightarrow> bool" where
  "log_laws L A \<longleftrightarrow>
     (\<forall>l k v. A (snd (nvl_set_nvl L l k v)) = (A l)(k \<mapsto> VT_NVL v)) \<and>
     (\<forall>l k. A (snd (nvl_set_null L l k)) = (A l)(k \<mapsto> VT_NULL))"

text \<open>What an entry must say of a request and its response.\<close>

definition entry_of :: "('n \<Rightarrow> string \<Rightarrow> 'n val option) \<Rightarrow> 'n log_env \<Rightarrow> u64 \<Rightarrow> conn \<Rightarrow> 'n req \<Rightarrow> 'n \<Rightarrow> bool" where
  "entry_of A L now c r e \<longleftrightarrow> A e ''time-stamp'' = Some (VT_INT now) \<and>
     (\<exists>q p b. A e ''request'' = Some (VT_NVL q) \<and> A e ''response'' = Some (VT_NVL p) \<and> scgi_body (scgi r) = Some b \<and>
        A q ''id'' = Some (VT_INT (ucast (conn_id c))) \<and> A q ''headers'' = Some (VT_NVL (scgi_headers (scgi r))) \<and>
        A q ''query'' = Some (VT_NVL (scgi_query (scgi r))) \<and> A q ''body'' = Some (VT_STR b) \<and>
        A q ''fmt'' = Some (case req_fmt r of None \<Rightarrow> VT_NULL | Some f \<Rightarrow> VT_STR f) \<and>
        A p ''status'' = Some (VT_INT (status_number L (resp_status (scgi r)))) \<and>
        A p ''headers'' = Some (VT_NVL (resp_headers (scgi r))) \<and>
        A p ''body-length'' = Some (VT_INT (resp_bodylen (scgi r))))"

lemma log_entry_says:
  assumes "nvl_laws (we_nvl W) A" "log_laws L A" "scgi_body (scgi r) = Some b"
  shows "entry_of A L (we_time W) c r (log_entry W L c r b new)"
  using assms
  by (simp add: entry_of_def log_entry_def log_req_def log_response_def nvl_laws_def log_laws_def split: option.split)

lemma log_request_result:
  assumes "log_request W L c r = Inr ops"
  obtains "ops = []"
    | dir b new packed where "cf_data_dir (we_cfg W) = Some dir" "scgi_body (scgi r) = Some b"
      "nvl_pack_cbor L (log_entry W L c r b new) = Inr packed" "ops = [FS_write (log_path dir (we_time W) c) packed]"
  using assms by (auto simp: log_request_def rbind_eq_Inr str_cstr_def split: option.splits sum.splits)

text \<open>
  C27. Finishing a request writes nothing or exactly one file, whose content is the packed entry with the time,
  the request and the response as they are; and no other request is logged under the same name unless it
  has the same number and finished in the same nanosecond.
\<close>

theorem request_logged:
  assumes "nvl_laws (we_nvl W) A" "log_laws L A" "deinit_request W L c r = Inr ops" "ops \<noteq> []"
  shows "\<exists>dir e packed. cf_data_dir (we_cfg W) = Some dir \<and> ops = [FS_write (log_path dir (we_time W) c) packed] \<and>
    nvl_pack_cbor L e = Inr packed \<and> entry_of A L (we_time W) c r e \<and>
    (\<forall>now c'. length dir \<le> 4000 \<longrightarrow>
       (log_path dir now c' = log_path dir (we_time W) c \<longleftrightarrow> now = we_time W \<and> conn_id c' = conn_id c))"
proof -
  from assms(3) have "log_request W L c r = Inr ops" by (auto simp: deinit_request_def req_destroy_def rbind_eq_Inr)
  from this assms(4) show ?thesis
  proof (cases rule: log_request_result)
    case (2 dir b new packed)
    with log_entry_says[OF assms(1,2) 2(2)] show ?thesis using log_path_inj by blast
  qed simp
qed

definition demo_log :: "alist_nvlist log_env" where
  "demo_log = \<lparr>nvl_set_nvl = \<lambda>l k v. alist_set l k (VT_NVL v), nvl_set_null = \<lambda>l k. alist_set l k VT_NULL,
     nvl_pack_cbor = \<lambda>_. Inr ''packed'', status_number = \<lambda>st. case st of SCGI_STATUS_OK \<Rightarrow> 200 | SCGI_STATUS_REDIRECT \<Rightarrow> 301 | _ \<Rightarrow> 404,
     xgethostname = ''h'', getpid = 1, xthr_self = 1, jeffpc_version = ''0''\<rparr>"

theorem request_logged_witness:
  "\<exists>e. deinit_request demo_web demo_log demo_conn (demo_request [] (Some ''b'') ''/'') =
       Inr [FS_write ''./data/requests/120.000000000-00000000001'' ''packed''] \<and>
     entry_of alist_map demo_log 120000000000 demo_conn (demo_request [] (Some ''b'') ''/'') e"
proof -
  let ?r = "demo_request [] (Some ''b'') ''/''"
  have run: "deinit_request demo_web demo_log demo_conn ?r = Inr [FS_write ''./data/requests/120.000000000-00000000001'' ''packed'']"
    by code_simp
  have "nvl_laws (we_nvl demo_web) alist_map" using demo_set_laws by (simp add: set_laws_def)
  moreover have "log_laws demo_log alist_map"
    by (auto simp: log_laws_def demo_log_def alist_set_def alist_map_def fun_eq_iff)
  moreover have "we_time demo_web = 120000000000" by (simp add: demo_web_def)
  ultimately show ?thesis using request_logged[of demo_web alist_map demo_log demo_conn ?r, OF _ _ run] run by fastforce
qed

section \<open>Privileges\<close>

lemma add_privs_all: "add_privs P ps w = (0, w') \<Longrightarrow> w' = w @ ps"
proof (induction ps arbitrary: w)
  case (Cons p ps)
  then have "add_privs P ps (w @ [p]) = (0, w')" by (auto split: if_splits)
  from Cons.IH[OF this] show ?case by simp
qed simp

lemma set_privs_all: "set_privs P w ts = (0, ts') \<Longrightarrow> ts' = ts"
  by (induction ts arbitrary: ts') (auto split: if_splits prod.splits)

text \<open>The program goes on only with exactly the privileges it wants, where the system has privileges.\<close>

lemma drop_privs_ok:
  assumes "drop_privs (Some P) = (0, res)"
  shows "res = Some ([PRIV_PERMITTED, PRIV_LIMIT, PRIV_INHERITABLE], [''file_read'', ''file_write'', ''net_access''])"
proof -
  obtain w where w: "priv_allocset P = 0" "add_privs P privs [] = (0, w)"
    using assms by (cases "add_privs P privs []") (auto simp: drop_privs_def split: if_splits)
  then have "w = privs" using add_privs_all by fastforce
  with assms w obtain ts where "set_privs P privs privsets = (0, ts)" "res = Some (ts, privs)"
    by (cases "set_privs P privs privsets") (auto simp: drop_privs_def)
  with set_privs_all show ?thesis unfolding privs_def privsets_def by fastforce
qed

end
