(* ===== verification/Spec2Isabelle.thy ===== *)
theory Spec2Isabelle
  imports Prelude Utils Escape Static Libjeffpc Vars CTime Pipeline Request Template Structured Rendering
    Ordering PostIndex PostIndexSpec PostIndexInsert PostIndexProps
    Sexpr Config Lisplint PostFile PostCmds PostCmdsSpec PostTime
    Fmt3Scan Fmt3 Fmt3Math Fmt3Spec Fmt3Props Fmt3Place Fmt3Markup Fmt3Tests Post PostSpec
    Web PostNv PostNvSpec Sidebar Comment Handlers DemoSite CommentSpec Months PageSpec HandlerSpec
    SiteIndex Daemon Shutdown SiteSpec DaemonSpec
begin

text \<open>
  A model of blahgd, a blog engine that serves a tree of posts over SCGI, and the theorems about it.

  \<^bold>\<open>The program.\<close> The daemon reads a configuration, loads the posts of its data directory into an index and
  answers requests. A request names a page by its query string; the handler of the page looks posts up in
  the index, stores them as template variables and renders a template, or saves a comment, or sends one of
  a few static files. A post is three kinds of files: metadata (s-expressions), a text in a small markup
  language, and comments. A second program checks metadata.

  \<^bold>\<open>Conventions.\<close> C code that can abort or break a rule of the language returns a sum with a
  \<^verbatim>\<open>fault\<close> on the left (\<^verbatim>\<open>Prelude\<close>: a failed assertion, a panic, a NULL pointer, an access outside an
  array, a read of freed or uninitialised memory, signed overflow); error numbers are values on the right.
  Integers of a fixed width are words, an \<^verbatim>\<open>int\<close> of C is an integer with checked additions, a
  NULL pointer is \<^verbatim>\<open>None\<close>. State is passed explicitly. Strings are reference counted and never changed by
  the program, so the model keeps their text. What is not in the repository is an argument: the name-value
  lists, s-expressions, search trees and file cache of libjeffpc are records of functions
  (\<^verbatim>\<open>nvl_ops\<close>, \<^verbatim>\<open>sx_ops\<close>, \<^verbatim>\<open>rb_ops\<close>, \<^verbatim>\<open>file_env\<close>) with their documented laws as named predicates
  (\<^verbatim>\<open>nvl_laws\<close>, \<^verbatim>\<open>sx_laws\<close>, \<^verbatim>\<open>rb_laws\<close>, \<^verbatim>\<open>cache_law\<close>), each satisfied by a concrete instance the witnesses use.

  \<^bold>\<open>Theories, the files they model, and what is shown.\<close>
  \<^item> \<^verbatim>\<open>Prelude\<close>, \<^verbatim>\<open>Libjeffpc\<close>, \<^verbatim>\<open>Sexpr\<close>, \<^verbatim>\<open>Ordering\<close>, \<^verbatim>\<open>CTime\<close>: outcomes and checked buffers, the interfaces
    of the library, three-way comparison (locale \<^verbatim>\<open>comparator\<close>, interpreted for every comparison function of
    the program), and the calendar functions of the C library in UTC with their inverse laws.
  \<^item> \<^verbatim>\<open>Utils\<close> (\<^verbatim>\<open>utils.c\<close>, \<^verbatim>\<open>utils.h\<close>): the path check decides exactly whether a component is a parent directory;
    joining five strings on a heap frees every source once, aliased sources included.
  \<^item> \<^verbatim>\<open>Escape\<close>, \<^verbatim>\<open>Pipeline\<close> (\<^verbatim>\<open>mangle.c\<close>, \<^verbatim>\<open>pipeline.c\<close>): the escapers never leave the buffer their sizing loop
    allocates, their output decodes to the input and carries no markup; the URL escaper is undefined on bytes
    beyond ASCII, for which its sizing loop calls \<^verbatim>\<open>isalnum\<close> with a negative number; time filters.
  \<^item> \<^verbatim>\<open>Static\<close>, \<^verbatim>\<open>Vars\<close>, \<^verbatim>\<open>Request\<close> (\<^verbatim>\<open>static.c\<close>, \<^verbatim>\<open>vars.c\<close>, \<^verbatim>\<open>req.h\<close>): the array of at most ten scopes
    (\<^verbatim>\<open>VAR_MAX_SCOPES\<close>) refines a stack of environments.
  \<^item> \<^verbatim>\<open>Template\<close>, \<^verbatim>\<open>Structured\<close>, \<^verbatim>\<open>Rendering\<close> (\<^verbatim>\<open>template.l\<close>, \<^verbatim>\<open>template.y\<close>, \<^verbatim>\<open>parse.h\<close>, \<^verbatim>\<open>render.c\<close>): the engine, which
    executes commands while it reads them. \<^verbatim>\<open>Structured\<close> gives templates as trees with a meaning and shows
    that the engine computes it; the array of ten conditions (\<^verbatim>\<open>COND_STACK_DEPTH\<close>) is a stack. Templates may
    include each other, so \<^verbatim>\<open>render\<close> carries a bound on the depth; \<^verbatim>\<open>Rendering\<close> shows that a rank of the
    templates is a sufficient bound and that rendering leaves the request as it was.
  \<^item> \<^verbatim>\<open>PostIndex\<close>, \<^verbatim>\<open>PostIndexSpec\<close>, \<^verbatim>\<open>PostIndexInsert\<close>, \<^verbatim>\<open>PostIndexProps\<close> (\<^verbatim>\<open>post_index.c\<close>, \<^verbatim>\<open>post.h\<close>): the trees by
    id, time and tag over shared entries at addresses, with allocation failures. \<^verbatim>\<open>index_wf\<close> is the invariant,
    \<^verbatim>\<open>spec_listing\<close> the abstract listing; insertion, listing and tag counting refine it, and an insertion that
    runs out of memory among the tags leaves freed memory in a tree. That theorem needs one law more of the
    trees, \<^verbatim>\<open>rb_fault_law\<close>: a search compares with the node it is headed for.
  \<^item> \<^verbatim>\<open>Config\<close>, \<^verbatim>\<open>Lisplint\<close> (\<^verbatim>\<open>config.c\<close>, \<^verbatim>\<open>lisplint.c\<close>): settings, defaults and clamping; what each setting
    becomes when the checker accepts the file.
  \<^item> \<^verbatim>\<open>PostFile\<close>, \<^verbatim>\<open>PostCmds\<close>, \<^verbatim>\<open>PostCmdsSpec\<close> (\<^verbatim>\<open>listing.c\<close>, \<^verbatim>\<open>post_fmt3_cmds.c\<close>): files of a post, the commands of the
    markup language, found by binary search in a sorted table; which of them keep the markup balanced.
  \<^item> \<^verbatim>\<open>Fmt3Scan\<close>, \<^verbatim>\<open>Fmt3\<close> (\<^verbatim>\<open>post_fmt3.l\<close>, \<^verbatim>\<open>post_fmt3.y\<close>): the scanner of post texts with its start conditions, and the
    grammar with its actions. \<^verbatim>\<open>Fmt3Math\<close>, \<^verbatim>\<open>Fmt3Spec\<close>: parse trees; the parser accepts exactly their texts and
    computes their output. \<^verbatim>\<open>Fmt3Props\<close>: the number of tokens is enough as a bound on the recursion; what
    parsing leaves alone. \<^verbatim>\<open>Fmt3Place\<close>: what becomes of a character by the place it stands in, and which tokens
    a comment between empty lines leaves. \<^verbatim>\<open>Fmt3Markup\<close>: which posts give balanced markup. \<^verbatim>\<open>Fmt3Tests\<close>: the inputs of \<^verbatim>\<open>tests\<close>.
  \<^item> \<^verbatim>\<open>PostTime\<close>, \<^verbatim>\<open>Post\<close>, \<^verbatim>\<open>PostSpec\<close> (\<^verbatim>\<open>utils.c\<close>, \<^verbatim>\<open>post.c\<close>): making, refreshing and loading posts; only moderated
    comments are shown, a post just made is not stale, loading keeps the index well-formed. The loops that
    empty a list or visit a directory and may not end are \<^verbatim>\<open>partial_function\<close>s whose result is proved to exist.
  \<^item> \<^verbatim>\<open>Web\<close>, \<^verbatim>\<open>PostNv\<close>, \<^verbatim>\<open>Sidebar\<close>, \<^verbatim>\<open>Comment\<close>, \<^verbatim>\<open>Handlers\<close> (\<^verbatim>\<open>post_nv.c\<close>, \<^verbatim>\<open>sidebar.c\<close>, \<^verbatim>\<open>comment.c\<close>, \<^verbatim>\<open>req.c\<close>, \<^verbatim>\<open>index.c\<close>, \<^verbatim>\<open>tag.c\<close>,
    \<^verbatim>\<open>story.c\<close>, \<^verbatim>\<open>static.c\<close>, \<^verbatim>\<open>admin.c\<close>): the request handlers and the dispatcher. A handler works on the
    request and the index; saving a comment is a list of file operations (\<^verbatim>\<open>fs_op\<close>) with the place where
    it stops; the single precision arithmetic of the tag cloud is written out on rationals.
  \<^item> \<^verbatim>\<open>PostNvSpec\<close>, \<^verbatim>\<open>Months\<close>, \<^verbatim>\<open>PageSpec\<close>, \<^verbatim>\<open>CommentSpec\<close>, \<^verbatim>\<open>HandlerSpec\<close>, \<^verbatim>\<open>DemoSite\<close>: which posts a page shows and which
    pages show a post, which month an archive page covers, when a comment is written, what a request can make the program read,
    what a refused request leaves behind; a small site as the example.
  \<^item> \<^verbatim>\<open>SiteIndex\<close>, \<^verbatim>\<open>Shutdown\<close>: what every operation keeps of the index together with the references held
    (\<^verbatim>\<open>site_ok\<close>), and that freeing all posts from such a state frees every structure once.
  \<^item> \<^verbatim>\<open>Daemon\<close>, \<^verbatim>\<open>SiteSpec\<close>, \<^verbatim>\<open>DaemonSpec\<close> (\<^verbatim>\<open>daemon.c\<close>, \<^verbatim>\<open>error.c\<close>, the request log of \<^verbatim>\<open>req.c\<close>): the program from
    start to exit. Serving is a step relation (\<^verbatim>\<open>site_step\<close>) in which the callbacks of connections interleave
    and every callback may see other files, another clock and another cache; in every reachable state the
    index is well-formed and no reference is lost. A request log entry says what was asked and answered.

  \<^bold>\<open>Bounds.\<close> \<^verbatim>\<open>we_levels\<close> is the depth of nested templates a page may use; paths are cut at
  \<^verbatim>\<open>FILENAME_MAX\<close>, 4096 bytes, links to posts at 1024 bytes, as in the code.

  \<^bold>\<open>Not modelled.\<close> Locks (every callback of a connection is one step), reference counts
  of strings and lists, debug output, the line counter of the post scanner and the lines it echoes to the
  standard output. The files \<^verbatim>\<open>debug.h\<close> and \<^verbatim>\<open>version.c\<close> hold no
  behaviour, \<^verbatim>\<open>nvl.c\<close> reads the integer of a pair whose type its callers have tested, and \<^verbatim>\<open>test_fmt3.c\<close>
  is a driver for the tests.
\<close>

end
